(* ===== verification/Prelude.thy ===== *)
theory Prelude
  imports Complex_Main "HOL-Library.Char_ord" "HOL-Library.List_Lexorder" "HOL-Library.Multiset"
begin

text \<open>
  Shared vocabulary of the development: the type synonyms of the Python values that every
  component uses, the event machines by which a long-lived object (a rate limiter, a metrics
  collector, a run-state database, a snapshot catalog) is driven, keyed tables with the SQL
  statements the code runs on them, and the list lemmas the component proofs share.
\<close>

section \<open>Collections of facts\<close>

named_theorems table_simps \<open>look-up laws of keyed tables\<close>
named_theorems step_simps \<open>one-step equations of the state machines\<close>

section \<open>Results\<close>

text \<open>A Python call either raises (\<open>Inl\<close>) or returns (\<open>Inr\<close>).\<close>

type_synonym ('e, 'a) result = "'e + 'a"

definition bind_res :: "('e, 'a) result \<Rightarrow> ('a \<Rightarrow> ('e, 'b) result) \<Rightarrow> ('e, 'b) result" where
  "bind_res r f = (case r of Inl e \<Rightarrow> Inl e | Inr x \<Rightarrow> f x)"

lemma bind_res_simps [simp]:
  "bind_res (Inl e) f = Inl e"
  "bind_res (Inr x) f = f x"
  by (simp_all add: bind_res_def)

lemma bind_res_Inr_iff: "bind_res r f = Inr y \<longleftrightarrow> (\<exists>x. r = Inr x \<and> f x = Inr y)"
  by (cases r) auto

lemma bind_res_Inl_iff: "bind_res r f = Inl e \<longleftrightarrow> r = Inl e \<or> (\<exists>x. r = Inr x \<and> f x = Inl e)"
  by (cases r) auto

section \<open>Event machines\<close>

text \<open>
  A stateful object is driven by a sequence of calls. \<open>outputs\<close> collects what the calls
  return along the run, for the calls that return something of interest.
\<close>

primrec outputs :: "('s \<Rightarrow> 'e \<Rightarrow> 's) \<Rightarrow> ('s \<Rightarrow> 'e \<Rightarrow> 'o option) \<Rightarrow> 's \<Rightarrow> 'e list \<Rightarrow> 'o list" where
  "outputs step out s [] = []"
| "outputs step out s (e # es) =
     (case out s e of None \<Rightarrow> [] | Some x \<Rightarrow> [x]) @ outputs step out (step s e) es"

text \<open>An invariant that every call keeps.\<close>

locale event_machine =
  fixes step :: "'s \<Rightarrow> 'e \<Rightarrow> 's"
    and inv :: "'s \<Rightarrow> bool"
  assumes inv_step: "inv s \<Longrightarrow> inv (step s e)"
begin

lemma inv_run: "inv s \<Longrightarrow> inv (foldl step s es)"
  by (induction es arbitrary: s) (auto intro: inv_step)

text \<open>A reflexive and transitive relation that every call respects holds between the ends of a run.\<close>

lemma rel_run:
  assumes "inv s" "\<And>s. R s s" "\<And>s t u. R s t \<Longrightarrow> R t u \<Longrightarrow> R s u" "\<And>s e. inv s \<Longrightarrow> R s (step s e)"
  shows "R s (foldl step s es)"
  using assms(1)
proof (induction es arbitrary: s)
  case Nil
  show ?case using assms(2) by simp
next
  case (Cons e es)
  then show ?case using assms(3,4) inv_step by (metis foldl_Cons)
qed

end

text \<open>
  A machine whose outputs are times, with a frontier that no later output may precede:
  every output is at or after the frontier and pushes the frontier by at least a gap.
\<close>

locale spaced_machine = event_machine step inv
  for step :: "'s \<Rightarrow> 'e \<Rightarrow> 's" and inv :: "'s \<Rightarrow> bool" +
  fixes out :: "'s \<Rightarrow> 'e \<Rightarrow> rat option"
    and frontier :: "'s \<Rightarrow> rat"
    and gap :: rat
  assumes out_ge: "inv s \<Longrightarrow> out s e = Some w \<Longrightarrow> frontier s \<le> w"
    and out_push: "inv s \<Longrightarrow> out s e = Some w \<Longrightarrow> w + gap \<le> frontier (step s e)"
    and frontier_mono: "inv s \<Longrightarrow> frontier s \<le> frontier (step s e)"
begin

lemma outputs_ge_frontier: "inv s \<Longrightarrow> w \<in> set (outputs step out s es) \<Longrightarrow> frontier s \<le> w"
proof (induction es arbitrary: s)
  case Nil
  then show ?case by simp
next
  case (Cons e es)
  consider "out s e = Some w" | "w \<in> set (outputs step out (step s e) es)"
    using Cons.prems(2) by (auto split: option.splits)
  then show ?case
  proof cases
    case 1
    then show ?thesis using out_ge Cons.prems(1) by blast
  next
    case 2
    then have "frontier (step s e) \<le> w"
      using Cons.IH inv_step Cons.prems(1) by blast
    then show ?thesis using frontier_mono[OF Cons.prems(1), of e] by simp
  qed
qed

lemma outputs_spaced:
  "inv s \<Longrightarrow> sorted_wrt (\<lambda>a b. a + gap \<le> b) (outputs step out s es)"
proof (induction es arbitrary: s)
  case Nil
  then show ?case by simp
next
  case (Cons e es)
  have later: "w + gap \<le> v"
    if "out s e = Some w" "v \<in> set (outputs step out (step s e) es)" for w v
    using that out_push[OF Cons.prems that(1)]
      outputs_ge_frontier[OF inv_step[OF Cons.prems] that(2)] by simp
  show ?case
    using later Cons.IH[OF inv_step[OF Cons.prems, of e]] by (auto split: option.splits)
qed

end

section \<open>Spaced sequences\<close>

lemma spaced_last_bound:
  assumes "sorted_wrt (\<lambda>a b. a + (g::rat) \<le> b) (x # xs)"
  shows "x + rat_of_nat (length xs) * g \<le> last (x # xs)"
  using assms
proof (induction xs arbitrary: x)
  case Nil
  then show ?case by simp
next
  case (Cons y ys)
  have "y + rat_of_nat (length ys) * g \<le> last (y # ys)"
    using Cons.IH Cons.prems by simp
  moreover have "x + g \<le> y" using Cons.prems by simp
  ultimately show ?case by (simp add: algebra_simps)
qed

text \<open>A window of length \<open>T\<close> holds at most \<open>T / g + 1\<close> elements of a \<open>g\<close>-spaced sequence.\<close>

lemma spaced_window_count:
  assumes sp: "sorted_wrt (\<lambda>a b. a + (g::rat) \<le> b) ws" and g: "0 \<le> g" and T: "0 \<le> T"
  shows "rat_of_nat (length (filter (\<lambda>w. a \<le> w \<and> w \<le> a + T) ws)) * g \<le> T + g"
proof (cases "filter (\<lambda>w. a \<le> w \<and> w \<le> a + T) ws")
  case Nil
  then show ?thesis using g T by simp
next
  case (Cons x xs)
  have inw: "a \<le> w \<and> w \<le> a + T" if "w \<in> set (x # xs)" for w
    using that unfolding Cons[symmetric] by simp
  have "sorted_wrt (\<lambda>a b. a + g \<le> b) (x # xs)"
    using sorted_wrt_filter[OF sp, of "\<lambda>w. a \<le> w \<and> w \<le> a + T"] unfolding Cons .
  then have "x + rat_of_nat (length xs) * g \<le> last (x # xs)"
    by (rule spaced_last_bound)
  moreover have "last (x # xs) \<le> a + T" and "a \<le> x"
    using inw[of "last (x # xs)"] inw[of x] last_in_set[of "x # xs"] by auto
  ultimately show ?thesis unfolding Cons by (auto simp: algebra_simps)
qed

section \<open>Lists\<close>

lemma sort_key_id: "sorted (map f xs) \<Longrightarrow> sort_key f xs = xs"
  by (induction xs) (auto simp: insort_is_Cons)

lemma filter_all_False: "(\<And>x. x \<in> set xs \<Longrightarrow> \<not> P x) \<Longrightarrow> filter P xs = []"
  by (simp add: filter_empty_conv)

lemma filter_key_singleton:
  "distinct (map key xs) \<Longrightarrow> q \<in> set xs \<Longrightarrow> filter (\<lambda>r. key r = key q) xs = [q]"
proof (induction xs)
  case (Cons x xs)
  show ?case
  proof (cases "q = x")
    case True
    have "key r \<noteq> key x" if "r \<in> set xs" for r
      using imageI[OF that, of key] Cons.prems(1) by auto
    then show ?thesis using True by (simp add: filter_all_False)
  next
    case False
    then have "q \<in> set xs" "key x \<noteq> key q" using Cons.prems by auto
    then show ?thesis using Cons by simp
  qed
qed simp

lemma tagged_concat_mem:
  "(k, y) \<in> set (concat (map (\<lambda>(k, x). map (Pair k) (g x)) es)) \<longleftrightarrow> (\<exists>x. (k, x) \<in> set es \<and> y \<in> set (g x))"
  by (induction es) auto

lemma set_map_filter_iff: "y \<in> set (List.map_filter f xs) \<longleftrightarrow> (\<exists>x \<in> set xs. f x = Some y)"
  by (induction xs) (auto simp: List.map_filter_simps split: option.splits)

lemma map_filter_empty_iff: "List.map_filter f xs = [] \<longleftrightarrow> (\<forall>x \<in> set xs. f x = None)"
  by (induction xs) (auto simp: List.map_filter_simps split: option.splits)

lemma length_filter_less_strict:
  assumes "x \<in> set xs" "P x" "\<not> Q x" "\<And>y. Q y \<Longrightarrow> P y"
  shows "length (filter Q xs) < length (filter P xs)"
  using assms(1)
proof (induction xs)
  case Nil
  then show ?case by simp
next
  case (Cons a xs)
  have le: "length (filter Q ys) \<le> length (filter P ys)" for ys
    by (induction ys) (auto dest: assms(4))
  show ?case
  proof (cases "x = a")
    case True
    then show ?thesis using assms(2,3) le[of xs] by (simp add: less_Suc_eq_le)
  next
    case False
    then show ?thesis using Cons assms(4)[of a] by auto
  qed
qed

lemma sorted_map_enumerate: "sorted (map fst (enumerate n xs))"
  by (simp add: sorted_enumerate)

section \<open>Keyed tables\<close>

text \<open>
  An SQLite table with a primary key is a list of rows in insertion order. \<open>tbl_lookup\<close> is the
  point query, \<open>tbl_upsert\<close> is \<^verbatim>\<open>INSERT ... ON CONFLICT(key) DO UPDATE\<close>, \<open>tbl_delete\<close> is \<^verbatim>\<open>DELETE ...
  WHERE key = ?\<close>.
\<close>

definition tbl_lookup :: "('r \<Rightarrow> 'k) \<Rightarrow> 'k \<Rightarrow> 'r list \<Rightarrow> 'r option" where
  "tbl_lookup key k rows = find (\<lambda>r. key r = k) rows"

definition tbl_upsert :: "('r \<Rightarrow> 'k) \<Rightarrow> 'r \<Rightarrow> 'r list \<Rightarrow> 'r list" where
  "tbl_upsert key row rows =
     (if key row \<in> set (map key rows)
      then map (\<lambda>r. if key r = key row then row else r) rows else rows @ [row])"

definition tbl_delete :: "('r \<Rightarrow> 'k) \<Rightarrow> 'k \<Rightarrow> 'r list \<Rightarrow> 'r list" where
  "tbl_delete key k rows = filter (\<lambda>r. key r \<noteq> k) rows"

definition tbl_inv :: "('r \<Rightarrow> 'k) \<Rightarrow> 'r list \<Rightarrow> bool" where
  "tbl_inv key rows = distinct (map key rows)"

text \<open>What a client may rely on: look-up after an insert, an update or a delete.\<close>

locale keyed_table =
  fixes key :: "'r \<Rightarrow> 'k"
    and look :: "'k \<Rightarrow> 't \<Rightarrow> 'r option"
    and put :: "'r \<Rightarrow> 't \<Rightarrow> 't"
    and del :: "'k \<Rightarrow> 't \<Rightarrow> 't"
    and inv :: "'t \<Rightarrow> bool"
  assumes look_put: "inv t \<Longrightarrow> look k (put r t) = (if key r = k then Some r else look k t)"
    and look_del: "inv t \<Longrightarrow> look k (del k' t) = (if k = k' then None else look k t)"
    and look_key: "look k t = Some r \<Longrightarrow> key r = k"
    and inv_put: "inv t \<Longrightarrow> inv (put r t)"
    and inv_del: "inv t \<Longrightarrow> inv (del k t)"
begin

lemma look_put_same: "inv t \<Longrightarrow> look (key r) (put r t) = Some r"
  by (simp add: look_put)

lemma look_put_put: "inv t \<Longrightarrow> key r = key r' \<Longrightarrow> look k (put r' (put r t)) = look k (put r' t)"
  by (simp add: look_put inv_put)

lemma look_del_put: "inv t \<Longrightarrow> look k (del (key r) (put r t)) = look k (del (key r) t)"
  by (simp add: look_put look_del inv_put)

lemma inv_puts: "inv t \<Longrightarrow> inv (foldl (\<lambda>t r. put r t) t rs)"
  by (induction rs arbitrary: t) (auto intro: inv_put)

end

lemma tbl_lookup_Cons [table_simps]:
  "tbl_lookup key k [] = None"
  "tbl_lookup key k (r # rs) = (if key r = k then Some r else tbl_lookup key k rs)"
  by (simp_all add: tbl_lookup_def)

lemma tbl_lookup_append [table_simps]:
  "tbl_lookup key k (xs @ ys) =
     (case tbl_lookup key k xs of None \<Rightarrow> tbl_lookup key k ys | Some r \<Rightarrow> Some r)"
  by (induction xs) (auto simp: tbl_lookup_Cons)

lemma tbl_lookup_None_iff: "tbl_lookup key k rows = None \<longleftrightarrow> k \<notin> key ` set rows"
  by (induction rows) (auto simp: tbl_lookup_Cons)

lemma tbl_lookup_SomeD: "tbl_lookup key k rows = Some r \<Longrightarrow> r \<in> set rows \<and> key r = k"
  by (induction rows) (auto simp: tbl_lookup_Cons split: if_splits)

lemma tbl_lookup_Some_iff:
  "tbl_inv key rows \<Longrightarrow> tbl_lookup key k rows = Some r \<longleftrightarrow> r \<in> set rows \<and> key r = k"
  by (induction rows) (auto simp: tbl_lookup_Cons tbl_inv_def)

lemma tbl_lookup_filter:
  "tbl_inv key rows \<Longrightarrow> tbl_lookup key k (filter P rows) =
     (case tbl_lookup key k rows of None \<Rightarrow> None | Some r \<Rightarrow> if P r then Some r else None)"
proof (induction rows)
  case Nil
  then show ?case by (simp add: tbl_lookup_Cons)
next
  case (Cons a rows)
  then have IH: "tbl_lookup key k (filter P rows) =
     (case tbl_lookup key k rows of None \<Rightarrow> None | Some r \<Rightarrow> if P r then Some r else None)"
    and new: "key a \<notin> key ` set rows"
    by (simp_all add: tbl_inv_def)
  from new have "tbl_lookup key (key a) rows = None" by (simp add: tbl_lookup_None_iff)
  with IH show ?case by (auto simp: tbl_lookup_Cons)
qed

lemma keys_map_replace:
  "map key (map (\<lambda>r. if key r = key row then row else r) rows) = map key rows"
  by simp

lemma tbl_lookup_map_replace:
  "tbl_lookup key k (map (\<lambda>r. if key r = key row then row else r) rows) =
     (if k = key row then (if k \<in> key ` set rows then Some row else None)
      else tbl_lookup key k rows)"
  by (induction rows) (auto simp: tbl_lookup_Cons)

interpretation list_table: keyed_table key "tbl_lookup key" "tbl_upsert key" "tbl_delete key"
  "tbl_inv key" for key
proof (unfold_locales, goal_cases)
  case (1 t k r)
  show ?case
  proof (cases "key r \<in> key ` set t")
    case True
    then show ?thesis by (auto simp: tbl_upsert_def tbl_lookup_map_replace)
  next
    case False
    then have "tbl_lookup key (key r) t = None" by (simp add: tbl_lookup_None_iff)
    with False show ?thesis
      by (auto simp: tbl_upsert_def tbl_lookup_append tbl_lookup_Cons split: option.splits)
  qed
next
  case (2 t k k')
  then show ?case
    by (auto simp: tbl_delete_def tbl_lookup_filter split: option.splits dest: tbl_lookup_SomeD)
next
  case (3 k t r)
  then show ?case by (auto dest: tbl_lookup_SomeD)
next
  case (4 t r)
  have "map key (tbl_upsert key r t) = (if key r \<in> key ` set t then map key t else map key t @ [key r])"
    using keys_map_replace[of key r t] by (simp add: tbl_upsert_def)
  with 4 show ?case by (simp add: tbl_inv_def)
next
  case (5 t k)
  then show ?case by (auto simp: tbl_inv_def tbl_delete_def intro: distinct_map_filter)
qed

section \<open>Dictionaries of lists\<close>

text \<open>\<^verbatim>\<open>d.setdefault(k, []).append(v)\<close>\<close>

fun append_under :: "'k \<Rightarrow> 'v \<Rightarrow> ('k \<times> 'v list) list \<Rightarrow> ('k \<times> 'v list) list" where
  "append_under k v [] = [(k, [v])]"
| "append_under k v ((k', vs) # d) =
     (if k = k' then (k', vs @ [v]) # d else (k', vs) # append_under k v d)"

definition group_values :: "('k \<times> 'v) list \<Rightarrow> ('k \<times> 'v list) list" where
  "group_values kvs = foldl (\<lambda>d (k, v). append_under k v d) [] kvs"

lemma append_under_new: "k \<notin> fst ` set d \<Longrightarrow> append_under k v d = d @ [(k, [v])]"
  by (induction d) auto

lemma append_under_last:
  "k \<notin> fst ` set d \<Longrightarrow> append_under k v (d @ [(k, vs)]) = d @ [(k, vs @ [v])]"
  by (induction d) auto

lemma append_unders_last:
  "k \<notin> fst ` set d \<Longrightarrow>
   foldl (\<lambda>d (k, v). append_under k v d) (d @ [(k, us)]) (map (Pair k) vs) = d @ [(k, us @ vs)]"
  by (induction vs arbitrary: us) (auto simp: append_under_last)

lemma append_unders_new:
  assumes "k \<notin> fst ` set d"
  shows "foldl (\<lambda>d (k, v). append_under k v d) d (map (Pair k) vs) =
    (if vs = [] then d else d @ [(k, vs)])"
  using assms by (cases vs) (auto simp: append_under_new append_unders_last)

lemma group_values_flat:
  assumes "distinct (map fst d)"
  shows "group_values (concat (map (\<lambda>(k, vs). map (Pair k) vs) d)) = filter (\<lambda>(k, vs). vs \<noteq> []) d"
proof -
  have "foldl (\<lambda>d (k, v). append_under k v d) acc (concat (map (\<lambda>(k, vs). map (Pair k) vs) d))
      = acc @ filter (\<lambda>(k, vs). vs \<noteq> []) d"
    if "distinct (map fst d)" "fst ` set acc \<inter> fst ` set d = {}" for acc
    using that
  proof (induction d arbitrary: acc)
    case Nil
    then show ?case by simp
  next
    case (Cons kv d)
    then show ?case
      by (cases kv) (auto simp: append_unders_new image_iff)
  qed
  from this[of "[]"] assms show ?thesis by (simp add: group_values_def)
qed

end
