(* ===== verification/Json.thy ===== *)
theory Json
  imports Prelude
begin

text \<open>
  JSON values and the deterministic serialisation of \<^verbatim>\<open>foundation/serialization.py\<close>. A Python
  \<^verbatim>\<open>dict\<close> is an association list in insertion order with distinct keys; floats do not occur in
  the data the modelled components serialise and have no constructor.
\<close>

type_synonym 'v dict = "(string \<times> 'v) list"

datatype json = JNull | JBool bool | JInt int | JStr string | JList "json list"
  | JObj "(string \<times> json) list"

section \<open>Decimal numerals\<close>

fun nat_dec :: "nat \<Rightarrow> string" where
  "nat_dec n = (if n < 10 then [char_of (48 + n)] else nat_dec (n div 10) @ [char_of (48 + n mod 10)])"

declare nat_dec.simps [simp del]

definition int_dec :: "int \<Rightarrow> string" where
  "int_dec i = (if i < 0 then CHR ''-'' # nat_dec (nat (- i)) else nat_dec (nat i))"

section \<open>Canonical JSON\<close>

definition hex_digit :: "nat \<Rightarrow> char" where
  "hex_digit n = (if n < 10 then char_of (48 + n) else char_of (87 + n))"

text \<open>The escapes of \<^verbatim>\<open>json.dumps(..., ensure_ascii=True)\<close>.\<close>

definition json_escape :: "char \<Rightarrow> string" where
  "json_escape c =
     (let n = (of_char c :: nat); bs = char_of (92::nat)
      in if c = bs then [bs, bs]
         else if n = 34 then [bs, c]
         else if n = 10 then [bs, CHR ''n'']
         else if n = 13 then [bs, CHR ''r'']
         else if n = 9 then [bs, CHR ''t'']
         else if n = 12 then [bs, CHR ''f'']
         else if n = 8 then [bs, CHR ''b'']
         else if n < 32 \<or> 126 < n then [bs, CHR ''u'', CHR ''0'', CHR ''0'', hex_digit (n div 16), hex_digit (n mod 16)]
         else [c])"

definition json_string :: "string \<Rightarrow> string" where
  "json_string s = [char_of (34::nat)] @ concat (map json_escape s) @ [char_of (34::nat)]"

fun comma_sep :: "string list \<Rightarrow> string" where
  "comma_sep [] = []"
| "comma_sep [x] = x"
| "comma_sep (x # y # ys) = x @ '','' @ comma_sep (y # ys)"

primrec canonical_json :: "json \<Rightarrow> string" where
  "canonical_json JNull = ''null''"
| "canonical_json (JBool b) = (if b then ''true'' else ''false'')"
| "canonical_json (JInt i) = int_dec i"
| "canonical_json (JStr s) = json_string s"
| "canonical_json (JList vs) = ''['' @ comma_sep (map canonical_json vs) @ '']''"
| "canonical_json (JObj kvs) =
     ''{'' @ comma_sep (map (\<lambda>(k, t). json_string k @ '':'' @ t)
               (sort_key fst (map (map_prod id canonical_json) kvs))) @ ''}''"

text \<open>\<open>sha\<close> stands for the SHA-256 hex digest of \<^verbatim>\<open>hashlib\<close>.\<close>

definition canonical_hash :: "(string \<Rightarrow> string) \<Rightarrow> json \<Rightarrow> string" where
  "canonical_hash sha data = sha (canonical_json data)"

section \<open>Dictionaries\<close>

text \<open>\<^verbatim>\<open>dict(sorted(d.items()))\<close>\<close>

definition sorted_dict :: "'v dict \<Rightarrow> 'v dict" where
  "sorted_dict d = sort_key fst d"

lemma set_sorted_dict [simp]: "set (sorted_dict d) = set d"
  by (simp add: sorted_dict_def)

lemma distinct_fst_sorted_dict [simp]:
  "distinct (map fst (sorted_dict d)) \<longleftrightarrow> distinct (map fst d)"
proof -
  have "mset (map fst (sorted_dict d)) = mset (map fst d)"
    by (simp add: sorted_dict_def)
  then show ?thesis by (rule mset_eq_imp_distinct_iff)
qed

lemma map_of_sorted_dict: "distinct (map fst d) \<Longrightarrow> map_of (sorted_dict d) = map_of d"
  by (simp add: map_of_inject_set)

lemma insort_key_map_prod:
  "insort_key fst (map_prod id f x) (map (map_prod id f) xs) = map (map_prod id f) (insort_key fst x xs)"
  by (induction xs) auto

lemma sorted_dict_map: "sorted_dict (map (map_prod id f) d) = map (map_prod id f) (sorted_dict d)"
  unfolding sorted_dict_def
  by (induction d) (simp_all add: insort_key_map_prod del: map_prod_simp map_prod_ident id_apply)

section \<open>Conversions\<close>

datatype py_error = KeyError string | TypeError | ValueError | AttributeError

text \<open>
  \<^verbatim>\<open>str(v)\<close>; \<open>rep\<close> stands for the built-in \<^verbatim>\<open>repr\<close> of lists and dictionaries.
\<close>

fun py_str :: "(json \<Rightarrow> string) \<Rightarrow> json \<Rightarrow> string" where
  "py_str rep (JStr s) = s"
| "py_str rep (JInt i) = int_dec i"
| "py_str rep (JBool b) = (if b then ''True'' else ''False'')"
| "py_str rep JNull = ''None''"
| "py_str rep v = rep v"

text \<open>Truth value of a JSON value, as in \<^verbatim>\<open>v or default\<close>.\<close>

fun truthy :: "json \<Rightarrow> bool" where
  "truthy JNull = False"
| "truthy (JBool b) = b"
| "truthy (JInt i) = (i \<noteq> 0)"
| "truthy (JStr s) = (s \<noteq> [])"
| "truthy (JList vs) = (vs \<noteq> [])"
| "truthy (JObj d) = (d \<noteq> [])"

definition is_digit :: "char \<Rightarrow> bool" where
  "is_digit c \<longleftrightarrow> 48 \<le> (of_char c :: nat) \<and> (of_char c :: nat) \<le> 57"

definition digit_val :: "char \<Rightarrow> nat" where
  "digit_val c = of_char c - 48"

definition is_space :: "char \<Rightarrow> bool" where
  "is_space c \<longleftrightarrow> (let n = (of_char c :: nat) in n = 32 \<or> 9 \<le> n \<and> n \<le> 13 \<or> 28 \<le> n \<and> n \<le> 31)"

definition strip :: "string \<Rightarrow> string" where
  "strip s = rev (dropWhile is_space (rev (dropWhile is_space s)))"

definition digits_val :: "string \<Rightarrow> nat" where
  "digits_val ds = foldl (\<lambda>n c. n * 10 + digit_val c) 0 ds"

text \<open>The numerals \<^verbatim>\<open>int(text)\<close> accepts: digits, with single underscores between digits.\<close>

fun numeral_body :: "string \<Rightarrow> string option" where
  "numeral_body [] = None"
| "numeral_body [c] = (if is_digit c then Some [c] else None)"
| "numeral_body (c # d # cs) =
     (if \<not> is_digit c then None
      else if d = CHR ''_'' then map_option (Cons c) (numeral_body cs)
      else map_option (Cons c) (numeral_body (d # cs)))"

definition int_of_string :: "string \<Rightarrow> (py_error, int) result" where
  "int_of_string s =
     (case strip s of
        [] \<Rightarrow> Inl ValueError
      | c # cs \<Rightarrow>
          (let (neg, body) = (if c = CHR ''-'' then (True, cs) else if c = CHR ''+'' then (False, cs)
                              else (False, c # cs))
           in case numeral_body body of
                None \<Rightarrow> Inl ValueError
              | Some ds \<Rightarrow> Inr (if neg then - int (digits_val ds) else int (digits_val ds))))"

text \<open>\<^verbatim>\<open>str.isidentifier()\<close> on ASCII text.\<close>

definition is_alpha_us :: "char \<Rightarrow> bool" where
  "is_alpha_us c \<longleftrightarrow> (let n = (of_char c :: nat) in 65 \<le> n \<and> n \<le> 90 \<or> 97 \<le> n \<and> n \<le> 122 \<or> n = 95)"

definition isidentifier :: "string \<Rightarrow> bool" where
  "isidentifier s = (case s of [] \<Rightarrow> False
     | c # cs \<Rightarrow> is_alpha_us c \<and> list_all (\<lambda>d. is_alpha_us d \<or> is_digit d) cs)"

fun py_int :: "json \<Rightarrow> (py_error, int) result" where
  "py_int (JInt i) = Inr i"
| "py_int (JBool b) = Inr (if b then 1 else 0)"
| "py_int (JStr s) = int_of_string s"
| "py_int v = Inl TypeError"

fun dict_get :: "json dict \<Rightarrow> string \<Rightarrow> (py_error, json) result" where
  "dict_get d k = (case map_of d k of None \<Rightarrow> Inl (KeyError k) | Some v \<Rightarrow> Inr v)"

primrec mapM :: "('a \<Rightarrow> ('e, 'b) result) \<Rightarrow> 'a list \<Rightarrow> ('e, 'b list) result" where
  "mapM f [] = Inr []"
| "mapM f (x # xs) = bind_res (f x) (\<lambda>y. bind_res (mapM f xs) (\<lambda>ys. Inr (y # ys)))"

lemma mapM_map_Inr: "(\<And>x. x \<in> set xs \<Longrightarrow> f (g x) = Inr (h x)) \<Longrightarrow> mapM f (map g xs) = Inr (map h xs)"
  by (induction xs) auto

section \<open>Numerals round trip\<close>

lemma nat_dec_digits: "\<forall>c \<in> set (nat_dec n). is_digit c"
proof (induction n rule: nat_dec.induct)
  case (1 n)
  show ?case
    using 1 by (subst nat_dec.simps) (auto simp: is_digit_def of_char_of)
qed

lemma digits_val_append: "digits_val (xs @ [c]) = digits_val xs * 10 + digit_val c"
  by (simp add: digits_val_def)

lemma digits_val_nat_dec: "digits_val (nat_dec n) = n"
proof (induction n rule: nat_dec.induct)
  case (1 n)
  show ?case
  proof (cases "n < 10")
    case True
    then show ?thesis by (subst nat_dec.simps) (simp add: digits_val_def digit_val_def)
  next
    case False
    then show ?thesis
      using 1 by (subst nat_dec.simps) (simp add: digits_val_append digit_val_def)
  qed
qed

end
