(* ===== verification/DagManifest.thy ===== *)
theory DagManifest
  imports Json
begin

text \<open>
  The records of the snapshot DAG: \<^verbatim>\<open>infra/storage/dag/manifest.py\<close> (parent references, part
  descriptors, node manifests and their dictionary form) and \<^verbatim>\<open>infra/storage/dag/spec.py\<close> (the
  relational contract of a snapshot table).
\<close>

section \<open>Manifests\<close>

datatype node_kind = Checkpoint | Delta

record parent_ref =
  pr_snapshot_id :: string
  pr_manifest_sha256 :: string

record part_descriptor =
  pd_path :: string
  pd_sha256 :: string
  pd_row_count :: int
  pd_byte_size :: int
  pd_key_min :: "string option"
  pd_key_max :: "string option"

record dag_manifest =
  mf_snapshot_id :: string
  mf_kind :: node_kind
  mf_parents :: "parent_ref list"
  mf_checkpoint_anchor_id :: string
  mf_lineage_depth :: int
  mf_created_at :: string
  mf_relations :: "part_descriptor list dict"
  mf_logical_fingerprint :: string
  mf_schema_versions :: "string dict"
  mf_metadata :: "json dict"

text \<open>\<^verbatim>\<open>node.relations.get(name, ())\<close>\<close>

definition relation_parts :: "dag_manifest \<Rightarrow> string \<Rightarrow> part_descriptor list" where
  "relation_parts m name = (case map_of (mf_relations m) name of None \<Rightarrow> [] | Some ps \<Rightarrow> ps)"

definition parent_snapshot_id :: "dag_manifest \<Rightarrow> string" where
  "parent_snapshot_id m = (case mf_parents m of [] \<Rightarrow> [] | p # _ \<Rightarrow> pr_snapshot_id p)"

definition parent_manifest_sha256 :: "dag_manifest \<Rightarrow> string" where
  "parent_manifest_sha256 m = (case mf_parents m of [] \<Rightarrow> [] | p # _ \<Rightarrow> pr_manifest_sha256 p)"

definition ordered_parts_fingerprint :: "(string \<Rightarrow> string) \<Rightarrow> string list \<Rightarrow> string" where
  "ordered_parts_fingerprint sha part_sha256s = sha (canonical_json (JList (map JStr part_sha256s)))"

fun kind_name :: "node_kind \<Rightarrow> string" where
  "kind_name Checkpoint = ''checkpoint''"
| "kind_name Delta = ''delta''"

definition parent_to_dict :: "parent_ref \<Rightarrow> json" where
  "parent_to_dict p = JObj [(''snapshot_id'', JStr (pr_snapshot_id p)),
                            (''manifest_sha256'', JStr (pr_manifest_sha256 p))]"

definition part_to_dict :: "part_descriptor \<Rightarrow> json" where
  "part_to_dict p = JObj
     ([(''path'', JStr (pd_path p)), (''sha256'', JStr (pd_sha256 p)),
       (''row_count'', JInt (pd_row_count p)), (''byte_size'', JInt (pd_byte_size p))]
      @ (case pd_key_min p of None \<Rightarrow> [] | Some k \<Rightarrow> [(''key_min'', JStr k)])
      @ (case pd_key_max p of None \<Rightarrow> [] | Some k \<Rightarrow> [(''key_max'', JStr k)]))"

definition manifest_to_dict :: "dag_manifest \<Rightarrow> json" where
  "manifest_to_dict m = JObj
     [(''snapshot_id'', JStr (mf_snapshot_id m)),
      (''kind'', JStr (kind_name (mf_kind m))),
      (''parents'', JList (map parent_to_dict (mf_parents m))),
      (''checkpoint_anchor_id'', JStr (mf_checkpoint_anchor_id m)),
      (''lineage_depth'', JInt (mf_lineage_depth m)),
      (''created_at'', JStr (mf_created_at m)),
      (''relations'', JObj (map (map_prod id (\<lambda>ps. JList (map part_to_dict ps)))
                              (sorted_dict (mf_relations m)))),
      (''logical_fingerprint'', JStr (mf_logical_fingerprint m)),
      (''schema_versions'', JObj (map (map_prod id JStr) (sorted_dict (mf_schema_versions m)))),
      (''metadata'', JObj (sorted_dict (mf_metadata m)))]"

text \<open>The digest under which a manifest is recorded.\<close>

definition manifest_digest :: "(string \<Rightarrow> string) \<Rightarrow> dag_manifest \<Rightarrow> string" where
  "manifest_digest sha m = sha (canonical_json (manifest_to_dict m))"

subsection \<open>Reading a manifest back\<close>

fun as_obj :: "json \<Rightarrow> (py_error, json dict) result" where
  "as_obj (JObj d) = Inr d"
| "as_obj v = Inl TypeError"

definition parent_from_dict :: "(json \<Rightarrow> string) \<Rightarrow> json \<Rightarrow> (py_error, parent_ref) result" where
  "parent_from_dict rep v =
     bind_res (as_obj v) (\<lambda>d.
     bind_res (dict_get d ''snapshot_id'') (\<lambda>sid.
     bind_res (dict_get d ''manifest_sha256'') (\<lambda>sha.
     Inr \<lparr>pr_snapshot_id = py_str rep sid, pr_manifest_sha256 = py_str rep sha\<rparr>)))"

definition optional_str :: "(json \<Rightarrow> string) \<Rightarrow> json dict \<Rightarrow> string \<Rightarrow> string option" where
  "optional_str rep d k =
     (case map_of d k of None \<Rightarrow> None | Some JNull \<Rightarrow> None | Some v \<Rightarrow> Some (py_str rep v))"

definition part_from_dict :: "(json \<Rightarrow> string) \<Rightarrow> json \<Rightarrow> (py_error, part_descriptor) result" where
  "part_from_dict rep v =
     bind_res (as_obj v) (\<lambda>d.
     bind_res (dict_get d ''path'') (\<lambda>path.
     bind_res (dict_get d ''sha256'') (\<lambda>sha.
     bind_res (bind_res (dict_get d ''row_count'') py_int) (\<lambda>rc.
     bind_res (bind_res (dict_get d ''byte_size'') py_int) (\<lambda>bs.
     Inr \<lparr>pd_path = py_str rep path, pd_sha256 = py_str rep sha, pd_row_count = rc,
          pd_byte_size = bs, pd_key_min = optional_str rep d ''key_min'',
          pd_key_max = optional_str rep d ''key_max''\<rparr>)))))"

text \<open>
  The \<^verbatim>\<open>schema_versions\<close> and \<^verbatim>\<open>metadata\<close> dictionaries are copied as they are; the values of the
  first are texts. \<open>now\<close> is the current time in ISO form, used when no creation time is given.
\<close>

definition str_values :: "(json \<Rightarrow> string) \<Rightarrow> json dict \<Rightarrow> string dict" where
  "str_values rep d = map (map_prod id (py_str rep)) d"

fun iter_list :: "json \<Rightarrow> (py_error, json list) result" where
  "iter_list (JList vs) = Inr vs"
| "iter_list v = Inl TypeError"

definition get_or :: "json dict \<Rightarrow> string \<Rightarrow> json \<Rightarrow> json" where
  "get_or d k dflt = (case map_of d k of None \<Rightarrow> dflt | Some v \<Rightarrow> v)"

fun items :: "json \<Rightarrow> (py_error, json dict) result" where
  "items (JObj d) = Inr d"
| "items v = Inl AttributeError"

definition manifest_from_dict ::
  "(json \<Rightarrow> string) \<Rightarrow> string \<Rightarrow> json dict \<Rightarrow> (py_error, dag_manifest) result" where
  "manifest_from_dict rep now data =
     bind_res (items (get_or data ''relations'' (JObj []))) (\<lambda>raw_relations.
     bind_res (mapM (\<lambda>(name, parts).
                 bind_res (iter_list parts) (\<lambda>ps.
                 bind_res (mapM (part_from_dict rep) ps) (\<lambda>ds. Inr (name, ds)))) raw_relations)
       (\<lambda>relations.
     bind_res (case map_of data ''parents'' of
                 Some (JList ps) \<Rightarrow> mapM (parent_from_dict rep) ps
               | _ \<Rightarrow> Inr []) (\<lambda>parents.
     bind_res (dict_get data ''snapshot_id'') (\<lambda>sid.
     bind_res (py_int (get_or data ''lineage_depth'' (JInt 0))) (\<lambda>depth.
     bind_res (items (get_or data ''schema_versions'' (JObj []))) (\<lambda>sv.
     bind_res (items (get_or data ''metadata'' (JObj []))) (\<lambda>meta.
     Inr \<lparr>mf_snapshot_id = py_str rep sid,
          mf_kind = (if map_of data ''kind'' = Some (JStr ''checkpoint'') then Checkpoint else Delta),
          mf_parents = parents,
          mf_checkpoint_anchor_id =
            (let v = get_or data ''checkpoint_anchor_id'' JNull
             in if truthy v then py_str rep v else []),
          mf_lineage_depth = depth,
          mf_created_at =
            (let v = get_or data ''created_at'' JNull in if truthy v then py_str rep v else now),
          mf_relations = relations,
          mf_logical_fingerprint =
            (let v = get_or data ''logical_fingerprint'' JNull
             in if truthy v then py_str rep v else []),
          mf_schema_versions = str_values rep sv,
          mf_metadata = meta\<rparr>)))))))"

text \<open>A manifest with its dictionaries in key order.\<close>

definition sorted_manifest :: "dag_manifest \<Rightarrow> dag_manifest" where
  "sorted_manifest m = m\<lparr>mf_relations := sorted_dict (mf_relations m),
     mf_schema_versions := sorted_dict (mf_schema_versions m),
     mf_metadata := sorted_dict (mf_metadata m)\<rparr>"

lemma parent_roundtrip: "parent_from_dict rep (parent_to_dict p) = Inr p"
  by (simp add: parent_from_dict_def parent_to_dict_def)

lemma part_roundtrip: "part_from_dict rep (part_to_dict p) = Inr p"
  by (cases "pd_key_min p"; cases "pd_key_max p")
    (simp_all add: part_from_dict_def part_to_dict_def optional_str_def)

lemma relations_roundtrip:
  "mapM (\<lambda>(name, parts). bind_res (iter_list parts) (\<lambda>ps.
       bind_res (mapM (part_from_dict rep) ps) (\<lambda>ds. Inr (name, ds))))
     (map (map_prod id (\<lambda>ps. JList (map part_to_dict ps))) rels) = Inr rels"
proof -
  have "mapM (part_from_dict rep) (map part_to_dict ps) = Inr ps" for ps
    using mapM_map_Inr[of ps "part_from_dict rep" part_to_dict "\<lambda>p. p"]
    by (simp add: part_roundtrip)
  then show ?thesis by (induction rels) auto
qed

lemma str_values_JStr: "str_values rep (map (map_prod id JStr) d) = d"
  by (induction d) (auto simp: str_values_def)

lemma parents_roundtrip: "mapM (parent_from_dict rep) (map parent_to_dict ps) = Inr ps"
  using mapM_map_Inr[of ps "parent_from_dict rep" parent_to_dict "\<lambda>p. p"]
  by (simp add: parent_roundtrip)

fun dict_of :: "json \<Rightarrow> json dict" where
  "dict_of (JObj d) = d"
| "dict_of v = []"

text \<open>
  Writing a manifest to its dictionary form and reading it back returns the same manifest,
  with its three dictionaries in key order; an empty creation time alone is replaced by the
  current time.
\<close>

theorem manifest_roundtrip:
  "manifest_from_dict rep now (dict_of (manifest_to_dict m)) =
     Inr ((sorted_manifest m)
            \<lparr>mf_created_at := if mf_created_at m = [] then now else mf_created_at m\<rparr>)"
  by (cases "mf_kind m")
    (simp_all add: manifest_from_dict_def manifest_to_dict_def get_or_def relations_roundtrip
      parents_roundtrip str_values_JStr sorted_manifest_def Let_def)

section \<open>Relation specifications\<close>

datatype merge_strategy = Upsert | Append | ScopedMask

datatype tie_op = TieMin | TieMax

record relation_spec =
  rs_name :: string
  rs_schema :: "string dict"
  rs_primary_key :: "string list"
  rs_merge_strategy :: merge_strategy
  rs_sort_order :: "string list"
  rs_parent_relation :: "string option"
  rs_parent_join_key :: "string list option"
  rs_tie_breaker_column :: "string option"
  rs_tie_breaker_op :: tie_op
  rs_max_rows_per_part :: "int option"
  rs_entity_key :: "string option"

text \<open>A text or tuple that is \<^verbatim>\<open>None\<close> or empty is false.\<close>

definition given :: "'a list option \<Rightarrow> bool" where
  "given x = (case x of None \<Rightarrow> False | Some s \<Rightarrow> s \<noteq> [])"

datatype spec_error = InvalidName | NoPrimaryKey | EntityKeyNotInSchema | MaxRowsNotPositive
  | PrimaryKeyNotInSchema string | SortColumnNotInSchema string | MaskNeedsParent
  | MaskNeedsJoinKey | TieBreakerNotInSchema

text \<open>
  The checks of \<^verbatim>\<open>RelationSpec.__post_init__\<close>, in order: the error the constructor raises, if any.
\<close>

definition spec_check :: "relation_spec \<Rightarrow> spec_error option" where
  "spec_check sp =
     (let names = map fst (rs_schema sp) in
      if rs_name sp = [] \<or> \<not> isidentifier (rs_name sp) then Some InvalidName
      else if rs_primary_key sp = [] then Some NoPrimaryKey
      else if given (rs_entity_key sp) \<and> the (rs_entity_key sp) \<notin> set names
        then Some EntityKeyNotInSchema
      else if (case rs_max_rows_per_part sp of None \<Rightarrow> False | Some n \<Rightarrow> n \<le> 0)
        then Some MaxRowsNotPositive
      else case find (\<lambda>c. c \<notin> set names) (rs_primary_key sp) of
        Some c \<Rightarrow> Some (PrimaryKeyNotInSchema c)
      | None \<Rightarrow>
      (case find (\<lambda>c. c \<notin> set names) (rs_sort_order sp) of
        Some c \<Rightarrow> Some (SortColumnNotInSchema c)
      | None \<Rightarrow>
        if rs_merge_strategy sp = ScopedMask \<and> \<not> given (rs_parent_relation sp)
          then Some MaskNeedsParent
        else if rs_merge_strategy sp = ScopedMask \<and> \<not> given (rs_parent_join_key sp)
          then Some MaskNeedsJoinKey
        else if rs_merge_strategy sp = Append \<and> given (rs_tie_breaker_column sp)
             \<and> the (rs_tie_breaker_column sp) \<notin> set names
          then Some TieBreakerNotInSchema
        else None))"

lemma spec_check_key:
  assumes "spec_check sp = None"
  shows "rs_primary_key sp \<noteq> []" and "set (rs_primary_key sp) \<subseteq> fst ` set (rs_schema sp)"
    and "\<And>n. rs_max_rows_per_part sp = Some n \<Longrightarrow> 0 < n"
    and "rs_merge_strategy sp = ScopedMask \<Longrightarrow> given (rs_parent_relation sp) \<and> given (rs_parent_join_key sp)"
  using assms
  by (auto simp: spec_check_def Let_def find_None_iff split: if_splits option.splits)

end
