(* ===== verification/DagCatalog.thy ===== *)
theory DagCatalog
  imports DagManifest
begin

text \<open>
  The SQLite catalog of a snapshot DAG, \<^verbatim>\<open>infra/storage/dag/catalog.py\<close>: its five tables as
  lists of rows, and every method of \<^verbatim>\<open>DAGCatalog\<close> that writes or reads single rows. A method
  that raises inside its \<^verbatim>\<open>with self._connect() as con\<close> block is rolled back, so an error
  result carries no new state. The two JSON text columns hold the parsed dictionary in key
  order. \<open>now\<close> is the ISO time the method reads; \<open>sha\<close> is SHA-256.
\<close>

section \<open>Tables\<close>

record node_row =
  nr_snapshot_id :: string
  nr_kind :: node_kind
  nr_parent_id :: "string option"
  nr_checkpoint_anchor_id :: string
  nr_created_at :: string
  nr_lineage_depth :: int
  nr_manifest_sha256 :: string
  nr_logical_fingerprint :: string
  nr_schema_versions :: "string dict"
  nr_metadata :: "json dict"

record parent_row =
  np_snapshot_id :: string
  np_parent_id :: string
  np_parent_order :: nat
  np_parent_sha256 :: string

record part_row =
  pt_id :: nat
  pt_snapshot_id :: string
  pt_relation_name :: string
  pt_part :: part_descriptor

record branch_row =
  br_name :: string
  br_snapshot_id :: string
  br_updated_at :: string

record tag_row =
  tg_name :: string
  tg_snapshot_id :: string
  tg_created_at :: string
  tg_message :: string

record catalog =
  nodes :: "node_row list"
  node_parents :: "parent_row list"
  parts :: "part_row list"
  branches :: "branch_row list"
  tags :: "tag_row list"
  part_seq :: nat

definition empty_catalog :: catalog where
  "empty_catalog = \<lparr>nodes = [], node_parents = [], parts = [], branches = [], tags = [], part_seq = 0\<rparr>"

datatype catalog_error =
  AlreadyRecorded string      \<comment> \<open>\<^verbatim>\<open>ValueError\<close>: recorded with different digest\<close>
  | IntegrityError            \<comment> \<open>a \<^verbatim>\<open>CHECK\<close> or \<^verbatim>\<open>PRIMARY KEY\<close> constraint\<close>

section \<open>Recording nodes\<close>

definition node_of :: "(string \<Rightarrow> string) \<Rightarrow> dag_manifest \<Rightarrow> node_row" where
  "node_of sha m =
     \<lparr>nr_snapshot_id = mf_snapshot_id m, nr_kind = mf_kind m,
      nr_parent_id = (if parent_snapshot_id m = [] then None else Some (parent_snapshot_id m)),
      nr_checkpoint_anchor_id = mf_checkpoint_anchor_id m, nr_created_at = mf_created_at m,
      nr_lineage_depth = mf_lineage_depth m, nr_manifest_sha256 = manifest_digest sha m,
      nr_logical_fingerprint = mf_logical_fingerprint m,
      nr_schema_versions = sorted_dict (mf_schema_versions m),
      nr_metadata = sorted_dict (mf_metadata m)\<rparr>"

definition parent_rows :: "dag_manifest \<Rightarrow> parent_row list" where
  "parent_rows m = map (\<lambda>(idx, p).
     \<lparr>np_snapshot_id = mf_snapshot_id m, np_parent_id = pr_snapshot_id p, np_parent_order = idx,
      np_parent_sha256 = pr_manifest_sha256 p\<rparr>) (enumerate 0 (mf_parents m))"

definition flat_parts :: "dag_manifest \<Rightarrow> (string \<times> part_descriptor) list" where
  "flat_parts m = concat (map (\<lambda>(rel, ps). map (Pair rel) ps) (mf_relations m))"

text \<open>The identifiers are handed out by \<^verbatim>\<open>AUTOINCREMENT\<close>.\<close>

definition part_rows :: "nat \<Rightarrow> dag_manifest \<Rightarrow> part_row list" where
  "part_rows seq m = map (\<lambda>(i, rel, p).
     \<lparr>pt_id = i, pt_snapshot_id = mf_snapshot_id m, pt_relation_name = rel, pt_part = p\<rparr>)
     (enumerate (Suc seq) (flat_parts m))"

definition insert_manifest ::
  "(string \<Rightarrow> string) \<Rightarrow> catalog \<Rightarrow> dag_manifest \<Rightarrow> (catalog_error, catalog) result" where
  "insert_manifest sha cat m =
     (case tbl_lookup nr_snapshot_id (mf_snapshot_id m) (nodes cat) of
        Some existing \<Rightarrow>
          if nr_manifest_sha256 existing = manifest_digest sha m
             \<or> nr_logical_fingerprint existing \<noteq> []
               \<and> nr_logical_fingerprint existing = mf_logical_fingerprint m
          then Inr cat else Inl (AlreadyRecorded (mf_snapshot_id m))
      | None \<Rightarrow>
          if mf_lineage_depth m < 0 \<or> \<not> distinct (map pr_snapshot_id (mf_parents m))
          then Inl IntegrityError
          else Inr (cat\<lparr>nodes := nodes cat @ [node_of sha m],
                        node_parents := node_parents cat @ parent_rows m,
                        parts := parts cat @ part_rows (part_seq cat) m,
                        part_seq := part_seq cat + length (flat_parts m)\<rparr>))"

definition record_node ::
  "(string \<Rightarrow> string) \<Rightarrow> catalog \<Rightarrow> dag_manifest \<Rightarrow> (catalog_error, catalog) result" where
  "record_node sha cat m = insert_manifest sha cat m"

definition write_pointer :: "string \<Rightarrow> catalog \<Rightarrow> string \<Rightarrow> string \<Rightarrow> catalog" where
  "write_pointer now cat branch_name snapshot_id =
     cat\<lparr>branches := tbl_upsert br_name
       \<lparr>br_name = branch_name, br_snapshot_id = snapshot_id, br_updated_at = now\<rparr> (branches cat)\<rparr>"

definition catalog_publish_node ::
  "(string \<Rightarrow> string) \<Rightarrow> string \<Rightarrow> catalog \<Rightarrow> dag_manifest \<Rightarrow> string \<Rightarrow> (catalog_error, catalog) result"
  where
  "catalog_publish_node sha now cat m branch_name =
     bind_res (insert_manifest sha cat m) (\<lambda>cat'.
     Inr (cat'\<lparr>branches := tbl_upsert br_name
       \<lparr>br_name = branch_name, br_snapshot_id = mf_snapshot_id m, br_updated_at = now\<rparr>
       (branches cat')\<rparr>))"

section \<open>Reading nodes\<close>

definition has_snapshot :: "catalog \<Rightarrow> string \<Rightarrow> bool" where
  "has_snapshot cat sid \<longleftrightarrow> tbl_lookup nr_snapshot_id sid (nodes cat) \<noteq> None"

definition get_manifest_sha256 :: "catalog \<Rightarrow> string \<Rightarrow> string option" where
  "get_manifest_sha256 cat sid = map_option nr_manifest_sha256 (tbl_lookup nr_snapshot_id sid (nodes cat))"

definition parents_of :: "catalog \<Rightarrow> string \<Rightarrow> parent_ref list" where
  "parents_of cat sid =
     map (\<lambda>r. \<lparr>pr_snapshot_id = np_parent_id r, pr_manifest_sha256 = np_parent_sha256 r\<rparr>)
       (sort_key np_parent_order (filter (\<lambda>r. np_snapshot_id r = sid) (node_parents cat)))"

definition relations_of :: "catalog \<Rightarrow> string \<Rightarrow> part_descriptor list dict" where
  "relations_of cat sid =
     group_values (map (\<lambda>r. (pt_relation_name r, pt_part r))
       (sort_key pt_id (filter (\<lambda>r. pt_snapshot_id r = sid) (parts cat))))"

definition get_manifest :: "catalog \<Rightarrow> string \<Rightarrow> dag_manifest option" where
  "get_manifest cat sid =
     (case tbl_lookup nr_snapshot_id sid (nodes cat) of
        None \<Rightarrow> None
      | Some row \<Rightarrow> Some
          \<lparr>mf_snapshot_id = nr_snapshot_id row, mf_kind = nr_kind row,
           mf_parents = parents_of cat sid,
           mf_checkpoint_anchor_id = nr_checkpoint_anchor_id row,
           mf_lineage_depth = nr_lineage_depth row, mf_created_at = nr_created_at row,
           mf_relations = relations_of cat sid,
           mf_logical_fingerprint = nr_logical_fingerprint row,
           mf_schema_versions = nr_schema_versions row, mf_metadata = nr_metadata row\<rparr>)"

definition list_snapshots :: "catalog \<Rightarrow> node_row list" where
  "list_snapshots cat = sort_key nr_created_at (nodes cat)"

definition find_snapshot_ids_by_metadata :: "catalog \<Rightarrow> string \<Rightarrow> string \<Rightarrow> string list" where
  "find_snapshot_ids_by_metadata cat key value =
     map nr_snapshot_id (filter (\<lambda>r. map_of (nr_metadata r) key = Some (JStr value))
       (sort_key nr_snapshot_id (nodes cat)))"

section \<open>Branches and tags\<close>

record branch_pointer =
  bp_snapshot_id :: string
  bp_branch_name :: string
  bp_updated_at :: string
  bp_manifest_sha256 :: "string option"

definition catalog_read_pointer :: "catalog \<Rightarrow> string \<Rightarrow> branch_pointer option" where
  "catalog_read_pointer cat branch_name =
     map_option (\<lambda>b. \<lparr>bp_snapshot_id = br_snapshot_id b, bp_branch_name = branch_name,
         bp_updated_at = br_updated_at b,
         bp_manifest_sha256 = get_manifest_sha256 cat (br_snapshot_id b)\<rparr>)
       (tbl_lookup br_name branch_name (branches cat))"

definition list_branches :: "catalog \<Rightarrow> (string \<times> string) list" where
  "list_branches cat = map (\<lambda>b. (br_name b, br_snapshot_id b)) (sort_key br_name (branches cat))"

definition catalog_create_tag ::
  "string \<Rightarrow> catalog \<Rightarrow> string \<Rightarrow> string \<Rightarrow> string \<Rightarrow> (catalog_error, catalog) result" where
  "catalog_create_tag now cat name snapshot_id message =
     (if tbl_lookup tg_name name (tags cat) \<noteq> None then Inl IntegrityError
      else Inr (cat\<lparr>tags := tags cat @ [\<lparr>tg_name = name, tg_snapshot_id = snapshot_id,
                                        tg_created_at = now, tg_message = message\<rparr>]\<rparr>))"

definition get_tag :: "catalog \<Rightarrow> string \<Rightarrow> tag_row option" where
  "get_tag cat name = tbl_lookup tg_name name (tags cat)"

definition list_tags :: "catalog \<Rightarrow> tag_row list" where
  "list_tags cat = sort_key tg_created_at (tags cat)"

definition catalog_delete_tag :: "catalog \<Rightarrow> string \<Rightarrow> bool \<times> catalog" where
  "catalog_delete_tag cat name =
     (tbl_lookup tg_name name (tags cat) \<noteq> None, cat\<lparr>tags := tbl_delete tg_name name (tags cat)\<rparr>)"

definition catalog_delete_branch :: "catalog \<Rightarrow> string \<Rightarrow> bool \<times> catalog" where
  "catalog_delete_branch cat name =
     (tbl_lookup br_name name (branches cat) \<noteq> None,
      cat\<lparr>branches := tbl_delete br_name name (branches cat)\<rparr>)"

text \<open>\<^verbatim>\<open>DELETE FROM nodes\<close>, with the two \<^verbatim>\<open>ON DELETE CASCADE\<close> references.\<close>

definition delete_node :: "catalog \<Rightarrow> string \<Rightarrow> catalog" where
  "delete_node cat sid =
     cat\<lparr>nodes := tbl_delete nr_snapshot_id sid (nodes cat),
         node_parents := filter (\<lambda>r. np_snapshot_id r \<noteq> sid) (node_parents cat),
         parts := filter (\<lambda>r. pt_snapshot_id r \<noteq> sid) (parts cat)\<rparr>"

section \<open>The catalog invariant\<close>

definition catalog_inv :: "catalog \<Rightarrow> bool" where
  "catalog_inv cat \<longleftrightarrow>
     tbl_inv nr_snapshot_id (nodes cat)
     \<and> tbl_inv (\<lambda>r. (np_snapshot_id r, np_parent_id r)) (node_parents cat)
     \<and> np_snapshot_id ` set (node_parents cat) \<subseteq> nr_snapshot_id ` set (nodes cat)
     \<and> tbl_inv pt_id (parts cat) \<and> sorted (map pt_id (parts cat))
     \<and> (\<forall>r \<in> set (parts cat). pt_id r \<le> part_seq cat)
     \<and> pt_snapshot_id ` set (parts cat) \<subseteq> nr_snapshot_id ` set (nodes cat)
     \<and> tbl_inv br_name (branches cat) \<and> tbl_inv tg_name (tags cat)
     \<and> (\<forall>r \<in> set (nodes cat). 0 \<le> nr_lineage_depth r)"

datatype catalog_call =
  CallPublish dag_manifest string | CallRecord dag_manifest | CallWritePointer string string
  | CallCreateTag string string string | CallDeleteTag string | CallDeleteBranch string
  | CallDeleteNode string

text \<open>A call of the catalog at time \<open>now\<close>; a call that raises leaves the database as it was.\<close>

fun catalog_step :: "(string \<Rightarrow> string) \<Rightarrow> catalog \<Rightarrow> string \<times> catalog_call \<Rightarrow> catalog" where
  "catalog_step sha cat (now, CallPublish m b) =
     (case catalog_publish_node sha now cat m b of Inl e \<Rightarrow> cat | Inr c \<Rightarrow> c)"
| "catalog_step sha cat (now, CallRecord m) =
     (case record_node sha cat m of Inl e \<Rightarrow> cat | Inr c \<Rightarrow> c)"
| "catalog_step sha cat (now, CallWritePointer b s) = write_pointer now cat b s"
| "catalog_step sha cat (now, CallCreateTag n s msg) =
     (case catalog_create_tag now cat n s msg of Inl e \<Rightarrow> cat | Inr c \<Rightarrow> c)"
| "catalog_step sha cat (now, CallDeleteTag n) = snd (catalog_delete_tag cat n)"
| "catalog_step sha cat (now, CallDeleteBranch n) = snd (catalog_delete_branch cat n)"
| "catalog_step sha cat (now, CallDeleteNode s) = delete_node cat s"

section \<open>Effect of recording a node\<close>

lemma insert_manifest_fresh:
  "\<not> has_snapshot cat (mf_snapshot_id m) \<Longrightarrow> insert_manifest sha cat m = Inr cat' \<Longrightarrow>
   0 \<le> mf_lineage_depth m \<and> distinct (map pr_snapshot_id (mf_parents m)) \<and>
   cat' = cat\<lparr>nodes := nodes cat @ [node_of sha m],
              node_parents := node_parents cat @ parent_rows m,
              parts := parts cat @ part_rows (part_seq cat) m,
              part_seq := part_seq cat + length (flat_parts m)\<rparr>"
  by (auto simp: insert_manifest_def has_snapshot_def split: if_splits)

lemma insert_manifest_known:
  "has_snapshot cat (mf_snapshot_id m) \<Longrightarrow> insert_manifest sha cat m = Inr cat' \<Longrightarrow> cat' = cat"
  by (auto simp: insert_manifest_def has_snapshot_def split: if_splits)

lemma has_snapshot_iff: "has_snapshot cat sid \<longleftrightarrow> sid \<in> nr_snapshot_id ` set (nodes cat)"
  by (simp add: has_snapshot_def tbl_lookup_None_iff)

lemma parent_rows_props:
  "map np_snapshot_id (parent_rows m) = replicate (length (mf_parents m)) (mf_snapshot_id m)"
  "map np_parent_id (parent_rows m) = map pr_snapshot_id (mf_parents m)"
  "sorted (map np_parent_order (parent_rows m))"
proof -
  have "map np_parent_order (parent_rows m) = map fst (enumerate 0 (mf_parents m))"
    by (simp add: parent_rows_def comp_def split_beta)
  then show "sorted (map np_parent_order (parent_rows m))"
    by (metis sorted_map_enumerate)
  have "map np_parent_id (parent_rows m) = map (pr_snapshot_id \<circ> snd) (enumerate 0 (mf_parents m))"
    by (simp add: parent_rows_def comp_def split_beta)
  then show "map np_parent_id (parent_rows m) = map pr_snapshot_id (mf_parents m)"
    by (metis map_map map_snd_enumerate)
  show "map np_snapshot_id (parent_rows m) = replicate (length (mf_parents m)) (mf_snapshot_id m)"
    by (simp add: parent_rows_def comp_def split_beta map_replicate_const)
qed

lemma parent_rows_sid: "r \<in> set (parent_rows m) \<Longrightarrow> np_snapshot_id r = mf_snapshot_id m"
  by (auto simp: parent_rows_def)

lemma parent_ref_eta:
  "\<lparr>pr_snapshot_id = pr_snapshot_id x, pr_manifest_sha256 = pr_manifest_sha256 x\<rparr> = x"
  by (cases x) simp

lemma parent_rows_refs:
  "map (\<lambda>r. \<lparr>pr_snapshot_id = np_parent_id r, pr_manifest_sha256 = np_parent_sha256 r\<rparr>)
     (parent_rows m) = mf_parents m"
proof -
  have "map (\<lambda>r. \<lparr>pr_snapshot_id = np_parent_id r, pr_manifest_sha256 = np_parent_sha256 r\<rparr>)
     (parent_rows m) = map (\<lambda>x. \<lparr>pr_snapshot_id = pr_snapshot_id x,
        pr_manifest_sha256 = pr_manifest_sha256 x\<rparr>) (map snd (enumerate 0 (mf_parents m)))"
    by (simp add: parent_rows_def comp_def split_beta del: map_snd_enumerate)
  then show ?thesis by (simp add: parent_ref_eta)
qed

lemma part_rows_props:
  "map pt_id (part_rows s m) = map fst (enumerate (Suc s) (flat_parts m))"
  "map (\<lambda>r. (pt_relation_name r, pt_part r)) (part_rows s m) = flat_parts m"
proof -
  show "map pt_id (part_rows s m) = map fst (enumerate (Suc s) (flat_parts m))"
    by (simp add: part_rows_def comp_def split_beta)
  have "map (\<lambda>r. (pt_relation_name r, pt_part r)) (part_rows s m)
      = map snd (enumerate (Suc s) (flat_parts m))"
    by (simp add: part_rows_def comp_def split_beta)
  then show "map (\<lambda>r. (pt_relation_name r, pt_part r)) (part_rows s m) = flat_parts m" by simp
qed

lemma part_rows_sid: "r \<in> set (part_rows s m) \<Longrightarrow> pt_snapshot_id r = mf_snapshot_id m"
  by (auto simp: part_rows_def)

lemma part_rows_ids:
  "r \<in> set (part_rows s m) \<Longrightarrow>
   s < pt_id r \<and> pt_id r \<le> s + length (flat_parts m) \<and> pt_snapshot_id r = mf_snapshot_id m"
  by (auto simp: part_rows_def in_set_enumerate_eq)

lemma part_rows_sorted: "sorted (map pt_id (part_rows s m)) \<and> distinct (map pt_id (part_rows s m))"
  using sorted_map_enumerate[of "Suc s" "flat_parts m"]
  by (simp add: part_rows_props(1) del: map_fst_enumerate) simp

section \<open>Every operation keeps the invariant\<close>

lemma catalog_inv_empty: "catalog_inv empty_catalog"
  by (simp add: catalog_inv_def empty_catalog_def tbl_inv_def)

lemma catalog_inv_nodes: "catalog_inv cat \<Longrightarrow> tbl_inv nr_snapshot_id (nodes cat)"
  by (simp add: catalog_inv_def)

lemma catalog_inv_parent:
  "catalog_inv cat \<Longrightarrow> r \<in> set (node_parents cat) \<Longrightarrow>
   np_snapshot_id r \<in> nr_snapshot_id ` set (nodes cat)"
  unfolding catalog_inv_def by blast

lemma catalog_inv_part:
  "catalog_inv cat \<Longrightarrow> r \<in> set (parts cat) \<Longrightarrow>
   pt_snapshot_id r \<in> nr_snapshot_id ` set (nodes cat)"
  unfolding catalog_inv_def by blast

lemma catalog_inv_no_rows:
  assumes "catalog_inv cat" "sid \<notin> nr_snapshot_id ` set (nodes cat)"
  shows "filter (\<lambda>r. np_snapshot_id r = sid) (node_parents cat) = []"
    and "filter (\<lambda>r. pt_snapshot_id r = sid) (parts cat) = []"
proof -
  have "np_snapshot_id r \<noteq> sid" if "r \<in> set (node_parents cat)" for r
    using catalog_inv_parent[OF assms(1) that] assms(2) by metis
  then show "filter (\<lambda>r. np_snapshot_id r = sid) (node_parents cat) = []"
    by (rule filter_all_False)
  have "pt_snapshot_id r \<noteq> sid" if "r \<in> set (parts cat)" for r
    using catalog_inv_part[OF assms(1) that] assms(2) by metis
  then show "filter (\<lambda>r. pt_snapshot_id r = sid) (parts cat) = []"
    by (rule filter_all_False)
qed

lemma tbl_inv_append:
  "tbl_inv key (xs @ ys) \<longleftrightarrow> tbl_inv key xs \<and> tbl_inv key ys \<and> key ` set xs \<inter> key ` set ys = {}"
  by (auto simp: tbl_inv_def)

lemma parent_rows_inv:
  assumes "distinct (map pr_snapshot_id (mf_parents m))"
  shows "tbl_inv (\<lambda>r. (np_snapshot_id r, np_parent_id r)) (parent_rows m)"
proof -
  have "distinct (map np_parent_id (parent_rows m))"
    using assms by (simp add: parent_rows_props)
  then show ?thesis by (auto simp: tbl_inv_def distinct_map inj_on_def)
qed

lemma catalog_inv_insert:
  assumes inv: "catalog_inv cat" and ins: "insert_manifest sha cat m = Inr cat'"
  shows "catalog_inv cat'"
proof (cases "has_snapshot cat (mf_snapshot_id m)")
  case True
  then show ?thesis using insert_manifest_known[OF True ins] inv by simp
next
  case False
  have e: "0 \<le> mf_lineage_depth m" "distinct (map pr_snapshot_id (mf_parents m))"
    and c: "cat' = cat\<lparr>nodes := nodes cat @ [node_of sha m],
              node_parents := node_parents cat @ parent_rows m,
              parts := parts cat @ part_rows (part_seq cat) m,
              part_seq := part_seq cat + length (flat_parts m)\<rparr>"
    using insert_manifest_fresh[OF False ins] by auto
  have fresh: "mf_snapshot_id m \<notin> nr_snapshot_id ` set (nodes cat)"
    using False by (simp add: has_snapshot_iff)
  have id: "nr_snapshot_id (node_of sha m) = mf_snapshot_id m"
    "nr_lineage_depth (node_of sha m) = mf_lineage_depth m"
    by (simp_all add: node_of_def)
  have 1: "tbl_inv nr_snapshot_id (nodes cat')"
    using inv fresh id by (auto simp: c catalog_inv_def tbl_inv_append) (simp add: tbl_inv_def)
  have 2: "tbl_inv (\<lambda>r. (np_snapshot_id r, np_parent_id r)) (node_parents cat')"
  proof -
    have "np_snapshot_id r \<noteq> mf_snapshot_id m" if "r \<in> set (node_parents cat)" for r
      using catalog_inv_parent[OF inv that] fresh by auto
    then show ?thesis
      using inv parent_rows_inv[OF e(2)]
      by (auto simp: c catalog_inv_def tbl_inv_append dest!: parent_rows_sid)
  qed
  have 3: "tbl_inv pt_id (parts cat') \<and> sorted (map pt_id (parts cat'))"
    using inv part_rows_sorted[of "part_seq cat" m]
    by (force simp: c catalog_inv_def tbl_inv_def sorted_append dest!: part_rows_ids)
  show ?thesis
    using inv 1 2 3 e id
    by (auto simp: c catalog_inv_def dest!: parent_rows_sid part_rows_ids)
qed

lemma catalog_inv_branches:
  "catalog_inv cat \<Longrightarrow> catalog_inv (cat\<lparr>branches := tbl_upsert br_name r (branches cat)\<rparr>)"
  using list_table.inv_put[of br_name "branches cat" r] by (auto simp: catalog_inv_def)

lemma catalog_inv_delete: "catalog_inv cat \<Longrightarrow> catalog_inv (delete_node cat sid)"
  using list_table.inv_del[of nr_snapshot_id "nodes cat" sid]
  by (auto simp: catalog_inv_def delete_node_def tbl_inv_def tbl_delete_def
      intro: distinct_map_filter sorted_filter)

lemma catalog_inv_step: "catalog_inv cat \<Longrightarrow> catalog_inv (catalog_step sha cat ev)"
proof (induction sha cat ev rule: catalog_step.induct)
  case (1 sha cat now m b)
  then show ?case
    by (auto simp: catalog_publish_node_def bind_res_def split: sum.splits
        intro: catalog_inv_branches catalog_inv_insert)
next
  case (2 sha cat now m)
  then show ?case
    by (auto simp: record_node_def split: sum.splits intro: catalog_inv_insert)
next
  case (3 sha cat now b s)
  then show ?case by (simp add: write_pointer_def catalog_inv_branches)
next
  case (4 sha cat now n s msg)
  then show ?case
    by (auto simp: catalog_create_tag_def catalog_inv_def tbl_inv_append tbl_lookup_None_iff
        tbl_inv_def split: sum.splits)
next
  case (5 sha cat now n)
  then show ?case
    using list_table.inv_del[of tg_name "tags cat" n]
    by (auto simp: catalog_delete_tag_def catalog_inv_def)
next
  case (6 sha cat now n)
  then show ?case
    using list_table.inv_del[of br_name "branches cat" n]
    by (auto simp: catalog_delete_branch_def catalog_inv_def)
next
  case (7 sha cat now s)
  then show ?case by (simp add: catalog_inv_delete)
qed

interpretation catalog_machine: event_machine "catalog_step sha" catalog_inv for sha
  by unfold_locales (rule catalog_inv_step)

section \<open>What is recorded is what is read\<close>

text \<open>
  A manifest as the catalog gives it back: dictionaries in key order, and no entry for a
  relation without parts.
\<close>

definition stored_manifest :: "dag_manifest \<Rightarrow> dag_manifest" where
  "stored_manifest m = m\<lparr>mf_relations := filter (\<lambda>(rel, ps). ps \<noteq> []) (mf_relations m),
     mf_schema_versions := sorted_dict (mf_schema_versions m),
     mf_metadata := sorted_dict (mf_metadata m)\<rparr>"

lemma relation_parts_stored:
  assumes "distinct (map fst (mf_relations m))"
  shows "relation_parts (stored_manifest m) rel = relation_parts m rel"
proof -
  have "map_of (filter (\<lambda>(rel, ps). ps \<noteq> []) d) rel =
      (case map_of d rel of None \<Rightarrow> None | Some ps \<Rightarrow> if ps = [] then None else Some ps)"
    if "distinct (map fst d)" for d :: "part_descriptor list dict"
    using that
  proof (induction d)
    case Nil
    then show ?case by simp
  next
    case (Cons kv d)
    then have "fst kv \<notin> fst ` set d" by simp
    then have "map_of d (fst kv) = None" by (simp add: map_of_eq_None_iff)
    with Cons show ?case by (cases kv) auto
  qed
  from this[OF assms] show ?thesis
    by (auto simp: relation_parts_def stored_manifest_def split: option.splits)
qed

lemma parents_of_insert:
  assumes inv: "catalog_inv cat" and new: "mf_snapshot_id m \<notin> nr_snapshot_id ` set (nodes cat)"
  shows "parents_of (cat\<lparr>node_parents := node_parents cat @ parent_rows m\<rparr>) sid =
    (if sid = mf_snapshot_id m then mf_parents m else parents_of cat sid)"
proof (cases "sid = mf_snapshot_id m")
  case True
  have "filter (\<lambda>r. np_snapshot_id r = sid) (node_parents cat) = []"
    using catalog_inv_no_rows(1)[OF inv] new True by simp
  moreover have "filter (\<lambda>r. np_snapshot_id r = sid) (parent_rows m) = parent_rows m"
    using True by (auto simp: filter_id_conv dest: parent_rows_sid)
  ultimately show ?thesis
    using True by (simp add: parents_of_def sort_key_id parent_rows_props(3) parent_rows_refs)
next
  case False
  have "filter (\<lambda>r. np_snapshot_id r = sid) (parent_rows m) = []"
    using False by (auto intro!: filter_all_False dest: parent_rows_sid)
  then show ?thesis using False by (simp add: parents_of_def)
qed

lemma relations_of_insert:
  assumes inv: "catalog_inv cat" and new: "mf_snapshot_id m \<notin> nr_snapshot_id ` set (nodes cat)"
    and d: "distinct (map fst (mf_relations m))"
  shows "relations_of (cat\<lparr>parts := parts cat @ part_rows s m\<rparr>) sid =
    (if sid = mf_snapshot_id m then filter (\<lambda>(rel, ps). ps \<noteq> []) (mf_relations m)
     else relations_of cat sid)"
proof (cases "sid = mf_snapshot_id m")
  case True
  have "filter (\<lambda>r. pt_snapshot_id r = sid) (parts cat) = []"
    using catalog_inv_no_rows(2)[OF inv] new True by simp
  moreover have "filter (\<lambda>r. pt_snapshot_id r = sid) (part_rows s m) = part_rows s m"
    using True by (auto simp: filter_id_conv dest: part_rows_sid)
  ultimately show ?thesis
    using True part_rows_sorted[of s m] group_values_flat[OF d]
    by (simp add: relations_of_def sort_key_id part_rows_props(2) flat_parts_def)
next
  case False
  have "filter (\<lambda>r. pt_snapshot_id r = sid) (part_rows s m) = []"
    using False by (auto intro!: filter_all_False dest: part_rows_sid)
  then show ?thesis using False by (simp add: relations_of_def)
qed

lemma get_manifest_insert:
  assumes inv: "catalog_inv cat" and new: "\<not> has_snapshot cat (mf_snapshot_id m)"
    and d: "distinct (map fst (mf_relations m))" and ins: "insert_manifest sha cat m = Inr cat'"
  shows "get_manifest cat' sid =
    (if sid = mf_snapshot_id m then Some (stored_manifest m) else get_manifest cat sid)"
proof -
  have new': "mf_snapshot_id m \<notin> nr_snapshot_id ` set (nodes cat)"
    using new by (simp add: has_snapshot_iff)
  have c: "cat' = cat\<lparr>nodes := nodes cat @ [node_of sha m],
              node_parents := node_parents cat @ parent_rows m,
              parts := parts cat @ part_rows (part_seq cat) m,
              part_seq := part_seq cat + length (flat_parts m)\<rparr>"
    using insert_manifest_fresh[OF new ins] by simp
  have p: "parents_of cat' sid = parents_of (cat\<lparr>node_parents := node_parents cat @ parent_rows m\<rparr>) sid"
    and r: "relations_of cat' sid
      = relations_of (cat\<lparr>parts := parts cat @ part_rows (part_seq cat) m\<rparr>) sid"
    by (simp_all add: c parents_of_def relations_of_def)
  have n: "tbl_lookup nr_snapshot_id sid (nodes cat') =
      (if sid = mf_snapshot_id m then Some (node_of sha m)
       else tbl_lookup nr_snapshot_id sid (nodes cat))"
    using new' by (auto simp: c table_simps node_of_def tbl_lookup_None_iff[THEN iffD2]
        split: option.splits)
  show ?thesis
    unfolding get_manifest_def n p r parents_of_insert[OF inv new']
      relations_of_insert[OF inv new' d]
    by (simp add: node_of_def stored_manifest_def)
qed

text \<open>
  Recording a manifest under a new snapshot id and reading it back returns that manifest:
  kind, parents in order, anchor, depth, times and fingerprint unchanged, the same parts in the
  same order for every relation name, and every other snapshot reads as before.
\<close>

theorem record_then_get:
  assumes "catalog_inv cat" and "\<not> has_snapshot cat (mf_snapshot_id m)"
    and "distinct (map fst (mf_relations m))" and "record_node sha cat m = Inr cat'"
  shows "get_manifest cat' (mf_snapshot_id m) = Some (stored_manifest m) \<and>
         relation_parts (stored_manifest m) rel = relation_parts m rel \<and>
         get_manifest_sha256 cat' (mf_snapshot_id m) = Some (manifest_digest sha m) \<and>
         (\<forall>sid. sid \<noteq> mf_snapshot_id m \<longrightarrow> get_manifest cat' sid = get_manifest cat sid)"
proof -
  have ins: "insert_manifest sha cat m = Inr cat'" using assms(4) by (simp add: record_node_def)
  have "tbl_lookup nr_snapshot_id (mf_snapshot_id m) (nodes cat') = Some (node_of sha m)"
    using insert_manifest_fresh[OF assms(2) ins] assms(2)
    by (auto simp: has_snapshot_def table_simps node_of_def)
  then show ?thesis
    using get_manifest_insert[OF assms(1,2,3) ins] relation_parts_stored[OF assms(3)]
    by (simp add: get_manifest_sha256_def node_of_def)
qed

definition demo_part :: part_descriptor where
  "demo_part = \<lparr>pd_path = ''p'', pd_sha256 = ''h'', pd_row_count = 1, pd_byte_size = 2,
     pd_key_min = Some ''a'', pd_key_max = Some ''b''\<rparr>"

definition demo_node :: "string \<Rightarrow> node_kind \<Rightarrow> string list \<Rightarrow> dag_manifest" where
  "demo_node sid k ps = \<lparr>mf_snapshot_id = sid, mf_kind = k,
     mf_parents = map (\<lambda>p. \<lparr>pr_snapshot_id = p, pr_manifest_sha256 = []\<rparr>) ps,
     mf_checkpoint_anchor_id = ''c'', mf_lineage_depth = 0, mf_created_at = ''t'',
     mf_relations = [(''r'', [demo_part])], mf_logical_fingerprint = [],
     mf_schema_versions = [], mf_metadata = []\<rparr>"

theorem record_then_get_witness:
  "\<exists>cat'. record_node id empty_catalog (demo_node ''c'' Checkpoint []) = Inr cat' \<and>
     get_manifest cat' ''c'' = Some (stored_manifest (demo_node ''c'' Checkpoint []))"
proof -
  let ?m = "demo_node ''c'' Checkpoint []"
  obtain cat' where ok: "record_node id empty_catalog ?m = Inr cat'"
    by (simp add: record_node_def insert_manifest_def empty_catalog_def demo_node_def table_simps)
  have id: "mf_snapshot_id ?m = ''c''" by (simp add: demo_node_def)
  have "\<not> has_snapshot empty_catalog (mf_snapshot_id ?m)"
    by (simp add: has_snapshot_def empty_catalog_def table_simps)
  moreover have "distinct (map fst (mf_relations ?m))" by (simp add: demo_node_def)
  ultimately show ?thesis
    using record_then_get[OF catalog_inv_empty _ _ ok] ok id by auto
qed

section \<open>Recorded snapshots are immutable\<close>

lemma get_manifest_cong:
  "nodes c = nodes c' \<Longrightarrow> node_parents c = node_parents c' \<Longrightarrow> parts c = parts c' \<Longrightarrow>
   get_manifest c sid = get_manifest c' sid"
  by (simp add: get_manifest_def parents_of_def relations_of_def cong: option.case_cong)

lemma insert_keeps_manifest:
  assumes inv: "catalog_inv cat" and has: "has_snapshot cat sid"
    and ins: "insert_manifest sha cat m = Inr cat'"
  shows "get_manifest cat' sid = get_manifest cat sid \<and> has_snapshot cat' sid"
proof (cases "has_snapshot cat (mf_snapshot_id m)")
  case True
  then show ?thesis using insert_manifest_known[OF True ins] has by simp
next
  case False
  have c: "cat' = cat\<lparr>nodes := nodes cat @ [node_of sha m],
              node_parents := node_parents cat @ parent_rows m,
              parts := parts cat @ part_rows (part_seq cat) m,
              part_seq := part_seq cat + length (flat_parts m)\<rparr>"
    using insert_manifest_fresh[OF False ins] by simp
  have ne: "sid \<noteq> mf_snapshot_id m" using False has by auto
  have "filter (\<lambda>r. np_snapshot_id r = sid) (parent_rows m) = []"
    "filter (\<lambda>r. pt_snapshot_id r = sid) (part_rows (part_seq cat) m) = []"
    using ne by (auto intro!: filter_all_False dest: parent_rows_sid part_rows_sid)
  moreover have "tbl_lookup nr_snapshot_id sid (nodes cat') = tbl_lookup nr_snapshot_id sid (nodes cat)"
    using has by (auto simp: c table_simps has_snapshot_def split: option.splits)
  ultimately show ?thesis
    using has
    by (simp add: c get_manifest_def parents_of_def relations_of_def has_snapshot_def
        split: option.splits)
qed

lemma delete_node_other:
  assumes "catalog_inv cat" "sid \<noteq> s"
  shows "get_manifest (delete_node cat s) sid = get_manifest cat sid"
    and "has_snapshot (delete_node cat s) sid = has_snapshot cat sid"
    and "get_manifest_sha256 (delete_node cat s) sid = get_manifest_sha256 cat sid"
proof -
  have n: "tbl_lookup nr_snapshot_id sid (nodes (delete_node cat s))
      = tbl_lookup nr_snapshot_id sid (nodes cat)"
    using assms list_table.look_del[OF catalog_inv_nodes[OF assms(1)]]
    by (simp add: delete_node_def)
  have f: "filter (\<lambda>r. key r = sid) (filter (\<lambda>r. key r \<noteq> s) xs) = filter (\<lambda>r. key r = sid) xs"
    for key :: "'z \<Rightarrow> string" and xs
    using assms(2) by (induction xs) auto
  show "get_manifest (delete_node cat s) sid = get_manifest cat sid"
    unfolding get_manifest_def n
    by (simp add: parents_of_def relations_of_def delete_node_def f del: filter_filter
        split: option.splits)
  show "has_snapshot (delete_node cat s) sid = has_snapshot cat sid"
    and "get_manifest_sha256 (delete_node cat s) sid = get_manifest_sha256 cat sid"
    using n by (simp_all add: has_snapshot_def get_manifest_sha256_def)
qed

lemma catalog_step_keeps:
  assumes "catalog_inv cat" "has_snapshot cat sid" "snd ev \<noteq> CallDeleteNode sid"
  shows "get_manifest (catalog_step sha cat ev) sid = get_manifest cat sid \<and>
         has_snapshot (catalog_step sha cat ev) sid"
  using assms
proof (induction sha cat ev rule: catalog_step.induct)
  case (1 sha cat now m b)
  show ?case
  proof (cases "insert_manifest sha cat m")
    case (Inl e)
    then show ?thesis using 1 by (simp add: catalog_publish_node_def)
  next
    case (Inr c)
    have "get_manifest (c\<lparr>branches := x\<rparr>) sid = get_manifest c sid" for x
      by (rule get_manifest_cong) simp_all
    moreover have "has_snapshot (c\<lparr>branches := x\<rparr>) sid = has_snapshot c sid" for x
      by (simp add: has_snapshot_def)
    ultimately show ?thesis
      using insert_keeps_manifest[OF 1(1,2) Inr] Inr by (simp add: catalog_publish_node_def)
  qed
next
  case (2 sha cat now m)
  then show ?case
    by (auto simp: record_node_def split: sum.splits dest: insert_keeps_manifest)
next
  case (3 sha cat now b s)
  then show ?case
    by (auto simp: write_pointer_def has_snapshot_def intro: get_manifest_cong)
next
  case (4 sha cat now n s msg)
  then show ?case
    by (auto simp: catalog_create_tag_def has_snapshot_def split: sum.splits intro: get_manifest_cong)
next
  case (5 sha cat now n)
  then show ?case
    by (auto simp: catalog_delete_tag_def has_snapshot_def intro: get_manifest_cong)
next
  case (6 sha cat now n)
  then show ?case
    by (auto simp: catalog_delete_branch_def has_snapshot_def intro: get_manifest_cong)
next
  case (7 sha cat now s)
  then show ?case using delete_node_other[of cat sid s] by auto
qed

text \<open>
  C3. A recorded snapshot is immutable: along any sequence of catalog calls - publications,
  recordings (of the same id with other content too), pointer moves, tags, branch and tag
  deletions, and deletions of other nodes - its manifest reads exactly as before.
\<close>

theorem recorded_manifest_immutable:
  assumes "catalog_inv cat" and "has_snapshot cat sid"
    and "\<forall>ev \<in> set evs. snd ev \<noteq> CallDeleteNode sid"
  shows "get_manifest (foldl (catalog_step sha) cat evs) sid = get_manifest cat sid \<and>
         has_snapshot (foldl (catalog_step sha) cat evs) sid"
  using assms
proof (induction evs arbitrary: cat)
  case Nil
  then show ?case by simp
next
  case (Cons ev evs)
  have "catalog_inv (catalog_step sha cat ev)"
    using Cons.prems(1) by (rule catalog_inv_step)
  moreover have "get_manifest (catalog_step sha cat ev) sid = get_manifest cat sid \<and>
      has_snapshot (catalog_step sha cat ev) sid"
    using Cons.prems by (intro catalog_step_keeps) auto
  ultimately show ?case using Cons.IH[of "catalog_step sha cat ev"] Cons.prems(3) by auto
qed

definition demo_catalog :: catalog where
  "demo_catalog = foldl (catalog_step id) empty_catalog
     [(''t0'', CallRecord (demo_node ''c'' Checkpoint [])),
      (''t1'', CallPublish (demo_node ''d'' Delta [''c'']) ''main'')]"

lemma demo_catalog_inv: "catalog_inv demo_catalog"
  unfolding demo_catalog_def by (intro catalog_machine.inv_run catalog_inv_empty)

lemma demo_catalog_has: "has_snapshot demo_catalog ''c''"
  by (simp add: demo_catalog_def record_node_def insert_manifest_def empty_catalog_def demo_node_def
      table_simps catalog_publish_node_def node_of_def parent_snapshot_id_def has_snapshot_def)

theorem recorded_manifest_immutable_witness:
  "get_manifest (foldl (catalog_step id) demo_catalog
      [(''t2'', CallRecord (demo_node ''c'' Delta [''x''])), (''t3'', CallDeleteNode ''d'')]) ''c''
     = get_manifest demo_catalog ''c'' \<and> has_snapshot demo_catalog ''c''"
proof -
  have h: "has_snapshot demo_catalog ''c''" by (rule demo_catalog_has)
  show ?thesis using recorded_manifest_immutable[OF demo_catalog_inv h,
      of "[(''t2'', CallRecord (demo_node ''c'' Delta [''x''])), (''t3'', CallDeleteNode ''d'')]" id]
    h by simp
qed

end
