(* ===== verification/PyText.thy ===== *)
theory PyText
  imports Json
begin

text \<open>
  The string methods of Python that several components call, on ASCII text: \<^verbatim>\<open>str.lower\<close> by character,
  \<^verbatim>\<open>str.split\<close> with a separator, \<^verbatim>\<open>str.startswith\<close>, \<^verbatim>\<open>str.endswith\<close> and \<^verbatim>\<open>str.zfill\<close>; and
  the \<^verbatim>\<open>LIKE\<close> operator of the SQL the code runs.
\<close>

definition lower_char :: "char \<Rightarrow> char" where
  "lower_char c = (let n = (of_char c :: nat) in if 65 \<le> n \<and> n \<le> 90 then char_of (n + 32) else c)"

fun split_on :: "char \<Rightarrow> string \<Rightarrow> string list" where
  "split_on c [] = [[]]"
| "split_on c (d # s) = (if d = c then [] # split_on c s
     else (case split_on c s of [] \<Rightarrow> [[d]] | w # ws \<Rightarrow> (d # w) # ws))"

lemma split_on_word: "c \<notin> set w \<Longrightarrow> split_on c w = [w]"
  by (induction w) auto

lemma split_on_append: "c \<notin> set w \<Longrightarrow> split_on c (w @ c # s) = w # split_on c s"
  by (induction w) auto

lemma split_on_nonempty: "split_on c s \<noteq> []"
  by (cases s) (auto split: list.splits)

lemma split_on_join: "split_on c (u @ c # s) = split_on c u @ split_on c s"
  by (induction u) (auto split: list.splits simp: split_on_nonempty)

lemma split_on_no_sep: "w \<in> set (split_on c s) \<Longrightarrow> c \<notin> set w"
proof (induction s arbitrary: w)
  case Nil
  then show ?case by simp
next
  case (Cons x xs)
  then show ?case using split_on_nonempty[of c xs]
    by (cases "split_on c xs") (auto split: if_splits)
qed

text \<open>\<^verbatim>\<open>str.startswith\<close> and \<^verbatim>\<open>str.endswith\<close>\<close>

definition starts_with :: "string \<Rightarrow> string \<Rightarrow> bool" where
  "starts_with p s \<longleftrightarrow> take (length p) s = p"

definition ends_with :: "string \<Rightarrow> string \<Rightarrow> bool" where
  "ends_with p s \<longleftrightarrow> length p \<le> length s \<and> drop (length s - length p) s = p"

lemma starts_with_append: "starts_with p (p @ s)"
  by (simp add: starts_with_def)

text \<open>\<^verbatim>\<open>str.zfill\<close>: zeros go after a sign.\<close>

definition zfill :: "nat \<Rightarrow> string \<Rightarrow> string" where
  "zfill w s =
     (if s \<noteq> [] \<and> hd s \<in> {CHR ''+'', CHR ''-''} then hd s # replicate (w - length s) (CHR ''0'') @ tl s
      else replicate (w - length s) (CHR ''0'') @ s)"

text \<open>SQLite's \<^verbatim>\<open>LIKE\<close>: case of ASCII letters is ignored, a percent sign stands for any text, an underscore for one character.\<close>

fun sql_like :: "string \<Rightarrow> string \<Rightarrow> bool" where
  "sql_like [] s \<longleftrightarrow> s = []"
| "sql_like (p # ps) [] \<longleftrightarrow> p = CHR ''%'' \<and> sql_like ps []"
| "sql_like (p # ps) (c # cs) \<longleftrightarrow>
     (if p = CHR ''%'' then sql_like ps (c # cs) \<or> sql_like (p # ps) cs
      else (p = CHR ''_'' \<or> lower_char p = lower_char c) \<and> sql_like ps cs)"

end
