(* ===== verification/DagPaths.thy ===== *)
theory DagPaths
  imports PyText
begin

text \<open>
  Paths as \<^verbatim>\<open>pathlib\<close> has them and the layout of one DAG repository,
  \<^verbatim>\<open>infra/storage/dag/paths.py\<close>. An absolute path is the list of its components. What the
  operating system knows (what \<^verbatim>\<open>Path.resolve\<close> makes of symbolic links, which files and
  directories exist, their sizes and digests) is a record of functions, a parameter of every
  definition that asks.
\<close>

section \<open>Paths\<close>

type_synonym path = "string list"

text \<open>The components of a path string: empty ones and \<^verbatim>\<open>.\<close> are dropped, \<^verbatim>\<open>..\<close> stays.\<close>

definition path_parts :: "string \<Rightarrow> path" where
  "path_parts s = filter (\<lambda>w. w \<noteq> [] \<and> w \<noteq> ''.'') (split_on CHR ''/'' s)"

definition is_absolute :: "string \<Rightarrow> bool" where
  "is_absolute s \<longleftrightarrow> (case s of [] \<Rightarrow> False | c # _ \<Rightarrow> c = CHR ''/'')"

text \<open>\<^verbatim>\<open>base / name\<close>: an absolute right operand replaces the left one.\<close>

definition join_path :: "path \<Rightarrow> string \<Rightarrow> path" where
  "join_path base name = (if is_absolute name then path_parts name else base @ path_parts name)"

text \<open>\<^verbatim>\<open>root in path.parents\<close>, and \<^verbatim>\<open>path.is_relative_to(root)\<close>\<close>

definition in_parents :: "path \<Rightarrow> path \<Rightarrow> bool" where
  "in_parents rdir p \<longleftrightarrow> length rdir < length p \<and> take (length rdir) p = rdir"

definition is_relative_to :: "path \<Rightarrow> path \<Rightarrow> bool" where
  "is_relative_to p rdir \<longleftrightarrow> take (length rdir) p = rdir"

record dir_entry =
  de_name :: string
  de_is_dir :: bool
  de_mtime :: rat

record filesystem =
  fs_resolve :: "path \<Rightarrow> path"
  fs_is_file :: "path \<Rightarrow> bool"
  fs_is_dir :: "path \<Rightarrow> bool"
  fs_is_symlink :: "path \<Rightarrow> bool"
  fs_exists :: "path \<Rightarrow> bool"
  fs_size :: "path \<Rightarrow> int"
  fs_sha256 :: "path \<Rightarrow> string"
  fs_iterdir :: "path \<Rightarrow> dir_entry list"
  fs_tree_bytes :: "path \<Rightarrow> int"

lemma path_parts_single:
  "CHR ''/'' \<notin> set s \<Longrightarrow> s \<noteq> [] \<Longrightarrow> s \<noteq> ''.'' \<Longrightarrow> path_parts s = [s]"
  by (simp add: path_parts_def split_on_word)

lemma is_relative_to_iff: "is_relative_to p rdir \<longleftrightarrow> (\<exists>rest. p = rdir @ rest)"
  by (metis append_eq_conv_conj append_take_drop_id is_relative_to_def)

lemma in_parents_iff: "p = rdir \<or> in_parents rdir p \<longleftrightarrow> is_relative_to p rdir"
proof
  assume "p = rdir \<or> in_parents rdir p"
  then show "is_relative_to p rdir" by (auto simp: in_parents_def is_relative_to_def)
next
  assume "is_relative_to p rdir"
  then obtain rest where "p = rdir @ rest" by (auto simp: is_relative_to_iff)
  then show "p = rdir \<or> in_parents rdir p" by (cases rest) (auto simp: in_parents_def)
qed

section \<open>The layout of a repository\<close>

definition CATALOG_DB_NAME :: string where "CATALOG_DB_NAME = ''catalog.sqlite''"
definition BRANCHES_DIR_NAME :: string where "BRANCHES_DIR_NAME = ''branches''"
definition TAGS_DIR_NAME :: string where "TAGS_DIR_NAME = ''tags''"
definition STAGING_PREFIX :: string where "STAGING_PREFIX = ''.stage-''"
definition PUBLICATION_LOCK_FILE :: string where "PUBLICATION_LOCK_FILE = ''.publication.lock''"

definition catalog_file :: "path \<Rightarrow> path" where
  "catalog_file rdir = join_path rdir CATALOG_DB_NAME"

definition parts_root :: "path \<Rightarrow> path" where
  "parts_root rdir = join_path rdir ''parts''"

definition branches_root :: "path \<Rightarrow> path" where
  "branches_root rdir = join_path rdir BRANCHES_DIR_NAME"

definition branch_dir :: "path \<Rightarrow> string \<Rightarrow> path" where
  "branch_dir rdir branch_name = join_path (branches_root rdir) branch_name"

definition tags_root :: "path \<Rightarrow> path" where
  "tags_root rdir = join_path rdir TAGS_DIR_NAME"

definition snapshot_dir :: "path \<Rightarrow> string \<Rightarrow> path" where
  "snapshot_dir rdir snapshot_id = join_path rdir snapshot_id"

definition relation_dir :: "path \<Rightarrow> string \<Rightarrow> string \<Rightarrow> path" where
  "relation_dir rdir snapshot_id relation = join_path (snapshot_dir rdir snapshot_id) relation"

text \<open>\<^verbatim>\<open>f"part-{index:05d}.parquet"\<close>\<close>

definition part_file_name :: "nat \<Rightarrow> string" where
  "part_file_name index =
     ''part-'' @ replicate (5 - length (nat_dec index)) (CHR ''0'') @ nat_dec index @ ''.parquet''"

definition part_file :: "path \<Rightarrow> string \<Rightarrow> string \<Rightarrow> nat \<Rightarrow> path" where
  "part_file rdir snapshot_id relation part_index =
     join_path (relation_dir rdir snapshot_id relation) (part_file_name part_index)"

definition staging_dir :: "path \<Rightarrow> string \<Rightarrow> path" where
  "staging_dir rdir stage_id = join_path rdir (STAGING_PREFIX @ stage_id)"

definition publication_lock_path :: "path \<Rightarrow> path" where
  "publication_lock_path rdir = join_path rdir PUBLICATION_LOCK_FILE"

definition is_staging_name :: "string \<Rightarrow> bool" where
  "is_staging_name name \<longleftrightarrow> take (length STAGING_PREFIX) name = STAGING_PREFIX"

definition list_staging_dirs :: "filesystem \<Rightarrow> path \<Rightarrow> path list" where
  "list_staging_dirs fs rdir =
     (if \<not> fs_is_dir fs rdir then []
      else map (\<lambda>d. rdir @ [de_name d])
        (filter (\<lambda>d. de_is_dir d \<and> is_staging_name (de_name d))
          (sort_key de_name (fs_iterdir fs rdir))))"

lemma nat_dec_inj: "nat_dec i = nat_dec j \<Longrightarrow> i = j"
  by (metis digits_val_nat_dec)

lemma digits_val_zeros: "digits_val (replicate k (CHR ''0'') @ s) = digits_val s"
  by (induction k) (simp_all add: digits_val_def digit_val_def)

lemma part_file_name_inj: "part_file_name i = part_file_name j \<Longrightarrow> i = j"
proof -
  assume "part_file_name i = part_file_name j"
  then have "replicate (5 - length (nat_dec i)) (CHR ''0'') @ nat_dec i =
      replicate (5 - length (nat_dec j)) (CHR ''0'') @ nat_dec j"
    unfolding part_file_name_def by simp
  then show "i = j" by (metis digits_val_zeros digits_val_nat_dec)
qed

end
