(* ===== verification/DagLineage.thy ===== *)
theory DagLineage
  imports DagCatalog DagPaths "HOL-Library.Sublist" "HOL-Library.Product_Lexorder"
begin

text \<open>
  Ancestor walks over the catalog: the recursive queries of \<^verbatim>\<open>catalog.py\<close>
  (\<^verbatim>\<open>walk_lineage\<close>, \<^verbatim>\<open>get_active_parts\<close>, \<^verbatim>\<open>prune_parts_for_range\<close>, \<^verbatim>\<open>resolve_relation\<close>,
  \<^verbatim>\<open>audit_graph\<close>) and the checked walk of \<^verbatim>\<open>traversal.py\<close>. The recursive query is a
  \<^verbatim>\<open>UNION ALL\<close> without a visited set: it is a \<open>partial_function\<close> into \<open>option\<close>, with \<open>None\<close>
  when SQLite would never return. The order in which SQLite delivers groups of equal depth is
  a parameter \<open>tie\<close>, of which only that it permutes its argument is assumed.
\<close>

section \<open>The recursive lineage query\<close>

definition lineage_join :: "catalog \<Rightarrow> node_row \<Rightarrow> node_row list" where
  "lineage_join cat l =
     (if nr_kind l = Checkpoint then []
      else concat (map (\<lambda>e. filter (\<lambda>n. nr_snapshot_id n = np_parent_id e) (nodes cat))
             (filter (\<lambda>e. np_snapshot_id e = nr_snapshot_id l) (node_parents cat))))"

definition lineage_step :: "catalog \<Rightarrow> node_row list \<Rightarrow> node_row list" where
  "lineage_step cat level = concat (map (lineage_join cat) level)"

partial_function (option) lineage_levels ::
  "catalog \<Rightarrow> nat \<Rightarrow> node_row list \<Rightarrow> (string \<times> nat) list option" where
  "lineage_levels cat d level =
     (if level = [] then Some []
      else Option.bind (lineage_levels cat (Suc d) (lineage_step cat level))
        (\<lambda>rows. Some (map (\<lambda>n. (nr_snapshot_id n, d)) level @ rows)))"

definition lineage_rows :: "catalog \<Rightarrow> string \<Rightarrow> (string \<times> nat) list option" where
  "lineage_rows cat tip_id =
     lineage_levels cat 0 (filter (\<lambda>n. nr_snapshot_id n = tip_id) (nodes cat))"

text \<open>\<^verbatim>\<open>SELECT snapshot_id, MAX(depth) ... GROUP BY snapshot_id\<close>\<close>

definition max_depth_of :: "(string \<times> nat) list \<Rightarrow> string \<Rightarrow> nat" where
  "max_depth_of rows s = foldr max (map snd (filter (\<lambda>r. fst r = s) rows)) 0"

definition ordered_lineage :: "(string \<times> nat) list \<Rightarrow> (string \<times> nat) list" where
  "ordered_lineage rows = map (\<lambda>s. (s, max_depth_of rows s)) (remdups (map fst rows))"

definition snap_ids ::
  "((string \<times> nat) list \<Rightarrow> (string \<times> nat) list) \<Rightarrow> (string \<times> nat) list \<Rightarrow> string list" where
  "snap_ids tie rows = map fst (sort_key (\<lambda>r. - int (snd r)) (tie (ordered_lineage rows)))"

definition catalog_walk_lineage ::
  "((string \<times> nat) list \<Rightarrow> (string \<times> nat) list) \<Rightarrow> catalog \<Rightarrow> string \<Rightarrow> dag_manifest list option"
  where
  "catalog_walk_lineage tie cat tip_id =
     Option.bind (lineage_rows cat tip_id)
       (\<lambda>rows. Some (List.map_filter (get_manifest cat) (snap_ids tie rows)))"

section \<open>Active parts\<close>

definition active_part_rows :: "catalog \<Rightarrow> (string \<times> nat) list \<Rightarrow> (part_row \<Rightarrow> bool) \<Rightarrow> part_row list" where
  "active_part_rows cat rows P =
     map snd (sort_key (\<lambda>(d, p). (- int d, pt_id p))
       (concat (map (\<lambda>p. map (\<lambda>(s, d). (d, p))
            (filter (\<lambda>(s, d). s = pt_snapshot_id p) (ordered_lineage rows)))
          (filter P (parts cat)))))"

definition get_active_parts ::
  "catalog \<Rightarrow> string \<Rightarrow> string list option \<Rightarrow> part_descriptor list option" where
  "get_active_parts cat tip_id relation_names =
     Option.bind (lineage_rows cat tip_id) (\<lambda>rows. Some (map pt_part
       (active_part_rows cat rows
         (case relation_names of
            None \<Rightarrow> (\<lambda>p. True)
          | Some names \<Rightarrow> (if names = [] then (\<lambda>p. True)
                           else (\<lambda>p. pt_relation_name p \<in> set names))))))"

definition prune_parts_for_range ::
  "catalog \<Rightarrow> string \<Rightarrow> string \<Rightarrow> string \<Rightarrow> string \<Rightarrow> part_descriptor list option" where
  "prune_parts_for_range cat tip_id relation_name min_key max_key =
     Option.bind (lineage_rows cat tip_id) (\<lambda>rows. Some (map pt_part
       (active_part_rows cat rows (\<lambda>p. pt_relation_name p = relation_name
          \<and> (case pd_key_min (pt_part p) of None \<Rightarrow> True | Some v \<Rightarrow> v \<le> max_key)
          \<and> (case pd_key_max (pt_part p) of None \<Rightarrow> True | Some v \<Rightarrow> min_key \<le> v)))))"

section \<open>Resolving parts to files\<close>

datatype resolve_error =
  NotInCatalog string | NoRelation string string | NoActiveRelation string string
  | BaseEscapes | PartEscapes string | PartMissing string | PartDigestMismatch string

definition resolve_part ::
  "filesystem \<Rightarrow> path \<Rightarrow> path \<Rightarrow> bool \<Rightarrow> part_descriptor \<Rightarrow> (resolve_error, path) result" where
  "resolve_part fs rdir base verify_digests part =
     (let p = fs_resolve fs (join_path base (pd_path part)) in
      if p \<noteq> rdir \<and> \<not> in_parents rdir p then Inl (PartEscapes (pd_path part))
      else if \<not> fs_is_file fs p then Inl (PartMissing (pd_path part))
      else if verify_digests \<and> (pd_sha256 part = [] \<or> fs_sha256 fs p \<noteq> pd_sha256 part)
      then Inl (PartDigestMismatch (pd_path part))
      else Inr p)"

definition resolve_part_descriptors ::
  "filesystem \<Rightarrow> path \<Rightarrow> path option \<Rightarrow> bool \<Rightarrow> part_descriptor list \<Rightarrow> (resolve_error, path list) result"
  where
  "resolve_part_descriptors fs snapshots_root relative_to verify_digests descriptors =
     (let rdir = fs_resolve fs snapshots_root;
          base = (case relative_to of Some b \<Rightarrow> fs_resolve fs b | None \<Rightarrow> rdir) in
      if base \<noteq> rdir \<and> \<not> in_parents rdir base then Inl BaseEscapes
      else mapM (resolve_part fs rdir base verify_digests) descriptors)"

definition resolve_relation ::
  "filesystem \<Rightarrow> path \<Rightarrow> catalog \<Rightarrow> string \<Rightarrow> string \<Rightarrow> path option \<Rightarrow> bool \<Rightarrow> (resolve_error, path list) result"
  where
  "resolve_relation fs snapshots_root cat snapshot_id relation relative_to verify_digests =
     (case get_manifest cat snapshot_id of
        None \<Rightarrow> Inl (NotInCatalog snapshot_id)
      | Some node \<Rightarrow>
          if relation_parts node relation = [] then Inl (NoRelation snapshot_id relation)
          else resolve_part_descriptors fs snapshots_root relative_to verify_digests
                 (relation_parts node relation))"

definition resolve_active_relation ::
  "filesystem \<Rightarrow> path \<Rightarrow> catalog \<Rightarrow> string \<Rightarrow> string \<Rightarrow> path option \<Rightarrow> bool
    \<Rightarrow> (resolve_error, path list) result option" where
  "resolve_active_relation fs snapshots_root cat tip_id relation relative_to verify_digests =
     Option.bind (get_active_parts cat tip_id (Some [relation])) (\<lambda>descriptors. Some (
       if descriptors = [] then Inl (NoActiveRelation tip_id relation)
       else resolve_part_descriptors fs snapshots_root relative_to verify_digests descriptors))"

section \<open>The graph audit\<close>

text \<open>
  The path of the audit query always ends in a slash; \<open>path\<close> is it without that slash. A row is
  joined with the node its first parent names, if that node has a parent of its own.
\<close>

definition on_path :: "string \<Rightarrow> string \<Rightarrow> bool" where
  "on_path path sid \<longleftrightarrow> sublist (''/'' @ sid @ ''/'') (path @ ''/'')"

lemma on_path_extend: "on_path path s \<Longrightarrow> on_path (path @ ''/'' @ t) s"
proof -
  assume "on_path path s"
  then obtain ps ss where "path @ ''/'' = ps @ (''/'' @ s @ ''/'') @ ss"
    unfolding on_path_def sublist_def by auto
  then have "(path @ ''/'') @ t @ ''/'' = ps @ (''/'' @ s @ ''/'') @ (ss @ t @ ''/'')"
    by (metis append.assoc)
  then have "sublist (''/'' @ s @ ''/'') ((path @ ''/'') @ t @ ''/'')"
    unfolding sublist_def by blast
  then show ?thesis by (simp add: on_path_def)
qed

lemma on_path_new: "on_path (path @ ''/'' @ t) t"
  unfolding on_path_def using sublist_appendI[of "''/'' @ t @ ''/''" path "[]"] by simp

function audit_path :: "catalog \<Rightarrow> string \<Rightarrow> string \<Rightarrow> bool" where
  "audit_path cat cur path =
     (case tbl_lookup nr_snapshot_id cur (nodes cat) of
        None \<Rightarrow> False
      | Some n \<Rightarrow>
          (case nr_parent_id n of
             None \<Rightarrow> False
           | Some p \<Rightarrow>
               if on_path path (nr_snapshot_id n) then True
               else audit_path cat p (path @ ''/'' @ nr_snapshot_id n)))"
  by pat_completeness auto

text \<open>Every step puts a node on the path that was not there.\<close>

termination audit_path
proof (relation "measure (\<lambda>(cat, cur, path).
    length (filter (\<lambda>n. \<not> on_path path (nr_snapshot_id n)) (nodes cat)))", goal_cases)
  case 1
  then show ?case by simp
next
  case (2 cat cur path n p)
  have n: "n \<in> set (nodes cat)" using 2(1) tbl_lookup_SomeD by metis
  let ?new = "path @ ''/'' @ nr_snapshot_id n"
  have "length (filter (\<lambda>m. \<not> on_path ?new (nr_snapshot_id m)) (nodes cat))
      < length (filter (\<lambda>m. \<not> on_path path (nr_snapshot_id m)) (nodes cat))"
  proof (rule length_filter_less_strict)
    show "n \<in> set (nodes cat)" by fact
    show "\<not> on_path path (nr_snapshot_id n)" using 2(3) by simp
    show "\<not> \<not> on_path ?new (nr_snapshot_id n)" by (simp add: on_path_new del: append_Cons)
    show "\<not> on_path path (nr_snapshot_id m)" if "\<not> on_path ?new (nr_snapshot_id m)" for m
      using that on_path_extend by blast
  qed
  then show ?case by simp
qed

declare audit_path.simps [simp del]

record orphan_row =
  or_snapshot_id :: string
  or_parent_id :: string

record graph_audit_rows =
  ga_node_count :: nat
  ga_part_count :: nat
  ga_orphan_nodes :: "orphan_row list"
  ga_cycles :: "string list"
  ga_part_paths :: "string list"

definition orphan_nodes :: "catalog \<Rightarrow> orphan_row list" where
  "orphan_nodes cat = List.map_filter (\<lambda>n.
     case nr_parent_id n of
       None \<Rightarrow> None
     | Some p \<Rightarrow> if has_snapshot cat p then None
                 else Some \<lparr>or_snapshot_id = nr_snapshot_id n, or_parent_id = p\<rparr>) (nodes cat)"

definition audit_cycles :: "catalog \<Rightarrow> string list" where
  "audit_cycles cat = remdups (List.map_filter (\<lambda>n.
     case nr_parent_id n of
       None \<Rightarrow> None
     | Some p \<Rightarrow> if audit_path cat p (''/'' @ nr_snapshot_id n) then Some (nr_snapshot_id n)
                 else None) (nodes cat))"

definition catalog_audit_graph :: "catalog \<Rightarrow> graph_audit_rows" where
  "catalog_audit_graph cat =
     \<lparr>ga_node_count = length (nodes cat), ga_part_count = length (parts cat),
      ga_orphan_nodes = orphan_nodes cat, ga_cycles = audit_cycles cat,
      ga_part_paths = remdups (map (\<lambda>p. pd_path (pt_part p)) (parts cat))\<rparr>"

section \<open>The checked walk\<close>

datatype lineage_error =
  CycleDetected "string list" | BrokenLineage string | DigestMismatch string

record lineage_chain =
  lc_tip_id :: string
  lc_checkpoint_anchor_id :: string
  lc_nodes :: "dag_manifest list"

definition chain_depth :: "lineage_chain \<Rightarrow> int" where
  "chain_depth c = int (length (lc_nodes c)) - 1"

definition node_for :: "lineage_chain \<Rightarrow> string \<Rightarrow> dag_manifest option" where
  "node_for c snapshot_id = find (\<lambda>m. mf_snapshot_id m = snapshot_id) (lc_nodes c)"

fun check_parents :: "catalog \<Rightarrow> parent_ref list \<Rightarrow> (lineage_error, unit) result" where
  "check_parents cat [] = Inr ()"
| "check_parents cat (r # rs) =
     (case get_manifest_sha256 cat (pr_snapshot_id r) of
        None \<Rightarrow> Inl (BrokenLineage (pr_snapshot_id r))
      | Some p_digest \<Rightarrow>
          if pr_manifest_sha256 r \<noteq> [] \<and> p_digest \<noteq> pr_manifest_sha256 r
          then Inl (DigestMismatch (pr_snapshot_id r))
          else check_parents cat rs)"

fun check_nodes :: "catalog \<Rightarrow> dag_manifest list \<Rightarrow> (lineage_error, unit) result" where
  "check_nodes cat [] = Inr ()"
| "check_nodes cat (m # ms) =
     bind_res (if mf_kind m = Checkpoint then Inr ()
               else if mf_parents m = [] then Inl (BrokenLineage (mf_snapshot_id m))
               else check_parents cat (mf_parents m))
       (\<lambda>_. check_nodes cat ms)"

definition walk_lineage ::
  "((string \<times> nat) list \<Rightarrow> (string \<times> nat) list) \<Rightarrow> catalog \<Rightarrow> string
    \<Rightarrow> (lineage_error, lineage_chain) result option" where
  "walk_lineage tie cat tip_id =
     (let audit = catalog_audit_graph cat in
      if ga_cycles audit \<noteq> [] then Some (Inl (CycleDetected (ga_cycles audit)))
      else if \<not> has_snapshot cat tip_id then Some (Inl (BrokenLineage tip_id))
      else Option.bind (catalog_walk_lineage tie cat tip_id) (\<lambda>ms. Some (
        if ms = [] then Inl (BrokenLineage tip_id)
        else bind_res (check_nodes cat ms) (\<lambda>_.
          Inr \<lparr>lc_tip_id = tip_id, lc_checkpoint_anchor_id = mf_snapshot_id (hd ms),
               lc_nodes = ms\<rparr>))))"

section \<open>What the recursive query visits\<close>

definition lineage_edge :: "catalog \<Rightarrow> (string \<times> string) set" where
  "lineage_edge cat = {(c, p). \<exists>l \<in> set (nodes cat). \<exists>e \<in> set (node_parents cat).
     nr_snapshot_id l = c \<and> nr_kind l \<noteq> Checkpoint \<and> np_snapshot_id e = c \<and> np_parent_id e = p
     \<and> p \<in> nr_snapshot_id ` set (nodes cat)}"

lemma lineage_edge_nodes:
  "(c, p) \<in> lineage_edge cat \<Longrightarrow> has_snapshot cat c \<and> has_snapshot cat p"
  by (auto simp: lineage_edge_def has_snapshot_iff)

lemma finite_lineage_edge: "finite (lineage_edge cat)"
proof (rule finite_subset)
  let ?S = "nr_snapshot_id ` set (nodes cat)"
  show "lineage_edge cat \<subseteq> ?S \<times> ?S" by (auto simp: lineage_edge_def)
  show "finite (?S \<times> ?S)" by simp
qed

lemma lineage_join_nodes: "set (lineage_join cat l) \<subseteq> set (nodes cat)"
  by (auto simp: lineage_join_def)

lemma node_row_unique:
  "catalog_inv cat \<Longrightarrow> l \<in> set (nodes cat) \<Longrightarrow> l' \<in> set (nodes cat) \<Longrightarrow>
   nr_snapshot_id l = nr_snapshot_id l' \<Longrightarrow> l = l'"
  using tbl_lookup_Some_iff[OF catalog_inv_nodes] by (metis option.inject)

lemma lineage_join_ids:
  assumes "catalog_inv cat" "l \<in> set (nodes cat)"
  shows "nr_snapshot_id ` set (lineage_join cat l) = {p. (nr_snapshot_id l, p) \<in> lineage_edge cat}"
proof -
  have "nr_kind l \<noteq> Checkpoint" if "(nr_snapshot_id l, p) \<in> lineage_edge cat" for p
    using that node_row_unique[OF assms] by (fastforce simp: lineage_edge_def)
  moreover have "nr_snapshot_id ` set (lineage_join cat l) =
      {p. (nr_snapshot_id l, p) \<in> lineage_edge cat}" if "nr_kind l \<noteq> Checkpoint"
    using that assms(2) by (fastforce simp: lineage_join_def lineage_edge_def)
  ultimately show ?thesis by (cases "nr_kind l = Checkpoint") (auto simp: lineage_join_def)
qed

lemma lineage_step_nodes: "set (lineage_step cat level) \<subseteq> set (nodes cat)"
  using lineage_join_nodes by (fastforce simp: lineage_step_def)

lemma lineage_step_ids:
  assumes "catalog_inv cat" "set level \<subseteq> set (nodes cat)"
  shows "nr_snapshot_id ` set (lineage_step cat level) =
    {p. \<exists>n \<in> set level. (nr_snapshot_id n, p) \<in> lineage_edge cat}"
proof -
  have "nr_snapshot_id ` set (lineage_step cat level) =
      (\<Union>n \<in> set level. nr_snapshot_id ` set (lineage_join cat n))"
    by (auto simp: lineage_step_def)
  also have "\<dots> = (\<Union>n \<in> set level. {p. (nr_snapshot_id n, p) \<in> lineage_edge cat})"
    using assms lineage_join_ids by (intro SUP_cong) (blast+)
  finally show ?thesis by auto
qed

text \<open>A row of the query is a node and the length of a path to it.\<close>

lemma lineage_levels_rows:
  assumes "lineage_levels cat d level = Some rows" "catalog_inv cat" "set level \<subseteq> set (nodes cat)"
  shows "(s, k) \<in> set rows \<longleftrightarrow>
    d \<le> k \<and> (\<exists>n \<in> set level. (nr_snapshot_id n, s) \<in> lineage_edge cat ^^ (k - d))"
  using assms
proof (induction arbitrary: s k rule: lineage_levels.raw_induct[rotated 1, consumes 1])
  case (1 levels cat d level rows)
  show ?case
  proof (cases "level = []")
    case True
    then show ?thesis using 1 by auto
  next
    case False
    then obtain rest where rest: "levels cat (Suc d) (lineage_step cat level) = Some rest"
      and rows: "rows = map (\<lambda>n. (nr_snapshot_id n, d)) level @ rest"
      using 1(2) by (auto simp: bind_eq_Some_conv)
    let ?E = "lineage_edge cat"
    have IH: "(s, k) \<in> set rest \<longleftrightarrow> Suc d \<le> k \<and>
        (\<exists>n \<in> set (lineage_step cat level). (nr_snapshot_id n, s) \<in> ?E ^^ (k - Suc d))"
      using 1(1)[OF rest 1(3) lineage_step_nodes] .
    have next_level: "(\<exists>n \<in> set (lineage_step cat level). (nr_snapshot_id n, s) \<in> ?E ^^ j) \<longleftrightarrow>
        (\<exists>n \<in> set level. (nr_snapshot_id n, s) \<in> ?E ^^ Suc j)" for j
    proof -
      have "(\<exists>n \<in> set (lineage_step cat level). (nr_snapshot_id n, s) \<in> ?E ^^ j) \<longleftrightarrow>
          (\<exists>x \<in> nr_snapshot_id ` set (lineage_step cat level). (x, s) \<in> ?E ^^ j)" by blast
      also have "\<dots> \<longleftrightarrow> (\<exists>n \<in> set level. \<exists>x. (nr_snapshot_id n, x) \<in> ?E \<and> (x, s) \<in> ?E ^^ j)"
        unfolding lineage_step_ids[OF 1(3,4)] by blast
      also have "\<dots> \<longleftrightarrow> (\<exists>n \<in> set level. (nr_snapshot_id n, s) \<in> ?E ^^ Suc j)"
        by (metis relpow_Suc_E2 relpow_Suc_I2)
      finally show ?thesis .
    qed
    consider "k < d" | "k = d" | j where "k = Suc (d + j)"
      by (metis less_imp_Suc_add linorder_neqE_nat)
    then show ?thesis
    proof cases
      case 1
      then show ?thesis using IH rows by auto
    next
      case 2
      then show ?thesis using IH rows by force
    next
      case 3
      then show ?thesis using IH rows next_level[of j] by auto
    qed
  qed
qed

lemma lineage_rows_iff:
  assumes "lineage_rows cat tip = Some rows" "catalog_inv cat" "has_snapshot cat tip"
  shows "(s, k) \<in> set rows \<longleftrightarrow> (tip, s) \<in> lineage_edge cat ^^ k"
proof -
  let ?level = "filter (\<lambda>n. nr_snapshot_id n = tip) (nodes cat)"
  have "(s, k) \<in> set rows \<longleftrightarrow> (\<exists>n \<in> set ?level. (nr_snapshot_id n, s) \<in> lineage_edge cat ^^ k)"
    using lineage_levels_rows[of cat 0 ?level rows s k] assms(1,2) by (simp add: lineage_rows_def)
  also have "\<dots> \<longleftrightarrow> (tip, s) \<in> lineage_edge cat ^^ k"
    using assms(3) by (auto simp: has_snapshot_iff)
  finally show ?thesis .
qed

lemma lineage_rows_unknown:
  "\<not> has_snapshot cat tip \<Longrightarrow> lineage_rows cat tip = Some []"
  unfolding lineage_rows_def
  by (subst filter_all_False) (auto simp: has_snapshot_iff lineage_levels.simps)

section \<open>When the query returns\<close>

definition edge_height :: "catalog \<Rightarrow> string \<Rightarrow> nat" where
  "edge_height cat s = card {p. (s, p) \<in> (lineage_edge cat)\<^sup>+}"

lemma edge_height_less:
  assumes "(p, p) \<notin> (lineage_edge cat)\<^sup>+" "(c, p) \<in> lineage_edge cat"
  shows "edge_height cat p < edge_height cat c"
  unfolding edge_height_def
proof (rule psubset_card_mono)
  have "{q. (c, q) \<in> (lineage_edge cat)\<^sup>+} \<subseteq> Range (lineage_edge cat)"
    by (auto dest: tranclD2)
  then show "finite {q. (c, q) \<in> (lineage_edge cat)\<^sup>+}"
    using finite_Range[OF finite_lineage_edge] by (rule finite_subset)
  have "p \<in> {q. (c, q) \<in> (lineage_edge cat)\<^sup>+}" using assms(2) by auto
  then show "{q. (p, q) \<in> (lineage_edge cat)\<^sup>+} \<subset> {q. (c, q) \<in> (lineage_edge cat)\<^sup>+}"
    using assms by (auto intro: trancl_into_trancl2)
qed

lemma lineage_levels_returns:
  assumes inv: "catalog_inv cat"
    and S: "\<And>s. s \<in> S \<Longrightarrow> (s, s) \<notin> (lineage_edge cat)\<^sup>+"
      "\<And>s p. s \<in> S \<Longrightarrow> (s, p) \<in> lineage_edge cat \<Longrightarrow> p \<in> S"
    and "set level \<subseteq> set (nodes cat)" "nr_snapshot_id ` set level \<subseteq> S"
    and "\<forall>n \<in> set level. edge_height cat (nr_snapshot_id n) < h"
  shows "\<exists>rows. lineage_levels cat d level = Some rows"
  using assms(4-6)
proof (induction h arbitrary: d level)
  case 0
  then have "level = []" by (cases level) auto
  then show ?case by (simp add: lineage_levels.simps)
next
  case (Suc h)
  let ?next = "lineage_step cat level"
  have step: "edge_height cat p < h \<and> p \<in> S" if p: "p \<in> nr_snapshot_id ` set ?next" for p
  proof -
    obtain n where n: "n \<in> set level" "(nr_snapshot_id n, p) \<in> lineage_edge cat"
      using p lineage_step_ids[OF inv Suc.prems(1)] by auto
    then have "p \<in> S" using S(2) Suc.prems(2) by blast
    then show ?thesis using edge_height_less[OF S(1) n(2)] n(1) Suc.prems(3) by fastforce
  qed
  have "\<exists>rows. lineage_levels cat (Suc d) ?next = Some rows"
    using Suc.IH[OF lineage_step_nodes, of level "Suc d"] step by blast
  then show ?case by (subst lineage_levels.simps) auto
qed

text \<open>
  The query returns exactly when no ancestor of the tip is on a cycle: a cycle gives rows of
  every depth.
\<close>

lemma lineage_rows_acyclic:
  assumes "lineage_rows cat tip = Some rows" "catalog_inv cat" "(tip, s) \<in> (lineage_edge cat)\<^sup>*"
  shows "(s, s) \<notin> (lineage_edge cat)\<^sup>+"
proof
  let ?E = "lineage_edge cat"
  assume cyc: "(s, s) \<in> ?E\<^sup>+"
  then obtain k where k: "0 < k" "(s, s) \<in> ?E ^^ k" by (auto simp: trancl_power)
  obtain j where j: "(tip, s) \<in> ?E ^^ j" using assms(3) by (auto simp: rtrancl_power)
  have has: "has_snapshot cat tip"
    using assms(3) cyc lineage_edge_nodes by (metis converse_rtranclE tranclD)
  have many: "(s, s) \<in> ?E ^^ (k * i)" for i
  proof (induction i)
    case (Suc i)
    then have "(s, s) \<in> ?E ^^ (k + k * i)" using k(2) by (auto simp: relpow_add)
    then show ?case by simp
  qed simp
  have "(s, j + k * i) \<in> set rows" for i
    using lineage_rows_iff[OF assms(1,2) has] j many[of i] by (auto simp: relpow_add)
  then have "range (\<lambda>i. (s, j + k * i)) \<subseteq> set rows" by auto
  moreover have "infinite (range (\<lambda>i. (s, j + k * i)))"
    using k(1) by (simp add: finite_image_iff inj_def)
  ultimately show False using finite_subset by blast
qed

lemma lineage_rows_returns_iff:
  assumes "catalog_inv cat"
  shows "lineage_rows cat tip = None \<longleftrightarrow>
    (\<exists>s. (tip, s) \<in> (lineage_edge cat)\<^sup>* \<and> (s, s) \<in> (lineage_edge cat)\<^sup>+)"
proof -
  let ?S = "{s. (tip, s) \<in> (lineage_edge cat)\<^sup>*}"
  have "\<exists>rows. lineage_rows cat tip = Some rows" if "\<forall>s \<in> ?S. (s, s) \<notin> (lineage_edge cat)\<^sup>+"
    unfolding lineage_rows_def
    using that by (intro lineage_levels_returns[OF assms, where S = ?S and
        h = "Suc (edge_height cat tip)"]) auto
  then show ?thesis using lineage_rows_acyclic[OF _ assms] by force
qed

section \<open>The order of the walk\<close>

lemma foldr_max_in:
  "xs \<noteq> [] \<Longrightarrow> foldr max xs 0 \<in> set xs \<and> (\<forall>x \<in> set xs. x \<le> foldr max xs (0::nat))"
proof (induction xs)
  case (Cons x xs)
  then show ?case by (cases xs) (auto simp: max_def)
qed simp

lemma max_depth_of_in:
  assumes "s \<in> fst ` set rows"
  shows "(s, max_depth_of rows s) \<in> set rows"
    and "(s, k) \<in> set rows \<Longrightarrow> k \<le> max_depth_of rows s"
proof -
  let ?ds = "map snd (filter (\<lambda>r. fst r = s) rows)"
  have "?ds \<noteq> []" using assms by (auto simp: filter_empty_conv)
  then have *: "max_depth_of rows s \<in> set ?ds" "\<forall>k \<in> set ?ds. k \<le> max_depth_of rows s"
    using foldr_max_in[of ?ds] by (simp_all add: max_depth_of_def)
  then show "(s, max_depth_of rows s) \<in> set rows" by auto
  show "(s, k) \<in> set rows \<Longrightarrow> k \<le> max_depth_of rows s" using *(2) by force
qed

definition is_tie :: "('a list \<Rightarrow> 'a list) \<Rightarrow> bool" where
  "is_tie tie \<longleftrightarrow> (\<forall>xs. mset (tie xs) = mset xs)"

lemma snap_ids_set:
  assumes "is_tie tie"
  shows "set (snap_ids tie rows) = fst ` set rows" "distinct (snap_ids tie rows)"
proof -
  have tie: "mset (tie (ordered_lineage rows)) = mset (ordered_lineage rows)"
    using assms by (simp add: is_tie_def)
  then have "set (tie (ordered_lineage rows)) = set (ordered_lineage rows)"
    by (rule mset_eq_setD)
  then show "set (snap_ids tie rows) = fst ` set rows"
    by (simp add: snap_ids_def ordered_lineage_def image_image)
  have "mset (snap_ids tie rows) = mset (map fst (ordered_lineage rows))"
    by (simp add: snap_ids_def tie)
  moreover have "distinct (map fst (ordered_lineage rows))"
    by (simp add: ordered_lineage_def comp_def)
  ultimately show "distinct (snap_ids tie rows)" by (rule mset_eq_imp_distinct_iff[THEN iffD2])
qed

lemma snap_ids_depth:
  assumes "is_tie tie"
  shows "sorted_wrt (\<lambda>x y. max_depth_of rows y \<le> max_depth_of rows x) (snap_ids tie rows)"
proof -
  let ?ord = "sort_key (\<lambda>r. - int (snd r)) (tie (ordered_lineage rows))"
  have "mset (tie (ordered_lineage rows)) = mset (ordered_lineage rows)"
    using assms unfolding is_tie_def by blast
  from mset_eq_setD[OF this] have "set ?ord = set (ordered_lineage rows)" by simp
  then have snd: "snd r = max_depth_of rows (fst r)" if "r \<in> set ?ord" for r
    using that by (auto simp: ordered_lineage_def)
  have "sorted (map (\<lambda>r. - int (snd r)) ?ord)" by simp
  then have "sorted_wrt (\<lambda>r r'. snd r' \<le> snd r) ?ord" by (simp add: sorted_wrt_map)
  then have "sorted_wrt (\<lambda>r r'. max_depth_of rows (fst r') \<le> max_depth_of rows (fst r)) ?ord"
    by (rule sorted_wrt_mono_rel[rotated]) (simp add: snd)
  then show ?thesis by (simp add: snap_ids_def sorted_wrt_map)
qed

lemma max_depth_less:
  assumes "lineage_rows cat tip = Some rows" "catalog_inv cat" "has_snapshot cat tip"
    and "(tip, x) \<in> (lineage_edge cat)\<^sup>*" "(x, y) \<in> (lineage_edge cat)\<^sup>+"
  shows "max_depth_of rows x < max_depth_of rows y"
proof -
  note iff = lineage_rows_iff[OF assms(1-3)]
  have mem: "s \<in> fst ` set rows" if "(tip, s) \<in> (lineage_edge cat)\<^sup>*" for s
    using that iff by (force simp: rtrancl_power)
  obtain j where j: "0 < j" "(x, y) \<in> lineage_edge cat ^^ j"
    using assms(5) by (auto simp: trancl_power)
  have "(tip, x) \<in> lineage_edge cat ^^ max_depth_of rows x"
    using max_depth_of_in(1)[OF mem[OF assms(4)]] iff by simp
  then have "(y, max_depth_of rows x + j) \<in> set rows" using j(2) iff by (auto simp: relpow_add)
  moreover have "(tip, y) \<in> (lineage_edge cat)\<^sup>*" using assms(4,5) by auto
  ultimately show ?thesis using max_depth_of_in(2)[OF mem] j(1) by fastforce
qed

lemma snap_ids_reach:
  assumes "is_tie tie" "lineage_rows cat tip = Some rows" "catalog_inv cat" "has_snapshot cat tip"
  shows "set (snap_ids tie rows) = {s. (tip, s) \<in> (lineage_edge cat)\<^sup>*}"
proof -
  have "s \<in> fst ` set rows \<longleftrightarrow> (\<exists>k. (s, k) \<in> set rows)" for s by force
  then show ?thesis
    unfolding snap_ids_set(1)[OF assms(1)] using lineage_rows_iff[OF assms(2-4)]
    by (auto simp: rtrancl_power)
qed

lemma snap_ids_topological:
  assumes "is_tie tie" "lineage_rows cat tip = Some rows" "catalog_inv cat" "has_snapshot cat tip"
  shows "sorted_wrt (\<lambda>x y. (x, y) \<notin> (lineage_edge cat)\<^sup>+) (snap_ids tie rows)"
proof (rule sorted_wrt_mono_rel[OF _ snap_ids_depth[OF assms(1)]], rule notI)
  fix x y
  assume "x \<in> set (snap_ids tie rows)" "max_depth_of rows y \<le> max_depth_of rows x"
    and e: "(x, y) \<in> (lineage_edge cat)\<^sup>+"
  then show False using max_depth_less[OF assms(2-4) _ e] snap_ids_reach[OF assms] by auto
qed

section \<open>What a checked walk guarantees\<close>

lemma get_manifest_id: "get_manifest cat s = Some m \<Longrightarrow> mf_snapshot_id m = s"
  by (auto simp: get_manifest_def split: option.splits dest: tbl_lookup_SomeD)

lemma get_manifest_has: "has_snapshot cat s \<longleftrightarrow> get_manifest cat s \<noteq> None"
  by (auto simp: get_manifest_def has_snapshot_def split: option.splits)

lemma map_filter_manifests:
  "(\<And>s. s \<in> set ids \<Longrightarrow> has_snapshot cat s) \<Longrightarrow>
   map mf_snapshot_id (List.map_filter (get_manifest cat) ids) = ids \<and>
   (\<forall>m \<in> set (List.map_filter (get_manifest cat) ids). get_manifest cat (mf_snapshot_id m) = Some m)"
proof (induction ids)
  case Nil
  then show ?case by (simp add: List.map_filter_simps)
next
  case (Cons s ids)
  obtain m where "get_manifest cat s = Some m" using Cons.prems get_manifest_has by fastforce
  then show ?case using Cons by (simp add: List.map_filter_simps get_manifest_id)
qed

lemma reachable_has:
  "(tip, s) \<in> (lineage_edge cat)\<^sup>* \<Longrightarrow> has_snapshot cat tip \<Longrightarrow> has_snapshot cat s"
  by (induction rule: rtrancl_induct) (auto dest: lineage_edge_nodes)

lemma catalog_walk_manifests:
  assumes "is_tie tie" "catalog_inv cat" "has_snapshot cat tip"
    and "catalog_walk_lineage tie cat tip = Some ms"
  obtains rows where "lineage_rows cat tip = Some rows" "map mf_snapshot_id ms = snap_ids tie rows"
    "\<forall>m \<in> set ms. get_manifest cat (mf_snapshot_id m) = Some m"
proof -
  obtain rows where rows: "lineage_rows cat tip = Some rows"
    and ms: "ms = List.map_filter (get_manifest cat) (snap_ids tie rows)"
    using assms(4) by (auto simp: catalog_walk_lineage_def bind_eq_Some_conv)
  have "has_snapshot cat s" if "s \<in> set (snap_ids tie rows)" for s
    using that reachable_has[OF _ assms(3)] snap_ids_reach[OF assms(1) rows assms(2,3)] by blast
  from map_filter_manifests[OF this] show ?thesis using that rows ms by blast
qed

definition parent_ok :: "catalog \<Rightarrow> parent_ref \<Rightarrow> bool" where
  "parent_ok cat r \<longleftrightarrow> (case get_manifest_sha256 cat (pr_snapshot_id r) of
     None \<Rightarrow> False | Some d \<Rightarrow> pr_manifest_sha256 r = [] \<or> d = pr_manifest_sha256 r)"

lemma check_parents_ok: "check_parents cat rs = Inr () \<longleftrightarrow> (\<forall>r \<in> set rs. parent_ok cat r)"
  by (induction rs) (auto simp: parent_ok_def split: option.splits)

lemma check_nodes_ok:
  "check_nodes cat ms = Inr () \<longleftrightarrow>
   (\<forall>m \<in> set ms. mf_kind m = Checkpoint \<or>
      mf_parents m \<noteq> [] \<and> (\<forall>r \<in> set (mf_parents m). parent_ok cat r))"
  by (induction ms) (auto simp: bind_res_Inr_iff check_parents_ok)

lemma parent_edge:
  assumes "get_manifest cat s = Some m" "mf_kind m \<noteq> Checkpoint" "r \<in> set (mf_parents m)"
    and "parent_ok cat r"
  shows "(s, pr_snapshot_id r) \<in> lineage_edge cat"
proof -
  obtain n where n: "n \<in> set (nodes cat)" "nr_snapshot_id n = s"
    and m: "mf_kind m = nr_kind n" "mf_parents m = parents_of cat s"
    using assms(1) by (auto simp: get_manifest_def split: option.splits dest: tbl_lookup_SomeD)
  obtain e where e: "e \<in> set (node_parents cat)" "np_snapshot_id e = s"
      "np_parent_id e = pr_snapshot_id r"
    using assms(3) m(2) by (auto simp: parents_of_def)
  have "pr_snapshot_id r \<in> nr_snapshot_id ` set (nodes cat)"
    using assms(4) has_snapshot_iff
    by (auto simp: parent_ok_def get_manifest_sha256_def has_snapshot_def split: option.splits)
  then show ?thesis using n m e assms(2) by (auto simp: lineage_edge_def)
qed

lemma topological_last:
  assumes "sorted_wrt (\<lambda>x y. (x, y) \<notin> E\<^sup>+) ids" "set ids = {s. (tip, s) \<in> E\<^sup>*}"
  shows "last ids = tip"
proof (rule ccontr)
  assume ne: "last ids \<noteq> tip"
  have "tip \<in> set ids" using assms(2) by simp
  then obtain ys where ids: "ids = ys @ [last ids]" by (metis append_butlast_last_id empty_iff empty_set)
  then have tip: "tip \<in> set ys" using \<open>tip \<in> set ids\<close> ne
    by (metis Un_iff empty_iff insert_iff list.set(1,2) set_append)
  have "sorted_wrt (\<lambda>x y. (x, y) \<notin> E\<^sup>+) (ys @ [last ids])" using assms(1) ids by simp
  then have "(tip, last ids) \<notin> E\<^sup>+" using tip by (simp add: sorted_wrt_append)
  moreover have "(tip, last ids) \<in> E\<^sup>*" using assms(2) ids
    by (metis (mono_tags) last_in_set append_is_Nil_conv list.distinct(1) mem_Collect_eq)
  ultimately show False using ne by (auto dest: rtranclD)
qed

text \<open>
  C4. A walk that succeeds lists every ancestor of the tip up to the checkpoints exactly once,
  each before its descendants; it starts with a checkpoint and ends with the tip; the manifests
  are the recorded ones; and every delta on it has parents, all recorded, each with the digest
  its child recorded for it (unless that is empty).
\<close>

theorem walk_lineage_sound:
  assumes tie: "is_tie tie" and inv: "catalog_inv cat"
    and walk: "walk_lineage tie cat tip = Some (Inr chain)"
  shows "distinct (map mf_snapshot_id (lc_nodes chain))
    \<and> set (map mf_snapshot_id (lc_nodes chain)) = {s. (tip, s) \<in> (lineage_edge cat)\<^sup>*}
    \<and> sorted_wrt (\<lambda>m m'. (mf_snapshot_id m, mf_snapshot_id m') \<notin> (lineage_edge cat)\<^sup>+) (lc_nodes chain)
    \<and> mf_snapshot_id (last (lc_nodes chain)) = tip
    \<and> mf_kind (hd (lc_nodes chain)) = Checkpoint
    \<and> lc_checkpoint_anchor_id chain = mf_snapshot_id (hd (lc_nodes chain))
    \<and> (\<forall>m \<in> set (lc_nodes chain). get_manifest cat (mf_snapshot_id m) = Some m
        \<and> (mf_kind m = Checkpoint
            \<or> mf_parents m \<noteq> [] \<and> (\<forall>r \<in> set (mf_parents m). parent_ok cat r)))"
proof -
  obtain ms where has: "has_snapshot cat tip" and ms: "catalog_walk_lineage tie cat tip = Some ms"
    and ne: "ms \<noteq> []" and ok: "check_nodes cat ms = Inr ()"
    and chain: "lc_nodes chain = ms" "lc_checkpoint_anchor_id chain = mf_snapshot_id (hd ms)"
    using walk by (auto simp: walk_lineage_def Let_def bind_eq_Some_conv bind_res_Inr_iff
        split: if_splits)
  obtain rows where rows: "lineage_rows cat tip = Some rows"
    and ids: "map mf_snapshot_id ms = snap_ids tie rows"
    and got: "\<forall>m \<in> set ms. get_manifest cat (mf_snapshot_id m) = Some m"
    using catalog_walk_manifests[OF tie inv has ms] .
  let ?E = "lineage_edge cat"
  have reach: "set (map mf_snapshot_id ms) = {s. (tip, s) \<in> ?E\<^sup>*}"
    using snap_ids_reach[OF tie rows inv has] ids by simp
  have topo: "sorted_wrt (\<lambda>x y. (x, y) \<notin> ?E\<^sup>+) (map mf_snapshot_id ms)"
    using snap_ids_topological[OF tie rows inv has] ids by simp
  have "last (map mf_snapshot_id ms) = tip" using topological_last[OF topo reach] .
  then have "mf_snapshot_id (last ms) = tip" using ne by (simp add: last_map)
  moreover have "mf_kind (hd ms) = Checkpoint"
  proof (rule ccontr)
    assume delta: "mf_kind (hd ms) \<noteq> Checkpoint"
    have h: "hd ms \<in> set ms" using ne by simp
    then obtain r where r: "r \<in> set (mf_parents (hd ms))" "parent_ok cat r"
      using ok delta by (metis check_nodes_ok last_in_set)
    have e: "(mf_snapshot_id (hd ms), pr_snapshot_id r) \<in> ?E"
      using parent_edge[OF _ delta r] got h by blast
    have "(tip, mf_snapshot_id (hd ms)) \<in> ?E\<^sup>*" using reach h by auto
    then have p: "pr_snapshot_id r \<in> mf_snapshot_id ` set ms" and
      "(mf_snapshot_id (hd ms), mf_snapshot_id (hd ms)) \<notin> ?E\<^sup>+"
      using reach e lineage_rows_acyclic[OF rows inv] by (auto dest: rtrancl_into_rtrancl)
    then have "pr_snapshot_id r \<in> mf_snapshot_id ` set (tl ms)" using e ne
      by (cases ms) auto
    moreover from topo have "\<forall>m \<in> set (tl ms). (mf_snapshot_id (hd ms), mf_snapshot_id m) \<notin> ?E\<^sup>+"
      by (cases ms) auto
    ultimately show False using e by (metis imageE r_into_trancl)
  qed
  moreover have "distinct (map mf_snapshot_id ms)" using snap_ids_set(2)[OF tie] ids by simp
  moreover have "sorted_wrt (\<lambda>m m'. (mf_snapshot_id m, mf_snapshot_id m') \<notin> ?E\<^sup>+) ms"
    using topo by (simp add: sorted_wrt_map)
  ultimately show ?thesis using chain reach got ok by (auto simp: check_nodes_ok)
qed

definition mini_node :: "string \<Rightarrow> node_kind \<Rightarrow> string option \<Rightarrow> node_row" where
  "mini_node sid k p = \<lparr>nr_snapshot_id = sid, nr_kind = k, nr_parent_id = p,
     nr_checkpoint_anchor_id = [], nr_created_at = [], nr_lineage_depth = 0,
     nr_manifest_sha256 = sid, nr_logical_fingerprint = [], nr_schema_versions = [],
     nr_metadata = []\<rparr>"

definition mini_parent :: "string \<Rightarrow> string \<Rightarrow> nat \<Rightarrow> parent_row" where
  "mini_parent s p i = \<lparr>np_snapshot_id = s, np_parent_id = p, np_parent_order = i,
     np_parent_sha256 = p\<rparr>"

definition mini_catalog :: "node_row list \<Rightarrow> parent_row list \<Rightarrow> part_row list \<Rightarrow> catalog" where
  "mini_catalog ns es ps = \<lparr>nodes = ns, node_parents = es, parts = ps, branches = [], tags = [],
     part_seq = length ps\<rparr>"

definition chain_catalog :: catalog where
  "chain_catalog = mini_catalog [mini_node ''c'' Checkpoint None, mini_node ''d'' Delta (Some ''c'')]
     [mini_parent ''d'' ''c'' 0] []"

lemmas mini_simps = mini_node_def mini_parent_def mini_catalog_def

lemma chain_catalog_inv: "catalog_inv chain_catalog"
  by (simp add: chain_catalog_def mini_simps catalog_inv_def tbl_inv_def)

lemma chain_catalog_walk:
  "\<exists>chain. walk_lineage id chain_catalog ''d'' = Some (Inr chain) \<and>
     map mf_snapshot_id (lc_nodes chain) = [''c'', ''d'']"
  by (simp add: walk_lineage_def catalog_audit_graph_def audit_cycles_def chain_catalog_def
      mini_simps audit_path.simps table_simps List.map_filter_simps has_snapshot_def
      catalog_walk_lineage_def lineage_rows_def lineage_levels.simps lineage_step_def
      lineage_join_def snap_ids_def ordered_lineage_def max_depth_of_def get_manifest_def
      parents_of_def relations_of_def group_values_def get_manifest_sha256_def)

theorem walk_lineage_sound_witness:
  "\<exists>chain. walk_lineage id chain_catalog ''d'' = Some (Inr chain) \<and>
     mf_kind (hd (lc_nodes chain)) = Checkpoint \<and> mf_snapshot_id (last (lc_nodes chain)) = ''d''"
proof -
  obtain chain where walk: "walk_lineage id chain_catalog ''d'' = Some (Inr chain)"
    using chain_catalog_walk by blast
  have "is_tie id" by (simp add: is_tie_def)
  from walk_lineage_sound[OF this chain_catalog_inv walk] show ?thesis using walk by blast
qed

lemma walk_diverges_iff:
  assumes "catalog_inv cat"
  shows "walk_lineage tie cat tip = None \<longleftrightarrow>
    audit_cycles cat = [] \<and> (\<exists>s. (tip, s) \<in> (lineage_edge cat)\<^sup>* \<and> (s, s) \<in> (lineage_edge cat)\<^sup>+)"
proof -
  have "has_snapshot cat tip" if "(tip, s) \<in> (lineage_edge cat)\<^sup>*" "(s, s) \<in> (lineage_edge cat)\<^sup>+" for s
    using that lineage_edge_nodes by (metis converse_rtranclE tranclD)
  then show ?thesis using lineage_rows_returns_iff[OF assms, of tip]
    by (auto simp: walk_lineage_def catalog_audit_graph_def catalog_walk_lineage_def
        bind_eq_None_conv)
qed

text \<open>
  C5. The walk fails to return in exactly one situation: the audit saw no cycle, and an ancestor
  of the tip still lies on one. On every acyclic graph it returns.
\<close>

theorem walk_lineage_diverges_iff:
  assumes "catalog_inv cat"
  shows "walk_lineage tie cat tip = None \<longleftrightarrow>
    audit_cycles cat = [] \<and> (\<exists>s. (tip, s) \<in> (lineage_edge cat)\<^sup>* \<and> (s, s) \<in> (lineage_edge cat)\<^sup>+)"
  using walk_diverges_iff[OF assms] .

theorem walk_lineage_diverges_iff_witness:
  "catalog_inv chain_catalog \<and> walk_lineage id chain_catalog ''d'' \<noteq> None \<and>
   \<not> (audit_cycles chain_catalog = [] \<and>
      (''d'', ''d'') \<in> (lineage_edge chain_catalog)\<^sup>+)"
  using walk_lineage_diverges_iff[OF chain_catalog_inv, of id "''d''"] chain_catalog_walk
    chain_catalog_inv by auto

section \<open>What the audit detects\<close>

definition first_parent :: "catalog \<Rightarrow> (string \<times> string) set" where
  "first_parent cat = {(c, p). \<exists>n \<in> set (nodes cat). nr_snapshot_id n = c \<and> nr_parent_id n = Some p}"

definition slash_free :: "string \<Rightarrow> bool" where
  "slash_free s \<longleftrightarrow> CHR ''/'' \<notin> set s"

definition slash_path :: "string list \<Rightarrow> string" where
  "slash_path xs = concat (map (\<lambda>s. ''/'' @ s) xs)"

lemma slash_free_split:
  assumes "slash_free x" "slash_free y" "x @ CHR ''/'' # r = y @ CHR ''/'' # r'"
  shows "x = y"
proof -
  have tw: "takeWhile (\<lambda>c. c \<noteq> CHR ''/'') (z @ CHR ''/'' # q) = z" if "slash_free z" for z q
    using that by (induction z) (auto simp: slash_free_def)
  show ?thesis using tw[OF assms(1), of r] tw[OF assms(2), of r'] assms(3) by simp
qed

lemma on_path_mem:
  assumes "slash_free sid" "\<forall>x \<in> set xs. slash_free x" "on_path (slash_path xs) sid"
  shows "sid \<in> set xs"
proof -
  obtain ps ss where "slash_path xs @ ''/'' = ps @ (''/'' @ sid @ ''/'') @ ss"
    using assms(3) unfolding on_path_def sublist_def by blast
  then show ?thesis using assms(2)
  proof (induction xs arbitrary: ps)
    case Nil
    then have "length (''/''::string) = length (ps @ (''/'' @ sid @ ''/'') @ ss)"
      by (metis slash_path_def append_Nil concat.simps(1) list.map(1))
    then show ?case by simp
  next
    case (Cons x xs)
    obtain rest where rest: "slash_path xs @ ''/'' = CHR ''/'' # rest"
      by (cases xs) (auto simp: slash_path_def)
    have eq: "CHR ''/'' # x @ CHR ''/'' # rest = ps @ CHR ''/'' # sid @ CHR ''/'' # ss"
      using Cons.prems(1) rest by (simp add: slash_path_def)
    show ?case
    proof (cases ps)
      case Nil
      then have "x = sid" using eq slash_free_split assms(1) Cons.prems(2) by auto
      then show ?thesis by simp
    next
      case ps: (Cons a ps')
      then have "x @ CHR ''/'' # rest = ps' @ CHR ''/'' # sid @ CHR ''/'' # ss"
        using eq by (metis append_Cons list.inject)
      then obtain us where "x = ps' @ us \<and> us @ CHR ''/'' # rest = CHR ''/'' # sid @ CHR ''/'' # ss
          \<or> x @ us = ps' \<and> CHR ''/'' # rest = us @ CHR ''/'' # sid @ CHR ''/'' # ss"
        by (auto simp: append_eq_append_conv2)
      moreover have "us = []" if "x = ps' @ us" "us @ CHR ''/'' # rest = CHR ''/'' # t" for t
        using that Cons.prems(2) by (cases us) (auto simp: slash_free_def)
      ultimately have "\<exists>vs. CHR ''/'' # rest = vs @ CHR ''/'' # sid @ CHR ''/'' # ss" by fastforce
      then obtain vs where "slash_path xs @ ''/'' = vs @ (''/'' @ sid @ ''/'') @ ss"
        using rest by auto
      then show ?thesis using Cons.IH Cons.prems(2) by auto
    qed
  qed
qed

lemma slash_path_snoc: "slash_path (xs @ [x]) = slash_path xs @ ''/'' @ x"
  by (simp add: slash_path_def)

lemma audit_path_cycle:
  assumes "audit_path cat cur path" "path = slash_path xs" "\<forall>x \<in> set xs. slash_free x"
    and "\<forall>n \<in> set (nodes cat). slash_free (nr_snapshot_id n)"
    and "\<forall>x \<in> set xs. (x, cur) \<in> (first_parent cat)\<^sup>+"
  shows "\<exists>s. (s, s) \<in> (first_parent cat)\<^sup>+"
  using assms
proof (induction cat cur path arbitrary: xs rule: audit_path.induct)
  case (1 cat cur path)
  obtain n p where n: "tbl_lookup nr_snapshot_id cur (nodes cat) = Some n" "nr_parent_id n = Some p"
    using "1.prems"(1) by (subst (asm) audit_path.simps) (auto split: option.splits)
  then have cur: "n \<in> set (nodes cat)" "nr_snapshot_id n = cur" by (auto dest: tbl_lookup_SomeD)
  show ?case
  proof (cases "on_path path cur")
    case True
    then have "cur \<in> set xs" using on_path_mem "1.prems"(2-4) cur by blast
    then show ?thesis using "1.prems"(5) by blast
  next
    case False
    have "(cur, p) \<in> first_parent cat" using n(2) cur by (auto simp: first_parent_def)
    then have "\<forall>x \<in> set (xs @ [cur]). (x, p) \<in> (first_parent cat)\<^sup>+"
      using "1.prems"(5) by (auto intro: trancl_into_trancl)
    moreover have "audit_path cat p (path @ ''/'' @ cur)"
      using "1.prems"(1) n cur False by (subst (asm) audit_path.simps) simp
    moreover have "path @ ''/'' @ cur = slash_path (xs @ [cur])"
      using "1.prems"(2) by (simp add: slash_path_snoc)
    moreover have "\<forall>x \<in> set (xs @ [cur]). slash_free x" using "1.prems"(3,4) cur by auto
    ultimately show ?thesis
      using "1.IH"[OF n(1) n(2) _ _ _ _ "1.prems"(4)] False cur(2) by blast
  qed
qed

lemma audit_path_on_cycle:
  assumes "catalog_inv cat" "(cur, cur) \<in> (first_parent cat)\<^sup>+"
  shows "audit_path cat cur path"
  using assms
proof (induction cat cur path rule: audit_path.induct)
  case (1 cat cur path)
  obtain p where p: "(cur, p) \<in> first_parent cat" "(p, cur) \<in> (first_parent cat)\<^sup>*"
    using "1.prems"(2) by (auto dest: tranclD)
  then obtain n where n: "tbl_lookup nr_snapshot_id cur (nodes cat) = Some n" "nr_parent_id n = Some p"
    using tbl_lookup_Some_iff[OF catalog_inv_nodes[OF "1.prems"(1)]]
    by (auto simp: first_parent_def)
  have "(p, p) \<in> (first_parent cat)\<^sup>+" using p by (meson rtrancl_into_trancl1)
  then show ?case using "1.IH"[OF n] "1.prems"(1) n by (subst audit_path.simps) auto
qed

lemma audit_cycles_mem:
  "s \<in> set (audit_cycles cat) \<longleftrightarrow> (\<exists>n \<in> set (nodes cat). \<exists>p. nr_snapshot_id n = s \<and>
     nr_parent_id n = Some p \<and> audit_path cat p (''/'' @ s))"
  unfolding audit_cycles_def set_remdups set_map_filter_iff
  by (intro bex_cong refl) (auto split: option.splits)

text \<open>
  With snapshot ids that hold no slash, the audit reports no cycle exactly when the graph of
  first parents has none, and it reports every node of every such cycle.
\<close>

theorem audit_cycles_iff:
  assumes "catalog_inv cat" "\<forall>n \<in> set (nodes cat). slash_free (nr_snapshot_id n)"
  shows "(audit_cycles cat = [] \<longleftrightarrow> acyclic (first_parent cat))
    \<and> {s. (s, s) \<in> (first_parent cat)\<^sup>+} \<subseteq> set (audit_cycles cat)"
proof
  show sub: "{s. (s, s) \<in> (first_parent cat)\<^sup>+} \<subseteq> set (audit_cycles cat)"
  proof
    fix s assume "s \<in> {s. (s, s) \<in> (first_parent cat)\<^sup>+}"
    then obtain p where p: "(s, p) \<in> first_parent cat" "(p, s) \<in> (first_parent cat)\<^sup>*"
      by (auto dest: tranclD)
    then have "(p, p) \<in> (first_parent cat)\<^sup>+" by (meson rtrancl_into_trancl1)
    then show "s \<in> set (audit_cycles cat)"
      using p(1) audit_path_on_cycle[OF assms(1)] by (auto simp: audit_cycles_mem first_parent_def)
  qed
  have "\<exists>s. (s, s) \<in> (first_parent cat)\<^sup>+" if s: "s \<in> set (audit_cycles cat)" for s
  proof -
    obtain n p where n: "n \<in> set (nodes cat)" "nr_snapshot_id n = s" "nr_parent_id n = Some p"
      and a: "audit_path cat p (''/'' @ s)" using s audit_cycles_mem by metis
    then have "\<forall>x \<in> set [s]. (x, p) \<in> (first_parent cat)\<^sup>+" by (auto simp: first_parent_def)
    then show ?thesis using audit_path_cycle[OF a, of "[s]"] n assms(2)
      by (auto simp: slash_path_def)
  qed
  then show "audit_cycles cat = [] \<longleftrightarrow> acyclic (first_parent cat)"
    using sub unfolding acyclic_def
    by (metis empty_iff empty_set list.set_intros(1) neq_Nil_conv mem_Collect_eq subsetD)
qed

definition loop_catalog :: catalog where
  "loop_catalog = mini_catalog [mini_node ''a'' Delta (Some ''b''), mini_node ''b'' Delta (Some ''a'')]
     [mini_parent ''a'' ''b'' 0, mini_parent ''b'' ''a'' 0] []"

theorem audit_cycles_iff_witness:
  "catalog_inv loop_catalog \<and> \<not> acyclic (first_parent loop_catalog)
   \<and> audit_cycles loop_catalog \<noteq> []"
proof -
  have inv: "catalog_inv loop_catalog"
    by (simp add: loop_catalog_def mini_simps catalog_inv_def tbl_inv_def)
  have sf: "\<forall>n \<in> set (nodes loop_catalog). slash_free (nr_snapshot_id n)"
    by (simp add: loop_catalog_def mini_simps slash_free_def)
  have "(''a'', ''b'') \<in> first_parent loop_catalog" "(''b'', ''a'') \<in> first_parent loop_catalog"
    by (auto simp: first_parent_def loop_catalog_def mini_simps)
  then have "(''a'', ''a'') \<in> (first_parent loop_catalog)\<^sup>+" by (meson trancl.simps)
  then show ?thesis using audit_cycles_iff[OF inv sf] inv sf by (auto simp: acyclic_def)
qed

definition second_parent_cycle :: catalog where
  "second_parent_cycle = foldl (catalog_step id) empty_catalog
     [(''t0'', CallRecord (demo_node ''c'' Checkpoint [])),
      (''t1'', CallRecord (demo_node ''a'' Delta [''c'', ''b''])),
      (''t2'', CallRecord (demo_node ''b'' Delta [''a'']))]"

text \<open>
  The audit does not follow second parents. A delta \<open>a\<close> with parents \<open>c\<close> and \<open>b\<close>, recorded
  before its parent \<open>b\<close> whose own parent is \<open>a\<close>, passes the audit, and the walk from \<open>a\<close> never
  returns.
\<close>

theorem second_parent_cycle_diverges:
  "ga_cycles (catalog_audit_graph second_parent_cycle) = [] \<and>
   ga_orphan_nodes (catalog_audit_graph second_parent_cycle) = [] \<and>
   walk_lineage tie second_parent_cycle ''a'' = None"
proof -
  have inv: "catalog_inv second_parent_cycle"
    unfolding second_parent_cycle_def by (intro catalog_machine.inv_run catalog_inv_empty)
  have eq: "nodes second_parent_cycle = map (node_of id)
      [demo_node ''c'' Checkpoint [], demo_node ''a'' Delta [''c'', ''b''], demo_node ''b'' Delta [''a'']]"
    "node_parents second_parent_cycle = parent_rows (demo_node ''a'' Delta [''c'', ''b''])
      @ parent_rows (demo_node ''b'' Delta [''a''])"
    by (simp_all add: second_parent_cycle_def record_node_def insert_manifest_def empty_catalog_def
        demo_node_def table_simps node_of_def parent_rows_def)
  note rows = eq node_of_def parent_rows_def demo_node_def parent_snapshot_id_def
  have "(''a'', ''b'') \<in> lineage_edge second_parent_cycle"
    "(''b'', ''a'') \<in> lineage_edge second_parent_cycle"
    by (simp_all add: lineage_edge_def rows)
  then have "(''a'', ''a'') \<in> (lineage_edge second_parent_cycle)\<^sup>+" by (meson trancl.simps)
  moreover have ok: "audit_cycles second_parent_cycle = []"
    by (simp add: audit_cycles_def rows audit_path.simps table_simps List.map_filter_simps
        on_path_def sublist_code)
  ultimately have "walk_lineage tie second_parent_cycle ''a'' = None"
    using walk_diverges_iff[OF inv] by blast
  then show ?thesis using ok
    by (simp add: catalog_audit_graph_def orphan_nodes_def rows has_snapshot_def table_simps
        List.map_filter_simps)
qed

section \<open>Active parts, in ancestor order\<close>

definition joined_parts :: "catalog \<Rightarrow> (string \<times> nat) list \<Rightarrow> (part_row \<Rightarrow> bool) \<Rightarrow> (nat \<times> part_row) list" where
  "joined_parts cat rows P = concat (map (\<lambda>p. map (\<lambda>(s, d). (d, p))
     (filter (\<lambda>(s, d). s = pt_snapshot_id p) (ordered_lineage rows))) (filter P (parts cat)))"

lemma ordered_lineage_join:
  "map (\<lambda>(s, d). (d, p)) (filter (\<lambda>(s, d). s = t) (ordered_lineage rows)) =
     (if t \<in> fst ` set rows then [(max_depth_of rows t, p)] else [])"
proof -
  have "filter (\<lambda>s. s = t) (remdups xs) = (if t \<in> set xs then [t] else [])" for xs :: "string list"
    by (induction xs) auto
  then show ?thesis
    by (simp add: ordered_lineage_def filter_map comp_def)
qed

lemma joined_parts_eq:
  "joined_parts cat rows P = map (\<lambda>p. (max_depth_of rows (pt_snapshot_id p), p))
     (filter (\<lambda>p. P p \<and> pt_snapshot_id p \<in> fst ` set rows) (parts cat))"
proof -
  have "concat (map (\<lambda>p. if Q p then [f p] else []) (filter P xs)) =
      map f (filter (\<lambda>p. P p \<and> Q p) xs)" for Q :: "part_row \<Rightarrow> bool" and f :: "part_row \<Rightarrow> nat \<times> part_row" and xs
    by (induction xs) auto
  then show ?thesis unfolding joined_parts_def ordered_lineage_join .
qed

lemma active_part_rows_eq:
  "active_part_rows cat rows P = sort_key (\<lambda>p. (- int (max_depth_of rows (pt_snapshot_id p)), pt_id p))
     (filter (\<lambda>p. P p \<and> pt_snapshot_id p \<in> fst ` set rows) (parts cat))"
proof -
  have insort: "insort_key (\<lambda>(d, p). (- int d, pt_id p)) (g p, p) (map (\<lambda>p. (g p, p)) xs) =
      map (\<lambda>p. (g p, p)) (insort_key (\<lambda>p. (- int (g p), pt_id p)) p xs)" for g and p :: part_row and xs
    by (induction xs) auto
  have "sort_key (\<lambda>(d, p). (- int d, pt_id p)) (map (\<lambda>p. (g p, p)) xs) =
      map (\<lambda>p. (g p, p)) (sort_key (\<lambda>p. (- int (g p), pt_id p)) xs)" for g and xs :: "part_row list"
    by (induction xs) (simp_all add: insort)
  then show ?thesis
    unfolding active_part_rows_def joined_parts_def[symmetric] joined_parts_eq by (simp add: comp_def)
qed

lemma active_part_rows_filter:
  "filter Q (active_part_rows cat rows P) = active_part_rows cat rows (\<lambda>p. P p \<and> Q p)"
  by (simp add: active_part_rows_eq filter_sort) (meson)

text \<open>
  The active parts of a relation are the parts of that relation of all ancestors of the tip,
  ancestors before descendants and, within one snapshot, in the order they were recorded.
\<close>

theorem active_parts_ancestor_order:
  assumes "catalog_inv cat" "has_snapshot cat tip"
    and "get_active_parts cat tip (Some [relation]) = Some ps"
  shows "\<exists>rs. ps = map pt_part rs
    \<and> mset rs = mset (filter (\<lambda>r. pt_relation_name r = relation
          \<and> (tip, pt_snapshot_id r) \<in> (lineage_edge cat)\<^sup>*) (parts cat))
    \<and> sorted_wrt (\<lambda>r r'. (pt_snapshot_id r, pt_snapshot_id r') \<notin> (lineage_edge cat)\<^sup>+) rs
    \<and> sorted_wrt (\<lambda>r r'. pt_snapshot_id r = pt_snapshot_id r' \<longrightarrow> pt_id r \<le> pt_id r') rs"
proof -
  obtain rows where rows: "lineage_rows cat tip = Some rows"
    and ps: "ps = map pt_part (active_part_rows cat rows (\<lambda>p. pt_relation_name p \<in> {relation}))"
    using assms(3) by (auto simp: get_active_parts_def bind_eq_Some_conv)
  let ?E = "lineage_edge cat" and ?depth = "\<lambda>r. max_depth_of rows (pt_snapshot_id r)"
  let ?rs = "active_part_rows cat rows (\<lambda>p. pt_relation_name p \<in> {relation})"
  have reach: "s \<in> fst ` set rows \<longleftrightarrow> (tip, s) \<in> ?E\<^sup>*" for s
    using snap_ids_reach[OF _ rows assms(1,2), of id] snap_ids_set(1)[of id rows]
    by (auto simp: is_tie_def)
  have rs: "?rs = sort_key (\<lambda>p. (- int (?depth p), pt_id p))
      (filter (\<lambda>r. pt_relation_name r = relation \<and> (tip, pt_snapshot_id r) \<in> ?E\<^sup>*) (parts cat))"
    unfolding active_part_rows_eq reach by simp
  then have mset: "mset ?rs = mset (filter (\<lambda>r. pt_relation_name r = relation
          \<and> (tip, pt_snapshot_id r) \<in> ?E\<^sup>*) (parts cat))" by simp
  have "sorted (map (\<lambda>p. (- int (?depth p), pt_id p)) ?rs)" unfolding rs by (rule sorted_sort_key)
  then have sorted: "sorted_wrt (\<lambda>r r'. (- int (?depth r), pt_id r) \<le> (- int (?depth r'), pt_id r')) ?rs"
    by (simp add: sorted_wrt_map)
  have deeper: "?depth r < ?depth r'"
    if "r \<in> set ?rs" "(pt_snapshot_id r, pt_snapshot_id r') \<in> ?E\<^sup>+" for r r'
    using that max_depth_less[OF rows assms(1,2)] unfolding rs by auto
  have "sorted_wrt (\<lambda>r r'. (pt_snapshot_id r, pt_snapshot_id r') \<notin> ?E\<^sup>+) ?rs"
    by (rule sorted_wrt_mono_rel[OF _ sorted]) (use deeper in force)
  moreover have "sorted_wrt (\<lambda>r r'. pt_snapshot_id r = pt_snapshot_id r' \<longrightarrow> pt_id r \<le> pt_id r') ?rs"
    by (rule sorted_wrt_mono_rel[OF _ sorted]) auto
  ultimately show ?thesis using ps mset by blast
qed

definition parts_catalog :: catalog where
  "parts_catalog = mini_catalog [mini_node ''c'' Checkpoint None, mini_node ''d'' Delta (Some ''c'')]
     [mini_parent ''d'' ''c'' 0]
     [\<lparr>pt_id = 1, pt_snapshot_id = ''d'', pt_relation_name = ''r'', pt_part = demo_part\<rparr>,
      \<lparr>pt_id = 2, pt_snapshot_id = ''c'', pt_relation_name = ''r'',
        pt_part = demo_part\<lparr>pd_path := ''q''\<rparr>\<rparr>]"

lemma parts_catalog_inv: "catalog_inv parts_catalog" "has_snapshot parts_catalog ''d''"
  by (simp_all add: parts_catalog_def mini_simps catalog_inv_def tbl_inv_def has_snapshot_def
      table_simps)

lemma parts_catalog_active:
  "get_active_parts parts_catalog ''d'' (Some [''r'']) =
     Some [demo_part\<lparr>pd_path := ''q''\<rparr>, demo_part]"
  by (simp add: get_active_parts_def lineage_rows_def lineage_levels.simps lineage_step_def
      lineage_join_def parts_catalog_def mini_simps active_part_rows_def ordered_lineage_def
      max_depth_of_def)

theorem active_parts_ancestor_order_witness:
  "\<exists>rs :: part_row list. [demo_part\<lparr>pd_path := ''q''\<rparr>, demo_part] = map pt_part rs
    \<and> sorted_wrt (\<lambda>r r'. (pt_snapshot_id r, pt_snapshot_id r') \<notin> (lineage_edge parts_catalog)\<^sup>+) rs"
proof -
  from active_parts_ancestor_order[OF parts_catalog_inv parts_catalog_active]
  obtain rs :: "part_row list" where rs: "[demo_part\<lparr>pd_path := ''q''\<rparr>, demo_part] = map pt_part rs"
    "sorted_wrt (\<lambda>r r'. (pt_snapshot_id r, pt_snapshot_id r') \<notin> (lineage_edge parts_catalog)\<^sup>+) rs"
    by (elim exE conjE)
  show ?thesis by (intro exI[of _ rs] conjI rs)
qed

definition overlaps :: "string \<Rightarrow> string \<Rightarrow> part_descriptor \<Rightarrow> bool" where
  "overlaps min_key max_key p \<longleftrightarrow>
     (case pd_key_min p of None \<Rightarrow> True | Some v \<Rightarrow> v \<le> max_key)
     \<and> (case pd_key_max p of None \<Rightarrow> True | Some v \<Rightarrow> min_key \<le> v)"

text \<open>
  Pruning by a key range returns the active parts whose recorded bounds meet the range, in the
  order of the full list; a part without a bound is never pruned on that side.
\<close>

theorem prune_parts_is_filter:
  "prune_parts_for_range cat tip relation min_key max_key =
     map_option (filter (overlaps min_key max_key)) (get_active_parts cat tip (Some [relation]))"
proof -
  have "active_part_rows cat rows (\<lambda>p. pt_relation_name p = relation
          \<and> (case pd_key_min (pt_part p) of None \<Rightarrow> True | Some v \<Rightarrow> v \<le> max_key)
          \<and> (case pd_key_max (pt_part p) of None \<Rightarrow> True | Some v \<Rightarrow> min_key \<le> v))
     = filter (\<lambda>p. overlaps min_key max_key (pt_part p))
         (active_part_rows cat rows (\<lambda>p. pt_relation_name p \<in> {relation}))" for rows
    unfolding active_part_rows_filter overlaps_def by simp
  then show ?thesis
    by (cases "lineage_rows cat tip")
      (simp_all add: prune_parts_for_range_def get_active_parts_def filter_map comp_def)
qed

section \<open>Resolved files stay under the root\<close>

lemma mapM_Inr_list_all2: "mapM f xs = Inr ys \<Longrightarrow> list_all2 (\<lambda>x y. f x = Inr y) xs ys"
  by (induction xs arbitrary: ys) (auto simp: bind_res_Inr_iff)

lemma resolve_descriptors_contained:
  assumes "resolve_part_descriptors fs snapshots_root relative_to verify ds = Inr paths"
  shows "list_all2 (\<lambda>d p. is_relative_to p (fs_resolve fs snapshots_root) \<and> fs_is_file fs p
    \<and> (verify \<longrightarrow> pd_sha256 d \<noteq> [] \<and> fs_sha256 fs p = pd_sha256 d)) ds paths"
proof -
  obtain base where "mapM (resolve_part fs (fs_resolve fs snapshots_root) base verify) ds = Inr paths"
    using assms by (auto simp: resolve_part_descriptors_def Let_def split: if_splits)
  from mapM_Inr_list_all2[OF this] show ?thesis
    by (rule list_all2_mono)
      (auto simp: resolve_part_def Let_def in_parents_iff[symmetric] split: if_splits)
qed

text \<open>
  C6. Whatever the operating system makes of a part's path, a relation that resolves yields, for
  every active part and in their order, an existing file under the catalog root, with the recorded
  digest when digests are verified; an empty relation is an error.
\<close>

theorem resolve_active_contained:
  assumes "resolve_active_relation fs snapshots_root cat tip relation relative_to verify =
      Some (Inr paths)"
  shows "paths \<noteq> [] \<and> (\<exists>ds. get_active_parts cat tip (Some [relation]) = Some ds
    \<and> list_all2 (\<lambda>d p. is_relative_to p (fs_resolve fs snapshots_root) \<and> fs_is_file fs p
        \<and> (verify \<longrightarrow> pd_sha256 d \<noteq> [] \<and> fs_sha256 fs p = pd_sha256 d)) ds paths)"
proof -
  obtain ds where ds: "get_active_parts cat tip (Some [relation]) = Some ds" "ds \<noteq> []"
    and ok: "resolve_part_descriptors fs snapshots_root relative_to verify ds = Inr paths"
    using assms by (auto simp: resolve_active_relation_def bind_eq_Some_conv split: if_splits)
  from resolve_descriptors_contained[OF ok] show ?thesis using ds
    by (auto dest: list_all2_lengthD)
qed

definition demo_fs :: filesystem where
  "demo_fs = \<lparr>fs_resolve = id, fs_is_file = (\<lambda>p. True), fs_is_dir = (\<lambda>p. True),
     fs_is_symlink = (\<lambda>p. False), fs_exists = (\<lambda>p. True), fs_size = (\<lambda>p. 2),
     fs_sha256 = (\<lambda>p. ''h''), fs_iterdir = (\<lambda>p. []), fs_tree_bytes = (\<lambda>p. 0)\<rparr>"

theorem resolve_active_contained_witness:
  "resolve_active_relation demo_fs [''x''] parts_catalog ''d'' ''r'' None True =
     Some (Inr [[''x'', ''q''], [''x'', ''p'']])
   \<and> list_all2 (\<lambda>d p. is_relative_to p [''x''])
       [demo_part\<lparr>pd_path := ''q''\<rparr>, demo_part] [[''x'', ''q''], [''x'', ''p'']]"
proof -
  have ok: "resolve_active_relation demo_fs [''x''] parts_catalog ''d'' ''r'' None True =
     Some (Inr [[''x'', ''q''], [''x'', ''p'']])"
    by (simp add: resolve_active_relation_def parts_catalog_active resolve_part_descriptors_def
        resolve_part_def demo_fs_def demo_part_def join_path_def is_absolute_def path_parts_def
        in_parents_def)
  show ?thesis using resolve_active_contained[OF ok] ok
    by (simp add: parts_catalog_active demo_fs_def)
qed

end
