(* ===== verification/DagPublication.thy ===== *)
theory DagPublication
  imports DagLineage
begin

text \<open>
  Moving branch pointers, \<^verbatim>\<open>infra/storage/dag/publication.py\<close>, and tags, \<^verbatim>\<open>tags.py\<close>. A function
  that changes the repository returns the directory moves it made and either an error or the new
  catalog: a move is not undone when the catalog raises after it.
\<close>

section \<open>The publication lock\<close>

text \<open>
  The file a \<^verbatim>\<open>PublicationLock\<close> locks: a directory stands for the lock file inside it. A held lock
  makes a non-blocking request fail; a blocking one waits, so the rest of the call runs on the
  catalog as the previous holder left it.
\<close>

definition lock_file :: "filesystem \<Rightarrow> path \<Rightarrow> path" where
  "lock_file fs p = (if fs_is_dir fs p then join_path p PUBLICATION_LOCK_FILE else p)"

datatype publish_error =
  LockHeld | StaleParent "string option" "string option" | CatalogFailed catalog_error
  | SnapshotMissing string | ProtectedBranch string | InvalidTagName string | TagExists string

definition acquire_lock :: "bool \<Rightarrow> bool \<Rightarrow> (publish_error, unit) result" where
  "acquire_lock blocking held = (if held \<and> \<not> blocking then Inl LockHeld else Inr ())"

section \<open>Publishing\<close>

definition target_branch :: "string option \<Rightarrow> string" where
  "target_branch branch_name = (case branch_name of None \<Rightarrow> ''main'' | Some b \<Rightarrow> if b = [] then ''main'' else b)"

definition current_tip :: "catalog \<Rightarrow> string \<Rightarrow> string option" where
  "current_tip cat branch = map_option bp_snapshot_id (catalog_read_pointer cat branch)"

definition staged_moves :: "filesystem \<Rightarrow> path option \<Rightarrow> path \<Rightarrow> (path \<times> path) list" where
  "staged_moves fs staged_dir target =
     (case staged_dir of
        None \<Rightarrow> []
      | Some staged \<Rightarrow> if fs_exists fs staged \<and> \<not> fs_exists fs target then [(staged, target)] else [])"

definition publish_node ::
  "(string \<Rightarrow> string) \<Rightarrow> string \<Rightarrow> filesystem \<Rightarrow> path \<Rightarrow> catalog \<Rightarrow> dag_manifest \<Rightarrow> path option
    \<Rightarrow> string option \<Rightarrow> string option \<Rightarrow> bool \<Rightarrow> bool
    \<Rightarrow> (path \<times> path) list \<times> (publish_error, catalog) result" where
  "publish_node sha now fs rdir cat m staged_dir expected_parent_id branch_name blocking_lock held =
     (case acquire_lock blocking_lock held of
        Inl e \<Rightarrow> ([], Inl e)
      | Inr _ \<Rightarrow>
          (let branch = target_branch branch_name; current_id = current_tip cat branch in
           if current_id \<noteq> expected_parent_id then ([], Inl (StaleParent expected_parent_id current_id))
           else (staged_moves fs staged_dir (join_path rdir (mf_snapshot_id m)),
                 case catalog_publish_node sha now cat m branch of
                   Inl e \<Rightarrow> Inl (CatalogFailed e) | Inr cat' \<Rightarrow> Inr cat')))"

text \<open>\<^verbatim>\<open>read_pointer\<close> drops the manifest digest; \<^verbatim>\<open>read_pointer_id\<close> reads the default branch.\<close>

definition read_pointer :: "catalog \<Rightarrow> string option \<Rightarrow> (string \<times> string \<times> string) option" where
  "read_pointer cat branch_name =
     map_option (\<lambda>p. (bp_snapshot_id p, target_branch branch_name, bp_updated_at p))
       (catalog_read_pointer cat (target_branch branch_name))"

definition read_pointer_id :: "filesystem \<Rightarrow> path \<Rightarrow> (path \<Rightarrow> catalog) \<Rightarrow> string option" where
  "read_pointer_id fs pointer_file catalog_at =
     (if \<not> fs_exists fs pointer_file then None
      else if (pointer_file \<noteq> [] \<and> last pointer_file = CATALOG_DB_NAME) \<or> fs_is_dir fs pointer_file
      then current_tip (catalog_at (if fs_is_file fs pointer_file then butlast pointer_file else pointer_file))
             ''main''
      else None)"

definition checkout_tip ::
  "string \<Rightarrow> catalog \<Rightarrow> string \<Rightarrow> string option \<Rightarrow> (publish_error, catalog) result" where
  "checkout_tip now cat target_snapshot_id branch_name =
     (if \<not> has_snapshot cat target_snapshot_id then Inl (SnapshotMissing target_snapshot_id)
      else Inr (write_pointer now cat (target_branch branch_name) target_snapshot_id))"

definition branch_names :: "catalog \<Rightarrow> string list" where
  "branch_names cat = sort (map fst (list_branches cat))"

definition create_branch :: "string \<Rightarrow> catalog \<Rightarrow> string \<Rightarrow> string \<Rightarrow> (publish_error, catalog) result" where
  "create_branch now cat branch_name snapshot_id =
     (if branch_name = ''current'' \<or> branch_name = [] then Inl (ProtectedBranch branch_name)
      else checkout_tip now cat snapshot_id (Some branch_name))"

definition delete_branch :: "catalog \<Rightarrow> string \<Rightarrow> (publish_error, bool \<times> catalog) result" where
  "delete_branch cat branch_name =
     (if branch_name \<in> {''current'', ''main'', []} then Inl (ProtectedBranch branch_name)
      else Inr (catalog_delete_branch cat branch_name))"

section \<open>Tags\<close>

definition create_tag ::
  "string \<Rightarrow> catalog \<Rightarrow> string \<Rightarrow> string \<Rightarrow> string \<Rightarrow> (publish_error, catalog) result" where
  "create_tag now cat tag_name snapshot_id message =
     (if tag_name = [] \<or> CHR ''/'' \<in> set tag_name then Inl (InvalidTagName tag_name)
      else if \<not> has_snapshot cat snapshot_id then Inl (SnapshotMissing snapshot_id)
      else if get_tag cat tag_name \<noteq> None then Inl (TagExists tag_name)
      else case catalog_create_tag now cat tag_name snapshot_id message of
             Inl e \<Rightarrow> Inl (CatalogFailed e) | Inr cat' \<Rightarrow> Inr cat')"

definition read_tag :: "catalog \<Rightarrow> string \<Rightarrow> (string \<times> string \<times> string \<times> string) option" where
  "read_tag cat tag_name =
     map_option (\<lambda>t. (tg_name t, tg_snapshot_id t, tg_created_at t, tg_message t)) (get_tag cat tag_name)"

definition tag_rows :: "catalog \<Rightarrow> (string \<times> string \<times> string \<times> string) list" where
  "tag_rows cat = map (\<lambda>t. (tg_name t, tg_snapshot_id t, tg_created_at t, tg_message t)) (list_tags cat)"

definition delete_tag :: "catalog \<Rightarrow> string \<Rightarrow> bool \<times> catalog" where
  "delete_tag cat tag_name = catalog_delete_tag cat tag_name"

section \<open>Compare and swap\<close>

lemma current_tip_iff: "current_tip cat b = map_option br_snapshot_id (tbl_lookup br_name b (branches cat))"
  by (simp add: current_tip_def catalog_read_pointer_def option.map_comp comp_def)

lemma catalog_publish_tip:
  assumes "catalog_inv cat" "catalog_publish_node sha now cat m b = Inr cat'"
  shows "catalog_inv cat'" and "current_tip cat' b = Some (mf_snapshot_id m)"
    and "b' \<noteq> b \<Longrightarrow> current_tip cat' b' = current_tip cat b'" and "has_snapshot cat' (mf_snapshot_id m)"
    and "tags cat' = tags cat"
proof -
  show inv: "catalog_inv cat'"
    using catalog_inv_step[OF assms(1), of sha "(now, CallPublish m b)"] assms(2) by simp
  obtain c where ins: "insert_manifest sha cat m = Inr c"
    and cat': "cat' = c\<lparr>branches := tbl_upsert br_name
       \<lparr>br_name = b, br_snapshot_id = mf_snapshot_id m, br_updated_at = now\<rparr> (branches c)\<rparr>"
    using assms(2) by (auto simp: catalog_publish_node_def bind_res_Inr_iff)
  have same: "branches c = branches cat" "tags c = tags cat"
    using ins by (auto simp: insert_manifest_def split: option.splits if_splits)
  have binv: "tbl_inv br_name (branches cat)" using assms(1) by (simp add: catalog_inv_def)
  show "current_tip cat' b = Some (mf_snapshot_id m)"
    using list_table.look_put[OF binv] by (simp add: current_tip_iff cat' same)
  show "b' \<noteq> b \<Longrightarrow> current_tip cat' b' = current_tip cat b'"
    using list_table.look_put[OF binv] by (simp add: current_tip_iff cat' same)
  show "tags cat' = tags cat" by (simp add: cat' same)
  have "has_snapshot c (mf_snapshot_id m)"
  proof (cases "has_snapshot cat (mf_snapshot_id m)")
    case True
    then show ?thesis using insert_manifest_known[OF True ins] by simp
  next
    case False
    then show ?thesis using insert_manifest_fresh[OF False ins]
      by (simp add: has_snapshot_iff node_of_def)
  qed
  then show "has_snapshot cat' (mf_snapshot_id m)" by (simp add: cat' has_snapshot_def)
qed

lemma publish_node_ok:
  assumes "publish_node sha now fs rdir cat m staged expected branch blocking held = (moves, Inr cat')"
  shows "current_tip cat (target_branch branch) = expected"
    and "catalog_publish_node sha now cat m (target_branch branch) = Inr cat'"
  using assms
  by (auto simp: publish_node_def acquire_lock_def Let_def split: if_splits sum.splits)

record publish_request =
  pq_now :: string
  pq_fs :: filesystem
  pq_manifest :: dag_manifest
  pq_staged :: "path option"
  pq_expected :: "string option"
  pq_blocking :: bool
  pq_held :: bool

text \<open>
  Writers of one branch. The lock puts their calls in a sequence; each meets the catalog its
  predecessor left, and an error leaves it unchanged. The result lists, for every call that
  succeeded, the tip it expected and the snapshot it published.
\<close>

fun publish_all ::
  "(string \<Rightarrow> string) \<Rightarrow> path \<Rightarrow> string option \<Rightarrow> catalog \<Rightarrow> publish_request list
    \<Rightarrow> (string option \<times> string) list \<times> catalog" where
  "publish_all sha rdir branch cat [] = ([], cat)"
| "publish_all sha rdir branch cat (q # qs) =
     (case snd (publish_node sha (pq_now q) (pq_fs q) rdir cat (pq_manifest q) (pq_staged q)
                  (pq_expected q) branch (pq_blocking q) (pq_held q)) of
        Inl e \<Rightarrow> publish_all sha rdir branch cat qs
      | Inr cat' \<Rightarrow>
          (let (wins, final) = publish_all sha rdir branch cat' qs
           in ((pq_expected q, mf_snapshot_id (pq_manifest q)) # wins, final)))"

fun linked :: "string option \<Rightarrow> (string option \<times> string) list \<Rightarrow> bool" where
  "linked tip [] = True"
| "linked tip ((expected, new) # rest) = (expected = tip \<and> linked (Some new) rest)"

lemma publish_all_keeps:
  "catalog_inv cat \<Longrightarrow> has_snapshot cat s \<Longrightarrow> has_snapshot (snd (publish_all sha rdir branch cat qs)) s"
proof (induction qs arbitrary: cat)
  case (Cons q qs)
  let ?r = "publish_node sha (pq_now q) (pq_fs q) rdir cat (pq_manifest q) (pq_staged q)
                  (pq_expected q) branch (pq_blocking q) (pq_held q)"
  show ?case
  proof (cases "snd ?r")
    case (Inr cat')
    then obtain moves where "?r = (moves, Inr cat')" by (cases ?r) auto
    note pub = publish_node_ok(2)[OF this]
    have "has_snapshot cat' s"
      using catalog_step_keeps[OF Cons.prems, of "(pq_now q, CallPublish (pq_manifest q) (target_branch branch))" sha]
        pub by simp
    then show ?thesis
      using Cons.IH[OF catalog_publish_tip(1)[OF Cons.prems(1) pub]] Inr by (simp add: split_beta)
  qed (use Cons in simp)
qed simp

text \<open>
  C12. No update is lost: of any sequence of publications to a branch, each one that succeeds expected
  exactly the snapshot the previous success had published, the branch ends at the last of them, and
  that snapshot is recorded.
\<close>

theorem publications_linked:
  assumes "catalog_inv cat" "publish_all sha rdir branch cat qs = (wins, final)"
  shows "catalog_inv final
    \<and> linked (current_tip cat (target_branch branch)) wins
    \<and> current_tip final (target_branch branch) =
        (if wins = [] then current_tip cat (target_branch branch) else Some (snd (last wins)))
    \<and> (\<forall>(e, s) \<in> set wins. has_snapshot final s)"
  using assms
proof (induction qs arbitrary: cat wins)
  case Nil
  then show ?case by auto
next
  case (Cons q qs)
  let ?b = "target_branch branch"
  let ?r = "publish_node sha (pq_now q) (pq_fs q) rdir cat (pq_manifest q) (pq_staged q)
                  (pq_expected q) branch (pq_blocking q) (pq_held q)"
  show ?case
  proof (cases "snd ?r")
    case (Inl e)
    then show ?thesis using Cons.IH[OF Cons.prems(1)] Cons.prems(2) by simp
  next
    case (Inr cat')
    then obtain moves where "?r = (moves, Inr cat')" by (cases ?r) auto
    note ok = publish_node_ok[OF this]
    note pub = catalog_publish_tip[OF Cons.prems(1) ok(2)]
    obtain wins' where rest: "publish_all sha rdir branch cat' qs = (wins', final)"
      and d: "wins = (pq_expected q, mf_snapshot_id (pq_manifest q)) # wins'"
      using Cons.prems(2) Inr by (auto split: prod.splits)
    note IH = Cons.IH[OF pub(1) rest]
    have "has_snapshot final (mf_snapshot_id (pq_manifest q))"
      using publish_all_keeps[OF pub(1) pub(4)] rest by (metis snd_conv)
    then show ?thesis using IH pub(2) ok(1) d by auto
  qed
qed

definition demo_request :: "string \<Rightarrow> string option \<Rightarrow> publish_request" where
  "demo_request sid expected = \<lparr>pq_now = ''t'', pq_fs = demo_fs, pq_manifest = demo_node sid Checkpoint [],
     pq_staged = None, pq_expected = expected, pq_blocking = True, pq_held = False\<rparr>"

theorem publications_linked_witness:
  "\<exists>final. publish_all id [''x''] None empty_catalog
      [demo_request ''a'' None, demo_request ''b'' None, demo_request ''c'' (Some ''a'')]
      = ([(None, ''a''), (Some ''a'', ''c'')], final)
    \<and> current_tip final ''main'' = Some ''c'' \<and> linked None [(None, ''a''), (Some ''a'', ''c'')]"
proof -
  let ?qs = "[demo_request ''a'' None, demo_request ''b'' None, demo_request ''c'' (Some ''a'')]"
  obtain final where run: "publish_all id [''x''] None empty_catalog ?qs =
      ([(None, ''a''), (Some ''a'', ''c'')], final)"
    by (simp add: publish_node_def acquire_lock_def Let_def current_tip_iff target_branch_def
        empty_catalog_def table_simps catalog_publish_node_def insert_manifest_def demo_request_def
        demo_node_def tbl_upsert_def node_of_def parent_rows_def)
  from publications_linked[OF catalog_inv_empty run] run show ?thesis
    by (auto simp: target_branch_def current_tip_iff empty_catalog_def table_simps)
qed

text \<open>
  A publication that fails leaves the catalog as it was, and a stale tip or a held lock is
  detected before any directory moves; one that succeeds moves only its own branch and no tag.
\<close>

theorem publish_node_outcomes:
  assumes "catalog_inv cat"
    and "publish_node sha now fs rdir cat m staged expected branch blocking held = (moves, res)"
  shows "(held \<and> \<not> blocking \<longrightarrow> moves = [] \<and> res = Inl LockHeld)
    \<and> (\<not> (held \<and> \<not> blocking) \<and> current_tip cat (target_branch branch) \<noteq> expected \<longrightarrow>
         moves = [] \<and> res = Inl (StaleParent expected (current_tip cat (target_branch branch))))
    \<and> (\<forall>cat'. res = Inr cat' \<longrightarrow> current_tip cat' (target_branch branch) = Some (mf_snapshot_id m)
         \<and> (\<forall>b. b \<noteq> target_branch branch \<longrightarrow> current_tip cat' b = current_tip cat b)
         \<and> tags cat' = tags cat \<and> catalog_inv cat')"
proof (intro conjI impI allI)
  assume "held \<and> \<not> blocking"
  then show "moves = []" "res = Inl LockHeld"
    using assms(2) by (auto simp: publish_node_def acquire_lock_def)
next
  assume "\<not> (held \<and> \<not> blocking) \<and> current_tip cat (target_branch branch) \<noteq> expected"
  then show "moves = []" "res = Inl (StaleParent expected (current_tip cat (target_branch branch)))"
    using assms(2) by (auto simp: publish_node_def acquire_lock_def Let_def split: if_splits)
next
  fix cat' b
  assume "res = Inr cat'"
  then have ok: "catalog_publish_node sha now cat m (target_branch branch) = Inr cat'"
    using publish_node_ok(2) assms(2) by blast
  show "current_tip cat' (target_branch branch) = Some (mf_snapshot_id m)" "tags cat' = tags cat"
    "catalog_inv cat'"
    by (rule catalog_publish_tip[OF assms(1) ok])+
  show "current_tip cat' b = current_tip cat b" if "b \<noteq> target_branch branch"
    using catalog_publish_tip(3)[OF assms(1) ok that] .
qed

theorem publish_node_outcomes_witness:
  "publish_node id ''t'' demo_fs [''x''] empty_catalog (demo_node ''a'' Checkpoint []) None (Some ''z'') None True False
     = ([], Inl (StaleParent (Some ''z'') None)) \<and> catalog_inv empty_catalog"
proof -
  obtain moves res where r: "publish_node id ''t'' demo_fs [''x''] empty_catalog (demo_node ''a'' Checkpoint [])
      None (Some ''z'') None True False = (moves, res)" by (cases "publish_node id ''t'' demo_fs [''x'']
      empty_catalog (demo_node ''a'' Checkpoint []) None (Some ''z'') None True False")
  have "current_tip empty_catalog (target_branch None) = None"
    by (simp add: current_tip_iff empty_catalog_def table_simps)
  then have "moves = [] \<and> res = Inl (StaleParent (Some ''z'') None)"
    using publish_node_outcomes[OF catalog_inv_empty r, THEN conjunct2, THEN conjunct1] by simp
  then show ?thesis using r catalog_inv_empty by simp
qed

section \<open>Tags do not move\<close>

datatype repo_call =
  RepoPublish dag_manifest "path option" "string option" "string option" bool bool
  | RepoCheckout string "string option" | RepoCreateBranch string string | RepoDeleteBranch string
  | RepoCreateTag string string string

definition keep_on_error :: "catalog \<Rightarrow> (publish_error, catalog) result \<Rightarrow> catalog" where
  "keep_on_error cat r = (case r of Inl e \<Rightarrow> cat | Inr c \<Rightarrow> c)"

fun repo_step :: "(string \<Rightarrow> string) \<Rightarrow> filesystem \<Rightarrow> path \<Rightarrow> catalog \<Rightarrow> string \<times> repo_call \<Rightarrow> catalog" where
  "repo_step sha fs rdir cat (now, RepoPublish m st e b bl h) =
     keep_on_error cat (snd (publish_node sha now fs rdir cat m st e b bl h))"
| "repo_step sha fs rdir cat (now, RepoCheckout s b) = keep_on_error cat (checkout_tip now cat s b)"
| "repo_step sha fs rdir cat (now, RepoCreateBranch b s) = keep_on_error cat (create_branch now cat b s)"
| "repo_step sha fs rdir cat (now, RepoDeleteBranch b) =
     (case delete_branch cat b of Inl e \<Rightarrow> cat | Inr (found, c) \<Rightarrow> c)"
| "repo_step sha fs rdir cat (now, RepoCreateTag n s msg) = keep_on_error cat (create_tag now cat n s msg)"

text \<open>What every call of the two modules keeps: the invariant, existing tags, and that tags and branch
  tips name recorded snapshots.\<close>

definition refs_recorded :: "catalog \<Rightarrow> bool" where
  "refs_recorded cat \<longleftrightarrow> (\<forall>b \<in> set (branches cat). has_snapshot cat (br_snapshot_id b))
     \<and> (\<forall>t \<in> set (tags cat). has_snapshot cat (tg_snapshot_id t))"

lemma has_snapshot_update [simp]:
  "has_snapshot (cat\<lparr>branches := bs\<rparr>) s = has_snapshot cat s"
  "has_snapshot (cat\<lparr>tags := ts\<rparr>) s = has_snapshot cat s"
  by (simp_all add: has_snapshot_def)

lemma set_tbl_upsert: "set (tbl_upsert key r rows) \<subseteq> insert r (set rows)"
  by (auto simp: tbl_upsert_def)

lemma refs_recorded_write:
  "refs_recorded cat \<Longrightarrow> has_snapshot cat s \<Longrightarrow> refs_recorded (write_pointer now cat b s)"
  using set_tbl_upsert[of br_name "\<lparr>br_name = b, br_snapshot_id = s, br_updated_at = now\<rparr>" "branches cat"]
  by (fastforce simp: refs_recorded_def write_pointer_def)

lemma repo_step_publish:
  assumes "catalog_inv cat" "refs_recorded cat" "catalog_publish_node sha now cat m b = Inr cat'"
  shows "refs_recorded cat'"
proof -
  obtain c where ins: "insert_manifest sha cat m = Inr c"
    and cat': "cat' = write_pointer now c b (mf_snapshot_id m)"
    using assms(3) by (auto simp: catalog_publish_node_def bind_res_Inr_iff write_pointer_def)
  have "has_snapshot c s" if "has_snapshot cat s" for s
    using insert_keeps_manifest[OF assms(1) that ins] by blast
  then have "refs_recorded c" using assms(2) ins
    by (auto simp: refs_recorded_def insert_manifest_def split: option.splits if_splits)
  moreover have "has_snapshot c (mf_snapshot_id m)"
    using catalog_publish_tip(4)[OF assms(1,3)] by (simp add: cat' write_pointer_def)
  ultimately show ?thesis unfolding cat' by (rule refs_recorded_write)
qed

definition repo_inv :: "catalog \<Rightarrow> bool" where
  "repo_inv cat \<longleftrightarrow> catalog_inv cat \<and> refs_recorded cat"

lemma repo_inv_write: "repo_inv cat \<Longrightarrow> has_snapshot cat s \<Longrightarrow> repo_inv (write_pointer now cat b s)"
  using refs_recorded_write catalog_inv_step[of cat id "(now, CallWritePointer b s)"]
  by (simp add: repo_inv_def)

lemma repo_inv_step: "repo_inv cat \<Longrightarrow> repo_inv (repo_step sha fs rdir cat ev)"
proof (induction sha fs rdir cat ev rule: repo_step.induct)
  case (1 sha fs rdir cat now m st e b bl h)
  show ?case
  proof (cases "snd (publish_node sha now fs rdir cat m st e b bl h)")
    case (Inr cat')
    then obtain moves where "publish_node sha now fs rdir cat m st e b bl h = (moves, Inr cat')"
      by (metis prod.collapse)
    note ok = publish_node_ok(2)[OF this]
    show ?thesis
      using catalog_publish_tip(1)[OF _ ok] repo_step_publish[OF _ _ ok] 1 Inr
      by (simp add: repo_inv_def keep_on_error_def)
  qed (use 1 in \<open>simp add: keep_on_error_def\<close>)
next
  case (2 sha fs rdir cat now s b)
  then show ?case using repo_inv_write by (simp add: keep_on_error_def checkout_tip_def)
next
  case (3 sha fs rdir cat now b s)
  then show ?case using repo_inv_write by (simp add: keep_on_error_def create_branch_def checkout_tip_def)
next
  case (4 sha fs rdir cat now b)
  have "refs_recorded (snd (catalog_delete_branch cat b))"
    using 4 by (auto simp: repo_inv_def refs_recorded_def catalog_delete_branch_def tbl_delete_def)
  then show ?case
    using 4 catalog_inv_step[of cat sha "(now, CallDeleteBranch b)"]
    by (auto simp: repo_inv_def delete_branch_def split: prod.splits if_splits)
next
  case (5 sha fs rdir cat now n s msg)
  show ?case
  proof (cases "create_tag now cat n s msg")
    case (Inr c)
    then have c: "catalog_create_tag now cat n s msg = Inr c" and s: "has_snapshot cat s"
      by (auto simp: create_tag_def split: if_splits sum.splits)
    then have "refs_recorded c" using 5
      by (auto simp: catalog_create_tag_def repo_inv_def refs_recorded_def split: if_splits)
    then show ?thesis using 5 c catalog_inv_step[of cat sha "(now, CallCreateTag n s msg)"] Inr
      by (simp add: repo_inv_def keep_on_error_def)
  qed (use 5 in \<open>simp add: keep_on_error_def\<close>)
qed

interpretation repo_machine: event_machine "repo_step sha fs rdir" repo_inv for sha fs rdir
  by unfold_locales (rule repo_inv_step)

lemma repo_step_tag:
  assumes "repo_inv cat" "get_tag cat n = Some t"
  shows "get_tag (repo_step sha fs rdir cat ev) n = Some t"
  using assms
proof (induction sha fs rdir cat ev rule: repo_step.induct)
  case (1 sha fs rdir cat now m st e b bl h)
  show ?case
  proof (cases "snd (publish_node sha now fs rdir cat m st e b bl h)")
    case (Inr cat')
    then obtain moves where "publish_node sha now fs rdir cat m st e b bl h = (moves, Inr cat')"
      by (metis prod.collapse)
    note ok = publish_node_ok(2)[OF this]
    show ?thesis using catalog_publish_tip(5)[OF _ ok] 1 Inr
      by (simp add: repo_inv_def keep_on_error_def get_tag_def)
  qed (use 1 in \<open>simp add: keep_on_error_def\<close>)
next
  case (5 sha fs rdir cat now n' s msg)
  then show ?case
    by (auto simp: keep_on_error_def create_tag_def catalog_create_tag_def get_tag_def table_simps
        split: if_splits sum.splits option.splits)
qed (auto simp: keep_on_error_def checkout_tip_def create_branch_def delete_branch_def write_pointer_def
    get_tag_def catalog_delete_branch_def split: if_splits)

text \<open>
  Along any sequence of publications, checkouts, branch creations and deletions and tag creations,
  a tag keeps naming the snapshot it was created for, and every branch and tag names a recorded
  snapshot.
\<close>

theorem tags_immutable:
  assumes "repo_inv cat" "get_tag cat n = Some t"
  shows "get_tag (foldl (repo_step sha fs rdir) cat evs) n = Some t
    \<and> refs_recorded (foldl (repo_step sha fs rdir) cat evs)
    \<and> has_snapshot (foldl (repo_step sha fs rdir) cat evs) (tg_snapshot_id t)"
proof -
  have run: "repo_inv (foldl (repo_step sha fs rdir) cat evs)"
    using assms(1) by (rule repo_machine.inv_run)
  have "get_tag (foldl (repo_step sha fs rdir) cat evs) n = Some t"
    using assms
  proof (induction evs arbitrary: cat)
    case (Cons ev evs)
    then show ?case using repo_inv_step repo_step_tag by simp
  qed simp
  then show ?thesis using run
    by (auto simp: repo_inv_def refs_recorded_def get_tag_def dest: tbl_lookup_SomeD)
qed

definition tagged_catalog :: catalog where
  "tagged_catalog = foldl (repo_step id demo_fs [''x'']) empty_catalog
     [(''t0'', RepoPublish (demo_node ''a'' Checkpoint []) None None None True False),
      (''t1'', RepoCreateTag ''v1'' ''a'' [])]"

theorem tags_immutable_witness:
  "\<exists>t. get_tag (repo_step id demo_fs [''x''] tagged_catalog (''t2'', RepoCreateTag ''v1'' ''b'' [])) ''v1'' = Some t
     \<and> tg_snapshot_id t = ''a''"
proof -
  have inv: "repo_inv tagged_catalog"
    unfolding tagged_catalog_def
    by (rule repo_machine.inv_run)
      (simp add: repo_inv_def catalog_inv_empty, simp add: refs_recorded_def empty_catalog_def)
  let ?t = "\<lparr>tg_name = ''v1'', tg_snapshot_id = ''a'', tg_created_at = ''t1'', tg_message = []\<rparr>"
  have tag: "get_tag tagged_catalog ''v1'' = Some ?t"
    by (simp add: tagged_catalog_def keep_on_error_def publish_node_def acquire_lock_def Let_def
        current_tip_iff target_branch_def empty_catalog_def table_simps catalog_publish_node_def
        insert_manifest_def demo_node_def tbl_upsert_def node_of_def parent_rows_def create_tag_def
        get_tag_def catalog_create_tag_def has_snapshot_def)
  from tags_immutable[OF inv tag, of id demo_fs "[''x'']" "[(''t2'', RepoCreateTag ''v1'' ''b'' [])]"]
  show ?thesis by simp
qed

end
