(* ===== verification/SqlText.thy ===== *)
theory SqlText
  imports DagPaths "HOL-Library.Sublist"
begin

text \<open>
  SQL text built and screened by the program: the literal and identifier helpers of
  \<^verbatim>\<open>infra/storage/duckdb.py\<close> and the read-only filter for operator queries,
  \<^verbatim>\<open>foundation/sql/guard.py\<close>. Texts are ASCII.
\<close>

section \<open>Literals and identifiers\<close>

definition replace_char :: "char \<Rightarrow> string \<Rightarrow> string \<Rightarrow> string" where
  "replace_char c w s = concat (map (\<lambda>x. if x = c then w else [x]) s)"

definition quote1 :: char where "quote1 = CHR 0x27"
definition quote2 :: char where "quote2 = CHR 0x22"

definition sql_literal :: "string \<Rightarrow> string" where
  "sql_literal value = [quote1] @ replace_char quote1 [quote1, quote1] value @ [quote1]"

text \<open>
  \<^verbatim>\<open>re.match\<close> of \<^verbatim>\<open>^[A-Za-z_][A-Za-z0-9_]*$\<close>: the dollar also matches before a final newline.
\<close>

definition identifier_match :: "string \<Rightarrow> bool" where
  "identifier_match s \<longleftrightarrow>
     isidentifier s \<or> (s \<noteq> [] \<and> last s = CHR 0x0A \<and> isidentifier (butlast s))"

definition sql_identifier :: "string \<Rightarrow> (py_error, string) result" where
  "sql_identifier name =
     (if name = [] \<or> \<not> list_all identifier_match (split_on CHR ''.'' name)
      then Inl ValueError else Inr name)"

fun join_with :: "string \<Rightarrow> string list \<Rightarrow> string" where
  "join_with sep [] = []"
| "join_with sep [w] = w"
| "join_with sep (w # ws) = w @ sep @ join_with sep ws"

definition sql_quoted_identifier :: "string \<Rightarrow> (py_error, string) result" where
  "sql_quoted_identifier name =
     (if name = [] \<or> \<not> list_all identifier_match (split_on CHR ''.'' name)
      then Inl ValueError
      else Inr (join_with ''.'' (map (\<lambda>w. [quote2] @ w @ [quote2]) (split_on CHR ''.'' name))))"

definition sql_path_list :: "string list \<Rightarrow> string" where
  "sql_path_list paths = ''['' @ join_with '', '' (map sql_literal paths) @ '']''"

definition quoted_any :: "string \<Rightarrow> string" where
  "quoted_any value = [quote2] @ replace_char quote2 [quote2, quote2] value @ [quote2]"

section \<open>Reading a literal back\<close>

text \<open>
  How SQL reads a quoted text: the characters after the opening quote up to the first quote that
  is not doubled, and the rest.
\<close>

fun read_quoted :: "char \<Rightarrow> string \<Rightarrow> (string \<times> string) option" where
  "read_quoted q [] = None"
| "read_quoted q [c] = (if c = q then Some ([], []) else None)"
| "read_quoted q (c # d # cs) =
     (if c \<noteq> q then map_option (\<lambda>(v, r). (c # v, r)) (read_quoted q (d # cs))
      else if d = q then map_option (\<lambda>(v, r). (q # v, r)) (read_quoted q cs)
      else Some ([], d # cs))"

lemma read_quoted_Cons: "c \<noteq> q \<Longrightarrow> read_quoted q (c # cs) = map_option (\<lambda>(v, r). (c # v, r)) (read_quoted q cs)"
  by (cases cs) auto

lemma read_quoted_replace:
  assumes "rest = [] \<or> hd rest \<noteq> q"
  shows "read_quoted q (replace_char q [q, q] v @ q # rest) = Some (v, rest)"
proof (induction v)
  case Nil
  then show ?case using assms by (cases rest) (auto simp: replace_char_def)
next
  case (Cons c v)
  then show ?case by (cases "c = q") (auto simp: replace_char_def read_quoted_Cons)
qed

section \<open>The read-only guard\<close>

datatype guard_error = QueryEmpty | MultipleStatements | NotReadOnly

definition strip_trailing_semicolon :: "string \<Rightarrow> string" where
  "strip_trailing_semicolon q = strip (rev (dropWhile (\<lambda>c. c = CHR '';'') (rev (strip q))))"

text \<open>\<^verbatim>\<open>query.find(chr(10), index)\<close>, and the text after the end of a block comment\<close>

definition skip_line :: "string \<Rightarrow> string" where
  "skip_line s = dropWhile (\<lambda>c. c \<noteq> CHR 0x0A) s"

fun skip_block :: "string \<Rightarrow> string option" where
  "skip_block (c # d # cs) = (if c = CHR ''*'' \<and> d = CHR ''/'' then Some cs else skip_block (d # cs))"
| "skip_block _ = None"

lemma skip_line_length: "length (skip_line s) \<le> length s"
  by (simp add: skip_line_def length_dropWhile_le)

lemma skip_block_length: "skip_block s = Some r \<Longrightarrow> length r < length s"
  by (induction s rule: skip_block.induct) (auto split: if_splits)

text \<open>The scan of \<^verbatim>\<open>_contains_statement_separator\<close>, on the rest of the text from \<^verbatim>\<open>index\<close>.\<close>

function contains_statement_separator :: "bool \<Rightarrow> bool \<Rightarrow> string \<Rightarrow> bool" where
  "contains_statement_separator in_single in_double [] = False"
| "contains_statement_separator in_single in_double (c # cs) =
     (if \<not> in_double \<and> c = quote1 then
        (if in_single \<and> cs \<noteq> [] \<and> hd cs = quote1
         then contains_statement_separator in_single in_double (tl cs)
         else contains_statement_separator (\<not> in_single) in_double cs)
      else if \<not> in_single \<and> c = quote2 then
        (if in_double \<and> cs \<noteq> [] \<and> hd cs = quote2
         then contains_statement_separator in_single in_double (tl cs)
         else contains_statement_separator in_single (\<not> in_double) cs)
      else if \<not> in_single \<and> \<not> in_double then
        (if c = CHR ''-'' \<and> cs \<noteq> [] \<and> hd cs = CHR ''-''
         then contains_statement_separator in_single in_double (skip_line cs)
         else if c = CHR ''/'' \<and> cs \<noteq> [] \<and> hd cs = CHR ''*''
         then (case skip_block (tl cs) of
                 None \<Rightarrow> False
               | Some r \<Rightarrow> contains_statement_separator in_single in_double r)
         else if c = CHR '';'' then True
         else contains_statement_separator in_single in_double cs)
      else contains_statement_separator in_single in_double cs)"
  by pat_completeness auto

termination contains_statement_separator
proof (relation "measure (\<lambda>(s, d, q). length q)", goal_cases)
  case (6 in_single in_double c cs)
  then show ?case using skip_line_length[of cs] by simp
next
  case (7 in_single in_double c cs r)
  then show ?case using skip_block_length[of "tl cs" r] by (cases cs) auto
qed auto

text \<open>
  The two leading-comment patterns, \<^verbatim>\<open>^\s*--[^\n]*\n\<close> and \<^verbatim>\<open>^\s*/\*.*?\*/\<close>: the text after
  the match, if there is one.
\<close>

definition drop_line_comment :: "string \<Rightarrow> string option" where
  "drop_line_comment s =
     (case dropWhile is_space s of
        c # d # cs \<Rightarrow>
          if c = CHR ''-'' \<and> d = CHR ''-'' \<and> skip_line cs \<noteq> [] then Some (tl (skip_line cs)) else None
      | _ \<Rightarrow> None)"

definition drop_block_comment :: "string \<Rightarrow> string option" where
  "drop_block_comment s =
     (case dropWhile is_space s of
        c # d # cs \<Rightarrow> if c = CHR ''/'' \<and> d = CHR ''*'' then skip_block cs else None
      | _ \<Rightarrow> None)"

lemma drop_line_comment_length: "drop_line_comment s = Some r \<Longrightarrow> length r < length s"
proof -
  assume "drop_line_comment s = Some r"
  then obtain c d cs where "dropWhile is_space s = c # d # cs" "r = tl (skip_line cs)"
    by (auto simp: drop_line_comment_def split: list.splits if_splits)
  then show ?thesis
    using length_dropWhile_le[of is_space s] skip_line_length[of cs] by simp
qed

lemma drop_block_comment_length: "drop_block_comment s = Some r \<Longrightarrow> length r < length s"
proof -
  assume "drop_block_comment s = Some r"
  then obtain c d cs where "dropWhile is_space s = c # d # cs" "skip_block cs = Some r"
    by (auto simp: drop_block_comment_def split: list.splits if_splits)
  then show ?thesis
    using length_dropWhile_le[of is_space s] skip_block_length[of cs r] by simp
qed

function strip_leading_comments :: "string \<Rightarrow> string" where
  "strip_leading_comments s =
     (case drop_line_comment s of
        Some r \<Rightarrow> strip_leading_comments r
      | None \<Rightarrow>
          (case drop_block_comment s of
             Some r \<Rightarrow> strip_leading_comments r
           | None \<Rightarrow> strip s))"
  by pat_completeness auto

termination strip_leading_comments
  by (relation "measure length") (auto dest: drop_line_comment_length drop_block_comment_length)

declare strip_leading_comments.simps [simp del]

text \<open>\<^verbatim>\<open>re.IGNORECASE\<close> on an ASCII keyword, followed by what remains.\<close>

fun match_word :: "string \<Rightarrow> string \<Rightarrow> string option" where
  "match_word [] s = Some s"
| "match_word (k # ks) [] = None"
| "match_word (k # ks) (c # cs) = (if lower_char c = k then match_word ks cs else None)"

definition word_char :: "char \<Rightarrow> bool" where
  "word_char c \<longleftrightarrow> is_alpha_us c \<or> is_digit c"

definition word_end :: "string option \<Rightarrow> bool" where
  "word_end r = (case r of None \<Rightarrow> False | Some [] \<Rightarrow> True | Some (c # _) \<Rightarrow> \<not> word_char c)"

definition match_pragma :: "string \<Rightarrow> string option" where
  "match_pragma s =
     (case match_word ''pragma'' s of
        Some (c # cs) \<Rightarrow>
          if is_space c then match_word ''table_info'' (dropWhile is_space cs) else None
      | _ \<Rightarrow> None)"

definition ALLOWED_LEADING_KEYWORDS :: "string list" where
  "ALLOWED_LEADING_KEYWORDS = [''select'', ''with'', ''describe'', ''explain'', ''show'']"

definition allowed_start :: "string \<Rightarrow> bool" where
  "allowed_start s \<longleftrightarrow>
     (let t = dropWhile is_space s in
      word_end (match_pragma t) \<or> (\<exists>k \<in> set ALLOWED_LEADING_KEYWORDS. word_end (match_word k t)))"

definition validate_read_only :: "string \<Rightarrow> (guard_error, string) result" where
  "validate_read_only query =
     (let normalized = strip_trailing_semicolon query in
      if normalized = [] then Inl QueryEmpty
      else if contains_statement_separator False False normalized then Inl MultipleStatements
      else if \<not> allowed_start (strip_leading_comments normalized) then Inl NotReadOnly
      else Inr normalized)"

section \<open>A reference lexer\<close>

text \<open>
  SQL text as a sequence of quoted texts, comments and single characters. An unterminated quoted
  text or block comment runs to the end.
\<close>

datatype sql_token = Quoted char string | LineComment string | BlockComment string | Plain char

fun quoted_end :: "char \<Rightarrow> string \<Rightarrow> string" where
  "quoted_end q [] = []"
| "quoted_end q [c] = []"
| "quoted_end q (c # d # cs) =
     (if c \<noteq> q then quoted_end q (d # cs) else if d = q then quoted_end q cs else d # cs)"

lemma quoted_end_length: "length (quoted_end q s) \<le> length s"
  by (induction q s rule: quoted_end.induct) auto

definition upto_rest :: "string \<Rightarrow> string \<Rightarrow> string" where
  "upto_rest s rest = take (length s - length rest) s"

function sql_tokens :: "string \<Rightarrow> sql_token list" where
  "sql_tokens [] = []"
| "sql_tokens (c # cs) =
     (if c = quote1 \<or> c = quote2
      then Quoted c (upto_rest cs (quoted_end c cs)) # sql_tokens (quoted_end c cs)
      else if c = CHR ''-'' \<and> cs \<noteq> [] \<and> hd cs = CHR ''-''
      then LineComment (upto_rest cs (skip_line cs)) # sql_tokens (skip_line cs)
      else if c = CHR ''/'' \<and> cs \<noteq> [] \<and> hd cs = CHR ''*''
      then (case skip_block (tl cs) of
              None \<Rightarrow> [BlockComment cs]
            | Some r \<Rightarrow> BlockComment (upto_rest cs r) # sql_tokens r)
      else Plain c # sql_tokens cs)"
  by pat_completeness auto

termination sql_tokens
proof (relation "measure length", goal_cases)
  case (2 c cs)
  then show ?case using quoted_end_length[of c cs] by simp
next
  case (3 c cs)
  then show ?case using skip_line_length[of cs] by simp
next
  case (4 c cs r)
  then show ?case using skip_block_length[of "tl cs" r] by (cases cs) auto
qed auto

fun token_text :: "sql_token \<Rightarrow> string" where
  "token_text (Quoted c s) = c # s"
| "token_text (LineComment s) = CHR ''-'' # s"
| "token_text (BlockComment s) = CHR ''/'' # s"
| "token_text (Plain c) = [c]"

lemma upto_rest_append:
  "suffix rest s \<Longrightarrow> upto_rest s rest @ rest = s"
  by (auto simp: suffix_def upto_rest_def)

lemma quoted_end_suffix: "suffix (quoted_end q s) s"
  by (induction q s rule: quoted_end.induct) (auto intro: suffix_ConsI)

lemma skip_line_suffix: "suffix (skip_line s) s"
  unfolding skip_line_def by (rule suffix_dropWhile)

lemma skip_block_suffix: "skip_block s = Some r \<Longrightarrow> suffix r s"
  by (induction s rule: skip_block.induct) (auto split: if_splits intro: suffix_ConsI)

text \<open>The lexer loses no text.\<close>

lemma sql_tokens_text: "concat (map token_text (sql_tokens s)) = s"
proof (induction s rule: sql_tokens.induct)
  case (2 c cs)
  have "suffix r cs" if "cs \<noteq> []" "skip_block (tl cs) = Some r" for r
    using that skip_block_suffix[of "tl cs" r] by (cases cs) (auto intro: suffix_ConsI)
  then show ?case
    using 2 upto_rest_append[OF quoted_end_suffix[of c cs]] upto_rest_append[OF skip_line_suffix[of cs]]
    by (auto simp: upto_rest_append split: option.splits)
qed simp

lemma scan_quoted:
  "contains_statement_separator True False s = contains_statement_separator False False (quoted_end quote1 s)"
  "contains_statement_separator False True s = contains_statement_separator False False (quoted_end quote2 s)"
proof -
  have q: "quote1 \<noteq> quote2" by (simp add: quote1_def quote2_def)
  show "contains_statement_separator True False s = contains_statement_separator False False (quoted_end quote1 s)"
    by (induction quote1 s rule: quoted_end.induct) (auto simp: q)
  show "contains_statement_separator False True s = contains_statement_separator False False (quoted_end quote2 s)"
    by (induction quote2 s rule: quoted_end.induct) (auto simp: q[symmetric])
qed

lemma scan_is_lexer:
  "contains_statement_separator False False s \<longleftrightarrow> Plain CHR '';'' \<in> set (sql_tokens s)"
proof (induction s rule: sql_tokens.induct)
  case (2 c cs)
  have ne: "quote1 \<noteq> quote2" "CHR ''-'' \<noteq> CHR ''/''" "CHR ''-'' \<noteq> CHR '';''" "CHR ''/'' \<noteq> CHR '';''"
    "quote1 \<noteq> CHR '';''" "quote2 \<noteq> CHR '';''" by (simp_all add: quote1_def quote2_def)
  consider "c = quote1 \<or> c = quote2"
    | "c \<noteq> quote1" "c \<noteq> quote2" "c = CHR ''-'' \<and> cs \<noteq> [] \<and> hd cs = CHR ''-''"
    | "c \<noteq> quote1" "c \<noteq> quote2" "c = CHR ''/'' \<and> cs \<noteq> [] \<and> hd cs = CHR ''*''"
    | "c \<noteq> quote1" "c \<noteq> quote2" "\<not> (c = CHR ''-'' \<and> cs \<noteq> [] \<and> hd cs = CHR ''-'')"
      "\<not> (c = CHR ''/'' \<and> cs \<noteq> [] \<and> hd cs = CHR ''*'')" by blast
  then show ?case
  proof cases
    case 1
    then show ?thesis using 2(1) ne by (elim disjE) (simp_all add: scan_quoted)
  next
    case 2
    then show ?thesis using "2.IH"(2) ne by simp
  next
    case 3
    then show ?thesis using "2.IH"(3) ne by (simp split: option.splits)
  next
    case 4
    then show ?thesis using "2.IH"(4) ne by (simp, blast)
  qed
qed simp

text \<open>The statement after its leading blanks and comments.\<close>

fun ignorable :: "sql_token \<Rightarrow> bool" where
  "ignorable (LineComment _) = True"
| "ignorable (BlockComment _) = True"
| "ignorable (Plain c) = is_space c"
| "ignorable (Quoted _ _) = False"

definition statement_code :: "string \<Rightarrow> string" where
  "statement_code s = concat (map token_text (dropWhile ignorable (sql_tokens s)))"

lemma sql_tokens_space: "is_space c \<Longrightarrow> sql_tokens (c # cs) = Plain c # sql_tokens cs"
  by (auto simp: is_space_def quote1_def quote2_def Let_def)

lemma statement_code_space: "statement_code (dropWhile is_space s) = statement_code s"
  by (induction s) (auto simp: statement_code_def sql_tokens_space simp del: sql_tokens.simps(2))

lemma newline_space: "is_space (CHR 0x0A)"
  by (simp add: is_space_def)

lemma skip_line_head: "skip_line s = c # r \<Longrightarrow> c = CHR 0x0A"
  unfolding skip_line_def using hd_dropWhile[of "\<lambda>c. c \<noteq> CHR 0x0A" s] by auto

lemma statement_code_line_comment:
  assumes "drop_line_comment s = Some r"
  shows "statement_code s = statement_code r"
proof -
  obtain cs x where s: "dropWhile is_space s = CHR ''-'' # CHR ''-'' # cs" "skip_line cs = x # r"
    using assms by (auto simp: drop_line_comment_def neq_Nil_conv split: list.splits if_splits)
  have x: "x = CHR 0x0A" using s(2) by (rule skip_line_head)
  have "skip_line (CHR ''-'' # cs) = x # r" using s(2) by (simp add: skip_line_def)
  then have "statement_code (CHR ''-'' # CHR ''-'' # cs) = statement_code r"
    using sql_tokens_space[OF newline_space, of r] newline_space x
    by (simp add: statement_code_def quote1_def quote2_def del: sql_tokens.simps(2))
      (simp add: quote1_def quote2_def)
  then show ?thesis using statement_code_space[of s] s(1) by simp
qed

lemma statement_code_block_comment:
  assumes "drop_block_comment s = Some r"
  shows "statement_code s = statement_code r"
proof -
  obtain cs where s: "dropWhile is_space s = CHR ''/'' # CHR ''*'' # cs" "skip_block cs = Some r"
    using assms by (auto simp: drop_block_comment_def split: list.splits if_splits)
  then have "statement_code (CHR ''/'' # CHR ''*'' # cs) = statement_code r"
    by (simp add: statement_code_def quote1_def quote2_def)
  then show ?thesis using statement_code_space[of s] s(1) by simp
qed

definition trimmed :: "string \<Rightarrow> bool" where
  "trimmed s \<longleftrightarrow> s = [] \<or> \<not> is_space (last s)"

lemma trimmed_suffix: "trimmed s \<Longrightarrow> suffix r s \<Longrightarrow> trimmed r"
  by (auto simp: trimmed_def suffix_def)

lemma trimmed_strip: "trimmed s \<Longrightarrow> strip s = dropWhile is_space s"
proof -
  assume t: "trimmed s"
  have rev: "dropWhile is_space (rev u) = rev u" if "trimmed u" for u
    using that by (cases u rule: rev_cases) (auto simp: trimmed_def)
  have "trimmed (dropWhile is_space s)" using t suffix_dropWhile trimmed_suffix by blast
  from rev[OF this] show ?thesis by (simp add: strip_def)
qed

lemma strip_trimmed: "trimmed (strip s)"
proof -
  let ?t = "dropWhile is_space (rev (dropWhile is_space s))"
  have "strip s = rev ?t" by (simp add: strip_def)
  moreover have "?t \<noteq> [] \<Longrightarrow> \<not> is_space (hd ?t)" by (rule hd_dropWhile)
  ultimately show ?thesis by (auto simp: trimmed_def last_rev)
qed

lemma allowed_start_symbol: "c = CHR ''-'' \<or> c = CHR ''/'' \<Longrightarrow> \<not> allowed_start (c # cs)"
  by (elim disjE) (simp_all add: allowed_start_def is_space_def lower_char_def match_pragma_def
      word_end_def ALLOWED_LEADING_KEYWORDS_def)

lemma allowed_start_empty: "\<not> allowed_start []"
  by (simp add: allowed_start_def match_pragma_def word_end_def ALLOWED_LEADING_KEYWORDS_def)

lemma statement_code_stop:
  assumes "drop_line_comment s = None" "drop_block_comment s = None"
  shows "allowed_start (dropWhile is_space s) = allowed_start (statement_code s)"
proof (cases "dropWhile is_space s")
  case Nil
  have "statement_code s = []"
    using statement_code_space[of s] unfolding Nil by (simp add: statement_code_def)
  then show ?thesis unfolding Nil by simp
next
  case (Cons c cs)
  have nospace: "\<not> is_space c" using Cons by (metis hd_dropWhile list.distinct(1) list.sel(1))
  have code: "statement_code s = statement_code (c # cs)" using statement_code_space[of s] Cons by simp
  consider "c = CHR ''-''" "cs \<noteq> []" "hd cs = CHR ''-''"
    | "c = CHR ''/''" "cs \<noteq> []" "hd cs = CHR ''*''"
    | "\<not> (c = CHR ''-'' \<and> cs \<noteq> [] \<and> hd cs = CHR ''-'')" "\<not> (c = CHR ''/'' \<and> cs \<noteq> [] \<and> hd cs = CHR ''*'')"
    by blast
  then show ?thesis
  proof cases
    case 1
    then have "skip_line (tl cs) = []" using assms(1) Cons
      by (cases cs) (auto simp: drop_line_comment_def split: if_splits)
    then have "skip_line cs = []" using 1 by (cases cs) (auto simp: skip_line_def)
    then have "statement_code (c # cs) = []" using 1 by (simp add: statement_code_def quote1_def quote2_def)
    then show ?thesis using 1 code Cons allowed_start_symbol allowed_start_empty by simp
  next
    case 2
    then have "skip_block (tl cs) = None" using assms(2) Cons
      by (cases cs) (auto simp: drop_block_comment_def)
    then have "statement_code (c # cs) = []" using 2 by (simp add: statement_code_def quote1_def quote2_def)
    then show ?thesis using 2 code Cons allowed_start_symbol allowed_start_empty by simp
  next
    case 3
    then have "dropWhile ignorable (sql_tokens (c # cs)) = sql_tokens (c # cs)" using nospace by auto
    then show ?thesis using code Cons sql_tokens_text[of "c # cs"] by (simp add: statement_code_def)
  qed
qed

lemma drop_comment_suffix:
  "drop_line_comment s = Some r \<Longrightarrow> suffix r s"
  "drop_block_comment s = Some r \<Longrightarrow> suffix r s"
proof -
  assume "drop_line_comment s = Some r"
  then obtain c d cs where "dropWhile is_space s = c # d # cs" "r = tl (skip_line cs)"
    by (auto simp: drop_line_comment_def split: list.splits if_splits)
  then show "suffix r s"
    by (metis skip_line_suffix suffix_ConsI suffix_dropWhile suffix_order.trans suffix_tl)
next
  assume "drop_block_comment s = Some r"
  then obtain c d cs where "dropWhile is_space s = c # d # cs" "skip_block cs = Some r"
    by (auto simp: drop_block_comment_def split: list.splits if_splits)
  then show "suffix r s"
    by (metis skip_block_suffix suffix_ConsI suffix_dropWhile suffix_order.trans)
qed

lemma leading_comments_are_tokens:
  "trimmed s \<Longrightarrow> allowed_start (strip_leading_comments s) = allowed_start (statement_code s)"
proof (induction s rule: strip_leading_comments.induct)
  case (1 s)
  show ?case
  proof (cases "drop_line_comment s")
    case (Some r)
    then show ?thesis using 1(2)[OF Some] 1(3) drop_comment_suffix(1) trimmed_suffix
        statement_code_line_comment by (subst strip_leading_comments.simps) auto
  next
    case line: None
    show ?thesis
    proof (cases "drop_block_comment s")
      case (Some r)
      then show ?thesis using 1(1)[OF line Some] 1(3) line drop_comment_suffix(2) trimmed_suffix
          statement_code_block_comment by (subst strip_leading_comments.simps) auto
    next
      case None
      then show ?thesis using line statement_code_stop trimmed_strip 1(3)
        by (subst strip_leading_comments.simps) simp
    qed
  qed
qed

text \<open>
  C7. The guard accepts exactly the queries whose text, cut into SQL tokens, has no semicolon
  outside quoted texts and comments once trailing semicolons are gone, and whose first token after
  blanks and comments starts an allowed read verb. What it returns is the text without those
  trailing semicolons.
\<close>

theorem read_only_guard_spec:
  "validate_read_only query = Inr n \<longleftrightarrow>
     n = strip_trailing_semicolon query \<and> n \<noteq> [] \<and> Plain CHR '';'' \<notin> set (sql_tokens n)
     \<and> allowed_start (statement_code n)"
proof -
  have "trimmed (strip_trailing_semicolon query)"
    unfolding strip_trailing_semicolon_def by (rule strip_trimmed)
  then show ?thesis
    using leading_comments_are_tokens scan_is_lexer
    by (auto simp: validate_read_only_def Let_def)
qed

text \<open>
  A text turned into an SQL literal cannot leave its quotes: read back, the literal is the text
  and whatever follows stays outside, unless it is itself a quote.
\<close>

theorem sql_literal_roundtrip:
  assumes "rest = [] \<or> hd rest \<noteq> quote1"
  shows "\<exists>body. sql_literal value @ rest = quote1 # body \<and> read_quoted quote1 body = Some (value, rest)
    \<and> sql_tokens (sql_literal value @ rest) = Quoted quote1 (tl (sql_literal value)) # sql_tokens rest"
proof -
  have "quoted_end quote1 (replace_char quote1 [quote1, quote1] value @ quote1 # rest) = rest"
  proof (induction "value")
    case Nil
    then show ?case using assms by (cases rest) (auto simp: replace_char_def)
  next
    case (Cons c v)
    have "quoted_end quote1 (c # xs) = quoted_end quote1 xs" if "c \<noteq> quote1" "xs \<noteq> []" for xs
      using that by (cases xs) auto
    then show ?case using Cons by (cases "c = quote1") (auto simp: replace_char_def)
  qed
  then show ?thesis
    using read_quoted_replace[OF assms, of "value"] by (simp add: sql_literal_def upto_rest_def)
qed

theorem sql_literal_roundtrip_witness:
  "\<exists>body. sql_literal [quote1, CHR '';''] @ '' x'' = quote1 # body
     \<and> read_quoted quote1 body = Some ([quote1, CHR '';''], '' x'')"
proof -
  have "'' x'' = [] \<or> hd '' x'' \<noteq> quote1" by (simp add: quote1_def)
  from sql_literal_roundtrip[OF this] show ?thesis by blast
qed

end
