(* ===== verification/DagResolution.thy ===== *)
theory DagResolution
  imports DagLineage SqlText
begin

text \<open>
  Reading a lineage as tables: \<^verbatim>\<open>infra/storage/dag/resolution.py\<close> (the active views of a lineage
  and their fingerprint), \<^verbatim>\<open>query.py\<close> (views over the parts that can hold a key) and
  \<^verbatim>\<open>anti_join.py\<close> (dropping candidate rows that change nothing). DuckDB evaluates the
  statements these modules build; here each statement is the function on lists of rows that its
  text denotes. \<open>read_parquet\<close> is the content of the files, and \<open>tie\<close> the order in which DuckDB
  delivers rows that an \<^verbatim>\<open>ORDER BY\<close> leaves open.
\<close>

section \<open>Rows\<close>

datatype sqlval = SqlNull | SqlText string | SqlInt int | SqlBool bool

type_synonym row = "(string \<times> sqlval) list"

definition col :: "row \<Rightarrow> string \<Rightarrow> sqlval" where
  "col r c = (case map_of r c of None \<Rightarrow> SqlNull | Some v \<Rightarrow> v)"

definition cols :: "string list \<Rightarrow> row \<Rightarrow> sqlval list" where
  "cols ks r = map (col r) ks"

text \<open>\<^verbatim>\<open>ORDER BY\<close> on one column: values of a column have one type, and \<^verbatim>\<open>NULL\<close> comes last
  in either direction.\<close>

fun sql_le :: "sqlval \<Rightarrow> sqlval \<Rightarrow> bool" where
  "sql_le _ SqlNull = True"
| "sql_le SqlNull _ = False"
| "sql_le (SqlText a) (SqlText b) = (a \<le> b)"
| "sql_le (SqlInt a) (SqlInt b) = (a \<le> b)"
| "sql_le (SqlBool a) (SqlBool b) = (a \<le> b)"
| "sql_le (SqlBool _) _ = True"
| "sql_le (SqlInt _) (SqlText _) = True"
| "sql_le _ _ = False"

fun sql_ge :: "sqlval \<Rightarrow> sqlval \<Rightarrow> bool" where
  "sql_ge _ SqlNull = True"
| "sql_ge SqlNull _ = False"
| "sql_ge a b = sql_le b a"

text \<open>\<^verbatim>\<open>a = b\<close> is true only of two values; \<^verbatim>\<open>IS DISTINCT FROM\<close> compares \<^verbatim>\<open>NULL\<close> too.\<close>

definition sql_eq :: "sqlval \<Rightarrow> sqlval \<Rightarrow> bool" where
  "sql_eq a b \<longleftrightarrow> a \<noteq> SqlNull \<and> b \<noteq> SqlNull \<and> a = b"

text \<open>A stable sort by a total preorder, and \<^verbatim>\<open>ROW_NUMBER() OVER (PARTITION BY key ...) = 1\<close>.\<close>

primrec insort_le :: "('a \<Rightarrow> 'a \<Rightarrow> bool) \<Rightarrow> 'a \<Rightarrow> 'a list \<Rightarrow> 'a list" where
  "insort_le le x [] = [x]"
| "insort_le le x (y # ys) = (if le x y then x # y # ys else y # insort_le le x ys)"

primrec sort_le :: "('a \<Rightarrow> 'a \<Rightarrow> bool) \<Rightarrow> 'a list \<Rightarrow> 'a list" where
  "sort_le le [] = []"
| "sort_le le (x # xs) = insort_le le x (sort_le le xs)"

fun first_per_key :: "('r \<Rightarrow> 'k) \<Rightarrow> 'r list \<Rightarrow> 'r list" where
  "first_per_key key [] = []"
| "first_per_key key (r # rs) = r # filter (\<lambda>s. key s \<noteq> key r) (first_per_key key rs)"

section \<open>The raw rows of a relation\<close>

text \<open>The file a part of a node is read from, if there is one.\<close>

definition part_location :: "filesystem \<Rightarrow> path \<Rightarrow> string \<Rightarrow> string \<Rightarrow> path" where
  "part_location fs rdir snapshot_id part_path =
     (if is_absolute part_path then path_parts part_path
      else if fs_is_file fs (join_path (join_path rdir snapshot_id) part_path)
      then join_path (join_path rdir snapshot_id) part_path
      else if fs_is_file fs (join_path rdir part_path) then join_path rdir part_path
      else join_path (join_path rdir snapshot_id) part_path)"

definition node_part_paths :: "filesystem \<Rightarrow> path \<Rightarrow> dag_manifest \<Rightarrow> part_descriptor list \<Rightarrow> path list"
  where
  "node_part_paths fs rdir node ps =
     map (fs_resolve fs) (filter (fs_is_file fs)
       (map (\<lambda>p. part_location fs rdir (mf_snapshot_id node) (pd_path p)) ps))"

text \<open>
  \<^verbatim>\<open>SELECT rank AS _lineage_ord, * FROM read_parquet([...])\<close> for every node that has parts on
  disk, joined by \<^verbatim>\<open>UNION ALL\<close>. With no such node the view is the empty table of the schema,
  which has no column \<^verbatim>\<open>_lineage_ord\<close>: \<open>None\<close>.
\<close>

definition raw_rows ::
  "filesystem \<Rightarrow> (path \<Rightarrow> row list) \<Rightarrow> path \<Rightarrow> string \<Rightarrow> dag_manifest list \<Rightarrow> (nat \<times> row) list option"
  where
  "raw_rows fs read_parquet rdir relation lineage_nodes =
     (let subqueries = filter (\<lambda>(rank, paths). paths \<noteq> [])
            (map (\<lambda>(rank, node).
               (rank, node_part_paths fs rdir node (relation_parts node relation)))
              (enumerate 0 lineage_nodes))
      in if subqueries = [] then None
         else Some (concat (map (\<lambda>(rank, paths).
                map (Pair rank) (concat (map read_parquet paths))) subqueries)))"

section \<open>The active view of a relation\<close>

definition newest_first :: "(nat \<times> row) \<Rightarrow> (nat \<times> row) \<Rightarrow> bool" where
  "newest_first a b \<longleftrightarrow> fst b \<le> fst a"

definition oldest_first :: "(nat \<times> row) \<Rightarrow> (nat \<times> row) \<Rightarrow> bool" where
  "oldest_first a b \<longleftrightarrow> fst a \<le> fst b"

definition tie_breaker_le :: "tie_op \<Rightarrow> string \<Rightarrow> (nat \<times> row) \<Rightarrow> (nat \<times> row) \<Rightarrow> bool" where
  "tie_breaker_le op c a b \<longleftrightarrow>
     (case op of
        TieMin \<Rightarrow> col (snd a) c \<noteq> col (snd b) c \<and> sql_le (col (snd a) c) (col (snd b) c)
          \<or> col (snd a) c = col (snd b) c \<and> oldest_first a b
      | TieMax \<Rightarrow> col (snd a) c \<noteq> col (snd b) c \<and> sql_ge (col (snd a) c) (col (snd b) c)
          \<or> col (snd a) c = col (snd b) c \<and> newest_first a b)"

definition append_order :: "relation_spec \<Rightarrow> (nat \<times> row) \<Rightarrow> (nat \<times> row) \<Rightarrow> bool" where
  "append_order sp =
     (if given (rs_tie_breaker_column sp)
      then tie_breaker_le (rs_tie_breaker_op sp) (the (rs_tie_breaker_column sp))
      else oldest_first)"

definition upsert_view :: "((nat \<times> row) list \<Rightarrow> (nat \<times> row) list) \<Rightarrow> string list \<Rightarrow> (nat \<times> row) list \<Rightarrow> row list"
  where
  "upsert_view tie pk raw =
     map snd (first_per_key (\<lambda>r. cols pk (snd r)) (sort_le newest_first (tie raw)))"

definition append_view ::
  "((nat \<times> row) list \<Rightarrow> (nat \<times> row) list) \<Rightarrow> relation_spec \<Rightarrow> (nat \<times> row) list \<Rightarrow> row list" where
  "append_view tie sp raw =
     map snd (first_per_key (\<lambda>r. cols (rs_primary_key sp) (snd r))
       (sort_le (append_order sp) (tie raw)))"

text \<open>The key columns and the node of the newest parent row of every key.\<close>

definition winning_parent ::
  "((nat \<times> row) list \<Rightarrow> (nat \<times> row) list) \<Rightarrow> string list \<Rightarrow> (nat \<times> row) list \<Rightarrow> (sqlval list \<times> nat) list"
  where
  "winning_parent tie ks raw =
     map (\<lambda>r. (cols ks (snd r), fst r))
       (first_per_key (\<lambda>r. cols ks (snd r)) (sort_le newest_first (tie raw)))"

definition scoped_mask_view ::
  "((nat \<times> row) list \<Rightarrow> (nat \<times> row) list) \<Rightarrow> string list \<Rightarrow> (nat \<times> row) list \<Rightarrow> (nat \<times> row) list \<Rightarrow> row list"
  where
  "scoped_mask_view tie ks parent_raw raw =
     concat (map (\<lambda>(rank, r). map (\<lambda>_. r)
       (filter (\<lambda>(pkey, prank). list_all2 sql_eq (cols ks r) pkey \<and> rank = prank)
         (winning_parent tie ks parent_raw))) raw)"

section \<open>Compiling the views of a lineage\<close>

datatype compile_error =
  MaskParentUnordered            \<comment> \<open>\<^verbatim>\<open>scoped-mask relations require an ordered parent spec\<close>\<close>
  | UnsafeIdentifier string      \<comment> \<open>\<^verbatim>\<open>sql_identifier\<close> raised\<close>
  | ViewExists string            \<comment> \<open>\<^verbatim>\<open>CREATE TEMP VIEW\<close> of a name in use\<close>
  | NoSuchView string
  | NoLineageColumn string       \<comment> \<open>the raw view of an empty parent lacks \<^verbatim>\<open>_lineage_ord\<close>\<close>
  | BrokenPathLiteral path       \<comment> \<open>a quote in a part path ends the literal it is written in\<close>
  | MissingPart path             \<comment> \<open>\<^verbatim>\<open>read_parquet\<close> of a name that is no file\<close>
  | NoSuchColumn string
  | KeyNotConvertible string     \<comment> \<open>the key is not a value of the type of the column\<close>

definition spec_ready :: "string set \<Rightarrow> relation_spec \<Rightarrow> bool" where
  "spec_ready names sp \<longleftrightarrow> rs_merge_strategy sp \<noteq> ScopedMask
     \<or> (case rs_parent_relation sp of None \<Rightarrow> False | Some p \<Rightarrow> p \<in> names)"

function order_specs_loop ::
  "string set \<Rightarrow> relation_spec list \<Rightarrow> (compile_error, relation_spec list) result" where
  "order_specs_loop names remaining =
     (if remaining = [] then Inr []
      else let ready = filter (spec_ready names) remaining in
        if ready = [] then Inl MaskParentUnordered
        else bind_res (order_specs_loop (names \<union> set (map rs_name ready))
               (filter (\<lambda>sp. \<not> spec_ready names sp) remaining))
             (\<lambda>rest. Inr (ready @ rest)))"
  by pat_completeness auto

termination order_specs_loop
proof (relation "measure (\<lambda>(names, remaining). length remaining)", goal_cases)
  case (2 names remaining ready)
  then have "0 < length (filter (spec_ready names) remaining)"
    unfolding length_greater_0_conv by simp
  then have "length (filter (\<lambda>sp. \<not> spec_ready names sp) remaining) < length remaining"
    using sum_length_filter_compl[of "spec_ready names" remaining] by linarith
  then show ?case by simp
qed simp

declare order_specs_loop.simps [simp del]

definition ordered_specs :: "relation_spec list \<Rightarrow> (compile_error, relation_spec list) result" where
  "ordered_specs specs = order_specs_loop {} specs"

record view =
  vw_raw :: "(nat \<times> row) list option"
  vw_active :: "row list"

fun check_identifiers :: "string list \<Rightarrow> (compile_error, unit) result" where
  "check_identifiers [] = Inr ()"
| "check_identifiers (n # ns) =
     (case sql_quoted_identifier n of
        Inl _ \<Rightarrow> Inl (UnsafeIdentifier n) | Inr _ \<Rightarrow> check_identifiers ns)"

definition mask_join_keys :: "relation_spec \<Rightarrow> string list" where
  "mask_join_keys sp =
     (if given (rs_parent_join_key sp) then the (rs_parent_join_key sp) else rs_primary_key sp)"

definition active_rows ::
  "((nat \<times> row) list \<Rightarrow> (nat \<times> row) list) \<Rightarrow> (string \<times> view) list \<Rightarrow> relation_spec \<Rightarrow> (nat \<times> row) list
    \<Rightarrow> (compile_error, row list) result" where
  "active_rows tie views sp raw =
     bind_res (check_identifiers (rs_primary_key sp)) (\<lambda>_.
     case rs_merge_strategy sp of
       Upsert \<Rightarrow> Inr (upsert_view tie (rs_primary_key sp) raw)
     | Append \<Rightarrow>
         bind_res (check_identifiers
             (if given (rs_tie_breaker_column sp) then [the (rs_tie_breaker_column sp)] else []))
           (\<lambda>_. Inr (append_view tie sp raw))
     | ScopedMask \<Rightarrow>
         (let parent = (case rs_parent_relation sp of None \<Rightarrow> [] | Some p \<Rightarrow> p);
              ks = mask_join_keys sp in
          bind_res (check_identifiers (parent # ks)) (\<lambda>_.
          case map_of views parent of
            None \<Rightarrow> Inl (NoSuchView parent)
          | Some v \<Rightarrow>
              (case vw_raw v of
                 None \<Rightarrow> Inl (NoLineageColumn parent)
               | Some praw \<Rightarrow> Inr (scoped_mask_view tie ks praw raw)))))"

definition compile_view ::
  "((nat \<times> row) list \<Rightarrow> (nat \<times> row) list) \<Rightarrow> (string \<times> view) list \<Rightarrow> relation_spec
    \<Rightarrow> (nat \<times> row) list option \<Rightarrow> (compile_error, view) result" where
  "compile_view tie views sp raw =
     bind_res (check_identifiers [rs_name sp]) (\<lambda>_.
     case raw of
       None \<Rightarrow> bind_res (check_identifiers (map fst (rs_schema sp)))
                 (\<lambda>_. Inr \<lparr>vw_raw = None, vw_active = []\<rparr>)
     | Some rows \<Rightarrow> bind_res (active_rows tie views sp rows)
                 (\<lambda>active. Inr \<lparr>vw_raw = Some rows, vw_active = active\<rparr>))"

fun compile_specs ::
  "((nat \<times> row) list \<Rightarrow> (nat \<times> row) list) \<Rightarrow> (string \<Rightarrow> (nat \<times> row) list option)
    \<Rightarrow> (string \<times> view) list \<Rightarrow> relation_spec list \<Rightarrow> (compile_error, (string \<times> view) list) result"
  where
  "compile_specs tie raw_of views [] = Inr views"
| "compile_specs tie raw_of views (sp # sps) =
     (if map lower_char (rs_name sp) \<in> set (map (map lower_char \<circ> fst) views)
      then Inl (ViewExists (rs_name sp))
      else bind_res (compile_view tie views sp (raw_of (rs_name sp)))
        (\<lambda>v. compile_specs tie raw_of (views @ [(rs_name sp, v)]) sps))"

definition compile_virtual_views ::
  "((nat \<times> row) list \<Rightarrow> (nat \<times> row) list) \<Rightarrow> filesystem \<Rightarrow> (path \<Rightarrow> row list) \<Rightarrow> relation_spec list
    \<Rightarrow> lineage_chain \<Rightarrow> path \<Rightarrow> (compile_error, (string \<times> view) list) result" where
  "compile_virtual_views tie fs read_parquet specs lineage snapshots_root =
     bind_res (ordered_specs specs) (\<lambda>sps.
       compile_specs tie (\<lambda>rel. raw_rows fs read_parquet snapshots_root rel (lc_nodes lineage)) [] sps)"

section \<open>Sorting and the first row of each key\<close>

lemma set_insort_le [simp]: "set (insort_le le x xs) = insert x (set xs)"
  by (induction xs) auto

lemma mset_sort_le [simp]: "mset (sort_le le xs) = mset xs"
proof -
  have "mset (insort_le le x ys) = add_mset x (mset ys)" for x ys by (induction ys) auto
  then show ?thesis by (induction xs) auto
qed

lemma set_sort_le [simp]: "set (sort_le le xs) = set xs"
  using mset_eq_setD[OF mset_sort_le] .

lemma first_per_key_subset: "set (first_per_key key xs) \<subseteq> set xs"
  by (induction xs) auto

lemma first_per_key_keys: "key ` set (first_per_key key xs) = key ` set xs"
proof (induction xs)
  case (Cons a xs)
  have "key ` {x \<in> S. key x \<noteq> key a} = key ` S - {key a}" for S by auto
  then show ?case using Cons by (auto simp del: image_Collect)
qed simp

lemma first_per_key_distinct: "distinct (map key (first_per_key key xs))"
proof -
  have "distinct (map key (filter P xs))" if "distinct (map key xs)" for P xs
    using that by (induction xs) auto
  then show ?thesis by (induction xs) auto
qed

lemma first_per_key_first:
  "r \<in> set (first_per_key key xs) \<Longrightarrow> \<exists>ys zs. xs = ys @ r # zs \<and> key r \<notin> key ` set ys"
proof (induction xs)
  case (Cons x xs)
  show ?case
  proof (cases "r = x")
    case True
    then show ?thesis by (intro exI[of _ "[]"] exI[of _ xs]) auto
  next
    case False
    then have "key r \<noteq> key x" "r \<in> set (first_per_key key xs)" using Cons.prems by auto
    then obtain ys zs where "xs = ys @ r # zs" "key r \<notin> key ` set ys" using Cons.IH by auto
    then show ?thesis using \<open>key r \<noteq> key x\<close> by (intro exI[of _ "x # ys"] exI[of _ zs]) auto
  qed
qed simp

text \<open>
  What the views need of an \<^verbatim>\<open>ORDER BY\<close>: it is total and transitive. Then \<^verbatim>\<open>ROW_NUMBER() = 1\<close>
  picks a least row of each partition.
\<close>

locale row_order =
  fixes le :: "'r \<Rightarrow> 'r \<Rightarrow> bool"
  assumes total: "le a b \<or> le b a"
    and trans: "le a b \<Longrightarrow> le b c \<Longrightarrow> le a c"
begin

lemma refl: "le a a"
  using total by blast

lemma sorted_insort_le: "sorted_wrt le xs \<Longrightarrow> sorted_wrt le (insort_le le x xs)"
proof (induction xs)
  case (Cons y ys)
  show ?case
  proof (cases "le x y")
    case True
    then show ?thesis using Cons.prems trans by auto
  next
    case False
    then have "le y x" using total by blast
    then show ?thesis using Cons False by auto
  qed
qed simp

lemma sorted_sort_le: "sorted_wrt le (sort_le le xs)"
  by (induction xs) (auto intro: sorted_insort_le)

lemma first_least:
  assumes "r \<in> set (first_per_key key (sort_le le xs))" "s \<in> set xs" "key s = key r"
  shows "le r s"
proof -
  obtain ys zs where split: "sort_le le xs = ys @ r # zs" "key r \<notin> key ` set ys"
    using first_per_key_first[OF assms(1)] by blast
  have "s \<in> set (ys @ r # zs)" using assms(2) split(1) by (metis set_sort_le)
  moreover have "s \<notin> set ys" using split(2) assms(3) by (metis imageI)
  ultimately have "s = r \<or> s \<in> set zs" by auto
  then show ?thesis using sorted_sort_le[of xs] split(1) refl by (auto simp: sorted_wrt_append)
qed

lemma first_per_key_iff:
  assumes unique: "\<And>a b. a \<in> set xs \<Longrightarrow> b \<in> set xs \<Longrightarrow> key a = key b \<Longrightarrow> le a b \<Longrightarrow> le b a \<Longrightarrow> a = b"
  shows "r \<in> set (first_per_key key (sort_le le xs)) \<longleftrightarrow>
    r \<in> set xs \<and> (\<forall>s \<in> set xs. key s = key r \<longrightarrow> le r s)"
proof
  assume "r \<in> set (first_per_key key (sort_le le xs))"
  then show "r \<in> set xs \<and> (\<forall>s \<in> set xs. key s = key r \<longrightarrow> le r s)"
    using first_per_key_subset[of key "sort_le le xs"] first_least by auto
next
  assume r: "r \<in> set xs \<and> (\<forall>s \<in> set xs. key s = key r \<longrightarrow> le r s)"
  then have "key r \<in> key ` set (first_per_key key (sort_le le xs))"
    by (simp add: first_per_key_keys)
  then obtain q where q: "q \<in> set (first_per_key key (sort_le le xs))" "key q = key r" by auto
  then have "q \<in> set xs" using first_per_key_subset[of key "sort_le le xs"] by auto
  then have "q = r" using unique r q first_least[of q key xs r] by metis
  then show "r \<in> set (first_per_key key (sort_le le xs))" using q by simp
qed

end

interpretation newest: row_order newest_first
  by unfold_locales (auto simp: newest_first_def)

interpretation oldest: row_order oldest_first
  by unfold_locales (auto simp: oldest_first_def)

lemma sql_le_total: "sql_le a b \<or> sql_le b a"
  by (cases a; cases b) auto

lemma sql_le_antisym: "sql_le a b \<Longrightarrow> sql_le b a \<Longrightarrow> a = b"
  by (cases a; cases b) auto

lemma sql_le_trans: "sql_le a b \<Longrightarrow> sql_le b c \<Longrightarrow> sql_le a c"
  by (cases a; cases b; cases c) auto

lemma sql_ge_total: "sql_ge a b \<or> sql_ge b a"
  by (cases a; cases b) auto

lemma sql_ge_antisym: "sql_ge a b \<Longrightarrow> sql_ge b a \<Longrightarrow> a = b"
  by (cases a; cases b) auto

lemma sql_ge_trans: "sql_ge a b \<Longrightarrow> sql_ge b c \<Longrightarrow> sql_ge a c"
  by (cases a; cases b; cases c) auto

interpretation tie_order: row_order "tie_breaker_le op c" for op c
proof (unfold_locales, goal_cases)
  case (1 a b)
  show ?case
    using sql_le_total[of "col (snd a) c" "col (snd b) c"] sql_ge_total[of "col (snd a) c" "col (snd b) c"]
    by (cases op; cases "col (snd a) c = col (snd b) c")
      (auto simp: tie_breaker_le_def oldest_first_def newest_first_def)
next
  case (2 x y z)
  let ?x = "col (snd x) c" and ?y = "col (snd y) c" and ?z = "col (snd z) c"
  have le: "sql_le ?x ?z \<and> ?x \<noteq> ?z" if "sql_le ?x ?y" "sql_le ?y ?z" "?x \<noteq> ?y"
    using that sql_le_trans sql_le_antisym by metis
  have ge: "sql_ge ?x ?z \<and> ?x \<noteq> ?z" if "sql_ge ?x ?y" "sql_ge ?y ?z" "?x \<noteq> ?y"
    using that sql_ge_trans sql_ge_antisym by metis
  show ?case
  proof (cases "?x = ?y \<or> ?y = ?z")
    case True
    then show ?thesis using 2
      by (cases op) (auto simp: tie_breaker_le_def oldest_first_def newest_first_def)
  next
    case False
    then show ?thesis using 2 le ge by (cases op) (auto simp: tie_breaker_le_def)
  qed
qed

interpretation appended: row_order "append_order sp" for sp
  using tie_order.row_order_axioms oldest.row_order_axioms by (simp add: append_order_def)

section \<open>What the views contain\<close>

definition view_map :: "string list \<Rightarrow> row list \<Rightarrow> sqlval list \<Rightarrow> row option" where
  "view_map pk rows = map_of (map (\<lambda>r. (cols pk r, r)) rows)"

text \<open>No snapshot holds two rows of a relation with the same key.\<close>

definition node_keys_distinct :: "string list \<Rightarrow> (nat \<times> row) list \<Rightarrow> bool" where
  "node_keys_distinct pk raw \<longleftrightarrow> distinct (map (\<lambda>r. (fst r, cols pk (snd r))) raw)"

lemma node_keys_unique:
  assumes "node_keys_distinct pk raw" "a \<in> set raw" "b \<in> set raw"
    and "fst a = fst b" "cols pk (snd a) = cols pk (snd b)"
  shows "a = b"
  using assms by (auto simp: node_keys_distinct_def distinct_map dest: inj_onD)

lemma view_map_Some:
  "distinct (map (cols pk) rows) \<Longrightarrow> view_map pk rows k = Some r \<longleftrightarrow> r \<in> set rows \<and> cols pk r = k"
  by (auto simp: view_map_def map_of_eq_Some_iff comp_def)

lemma tie_set: "is_tie tie \<Longrightarrow> set (tie xs) = set xs"
  using mset_eq_setD by (auto simp: is_tie_def)

lemma first_view_distinct:
  "distinct (map (cols pk) (map snd (first_per_key (\<lambda>r. cols pk (snd r)) xs)))"
  using first_per_key_distinct[of "\<lambda>r. cols pk (snd r)" xs] by (simp add: comp_def)

lemma upsert_view_iff:
  assumes "is_tie tie"
    and unique: "\<And>a b. a \<in> set raw \<Longrightarrow> b \<in> set raw \<Longrightarrow> fst a = fst b \<Longrightarrow>
      cols pk (snd a) = cols pk (snd b) \<Longrightarrow> a = b"
  shows "r \<in> set (upsert_view tie pk raw) \<longleftrightarrow>
    (\<exists>rank. (rank, r) \<in> set raw \<and> (\<forall>(rank', r') \<in> set raw. cols pk r' = cols pk r \<longrightarrow> rank' \<le> rank))"
proof -
  have "q \<in> set (first_per_key (\<lambda>r. cols pk (snd r)) (sort_le newest_first (tie raw))) \<longleftrightarrow>
      q \<in> set raw \<and> (\<forall>s \<in> set raw. cols pk (snd s) = cols pk (snd q) \<longrightarrow> newest_first q s)" for q
    using newest.first_per_key_iff[of "tie raw" "\<lambda>r. cols pk (snd r)" q]
      unique tie_set[OF assms(1), of raw]
    by (simp add: newest_first_def)
  then show ?thesis
    unfolding upsert_view_def newest_first_def by (auto simp: image_iff split_beta) (metis fst_conv snd_conv)+
qed

lemma upsert_view_newest:
  assumes "is_tie tie" "node_keys_distinct pk raw"
  shows "r \<in> set (upsert_view tie pk raw) \<longleftrightarrow>
    (\<exists>rank. (rank, r) \<in> set raw \<and> (\<forall>(rank', r') \<in> set raw. cols pk r' = cols pk r \<longrightarrow> rank' \<le> rank))"
  by (rule upsert_view_iff[OF assms(1)]) (rule node_keys_unique[OF assms(2)])

definition last_writer :: "string list \<Rightarrow> (nat \<times> row) list \<Rightarrow> sqlval list \<Rightarrow> row option" where
  "last_writer pk raw = foldl (\<lambda>m (rank, r). m(cols pk r \<mapsto> r)) Map.empty raw"

lemma last_writer_iff:
  assumes "node_keys_distinct pk raw" "sorted (map fst raw)"
  shows "last_writer pk raw k = Some r \<longleftrightarrow> cols pk r = k \<and>
    (\<exists>rank. (rank, r) \<in> set raw \<and> (\<forall>(rank', r') \<in> set raw. cols pk r' = k \<longrightarrow> rank' \<le> rank))"
  using assms
proof (induction raw rule: rev_induct)
  case Nil
  then show ?case by (simp add: last_writer_def)
next
  case (snoc x xs)
  obtain n q where x: "x = (n, q)" by (cases x)
  have IH: "last_writer pk xs k = Some r \<longleftrightarrow> cols pk r = k \<and>
      (\<exists>rank. (rank, r) \<in> set xs \<and> (\<forall>(rank', r') \<in> set xs. cols pk r' = k \<longrightarrow> rank' \<le> rank))"
    using snoc by (simp add: node_keys_distinct_def sorted_append)
  have less: "rank' < n" if "(rank', r') \<in> set xs" "cols pk r' = cols pk q" for rank' r'
  proof -
    have "rank' \<le> n" using snoc.prems(2) that(1) x by (force simp: sorted_append)
    moreover have "(rank', cols pk r') \<noteq> (n, cols pk q)"
      using snoc.prems(1) that(1) x by (force simp: node_keys_distinct_def)
    ultimately show ?thesis using that(2) by auto
  qed
  have step: "last_writer pk (xs @ [x]) k = (if cols pk q = k then Some q else last_writer pk xs k)"
    by (simp add: last_writer_def x)
  show ?case
  proof (cases "cols pk q = k")
    case True
    then show ?thesis using step less x by (auto simp: not_le[symmetric]) fastforce+
  next
    case False
    then show ?thesis using step IH x by auto
  qed
qed

lemma raw_rows_sorted:
  assumes "raw_rows fs read_parquet rdir relation ns = Some raw"
  shows "sorted (map fst raw)"
proof -
  have *: "sorted (map fst (concat (map (\<lambda>(k, ps). map (Pair k) (concat (map read_parquet ps))) ys)))"
    if "sorted (map fst ys)" for ys
    using that by (induction ys) (auto simp: sorted_append comp_def map_replicate_const)
  let ?ys = "map (\<lambda>(rank, node). (rank, node_part_paths fs rdir node (relation_parts node relation)))
    (enumerate 0 ns)"
  have "map fst ?ys = map fst (enumerate 0 ns)" by (simp add: comp_def split_beta)
  then have "sorted (map fst ?ys)" using sorted_map_enumerate[of 0 ns] by metis
  then have "sorted (map fst (filter (\<lambda>(rank, paths). paths \<noteq> []) ?ys))" by (rule sorted_filter)
  note sorted = *[OF this]
  have raw: "raw = concat (map (\<lambda>(k, ps). map (Pair k) (concat (map read_parquet ps)))
      (filter (\<lambda>(rank, paths). paths \<noteq> []) ?ys))"
    using assms unfolding raw_rows_def Let_def by (simp split: if_splits)
  show ?thesis unfolding raw by (rule sorted)
qed

text \<open>
  C8. The active view of an upsert relation is last-writer-wins: it maps every primary key to the
  row that applying the snapshots of the lineage one after another, oldest first, would leave, and
  it holds one row per key.
\<close>

theorem upsert_last_writer_wins:
  assumes "is_tie tie" "raw_rows fs read_parquet rdir (rs_name sp) (lc_nodes lineage) = Some raw"
    and "node_keys_distinct (rs_primary_key sp) raw" "rs_merge_strategy sp = Upsert"
    and "active_rows tie views sp raw = Inr rows"
  shows "view_map (rs_primary_key sp) rows = last_writer (rs_primary_key sp) raw
    \<and> distinct (map (cols (rs_primary_key sp)) rows)"
proof -
  let ?pk = "rs_primary_key sp"
  have rows: "rows = upsert_view tie ?pk raw"
    using assms(4,5) by (auto simp: active_rows_def bind_res_Inr_iff)
  have dist: "distinct (map (cols ?pk) rows)"
    unfolding rows upsert_view_def by (rule first_view_distinct)
  have "view_map ?pk rows k = Some r \<longleftrightarrow> last_writer ?pk raw k = Some r" for k r
    unfolding view_map_Some[OF dist] last_writer_iff[OF assms(3) raw_rows_sorted[OF assms(2)]]
    unfolding rows upsert_view_newest[OF assms(1,3)] by auto
  then have "view_map ?pk rows = last_writer ?pk raw"
    by (intro ext) (metis option.exhaust)
  then show ?thesis using dist by simp
qed

text \<open>A two-node lineage whose parts are \<open>p\<close> in the checkpoint and \<open>q\<close> in the delta.\<close>

definition two_parts :: lineage_chain where
  "two_parts = \<lparr>lc_tip_id = ''d'', lc_checkpoint_anchor_id = ''c'',
     lc_nodes = [demo_node ''c'' Checkpoint [],
       (demo_node ''d'' Delta [''c''])\<lparr>mf_relations := [(''r'', [demo_part\<lparr>pd_path := ''q''\<rparr>])]\<rparr>]\<rparr>"

definition two_files :: "path \<Rightarrow> row list" where
  "two_files p = (if last p = ''p'' then [[(''k'', SqlInt 1), (''v'', SqlInt 10)], [(''k'', SqlInt 2), (''v'', SqlInt 20)]]
     else [[(''k'', SqlInt 2), (''v'', SqlInt 21)]])"

definition demo_spec :: "merge_strategy \<Rightarrow> relation_spec" where
  "demo_spec st = \<lparr>rs_name = ''r'', rs_schema = [(''k'', ''int64''), (''v'', ''int64'')],
     rs_primary_key = [''k''], rs_merge_strategy = st, rs_sort_order = [''k''],
     rs_parent_relation = None, rs_parent_join_key = None, rs_tie_breaker_column = None,
     rs_tie_breaker_op = TieMin, rs_max_rows_per_part = None, rs_entity_key = None\<rparr>"

definition two_raw :: "(nat \<times> row) list" where
  "two_raw = [(0, [(''k'', SqlInt 1), (''v'', SqlInt 10)]), (0, [(''k'', SqlInt 2), (''v'', SqlInt 20)]),
     (1, [(''k'', SqlInt 2), (''v'', SqlInt 21)])]"

lemma two_raw_rows: "raw_rows demo_fs two_files [''x''] ''r'' (lc_nodes two_parts) = Some two_raw"
  by (simp add: raw_rows_def two_parts_def demo_node_def demo_part_def relation_parts_def
      node_part_paths_def part_location_def demo_fs_def is_absolute_def join_path_def path_parts_def
      two_files_def two_raw_def)

lemma two_raw_distinct: "node_keys_distinct [''k''] two_raw"
  by (simp add: node_keys_distinct_def two_raw_def cols_def col_def)

lemma two_identifiers: "sql_quoted_identifier ''k'' = Inr [quote2, CHR ''k'', quote2]"
  by (simp add: sql_quoted_identifier_def identifier_match_def isidentifier_def is_alpha_us_def)

lemmas demo_spec_simps = demo_spec_def two_identifiers active_rows_def given_def

theorem upsert_last_writer_wins_witness:
  "\<exists>rows. active_rows id [] (demo_spec Upsert) two_raw = Inr rows
    \<and> view_map [''k''] rows [SqlInt 2] = Some [(''k'', SqlInt 2), (''v'', SqlInt 21)]"
proof -
  obtain rows where rows: "active_rows id [] (demo_spec Upsert) two_raw = Inr rows"
    by (simp add: demo_spec_simps)
  have "is_tie id" "rs_merge_strategy (demo_spec Upsert) = Upsert"
    and raw: "raw_rows demo_fs two_files [''x''] (rs_name (demo_spec Upsert)) (lc_nodes two_parts) = Some two_raw"
    and keys: "node_keys_distinct (rs_primary_key (demo_spec Upsert)) two_raw"
    using two_raw_rows two_raw_distinct by (simp_all add: is_tie_def demo_spec_def)
  from upsert_last_writer_wins[OF this(1) raw keys this(2) rows]
  have "view_map [''k''] rows = last_writer [''k''] two_raw" by (simp add: demo_spec_def)
  then show ?thesis using rows by (simp add: last_writer_def two_raw_def cols_def col_def)
qed

definition first_writer :: "string list \<Rightarrow> (nat \<times> row) list \<Rightarrow> sqlval list \<Rightarrow> row option" where
  "first_writer pk raw =
     foldl (\<lambda>m (rank, r). if m (cols pk r) = None then m(cols pk r \<mapsto> r) else m) Map.empty raw"

lemma first_writer_snoc:
  "first_writer pk (raw @ [(n, r)]) k =
     (if cols pk r = k \<and> first_writer pk raw k = None then Some r else first_writer pk raw k)"
  by (auto simp: first_writer_def)

lemma first_writer_None: "first_writer pk raw k = None \<longleftrightarrow> k \<notin> cols pk ` snd ` set raw"
proof (induction raw rule: rev_induct)
  case Nil
  then show ?case by (simp add: first_writer_def)
next
  case (snoc x xs)
  then show ?case by (cases x) (auto simp: first_writer_snoc)
qed

lemma first_writer_Some:
  assumes "node_keys_distinct pk raw" "sorted (map fst raw)" "first_writer pk raw k = Some r"
  shows "cols pk r = k \<and>
    (\<exists>rank. (rank, r) \<in> set raw \<and> (\<forall>(rank', r') \<in> set raw. cols pk r' = k \<longrightarrow> rank \<le> rank'))"
  using assms
proof (induction raw arbitrary: r rule: rev_induct)
  case Nil
  then show ?case by (simp add: first_writer_def)
next
  case (snoc x xs)
  obtain n q where x: "x = (n, q)" by (cases x)
  have old: "node_keys_distinct pk xs" "sorted (map fst xs)" "\<forall>y \<in> set xs. fst y \<le> n"
    using snoc.prems x by (auto simp: node_keys_distinct_def sorted_append)
  show ?case
  proof (cases "first_writer pk xs k")
    case None
    then have "k \<notin> cols pk ` snd ` set xs" by (simp add: first_writer_None)
    then have no: "cols pk r' \<noteq> k" if "(rank', r') \<in> set xs" for rank' r'
      using that by (metis image_eqI snd_conv)
    have "q = r" "cols pk r = k"
      using snoc.prems(3) None x by (auto simp: first_writer_snoc split: if_splits)
    then show ?thesis using no x by (intro conjI exI[of _ n]) auto
  next
    case (Some r')
    then have "r' = r" using snoc.prems(3) x by (auto simp: first_writer_snoc split: if_splits)
    then obtain rank where r: "cols pk r = k" "(rank, r) \<in> set xs"
      "\<forall>(rank', r') \<in> set xs. cols pk r' = k \<longrightarrow> rank \<le> rank'"
      using snoc.IH[OF old(1,2)] Some by blast
    then have "rank \<le> n" using old(3) by force
    then show ?thesis using r x by (intro conjI exI[of _ rank]) auto
  qed
qed

lemma append_view_least:
  assumes "is_tie tie" "r \<in> set (append_view tie sp raw)"
  shows "\<exists>rank. (rank, r) \<in> set raw
    \<and> (\<forall>s \<in> set raw. cols (rs_primary_key sp) (snd s) = cols (rs_primary_key sp) r \<longrightarrow> append_order sp (rank, r) s)"
proof -
  let ?key = "\<lambda>r. cols (rs_primary_key sp) (snd r)"
  obtain rank where q: "(rank, r) \<in> set (first_per_key ?key (sort_le (append_order sp) (tie raw)))"
    using assms(2) by (auto simp: append_view_def)
  then have "(rank, r) \<in> set raw"
    using first_per_key_subset[of ?key "sort_le (append_order sp) (tie raw)"] tie_set[OF assms(1)] by auto
  moreover have "append_order sp (rank, r) s" if "s \<in> set raw" "?key s = ?key (rank, r)" for s
    using appended.first_least[OF q _ that(2)] that(1) tie_set[OF assms(1)] by blast
  ultimately show ?thesis by auto
qed

lemma append_view_keys:
  assumes "is_tie tie"
  shows "cols (rs_primary_key sp) ` set (append_view tie sp raw) = cols (rs_primary_key sp) ` snd ` set raw"
proof -
  let ?key = "\<lambda>r. cols (rs_primary_key sp) (snd r)"
  have "?key ` set (first_per_key ?key (sort_le (append_order sp) (tie raw))) = ?key ` set raw"
    by (simp add: first_per_key_keys tie_set[OF assms])
  then show ?thesis by (simp add: append_view_def image_image)
qed

text \<open>
  C9. The active view of an append relation holds, for every key of the lineage, one row: a least
  one by the tie-breaker column in the declared direction with \<^verbatim>\<open>NULL\<close> last, then by age. Without
  a tie-breaker the view is first-writer-wins: later snapshots never change a key.
\<close>

theorem append_view_contents:
  assumes "is_tie tie" "raw_rows fs read_parquet rdir (rs_name sp) (lc_nodes lineage) = Some raw"
    and "rs_merge_strategy sp = Append" "active_rows tie views sp raw = Inr rows"
  shows "distinct (map (cols (rs_primary_key sp)) rows)
    \<and> cols (rs_primary_key sp) ` set rows = cols (rs_primary_key sp) ` snd ` set raw
    \<and> (\<forall>r \<in> set rows. \<exists>rank. (rank, r) \<in> set raw \<and> (\<forall>s \<in> set raw.
          cols (rs_primary_key sp) (snd s) = cols (rs_primary_key sp) r \<longrightarrow> append_order sp (rank, r) s))
    \<and> (\<not> given (rs_tie_breaker_column sp) \<and> node_keys_distinct (rs_primary_key sp) raw \<longrightarrow>
        view_map (rs_primary_key sp) rows = first_writer (rs_primary_key sp) raw)"
proof (intro conjI impI)
  let ?pk = "rs_primary_key sp"
  have rows: "rows = append_view tie sp raw"
    using assms(3,4) by (auto simp: active_rows_def bind_res_Inr_iff)
  show dist: "distinct (map (cols ?pk) rows)"
    unfolding rows append_view_def by (rule first_view_distinct)
  show keys: "cols ?pk ` set rows = cols ?pk ` snd ` set raw"
    unfolding rows by (rule append_view_keys[OF assms(1)])
  show least: "\<forall>r \<in> set rows. \<exists>rank. (rank, r) \<in> set raw \<and> (\<forall>s \<in> set raw.
      cols ?pk (snd s) = cols ?pk r \<longrightarrow> append_order sp (rank, r) s)"
    unfolding rows using append_view_least[OF assms(1)] by blast
  assume a: "\<not> given (rs_tie_breaker_column sp) \<and> node_keys_distinct ?pk raw"
  show "view_map ?pk rows = first_writer ?pk raw"
  proof
    fix k
    show "view_map ?pk rows k = first_writer ?pk raw k"
    proof (cases "first_writer ?pk raw k")
      case None
      then have "k \<notin> cols ?pk ` set rows" by (simp add: keys first_writer_None)
      then have "view_map ?pk rows k \<noteq> Some r" for r
        unfolding view_map_Some[OF dist] by auto
      then show ?thesis using None by (cases "view_map ?pk rows k") auto
    next
      case (Some r)
      from first_writer_Some[OF _ raw_rows_sorted[OF assms(2)] Some] a
      obtain n where n: "cols ?pk r = k" "(n, r) \<in> set raw"
        "\<forall>(rank', r') \<in> set raw. cols ?pk r' = k \<longrightarrow> n \<le> rank'" by auto
      have "k \<in> cols ?pk ` snd ` set raw" using n(1,2) by force
      then obtain q where q: "q \<in> set rows" "cols ?pk q = k" unfolding keys[symmetric] by auto
      then obtain m where m: "(m, q) \<in> set raw"
        "\<forall>s \<in> set raw. cols ?pk (snd s) = cols ?pk q \<longrightarrow> append_order sp (m, q) s"
        using least by blast
      then have "append_order sp (m, q) (n, r)" using n(1,2) q(2) by simp
      then have "m \<le> n" using a by (simp add: append_order_def oldest_first_def)
      moreover have "n \<le> m" using n(3) m(1) q(2) by blast
      ultimately have "m = n" by simp
      then have "q = r" using node_keys_unique[of ?pk raw "(m, q)" "(n, r)"] a m(1) n(1,2) q(2) by simp
      then show ?thesis using q Some view_map_Some[OF dist] by simp
    qed
  qed
qed

theorem append_view_contents_witness:
  "\<exists>rows. active_rows id [] (demo_spec Append) two_raw = Inr rows
    \<and> view_map [''k''] rows [SqlInt 2] = Some [(''k'', SqlInt 2), (''v'', SqlInt 20)]"
proof -
  obtain rows where rows: "active_rows id [] (demo_spec Append) two_raw = Inr rows"
    by (simp add: demo_spec_simps)
  have "is_tie id" "rs_merge_strategy (demo_spec Append) = Append"
    and raw: "raw_rows demo_fs two_files [''x''] (rs_name (demo_spec Append)) (lc_nodes two_parts) = Some two_raw"
    using two_raw_rows by (simp_all add: is_tie_def demo_spec_def)
  from append_view_contents[OF this(1) raw this(2) rows] two_raw_distinct
  have "view_map [''k''] rows = first_writer [''k''] two_raw" by (simp add: demo_spec_def given_def)
  then show ?thesis using rows by (simp add: first_writer_def two_raw_def cols_def col_def)
qed

text \<open>The newest snapshot of the lineage that has a parent row with a key.\<close>

definition newest_rank :: "string list \<Rightarrow> (nat \<times> row) list \<Rightarrow> sqlval list \<Rightarrow> nat option" where
  "newest_rank ks raw k =
     (let ranks = map fst (filter (\<lambda>r. cols ks (snd r) = k) raw)
      in if ranks = [] then None else Some (foldr max ranks 0))"

lemma winning_parent_rank:
  assumes "is_tie tie"
  shows "filter (\<lambda>(pkey, prank). pkey = k) (winning_parent tie ks raw) =
    (case newest_rank ks raw k of None \<Rightarrow> [] | Some n \<Rightarrow> [(k, n)])"
proof -
  let ?key = "\<lambda>r. cols ks (snd r)" and ?ranks = "map fst (filter (\<lambda>r. cols ks (snd r) = k) raw)"
  let ?firsts = "first_per_key ?key (sort_le newest_first (tie raw))"
  have keys: "k \<in> ?key ` set ?firsts \<longleftrightarrow> ?ranks \<noteq> []"
    by (auto simp: first_per_key_keys tie_set[OF assms] filter_empty_conv)
  have split: "filter (\<lambda>(pkey, prank). pkey = k) (winning_parent tie ks raw) =
      map (\<lambda>r. (?key r, fst r)) (filter (\<lambda>r. ?key r = k) ?firsts)"
    by (simp add: winning_parent_def filter_map comp_def)
  show ?thesis
  proof (cases "?ranks = []")
    case True
    then have "filter (\<lambda>r. ?key r = k) ?firsts = []"
      using keys by (intro filter_all_False) blast
    then show ?thesis using True split by (simp add: newest_rank_def)
  next
    case False
    then obtain q where q: "q \<in> set ?firsts" "?key q = k" using keys by auto
    then have fq: "filter (\<lambda>r. ?key r = k) ?firsts = [q]"
      using filter_key_singleton[OF first_per_key_distinct q(1)] by simp
    have "q \<in> set raw" using q(1) first_per_key_subset[of ?key "sort_le newest_first (tie raw)"]
        tie_set[OF assms] by auto
    then have mem: "fst q \<in> set ?ranks" using q(2) by auto
    have "fst s \<le> fst q" if "s \<in> set raw" "?key s = k" for s
      using newest.first_least[OF q(1), of s] that q(2) tie_set[OF assms] by (simp add: newest_first_def)
    then have "\<forall>n \<in> set ?ranks. n \<le> fst q" by auto
    then have "foldr max ?ranks 0 = fst q" using foldr_max_in[OF False] mem by (meson le_antisym)
    then show ?thesis using False split fq q(2) by (simp add: newest_rank_def)
  qed
qed

lemma list_all2_sql_eq: "list_all2 sql_eq xs ys \<longleftrightarrow> xs = ys \<and> SqlNull \<notin> set xs"
proof (induction xs arbitrary: ys)
  case (Cons x xs)
  then show ?case by (cases ys) (auto simp: sql_eq_def)
qed auto

lemma scoped_mask_view_filter:
  assumes "is_tie tie"
  shows "scoped_mask_view tie ks parent_raw raw =
    map snd (filter (\<lambda>(rank, r). SqlNull \<notin> set (cols ks r)
      \<and> newest_rank ks parent_raw (cols ks r) = Some rank) raw)"
proof -
  let ?vis = "\<lambda>(rank, r). SqlNull \<notin> set (cols ks r) \<and> newest_rank ks parent_raw (cols ks r) = Some rank"
  have one: "map (\<lambda>_. r) (filter (\<lambda>(pkey, prank). list_all2 sql_eq (cols ks r) pkey \<and> rank = prank)
      (winning_parent tie ks parent_raw)) = (if ?vis (rank, r) then [r] else [])" for rank r
  proof -
    have "filter (\<lambda>(pkey, prank). list_all2 sql_eq (cols ks r) pkey \<and> rank = prank)
        (winning_parent tie ks parent_raw) =
      filter (\<lambda>(pkey, prank). SqlNull \<notin> set (cols ks r) \<and> rank = prank)
        (filter (\<lambda>(pkey, prank). pkey = cols ks r) (winning_parent tie ks parent_raw))"
      by (auto simp: list_all2_sql_eq split_beta intro!: filter_cong)
    then show ?thesis unfolding winning_parent_rank[OF assms] by (auto split: option.splits)
  qed
  have "concat (map (\<lambda>x. if Q x then [snd x] else []) xs) = map snd (filter Q xs)"
    for Q :: "nat \<times> row \<Rightarrow> bool" and xs by (induction xs) auto
  moreover have "scoped_mask_view tie ks parent_raw raw =
      concat (map (\<lambda>x. if ?vis x then [snd x] else []) raw)"
    unfolding scoped_mask_view_def
    by (intro arg_cong[where f = concat] map_cong refl) (auto simp: one split_beta)
  ultimately show ?thesis by simp
qed

text \<open>
  C13. The active view of a scoped-mask relation: a child row is visible exactly when its join key
  holds no \<^verbatim>\<open>NULL\<close> and it comes from the newest snapshot that has a parent row with that key. So a
  newer parent replaces its whole set of children, and children without a parent are hidden. The
  order of the raw rows is kept.
\<close>

theorem scoped_mask_contents:
  assumes "is_tie tie" "rs_merge_strategy sp = ScopedMask" "rs_parent_relation sp = Some parent"
    and "map_of views parent = Some v" "vw_raw v = Some parent_raw"
    and "active_rows tie views sp raw = Inr rows"
  shows "rows = map snd (filter (\<lambda>(rank, r). SqlNull \<notin> set (cols (mask_join_keys sp) r)
      \<and> newest_rank (mask_join_keys sp) parent_raw (cols (mask_join_keys sp) r) = Some rank) raw)"
proof -
  have "rows = scoped_mask_view tie (mask_join_keys sp) parent_raw raw"
    using assms(2-6) by (auto simp: active_rows_def bind_res_Inr_iff Let_def)
  then show ?thesis using scoped_mask_view_filter[OF assms(1)] by simp
qed

definition mask_spec :: relation_spec where
  "mask_spec = (demo_spec ScopedMask)\<lparr>rs_name := ''child'', rs_parent_relation := Some ''r'',
     rs_parent_join_key := Some [''k'']\<rparr>"

theorem scoped_mask_contents_witness:
  "active_rows id [(''r'', \<lparr>vw_raw = Some two_raw, vw_active = []\<rparr>)] mask_spec
     [(0, [(''k'', SqlInt 1)]), (0, [(''k'', SqlInt 2)]), (1, [(''k'', SqlInt 2)])] =
   Inr [[(''k'', SqlInt 1)], [(''k'', SqlInt 2)]]"
proof -
  let ?views = "[(''r'', \<lparr>vw_raw = Some two_raw, vw_active = []\<rparr>)]"
  let ?raw = "[(0, [(''k'', SqlInt 1)]), (0, [(''k'', SqlInt 2)]), (1, [(''k'', SqlInt 2)])]"
  have "sql_quoted_identifier ''r'' = Inr [quote2, CHR ''r'', quote2]"
    by (simp add: sql_quoted_identifier_def identifier_match_def isidentifier_def is_alpha_us_def)
  then obtain rows where rows: "active_rows id ?views mask_spec ?raw = Inr rows"
    by (simp add: demo_spec_simps mask_spec_def mask_join_keys_def)
  have "is_tie id" "rs_merge_strategy mask_spec = ScopedMask" "rs_parent_relation mask_spec = Some ''r''"
    "map_of ?views ''r'' = Some \<lparr>vw_raw = Some two_raw, vw_active = []\<rparr>"
    by (simp_all add: is_tie_def mask_spec_def demo_spec_def)
  from scoped_mask_contents[OF this _ rows] show ?thesis
    using rows by (simp add: mask_spec_def mask_join_keys_def given_def newest_rank_def cols_def
        col_def two_raw_def)
qed

section \<open>Parents are compiled before their children\<close>

definition parents_first :: "string set \<Rightarrow> relation_spec list \<Rightarrow> bool" where
  "parents_first names sps \<longleftrightarrow> (\<forall>i < length sps. spec_ready (names \<union> rs_name ` set (take i sps)) (sps ! i))"

lemma parents_first_Cons:
  "parents_first names (sp # sps) \<longleftrightarrow> spec_ready names sp \<and> parents_first (insert (rs_name sp) names) sps"
proof -
  have "(\<forall>i < length (sp # sps). spec_ready (names \<union> rs_name ` set (take i (sp # sps))) ((sp # sps) ! i)) \<longleftrightarrow>
      spec_ready names sp \<and> (\<forall>i < length sps. spec_ready (names \<union> rs_name ` set (take (Suc i) (sp # sps))) (sps ! i))"
    by (auto simp: nth_Cons less_Suc_eq_0_disj split: nat.splits)
  then show ?thesis by (simp add: parents_first_def)
qed

lemma spec_ready_mono: "spec_ready names sp \<Longrightarrow> names \<subseteq> names' \<Longrightarrow> spec_ready names' sp"
  by (auto simp: spec_ready_def split: option.splits)

lemma parents_first_append:
  "parents_first names (xs @ ys) \<longleftrightarrow>
     parents_first names xs \<and> parents_first (names \<union> rs_name ` set xs) ys"
  by (induction xs arbitrary: names) (auto simp: parents_first_Cons, simp_all add: parents_first_def)

lemma parents_first_ready: "list_all (spec_ready names) xs \<Longrightarrow> parents_first names xs"
proof (induction xs arbitrary: names)
  case Nil
  then show ?case by (simp add: parents_first_def)
next
  case (Cons x xs)
  have "list_all (spec_ready (insert (rs_name x) names)) xs"
    using Cons.prems by (auto simp: list_all_iff intro: spec_ready_mono)
  then show ?case using Cons by (simp add: parents_first_Cons)
qed

lemma order_specs_loop_sound:
  "order_specs_loop names remaining = Inr out \<Longrightarrow> mset out = mset remaining \<and> parents_first names out"
proof (induction names remaining arbitrary: out rule: order_specs_loop.induct)
  case (1 names remaining)
  show ?case
  proof (cases "remaining = []")
    case True
    then show ?thesis using "1.prems" by (simp add: order_specs_loop.simps parents_first_def)
  next
    case False
    let ?ready = "filter (spec_ready names) remaining"
    let ?rest = "filter (\<lambda>sp. \<not> spec_ready names sp) remaining"
    obtain out' where ne: "?ready \<noteq> []" and out: "out = ?ready @ out'"
      and rest: "order_specs_loop (names \<union> set (map rs_name ?ready)) ?rest = Inr out'"
      using "1.prems" False
      by (subst (asm) order_specs_loop.simps) (auto simp: Let_def bind_res_Inr_iff split: if_splits)
    have IH: "mset out' = mset ?rest \<and> parents_first (names \<union> set (map rs_name ?ready)) out'"
      using "1.IH"[OF False refl ne rest] .
    have "parents_first names ?ready"
      by (rule parents_first_ready) (simp add: list_all_iff)
    then show ?thesis using IH out by (simp add: parents_first_append)
  qed
qed

lemma order_specs_loop_complete:
  "order_specs_loop names remaining = Inl e \<Longrightarrow> mset sps = mset remaining \<Longrightarrow> \<not> parents_first names sps"
proof (induction names remaining arbitrary: sps rule: order_specs_loop.induct)
  case (1 names remaining)
  let ?ready = "filter (spec_ready names) remaining"
  let ?rest = "filter (\<lambda>sp. \<not> spec_ready names sp) remaining"
  have ne: "remaining \<noteq> []" using "1.prems"(1) by (auto simp: order_specs_loop.simps)
  show ?case
  proof (cases "?ready = []")
    case True
    then have "\<forall>sp \<in> set remaining. \<not> spec_ready names sp" by (simp add: filter_empty_conv)
    moreover obtain x xs where "sps = x # xs" using ne "1.prems"(2) by (cases sps) auto
    moreover have "set sps = set remaining" using "1.prems"(2) by (rule mset_eq_setD)
    ultimately show ?thesis by (auto simp: parents_first_Cons)
  next
    case False
    have fail: "order_specs_loop (names \<union> set (map rs_name ?ready)) ?rest = Inl e"
      using "1.prems"(1) ne False
      by (subst (asm) order_specs_loop.simps) (auto simp: Let_def bind_res_Inl_iff split: if_splits)
    have ms: "mset (filter (\<lambda>sp. \<not> spec_ready names sp) sps) = mset ?rest"
      using "1.prems"(2) by (metis mset_filter)
    have "\<not> parents_first (names \<union> set (map rs_name ?ready)) (filter (\<lambda>sp. \<not> spec_ready names sp) sps)"
      using "1.IH"[OF ne refl False fail ms] .
    moreover have "parents_first (names' \<union> rs_name ` {sp \<in> S. spec_ready names sp}) (filter (\<lambda>sp. \<not> spec_ready names sp) ys)"
      if "parents_first names' ys" "set ys \<subseteq> S" for names' ys S
      using that
    proof (induction ys arbitrary: names')
      case Nil
      then show ?case by (simp add: parents_first_def)
    next
      case (Cons y ys)
      have step: "parents_first (insert (rs_name y) names' \<union> rs_name ` {sp \<in> S. spec_ready names sp})
          (filter (\<lambda>sp. \<not> spec_ready names sp) ys)"
        using Cons.IH[of "insert (rs_name y) names'"] Cons.prems by (simp add: parents_first_Cons)
      show ?case
      proof (cases "spec_ready names y")
        case True
        then have "insert (rs_name y) names' \<union> rs_name ` {sp \<in> S. spec_ready names sp} =
            names' \<union> rs_name ` {sp \<in> S. spec_ready names sp}" using Cons.prems(2) by auto
        then show ?thesis using step True by simp
      next
        case False
        then show ?thesis using step Cons.prems spec_ready_mono[of names' y]
          by (auto simp: parents_first_Cons)
      qed
    qed
    moreover have "set (map rs_name ?ready) = rs_name ` {sp \<in> set sps. spec_ready names sp}"
      using mset_eq_setD[OF "1.prems"(2)] by auto
    ultimately show ?thesis by auto
  qed
qed

text \<open>
  The specs of a repository are put in an order in which every scoped-mask relation comes after
  its parent, each spec exactly once; the error is raised only if no order of them has that property.
\<close>

theorem ordered_specs_correct:
  "(\<forall>out. ordered_specs specs = Inr out \<longrightarrow> mset out = mset specs \<and> parents_first {} out)
   \<and> (\<forall>e. ordered_specs specs = Inl e \<longrightarrow> (\<forall>sps. mset sps = mset specs \<longrightarrow> \<not> parents_first {} sps))"
  unfolding ordered_specs_def using order_specs_loop_sound order_specs_loop_complete by blast

theorem ordered_specs_correct_witness:
  "ordered_specs [mask_spec, demo_spec Upsert] = Inr [demo_spec Upsert, mask_spec]
   \<and> parents_first {} [demo_spec Upsert, mask_spec]"
proof -
  have "ordered_specs [mask_spec, demo_spec Upsert] = Inr [demo_spec Upsert, mask_spec]"
    by (simp add: ordered_specs_def order_specs_loop.simps spec_ready_def mask_spec_def demo_spec_def)
  then show ?thesis using ordered_specs_correct[of "[mask_spec, demo_spec Upsert]"] by blast
qed

end
