(* ===== verification/DagRetention.thy ===== *)
theory DagRetention
  imports DagPublication DagResolution
begin

text \<open>
  Garbage collection, \<^verbatim>\<open>infra/storage/dag/retention.py\<close>, and the health audit,
  \<^verbatim>\<open>infra/storage/dag/doctor.py\<close>. Python sets are lists without regard to order; what is sorted in
  the code is sorted here. Every function that walks lineages is \<open>None\<close> when a walk never returns.
\<close>

section \<open>Retention analysis\<close>

datatype retention_error = NegativeAge | AgeUndefined

record retention_report =
  rr_root_snapshots :: "string list"
  rr_retained_snapshots :: "string list"
  rr_prunable_snapshots :: "string list"
  rr_prunable_byte_size :: int

definition discover_roots :: "catalog \<Rightarrow> string list \<Rightarrow> string list" where
  "discover_roots cat extra_pinned_ids =
     remdups (map snd (list_branches cat) @ map tg_snapshot_id (list_tags cat) @ extra_pinned_ids)"

definition manifest_pins :: "(json \<Rightarrow> string) \<Rightarrow> dag_manifest \<Rightarrow> string list" where
  "manifest_pins rep m =
     [mf_snapshot_id m]
     @ (if mf_checkpoint_anchor_id m \<noteq> [] then [mf_checkpoint_anchor_id m] else [])
     @ (case map_of (mf_metadata m) ''base_snapshot_id'' of
          None \<Rightarrow> [] | Some pin \<Rightarrow> if truthy pin then [py_str rep pin] else [])"

definition retained_ids ::
  "((string \<times> nat) list \<Rightarrow> (string \<times> nat) list) \<Rightarrow> (json \<Rightarrow> string) \<Rightarrow> catalog \<Rightarrow> string list \<Rightarrow> string list option"
  where
  "retained_ids tie rep cat roots =
     Option.bind (those (map (catalog_walk_lineage tie cat) roots))
       (\<lambda>walks. Some (concat (map (manifest_pins rep) (concat walks))))"

definition prunable_nodes :: "catalog \<Rightarrow> string list \<Rightarrow> string list" where
  "prunable_nodes cat retained =
     filter (\<lambda>s. s \<notin> set retained) (map nr_snapshot_id (list_snapshots cat))"

definition prunable_dirs :: "filesystem \<Rightarrow> path \<Rightarrow> string list \<Rightarrow> string list \<Rightarrow> string list" where
  "prunable_dirs fs rdir retained prunable =
     (if \<not> fs_is_dir fs rdir then []
      else filter (\<lambda>n. (n = [] \<or> hd n \<noteq> CHR ''.'') \<and> n \<notin> {''parts'', ''branches'', ''current''}
                       \<and> n \<notin> set retained \<and> n \<notin> set prunable)
             (map de_name (filter de_is_dir (fs_iterdir fs rdir))))"

definition retention_core ::
  "((string \<times> nat) list \<Rightarrow> (string \<times> nat) list) \<Rightarrow> (json \<Rightarrow> string) \<Rightarrow> filesystem \<Rightarrow> path \<Rightarrow> catalog
    \<Rightarrow> string list \<Rightarrow> retention_report option" where
  "retention_core tie rep fs rdir cat extra_pinned_ids =
     (let roots = discover_roots cat extra_pinned_ids in
      Option.bind (retained_ids tie rep cat roots) (\<lambda>retained.
        let ns = prunable_nodes cat retained; ds = prunable_dirs fs rdir retained ns in
        Some \<lparr>rr_root_snapshots = sort (remdups roots), rr_retained_snapshots = sort (remdups retained),
              rr_prunable_snapshots = sort (ns @ ds),
              rr_prunable_byte_size =
                sum_list (map (\<lambda>s. if fs_is_dir fs (join_path rdir s)
                                   then fs_tree_bytes fs (join_path rdir s) else 0) ns)
                + sum_list (map (\<lambda>n. fs_tree_bytes fs (rdir @ [n])) ds)\<rparr>))"

definition analyze_retention ::
  "((string \<times> nat) list \<Rightarrow> (string \<times> nat) list) \<Rightarrow> (json \<Rightarrow> string) \<Rightarrow> filesystem \<Rightarrow> path \<Rightarrow> catalog
    \<Rightarrow> string list \<Rightarrow> int \<Rightarrow> (retention_error, retention_report) result option" where
  "analyze_retention tie rep fs rdir cat extra_pinned_ids min_age_seconds =
     (if min_age_seconds < 0 then Some (Inl NegativeAge)
      else if min_age_seconds \<noteq> 0 then Some (Inl AgeUndefined)
      else map_option Inr (retention_core tie rep fs rdir cat extra_pinned_ids))"

section \<open>Purging\<close>

definition resolve_part_path :: "filesystem \<Rightarrow> path \<Rightarrow> string \<Rightarrow> string \<Rightarrow> path" where
  "resolve_part_path fs rdir snapshot_id part_path = fs_resolve fs (part_location fs rdir snapshot_id part_path)"

definition is_owned_snapshot_dir :: "filesystem \<Rightarrow> path \<Rightarrow> string \<Rightarrow> path option" where
  "is_owned_snapshot_dir fs rdir snapshot_id =
     (let target = join_path rdir snapshot_id in
      if fs_is_symlink fs target \<or> \<not> fs_is_dir fs target then None
      else if butlast (fs_resolve fs target) \<noteq> fs_resolve fs rdir then None
      else Some (fs_resolve fs target))"

definition snapshot_part_paths :: "filesystem \<Rightarrow> path \<Rightarrow> catalog \<Rightarrow> string \<Rightarrow> path list" where
  "snapshot_part_paths fs rdir cat sid =
     (case get_manifest cat sid of
        None \<Rightarrow> []
      | Some m \<Rightarrow> map (\<lambda>p. resolve_part_path fs rdir sid (pd_path p)) (concat (map snd (mf_relations m))))"

definition first_removable :: "filesystem \<Rightarrow> path \<Rightarrow> string list \<Rightarrow> string list" where
  "first_removable fs rdir safe =
     filter (\<lambda>s. \<not> ((fs_exists fs (join_path rdir s) \<or> fs_is_symlink fs (join_path rdir s))
                     \<and> is_owned_snapshot_dir fs rdir s = None)) safe"

function protect_loop ::
  "(string \<Rightarrow> path option) \<Rightarrow> (string \<Rightarrow> path list) \<Rightarrow> string list \<Rightarrow> string list \<Rightarrow> string list" where
  "protect_loop targets part_paths removable surviving =
     (if removable = [] then []
      else let protected = filter (\<lambda>s. case targets s of
                 None \<Rightarrow> False
               | Some t \<Rightarrow> \<exists>other \<in> set surviving. \<exists>p \<in> set (part_paths other). is_relative_to p t) removable
      in if protected = [] then removable
         else protect_loop targets part_paths (filter (\<lambda>s. s \<notin> set protected) removable)
                (surviving @ protected))"
  by pat_completeness auto

termination protect_loop
proof (relation "measure (\<lambda>(t, p, removable, s). length removable)", goal_cases)
  case (2 targets part_paths removable surviving protected)
  then obtain x where x: "x \<in> set protected" by (metis list.set_intros(1) neq_Nil_conv)
  moreover have "x \<in> set removable" using x 2(2) by auto
  ultimately have "length (filter (\<lambda>s. s \<notin> set protected) removable) < length (filter (\<lambda>s. True) removable)"
    by (intro length_filter_less_strict[of x]) auto
  then show ?case by simp
qed simp

declare protect_loop.simps [simp del]

record purge_outcome =
  po_removed :: "string list"
  po_rmtree :: "path list"
  po_catalog :: catalog

definition purge_unreferenced ::
  "((string \<times> nat) list \<Rightarrow> (string \<times> nat) list) \<Rightarrow> (json \<Rightarrow> string) \<Rightarrow> filesystem \<Rightarrow> path \<Rightarrow> catalog
    \<Rightarrow> retention_report \<Rightarrow> bool \<Rightarrow> string list \<Rightarrow> purge_outcome option" where
  "purge_unreferenced tie rep fs rdir cat report dry_run extra_pinned_ids =
     Option.bind (retention_core tie rep fs rdir cat extra_pinned_ids) (\<lambda>rechecked.
       let safe = remdups (filter (\<lambda>s. s \<in> set (rr_prunable_snapshots rechecked)) (rr_prunable_snapshots report));
           snapshot_ids = map nr_snapshot_id (list_snapshots cat);
           removable = first_removable fs rdir safe;
           surviving = filter (\<lambda>s. s \<notin> set removable) snapshot_ids;
           final = sort (protect_loop (is_owned_snapshot_dir fs rdir) (snapshot_part_paths fs rdir cat)
                     removable surviving)
       in Some \<lparr>po_removed = final,
                po_rmtree = (if dry_run then [] else List.map_filter (is_owned_snapshot_dir fs rdir) final),
                po_catalog = (if dry_run then cat else foldl delete_node cat final)\<rparr>)"

section \<open>The health audit\<close>

datatype audit_error =
  CycleInLineage string lineage_error | BrokenTip string lineage_error | CycleInGraph string
  | OrphanNode string string | MissingPart string string | SizeMismatch string string
  | DigestDiffers string string

record graph_audit =
  au_is_healthy :: bool
  au_errors :: "audit_error list"
  au_active_tips :: "string list"
  au_stale_staging_dirs :: "string list"

definition tip_errors :: "string \<Rightarrow> (lineage_error, lineage_chain) result \<Rightarrow> audit_error list" where
  "tip_errors tip r =
     (case r of
        Inr _ \<Rightarrow> []
      | Inl (CycleDetected cs) \<Rightarrow> [CycleInLineage tip (CycleDetected cs)]
      | Inl e \<Rightarrow> [BrokenTip tip e])"

definition part_errors :: "filesystem \<Rightarrow> path \<Rightarrow> bool \<Rightarrow> string \<Rightarrow> part_descriptor \<Rightarrow> audit_error list" where
  "part_errors fs rdir verify_digests sid part =
     (let p = part_location fs rdir sid (pd_path part) in
      if \<not> fs_is_file fs p then [MissingPart (pd_path part) sid]
      else if fs_size fs p \<noteq> pd_byte_size part then [SizeMismatch (pd_path part) sid]
      else if verify_digests \<and> fs_sha256 fs p \<noteq> pd_sha256 part then [DigestDiffers (pd_path part) sid]
      else [])"

definition snapshot_errors :: "filesystem \<Rightarrow> path \<Rightarrow> bool \<Rightarrow> catalog \<Rightarrow> string \<Rightarrow> audit_error list" where
  "snapshot_errors fs rdir verify_digests cat sid =
     (case get_manifest cat sid of
        None \<Rightarrow> []
      | Some m \<Rightarrow> concat (map (part_errors fs rdir verify_digests (mf_snapshot_id m))
                    (concat (map snd (mf_relations m)))))"

definition audit_graph ::
  "((string \<times> nat) list \<Rightarrow> (string \<times> nat) list) \<Rightarrow> filesystem \<Rightarrow> path \<Rightarrow> catalog \<Rightarrow> rat \<Rightarrow> bool \<Rightarrow> graph_audit option"
  where
  "audit_graph tie fs rdir cat now verify_digests =
     (let roots = discover_roots cat [] in
      Option.bind (those (map (\<lambda>tip. map_option (tip_errors tip) (walk_lineage tie cat tip)) (sort roots)))
        (\<lambda>tips. let sql = catalog_audit_graph cat;
           errors = concat tips @ map CycleInGraph (ga_cycles sql)
             @ map (\<lambda>n. OrphanNode (or_snapshot_id n) (or_parent_id n)) (ga_orphan_nodes sql)
             @ concat (map (snapshot_errors fs rdir verify_digests cat) (map nr_snapshot_id (list_snapshots cat)))
         in Some \<lparr>au_is_healthy = (errors = []), au_errors = errors, au_active_tips = sort roots,
              au_stale_staging_dirs = sort (if \<not> fs_is_dir fs rdir then []
                else map de_name (filter (\<lambda>d. de_is_dir d \<and> is_staging_name (de_name d)
                       \<and> now - de_mtime d > 86400) (fs_iterdir fs rdir)))\<rparr>))"

section \<open>What a purge removes\<close>

lemma protect_loop_sound:
  "set (protect_loop targets paths removable surviving) \<subseteq> set removable
   \<and> (\<forall>s \<in> set (protect_loop targets paths removable surviving). \<forall>t. targets s = Some t \<longrightarrow>
       (\<forall>other \<in> set surviving \<union> (set removable - set (protect_loop targets paths removable surviving)).
          \<forall>p \<in> set (paths other). \<not> is_relative_to p t))"
proof (induction targets paths removable surviving rule: protect_loop.induct)
  case (1 targets paths removable surviving)
  let ?prot = "filter (\<lambda>s. case targets s of None \<Rightarrow> False
     | Some t \<Rightarrow> \<exists>other \<in> set surviving. \<exists>p \<in> set (paths other). is_relative_to p t) removable"
  consider "removable = []" | "removable \<noteq> []" "?prot = []" | "removable \<noteq> []" "?prot \<noteq> []" by blast
  then show ?case
  proof cases
    case 1
    then show ?thesis by (subst (1 2 3) protect_loop.simps) simp
  next
    case 2
    then have "protect_loop targets paths removable surviving = removable"
      by (subst protect_loop.simps) simp
    moreover have "\<not> is_relative_to p t"
      if "s \<in> set removable" "targets s = Some t" "other \<in> set surviving" "p \<in> set (paths other)" for s t other p
      using that 2(2) by (force simp: filter_empty_conv)
    ultimately show ?thesis by simp
  next
    case 3
    let ?rest = "filter (\<lambda>s. s \<notin> set ?prot) removable"
    have eq: "protect_loop targets paths removable surviving = protect_loop targets paths ?rest (surviving @ ?prot)"
      by (subst protect_loop.simps) (simp only: Let_def 3 if_False)
    have IH: "set (protect_loop targets paths ?rest (surviving @ ?prot)) \<subseteq> set ?rest
      \<and> (\<forall>s \<in> set (protect_loop targets paths ?rest (surviving @ ?prot)). \<forall>t. targets s = Some t \<longrightarrow>
       (\<forall>other \<in> set (surviving @ ?prot) \<union> (set ?rest - set (protect_loop targets paths ?rest (surviving @ ?prot))).
          \<forall>p \<in> set (paths other). \<not> is_relative_to p t))"
      by (rule "1.IH"[OF 3(1) refl 3(2)])
    have "set surviving \<union> (set removable - X) \<subseteq> set (surviving @ ?prot) \<union> (set ?rest - X)" for X by auto
    then show ?thesis unfolding eq using IH by (meson filter_is_subset subset_iff)
  qed
qed

lemma delete_nodes:
  "catalog_inv cat \<Longrightarrow> catalog_inv (foldl delete_node cat ids)
   \<and> (\<forall>s. s \<notin> set ids \<longrightarrow> get_manifest (foldl delete_node cat ids) s = get_manifest cat s
        \<and> has_snapshot (foldl delete_node cat ids) s = has_snapshot cat s)
   \<and> (\<forall>s \<in> set ids. \<not> has_snapshot (foldl delete_node cat ids) s)"
proof (induction ids arbitrary: cat)
  case (Cons i ids)
  have inv: "catalog_inv (delete_node cat i)" using Cons.prems by (rule catalog_inv_delete)
  have gone: "\<not> has_snapshot (delete_node cat i) i"
    by (auto simp: has_snapshot_iff delete_node_def tbl_delete_def)
  note IH = Cons.IH[OF inv]
  have other: "get_manifest (delete_node cat i) s = get_manifest cat s
      \<and> has_snapshot (delete_node cat i) s = has_snapshot cat s" if "s \<noteq> i" for s
    using delete_node_other[of cat s i] that Cons.prems by auto
  have "\<not> has_snapshot (foldl delete_node (delete_node cat i) ids) i"
    using IH gone by (cases "i \<in> set ids") auto
  then show ?case using IH other by auto
qed simp

lemma delete_node_edge:
  "lineage_edge (delete_node cat i) = {(c, p) \<in> lineage_edge cat. c \<noteq> i \<and> p \<noteq> i}"
  by (force simp: lineage_edge_def delete_node_def tbl_delete_def)

lemma delete_nodes_edge:
  "lineage_edge (foldl delete_node cat ids) = {(c, p) \<in> lineage_edge cat. c \<notin> set ids \<and> p \<notin> set ids}"
proof (induction ids arbitrary: cat)
  case (Cons i ids)
  then show ?case by (auto simp: delete_node_edge)
qed simp

lemma retained_reachable:
  assumes "is_tie tie" "catalog_inv cat" "retained_ids tie rep cat roots = Some retained"
    and "r \<in> set roots" "has_snapshot cat r" "(r, s) \<in> (lineage_edge cat)\<^sup>*"
  shows "s \<in> set retained"
proof -
  obtain walks where walks: "those (map (catalog_walk_lineage tie cat) roots) = Some walks"
    and retained: "retained = concat (map (manifest_pins rep) (concat walks))"
    using assms(3) by (auto simp: retained_ids_def bind_eq_Some_conv)
  have "\<exists>ms \<in> set walks. catalog_walk_lineage tie cat r = Some ms"
    using walks assms(4)
  proof (induction roots arbitrary: walks)
    case (Cons a roots)
    then show ?case by (auto split: option.splits)
  qed simp
  then obtain ms where ms: "ms \<in> set walks" "catalog_walk_lineage tie cat r = Some ms" by blast
  obtain rows where rows: "lineage_rows cat r = Some rows" "map mf_snapshot_id ms = snap_ids tie rows"
    using catalog_walk_manifests[OF assms(1,2,5) ms(2)] by blast
  have "s \<in> set (map mf_snapshot_id ms)"
    using snap_ids_reach[OF assms(1) rows(1) assms(2,5)] rows(2) assms(6) by simp
  then show ?thesis using retained ms(1) by (force simp: manifest_pins_def)
qed

lemma purge_outcome_parts:
  assumes "purge_unreferenced tie rep fs rdir cat report dry pins = Some out"
  obtains retained safe where "retained_ids tie rep cat (discover_roots cat pins) = Some retained"
    "set safe \<inter> set retained = {}"
    "po_removed out = sort (protect_loop (is_owned_snapshot_dir fs rdir) (snapshot_part_paths fs rdir cat)
       (first_removable fs rdir safe)
       (filter (\<lambda>s. s \<notin> set (first_removable fs rdir safe)) (map nr_snapshot_id (list_snapshots cat))))"
    "po_rmtree out = (if dry then [] else List.map_filter (is_owned_snapshot_dir fs rdir) (po_removed out))"
    "po_catalog out = (if dry then cat else foldl delete_node cat (po_removed out))"
proof -
  obtain retained where r: "retained_ids tie rep cat (discover_roots cat pins) = Some retained"
    using assms by (auto simp: purge_unreferenced_def retention_core_def bind_eq_Some_conv Let_def)
  let ?ns = "prunable_nodes cat retained"
  let ?prunable = "sort (?ns @ prunable_dirs fs rdir retained ?ns)"
  let ?safe = "remdups (filter (\<lambda>s. s \<in> set ?prunable) (rr_prunable_snapshots report))"
  have "set ?safe \<inter> set retained = {}"
    by (auto simp: prunable_nodes_def prunable_dirs_def)
  then show ?thesis
    using that[of retained ?safe] assms r
    by (auto simp: purge_unreferenced_def retention_core_def Let_def)
qed

text \<open>
  C14. A purge never touches what a root reaches: every snapshot in the lineage of a branch, a tag or a
  pinned snapshot stays recorded with the same manifest and stays an ancestor of that root. What is
  reported as removed is gone, everything else is as before, and a dry run changes nothing.
\<close>

theorem purge_keeps_lineages:
  assumes "is_tie tie" "catalog_inv cat"
    and purge: "purge_unreferenced tie rep fs rdir cat report dry pins = Some out"
  shows "(\<forall>r s. r \<in> set (discover_roots cat pins) \<and> has_snapshot cat r \<and> (r, s) \<in> (lineage_edge cat)\<^sup>* \<longrightarrow>
      s \<notin> set (po_removed out) \<and> get_manifest (po_catalog out) s = get_manifest cat s
      \<and> (r, s) \<in> (lineage_edge (po_catalog out))\<^sup>*)
    \<and> catalog_inv (po_catalog out)
    \<and> (\<forall>s. get_manifest (po_catalog out) s = (if s \<in> set (po_removed out) \<and> \<not> dry then None else get_manifest cat s))
    \<and> (dry \<longrightarrow> po_catalog out = cat \<and> po_rmtree out = [])"
proof -
  obtain retained safe where r: "retained_ids tie rep cat (discover_roots cat pins) = Some retained"
    "set safe \<inter> set retained = {}"
    and rem: "po_removed out = sort (protect_loop (is_owned_snapshot_dir fs rdir) (snapshot_part_paths fs rdir cat)
       (first_removable fs rdir safe)
       (filter (\<lambda>s. s \<notin> set (first_removable fs rdir safe)) (map nr_snapshot_id (list_snapshots cat))))"
    and tree: "po_rmtree out = (if dry then [] else List.map_filter (is_owned_snapshot_dir fs rdir) (po_removed out))"
    and cat': "po_catalog out = (if dry then cat else foldl delete_node cat (po_removed out))"
    using purge_outcome_parts[OF purge] .
  have "set (po_removed out) \<subseteq> set safe"
    using protect_loop_sound[of "is_owned_snapshot_dir fs rdir" "snapshot_part_paths fs rdir cat"
        "first_removable fs rdir safe"] unfolding rem by (auto simp: first_removable_def)
  then have disj: "s \<notin> set (po_removed out)" if "s \<in> set retained" for s using that r(2) by auto
  have kept: "s \<notin> set (po_removed out)" if "x \<in> set (discover_roots cat pins)" "has_snapshot cat x"
    "(x, s) \<in> (lineage_edge cat)\<^sup>*" for x s
    using disj retained_reachable[OF assms(1,2) r(1) that] by blast
  note del = delete_nodes[OF assms(2), of "po_removed out"]
  have man: "get_manifest (po_catalog out) s = (if s \<in> set (po_removed out) \<and> \<not> dry then None else get_manifest cat s)" for s
    using del get_manifest_has cat' by auto
  have path: "(x, s) \<in> (lineage_edge (po_catalog out))\<^sup>*"
    if x: "x \<in> set (discover_roots cat pins)" "has_snapshot cat x" and "(x, s) \<in> (lineage_edge cat)\<^sup>*" for x s
    using that(3)
  proof (induction rule: rtrancl_induct)
    case (step y z)
    then have "y \<notin> set (po_removed out)" "z \<notin> set (po_removed out)"
      using kept[OF x] by (auto dest: rtrancl_into_rtrancl)
    then have "(y, z) \<in> lineage_edge (po_catalog out)" using step(2) cat' by (simp add: delete_nodes_edge)
    then show ?case using step(3) by auto
  qed simp
  have "catalog_inv (po_catalog out)" using del assms(2) cat' by simp
  then show ?thesis using kept man path tree cat' by auto
qed

text \<open>
  C15. No directory a purge deletes holds a file that a surviving snapshot refers to, also where one
  snapshot's manifest names parts in another's directory; and each deleted directory is a direct child
  of the snapshots root.
\<close>

theorem purge_keeps_files:
  assumes "catalog_inv cat" "purge_unreferenced tie rep fs rdir cat report False pins = Some out"
    and "t \<in> set (po_rmtree out)"
  shows "butlast t = fs_resolve fs rdir
    \<and> (\<forall>s m part. get_manifest (po_catalog out) s = Some m \<and> part \<in> set (concat (map snd (mf_relations m))) \<longrightarrow>
        \<not> is_relative_to (resolve_part_path fs rdir s (pd_path part)) t)"
proof -
  obtain retained safe where "retained_ids tie rep cat (discover_roots cat pins) = Some retained"
    "set safe \<inter> set retained = {}"
    and rem: "po_removed out = sort (protect_loop (is_owned_snapshot_dir fs rdir) (snapshot_part_paths fs rdir cat)
       (first_removable fs rdir safe)
       (filter (\<lambda>s. s \<notin> set (first_removable fs rdir safe)) (map nr_snapshot_id (list_snapshots cat))))"
    and "po_rmtree out = (if False then [] else List.map_filter (is_owned_snapshot_dir fs rdir) (po_removed out))"
    and "po_catalog out = (if False then cat else foldl delete_node cat (po_removed out))"
    using purge_outcome_parts[OF assms(2)] .
  then have tree: "po_rmtree out = List.map_filter (is_owned_snapshot_dir fs rdir) (po_removed out)"
    and cat': "po_catalog out = foldl delete_node cat (po_removed out)" by simp_all
  let ?loop = "protect_loop (is_owned_snapshot_dir fs rdir) (snapshot_part_paths fs rdir cat)
       (first_removable fs rdir safe)
       (filter (\<lambda>s. s \<notin> set (first_removable fs rdir safe)) (map nr_snapshot_id (list_snapshots cat)))"
  have loop: "set (po_removed out) = set ?loop" unfolding rem by simp
  obtain x where x: "x \<in> set ?loop" "is_owned_snapshot_dir fs rdir x = Some t"
    using assms(3) loop unfolding tree set_map_filter_iff by auto
  have "butlast t = fs_resolve fs rdir"
    using x(2) by (auto simp: is_owned_snapshot_dir_def Let_def split: if_splits)
  moreover have "\<not> is_relative_to (resolve_part_path fs rdir s (pd_path part)) t"
    if m: "get_manifest (po_catalog out) s = Some m" and part: "part \<in> set (concat (map snd (mf_relations m)))" for s m part
  proof -
    have s: "s \<notin> set (po_removed out)"
    proof
      assume "s \<in> set (po_removed out)"
      then have "\<not> has_snapshot (po_catalog out) s" using delete_nodes[OF assms(1)] cat' by simp
      then show False using m get_manifest_has by force
    qed
    then have m': "get_manifest cat s = Some m" using delete_nodes[OF assms(1)] cat' m by simp
    then have "has_snapshot cat s" using get_manifest_has by force
    then have "s \<in> set (map nr_snapshot_id (list_snapshots cat))"
      by (simp add: has_snapshot_iff list_snapshots_def)
    then have "s \<in> set (filter (\<lambda>s. s \<notin> set (first_removable fs rdir safe)) (map nr_snapshot_id (list_snapshots cat)))
        \<union> (set (first_removable fs rdir safe) - set ?loop)" using s loop by auto
    moreover have "resolve_part_path fs rdir s (pd_path part) \<in> set (snapshot_part_paths fs rdir cat s)"
      using m' part by (simp add: snapshot_part_paths_def)
    ultimately show ?thesis using protect_loop_sound x by blast
  qed
  ultimately show ?thesis by blast
qed

text \<open>
  A lineage \<open>c\<close>, \<open>d\<close> that was compacted into the checkpoint \<open>k\<close>, which records \<open>d\<close> as its parent.
\<close>

definition compacted_catalog :: catalog where
  "compacted_catalog = (mini_catalog
     [mini_node ''c'' Checkpoint None, mini_node ''d'' Delta (Some ''c''), mini_node ''k'' Checkpoint (Some ''d'')]
     [mini_parent ''d'' ''c'' 0, mini_parent ''k'' ''d'' 0]
     [\<lparr>pt_id = 1, pt_snapshot_id = ''k'', pt_relation_name = ''r'', pt_part = demo_part\<rparr>])
     \<lparr>branches := [\<lparr>br_name = ''main'', br_snapshot_id = ''k'', br_updated_at = ''t''\<rparr>]\<rparr>"

lemmas compacted_simps = compacted_catalog_def mini_simps

lemma compacted_inv: "catalog_inv compacted_catalog"
  by (simp add: compacted_simps catalog_inv_def tbl_inv_def)

lemma compacted_roots: "discover_roots compacted_catalog [] = [''k'']"
  by (simp add: discover_roots_def list_branches_def list_tags_def compacted_simps)

lemma compacted_manifest:
  "get_manifest compacted_catalog ''k'' = Some \<lparr>mf_snapshot_id = ''k'', mf_kind = Checkpoint,
     mf_parents = [\<lparr>pr_snapshot_id = ''d'', pr_manifest_sha256 = ''d''\<rparr>], mf_checkpoint_anchor_id = [],
     mf_lineage_depth = 0, mf_created_at = [], mf_relations = [(''r'', [demo_part])],
     mf_logical_fingerprint = [], mf_schema_versions = [], mf_metadata = []\<rparr>"
  "get_manifest compacted_catalog ''d'' \<noteq> None" "get_manifest compacted_catalog ''c'' \<noteq> None"
  by (simp_all add: get_manifest_def compacted_simps table_simps parents_of_def relations_of_def
      group_values_def)

lemma compacted_walk: "catalog_walk_lineage id compacted_catalog ''k'' = Some [the (get_manifest compacted_catalog ''k'')]"
proof -
  have "lineage_rows compacted_catalog ''k'' = Some [(''k'', 0)]"
    by (simp add: lineage_rows_def lineage_levels.simps lineage_step_def lineage_join_def compacted_simps)
  then show ?thesis
    by (simp add: catalog_walk_lineage_def snap_ids_def ordered_lineage_def compacted_manifest(1)
        List.map_filter_simps)
qed

lemma compacted_retained: "retained_ids id rep compacted_catalog [''k''] = Some [''k'']"
  by (simp add: retained_ids_def compacted_walk compacted_manifest(1) manifest_pins_def)

lemma compacted_report:
  "retention_core id rep demo_fs [''x''] compacted_catalog [] = Some \<lparr>rr_root_snapshots = [''k''],
     rr_retained_snapshots = [''k''], rr_prunable_snapshots = [''c'', ''d''], rr_prunable_byte_size = 0\<rparr>"
  unfolding retention_core_def compacted_roots Let_def compacted_retained
  by (simp add: prunable_nodes_def prunable_dirs_def list_snapshots_def compacted_simps demo_fs_def)

lemma compacted_purge:
  "\<exists>out. purge_unreferenced id rep demo_fs [''x''] compacted_catalog
      (the (retention_core id rep demo_fs [''x''] compacted_catalog [])) False [] = Some out
    \<and> po_removed out = [''c'', ''d''] \<and> po_rmtree out = [[''x'', ''c''], [''x'', ''d'']]
    \<and> po_catalog out = foldl delete_node compacted_catalog [''c'', ''d'']"
proof -
  have ids: "map nr_snapshot_id (list_snapshots compacted_catalog) = [''c'', ''d'', ''k'']"
    by (simp add: list_snapshots_def compacted_simps)
  have owned: "is_owned_snapshot_dir demo_fs [''x''] [c] = Some [''x'', [c]]" if "c \<noteq> CHR ''.''" "c \<noteq> CHR ''/''" for c
    using that by (simp add: is_owned_snapshot_dir_def demo_fs_def join_path_def is_absolute_def path_parts_def)
  have k: "snapshot_part_paths demo_fs [''x''] compacted_catalog ''k'' = [[''x'', ''k'', ''p'']]"
    by (simp add: snapshot_part_paths_def compacted_manifest(1) resolve_part_path_def part_location_def
        demo_fs_def demo_part_def join_path_def is_absolute_def path_parts_def)
  show ?thesis
    unfolding purge_unreferenced_def compacted_report ids
    by (simp add: first_removable_def owned protect_loop.simps k is_relative_to_def List.map_filter_simps)
qed

theorem purge_keeps_lineages_witness:
  "\<exists>out. purge_unreferenced id (\<lambda>_. []) demo_fs [''x''] compacted_catalog
      (the (retention_core id (\<lambda>_. []) demo_fs [''x''] compacted_catalog [])) False [] = Some out
    \<and> get_manifest (po_catalog out) ''k'' = get_manifest compacted_catalog ''k''
    \<and> get_manifest (po_catalog out) ''d'' = None"
proof -
  obtain out where out: "purge_unreferenced id (\<lambda>_. []) demo_fs [''x''] compacted_catalog
      (the (retention_core id (\<lambda>_. []) demo_fs [''x''] compacted_catalog [])) False [] = Some out"
    "po_removed out = [''c'', ''d'']" using compacted_purge by blast
  have "is_tie id" by (simp add: is_tie_def)
  from purge_keeps_lineages[OF this compacted_inv out(1)] out show ?thesis by auto
qed

theorem purge_keeps_files_witness:
  "\<exists>out. purge_unreferenced id (\<lambda>_. []) demo_fs [''x''] compacted_catalog
      (the (retention_core id (\<lambda>_. []) demo_fs [''x''] compacted_catalog [])) False [] = Some out
    \<and> [''x'', ''d''] \<in> set (po_rmtree out) \<and> butlast [''x'', ''d''] = fs_resolve demo_fs [''x'']"
proof -
  obtain out where out: "purge_unreferenced id (\<lambda>_. []) demo_fs [''x''] compacted_catalog
      (the (retention_core id (\<lambda>_. []) demo_fs [''x''] compacted_catalog [])) False [] = Some out"
    "po_rmtree out = [[''x'', ''c''], [''x'', ''d'']]" using compacted_purge by blast
  have "[''x'', ''d''] \<in> set (po_rmtree out)" using out(2) by simp
  from purge_keeps_files[OF compacted_inv out(1) this] this out(1) show ?thesis by blast
qed

section \<open>What the audit certifies\<close>

lemma those_Some_iff: "those (map f xs) = Some ys \<longleftrightarrow> list_all2 (\<lambda>x y. f x = Some y) xs ys"
proof (induction xs arbitrary: ys)
  case (Cons x xs)
  then show ?case by (cases ys) (auto split: option.splits)
qed auto

lemma tip_errors_empty: "tip_errors tip r = [] \<longleftrightarrow> (\<exists>chain. r = Inr chain)"
  by (auto simp: tip_errors_def split: sum.splits lineage_error.splits)

lemma part_errors_empty:
  "part_errors fs rdir verify sid part = [] \<longleftrightarrow>
     (let p = part_location fs rdir sid (pd_path part) in
      fs_is_file fs p \<and> fs_size fs p = pd_byte_size part \<and> (verify \<longrightarrow> fs_sha256 fs p = pd_sha256 part))"
  by (simp add: part_errors_def Let_def)

text \<open>
  The audit calls a repository healthy exactly when the checked walk of every branch and tag
  succeeds, the graph of first parents has no reported cycle and no missing node, and every part of
  every snapshot is a file of the recorded size, with the recorded digest when digests are verified.
\<close>

theorem audit_healthy_iff:
  assumes "audit_graph tie fs rdir cat now verify = Some a"
  shows "au_is_healthy a \<longleftrightarrow>
    (\<forall>tip \<in> set (discover_roots cat []). \<exists>chain. walk_lineage tie cat tip = Some (Inr chain))
    \<and> audit_cycles cat = []
    \<and> (\<forall>n \<in> set (nodes cat). \<forall>p. nr_parent_id n = Some p \<longrightarrow> has_snapshot cat p)
    \<and> (\<forall>n \<in> set (nodes cat). \<forall>m part. get_manifest cat (nr_snapshot_id n) = Some m
         \<and> part \<in> set (concat (map snd (mf_relations m))) \<longrightarrow>
         (let p = part_location fs rdir (nr_snapshot_id n) (pd_path part) in
          fs_is_file fs p \<and> fs_size fs p = pd_byte_size part \<and> (verify \<longrightarrow> fs_sha256 fs p = pd_sha256 part)))"
proof -
  let ?roots = "sort (discover_roots cat [])"
  let ?snap = "snapshot_errors fs rdir verify cat"
  obtain tips where tips: "list_all2 (\<lambda>tip y. map_option (tip_errors tip) (walk_lineage tie cat tip) = Some y) ?roots tips"
    and healthy: "au_is_healthy a \<longleftrightarrow> concat tips = [] \<and> audit_cycles cat = [] \<and> orphan_nodes cat = []
        \<and> concat (map ?snap (map nr_snapshot_id (list_snapshots cat))) = []"
    using assms
    by (auto simp: audit_graph_def Let_def bind_eq_Some_conv those_Some_iff catalog_audit_graph_def)
  have 1: "concat tips = [] \<longleftrightarrow>
      (\<forall>tip \<in> set (discover_roots cat []). \<exists>chain. walk_lineage tie cat tip = Some (Inr chain))"
  proof -
    have "concat ys = [] \<longleftrightarrow> (\<forall>tip \<in> set xs. \<exists>chain. walk_lineage tie cat tip = Some (Inr chain))"
      if "list_all2 (\<lambda>tip y. map_option (tip_errors tip) (walk_lineage tie cat tip) = Some y) xs ys" for xs ys
      using that
    proof (induction xs arbitrary: ys)
      case (Cons x xs)
      then obtain y ys' where "ys = y # ys'" "map_option (tip_errors x) (walk_lineage tie cat x) = Some y"
        "list_all2 (\<lambda>tip y. map_option (tip_errors tip) (walk_lineage tie cat tip) = Some y) xs ys'"
        by (auto simp: list_all2_Cons1)
      then show ?case using Cons.IH[of ys'] tip_errors_empty[of x] by auto
    qed simp
    from this[OF tips] show ?thesis by simp
  qed
  have 2: "orphan_nodes cat = [] \<longleftrightarrow> (\<forall>n \<in> set (nodes cat). \<forall>p. nr_parent_id n = Some p \<longrightarrow> has_snapshot cat p)"
    unfolding orphan_nodes_def map_filter_empty_iff by (auto split: option.splits)
  have "concat (map ?snap (map nr_snapshot_id (list_snapshots cat))) = [] \<longleftrightarrow>
      (\<forall>n \<in> set (nodes cat). ?snap (nr_snapshot_id n) = [])"
    by (simp add: list_snapshots_def)
  moreover have "?snap sid = [] \<longleftrightarrow> (\<forall>m part. get_manifest cat sid = Some m
         \<and> part \<in> set (concat (map snd (mf_relations m))) \<longrightarrow> part_errors fs rdir verify sid part = [])" for sid
    using get_manifest_id[of cat sid] by (auto simp: snapshot_errors_def split: option.splits)
  ultimately show ?thesis unfolding healthy 1 2 part_errors_empty by blast
qed

lemma compacted_audit_walk: "\<exists>chain. walk_lineage id compacted_catalog ''k'' = Some (Inr chain)"
proof -
  have "audit_cycles compacted_catalog = []"
    by (simp add: audit_cycles_def compacted_simps audit_path.simps table_simps List.map_filter_simps
        on_path_def sublist_code)
  moreover have "has_snapshot compacted_catalog ''k''" using compacted_manifest(1) get_manifest_has by force
  ultimately show ?thesis
    by (simp add: walk_lineage_def catalog_audit_graph_def compacted_walk compacted_manifest(1))
qed

lemma compacted_healthy: "\<exists>a. audit_graph id demo_fs [''x''] compacted_catalog 0 True = Some a \<and> au_is_healthy a"
proof -
  obtain chain where walk: "walk_lineage id compacted_catalog ''k'' = Some (Inr chain)"
    using compacted_audit_walk by blast
  have cycles: "audit_cycles compacted_catalog = []"
    by (simp add: audit_cycles_def compacted_simps audit_path.simps table_simps List.map_filter_simps
        on_path_def sublist_code)
  have orphans: "orphan_nodes compacted_catalog = []"
    by (simp add: orphan_nodes_def compacted_simps has_snapshot_def table_simps List.map_filter_simps)
  have errs: "snapshot_errors demo_fs [''x''] True compacted_catalog sid = []" if "sid \<in> {''c'', ''d'', ''k''}" for sid
    using that
    by (auto simp: snapshot_errors_def get_manifest_def compacted_simps table_simps parents_of_def
        relations_of_def group_values_def part_errors_def demo_fs_def demo_part_def)
  have ids: "map nr_snapshot_id (list_snapshots compacted_catalog) = [''c'', ''d'', ''k'']"
    by (simp add: list_snapshots_def compacted_simps)
  show ?thesis
    unfolding audit_graph_def compacted_roots ids Let_def
    by (simp add: walk tip_errors_def catalog_audit_graph_def cycles orphans errs)
qed

theorem audit_healthy_iff_witness:
  "\<exists>a. audit_graph id demo_fs [''x''] compacted_catalog 0 True = Some a \<and> au_is_healthy a
     \<and> audit_cycles compacted_catalog = []"
proof -
  obtain a where a: "audit_graph id demo_fs [''x''] compacted_catalog 0 True = Some a" "au_is_healthy a"
    using compacted_healthy by blast
  then show ?thesis using audit_healthy_iff[OF a(1)] by blast
qed

lemma audit_reports_orphan:
  assumes "audit_graph tie fs rdir cat now verify = Some b" "n \<in> set (orphan_nodes cat)"
  shows "OrphanNode (or_snapshot_id n) (or_parent_id n) \<in> set (au_errors b) \<and> \<not> au_is_healthy b"
proof -
  have "au_is_healthy b = (au_errors b = [])" "OrphanNode (or_snapshot_id n) (or_parent_id n) \<in> set (au_errors b)"
    using assms by (auto simp: audit_graph_def Let_def bind_eq_Some_conv catalog_audit_graph_def)
  then show ?thesis by auto
qed

text \<open>
  Collecting a compacted lineage makes a healthy repository unhealthy: the checkpoint keeps naming
  the compacted tip as its parent, the purge deletes that tip because a checkpoint ends every walk, and
  the audit then reports the checkpoint as an orphan.
\<close>

theorem purge_after_compaction_orphans:
  "\<exists>a out b. audit_graph id demo_fs [''x''] compacted_catalog 0 True = Some a \<and> au_is_healthy a
    \<and> purge_unreferenced id rep demo_fs [''x''] compacted_catalog
        (the (retention_core id rep demo_fs [''x''] compacted_catalog [])) False [] = Some out
    \<and> audit_graph id demo_fs [''x''] (po_catalog out) 0 True = Some b
    \<and> OrphanNode ''k'' ''d'' \<in> set (au_errors b) \<and> \<not> au_is_healthy b"
proof -
  obtain chain where walk: "walk_lineage id compacted_catalog ''k'' = Some (Inr chain)"
    using compacted_audit_walk by blast
  obtain a where a: "audit_graph id demo_fs [''x''] compacted_catalog 0 True = Some a" "au_is_healthy a"
    using compacted_healthy by blast
  obtain out where out: "purge_unreferenced id rep demo_fs [''x''] compacted_catalog
        (the (retention_core id rep demo_fs [''x''] compacted_catalog [])) False [] = Some out"
    "po_catalog out = foldl delete_node compacted_catalog [''c'', ''d'']" using compacted_purge by blast
  let ?cat = "foldl delete_node compacted_catalog [''c'', ''d'']"
  have roots: "discover_roots ?cat [] = [''k'']"
    using compacted_roots by (simp add: discover_roots_def list_branches_def list_tags_def delete_node_def)
  have inv: "catalog_inv ?cat" using delete_nodes[OF compacted_inv] by blast
  have orphan: "\<lparr>or_snapshot_id = ''k'', or_parent_id = ''d''\<rparr> \<in> set (orphan_nodes ?cat)"
    by (simp add: orphan_nodes_def delete_node_def compacted_simps tbl_delete_def has_snapshot_def
        table_simps List.map_filter_simps)
  have "lineage_edge ?cat = {}"
    unfolding delete_nodes_edge by (auto simp: lineage_edge_def compacted_simps)
  then have "walk_lineage id ?cat ''k'' \<noteq> None" using walk_diverges_iff[OF inv] by simp
  then obtain r where "walk_lineage id ?cat ''k'' = Some r" by blast
  then have "\<exists>b. audit_graph id demo_fs [''x''] ?cat 0 True = Some b"
    unfolding audit_graph_def roots Let_def by simp
  then obtain b where b: "audit_graph id demo_fs [''x''] ?cat 0 True = Some b" ..
  show ?thesis using a out b audit_reports_orphan[OF b orphan] by auto
qed

definition publish_lock :: "filesystem \<Rightarrow> path \<Rightarrow> path" where
  "publish_lock fs rdir = lock_file fs (catalog_file rdir)"

definition purge_lock :: "filesystem \<Rightarrow> path \<Rightarrow> path" where
  "purge_lock fs rdir = lock_file fs (publication_lock_path rdir)"

text \<open>
  A purge and a publication do not exclude each other: the publication locks the catalog file, the
  purge locks another file, whatever the repository's root is.
\<close>

theorem purge_and_publish_locks_differ:
  assumes "\<not> fs_is_dir fs (catalog_file rdir)" "\<not> fs_is_dir fs (publication_lock_path rdir)"
  shows "publish_lock fs rdir \<noteq> purge_lock fs rdir"
  using assms
  by (simp add: publish_lock_def purge_lock_def lock_file_def catalog_file_def publication_lock_path_def
      CATALOG_DB_NAME_def PUBLICATION_LOCK_FILE_def join_path_def is_absolute_def path_parts_def)

theorem purge_and_publish_locks_differ_witness:
  "publish_lock (demo_fs\<lparr>fs_is_dir := (\<lambda>p. False)\<rparr>) [''x''] \<noteq> purge_lock (demo_fs\<lparr>fs_is_dir := (\<lambda>p. False)\<rparr>) [''x'']"
  by (rule purge_and_publish_locks_differ) simp_all

end
