(* ===== verification/DagQuery.thy ===== *)
theory DagQuery
  imports DagResolution
begin

text \<open>
  Point queries over pruned parts, \<^verbatim>\<open>infra/storage/dag/query.py\<close>; the anti-join that drops
  candidate rows which change nothing, \<^verbatim>\<open>anti_join.py\<close>; and the fingerprint of the active
  views, \<^verbatim>\<open>compute_logical_fingerprint\<close> of \<^verbatim>\<open>resolution.py\<close>.
\<close>

section \<open>Pruned views\<close>

definition derive_accession_range :: "string \<Rightarrow> string \<times> string" where
  "derive_accession_range cik = (zfill 10 cik @ ''-00-000000'', zfill 10 cik @ ''-99-999999'')"

definition pruned_out :: "string option \<Rightarrow> string option \<Rightarrow> part_descriptor \<Rightarrow> bool" where
  "pruned_out key_min key_max part \<longleftrightarrow>
     (case (key_min, pd_key_max part) of (Some lo, Some v) \<Rightarrow> v < lo | _ \<Rightarrow> False)
     \<or> (case (key_max, pd_key_min part) of (Some hi, Some v) \<Rightarrow> hi < v | _ \<Rightarrow> False)"

definition candidate_parts ::
  "filesystem \<Rightarrow> path \<Rightarrow> lineage_chain \<Rightarrow> string \<Rightarrow> string option \<Rightarrow> string option \<Rightarrow> (nat \<times> path) list"
  where
  "candidate_parts fs rdir lineage relation_name key_min key_max =
     concat (map (\<lambda>(rank, node).
       map (\<lambda>p. (rank, fs_resolve fs p)) (filter (fs_is_file fs)
         (map (\<lambda>part. part_location fs rdir (mf_snapshot_id node) (pd_path part))
           (filter (\<lambda>part. \<not> pruned_out key_min key_max part) (relation_parts node relation_name)))))
       (enumerate 0 (lc_nodes lineage)))"

text \<open>
  The statement holds the path of a candidate between single quotes as it is: DuckDB reads two
  quotes as one, and a single quote ends the literal. What follows it is not modelled as SQL of its
  own, the statement is taken not to parse.
\<close>

fun sql_unquote :: "string \<Rightarrow> string option" where
  "sql_unquote [] = Some []"
| "sql_unquote [c] = (if c = quote1 then None else Some [c])"
| "sql_unquote (c # d # cs) =
     (if c \<noteq> quote1 then map_option (Cons c) (sql_unquote (d # cs))
      else if d = quote1 then map_option (Cons c) (sql_unquote cs) else None)"

definition literal_path :: "path \<Rightarrow> path option" where
  "literal_path p = those (map sql_unquote p)"

definition candidate_rows ::
  "filesystem \<Rightarrow> (path \<Rightarrow> row list) \<Rightarrow> (nat \<times> path) list
    \<Rightarrow> (compile_error, (nat \<times> row) list option) result" where
  "candidate_rows fs read_parquet cands =
     (if cands = [] then Inr None
      else case find (\<lambda>(rank, p). literal_path p = None) cands of
        Some (_, p) \<Rightarrow> Inl (BrokenPathLiteral p)
      | None \<Rightarrow>
          (let files = map (\<lambda>(rank, p). (rank, the (literal_path p))) cands in
           case find (\<lambda>(rank, q). \<not> fs_is_file fs q) files of
             Some (_, q) \<Rightarrow> Inl (MissingPart q)
           | None \<Rightarrow> Inr (Some (concat (map (\<lambda>(rank, q). map (Pair rank) (read_parquet q)) files)))))"

text \<open>\<^verbatim>\<open>sorted(specs, key=...)\<close>: scoped-mask relations last, otherwise in the given order.\<close>

definition masks_last :: "relation_spec list \<Rightarrow> relation_spec list" where
  "masks_last specs = sort_key (\<lambda>sp. if rs_merge_strategy sp = ScopedMask then 1 else (0::nat)) specs"

fun compile_pruned ::
  "((nat \<times> row) list \<Rightarrow> (nat \<times> row) list)
    \<Rightarrow> (string \<Rightarrow> (compile_error, (nat \<times> row) list option) result)
    \<Rightarrow> (string \<times> view) list \<Rightarrow> relation_spec list \<Rightarrow> (compile_error, (string \<times> view) list) result"
  where
  "compile_pruned tie raw_of views [] = Inr views"
| "compile_pruned tie raw_of views (sp # sps) =
     bind_res (check_identifiers [rs_name sp]) (\<lambda>_.
     bind_res (raw_of (rs_name sp)) (\<lambda>raw.
     bind_res (compile_view tie views sp raw)
       (\<lambda>v. compile_pruned tie raw_of ((rs_name sp, v) # views) sps)))"

definition compile_pruned_views ::
  "((nat \<times> row) list \<Rightarrow> (nat \<times> row) list) \<Rightarrow> filesystem \<Rightarrow> (path \<Rightarrow> row list) \<Rightarrow> relation_spec list
    \<Rightarrow> lineage_chain \<Rightarrow> path \<Rightarrow> (string \<Rightarrow> string option \<times> string option)
    \<Rightarrow> (compile_error, (string \<times> view) list) result" where
  "compile_pruned_views tie fs read_parquet specs lineage snapshots_root ranges =
     compile_pruned tie (\<lambda>rel. candidate_rows fs read_parquet
         (candidate_parts fs snapshots_root lineage rel (fst (ranges rel)) (snd (ranges rel))))
       [] (masks_last specs)"

definition query_column :: "relation_spec \<Rightarrow> string option \<Rightarrow> string" where
  "query_column sp key_column =
     (if given key_column then the key_column
      else if given (rs_entity_key sp) then the (rs_entity_key sp) else hd (rs_primary_key sp))"

definition query_range :: "relation_spec \<Rightarrow> string \<Rightarrow> string \<Rightarrow> string \<times> string" where
  "query_range sp c key_value =
     (if c = ''filing_cik'' \<and> ''accession'' \<in> set (map fst (rs_schema sp))
      then derive_accession_range key_value else (key_value, key_value))"

text \<open>
  The value the bound parameter is compared as: the key itself in a text column, what DuckDB casts
  it to (\<open>duckdb_cast\<close>, \<open>None\<close> where it cannot) in a column of another type.
\<close>

definition query_key ::
  "(string \<Rightarrow> string \<Rightarrow> sqlval option) \<Rightarrow> relation_spec \<Rightarrow> string \<Rightarrow> string \<Rightarrow> (compile_error, sqlval) result"
  where
  "query_key duckdb_cast sp c key_value =
     (case map_of (rs_schema sp) c of
        None \<Rightarrow> Inl (NoSuchColumn c)
      | Some ty \<Rightarrow>
          if ty = ''string'' \<or> ty = ''large_string'' then Inr (SqlText key_value)
          else case duckdb_cast ty key_value of
              None \<Rightarrow> Inl (KeyNotConvertible key_value) | Some v \<Rightarrow> Inr v)"

definition query_point ::
  "(string \<Rightarrow> string \<Rightarrow> sqlval option) \<Rightarrow> ((nat \<times> row) list \<Rightarrow> (nat \<times> row) list) \<Rightarrow> filesystem
    \<Rightarrow> (path \<Rightarrow> row list) \<Rightarrow> relation_spec \<Rightarrow> lineage_chain \<Rightarrow> path \<Rightarrow> string \<Rightarrow> string option
    \<Rightarrow> relation_spec list option \<Rightarrow> (compile_error, row list) result" where
  "query_point duckdb_cast tie fs read_parquet sp lineage snapshots_root key_value key_column all_specs =
     (let c = query_column sp key_column;
          (r_min, r_max) = query_range sp c key_value;
          target_specs = (case all_specs of None \<Rightarrow> [sp] | Some sps \<Rightarrow> sps);
          ranges = (\<lambda>name. if name \<in> set (map rs_name target_specs)
                           then (Some r_min, Some r_max) else (None, None)) in
      bind_res (compile_pruned_views tie fs read_parquet target_specs lineage snapshots_root ranges)
        (\<lambda>views. bind_res (check_identifiers [rs_name sp, c]) (\<lambda>_.
          case map_of views (rs_name sp) of
            None \<Rightarrow> Inl (NoSuchView (rs_name sp))
          | Some v \<Rightarrow> bind_res (query_key duckdb_cast sp c key_value) (\<lambda>kv.
              Inr (filter (\<lambda>r. sql_eq (col r c) kv) (vw_active v))))))"

section \<open>Pruning loses nothing\<close>

text \<open>A row stands in a file of a part of the lineage.\<close>

definition row_in_part ::
  "filesystem \<Rightarrow> (path \<Rightarrow> row list) \<Rightarrow> path \<Rightarrow> string \<Rightarrow> lineage_chain \<Rightarrow> nat \<Rightarrow> part_descriptor \<Rightarrow> row \<Rightarrow> bool"
  where
  "row_in_part fs read_parquet rdir rel lineage rank part r \<longleftrightarrow>
     rank < length (lc_nodes lineage) \<and> part \<in> set (relation_parts (lc_nodes lineage ! rank) rel)
     \<and> (let loc = part_location fs rdir (mf_snapshot_id (lc_nodes lineage ! rank)) (pd_path part)
        in fs_is_file fs loc \<and> r \<in> set (read_parquet (fs_resolve fs loc)))"

lemma enumerate_mem: "(rank, x) \<in> set (enumerate 0 xs) \<longleftrightarrow> rank < length xs \<and> x = xs ! rank"
  by (auto simp: in_set_enumerate_eq)

definition rows_of :: "(nat \<times> row) list option \<Rightarrow> (nat \<times> row) list" where
  "rows_of raw = (case raw of None \<Rightarrow> [] | Some rows \<Rightarrow> rows)"

lemma rows_of_simps [simp]: "rows_of None = []" "rows_of (Some rows) = rows"
  by (simp_all add: rows_of_def)

definition part_rows ::
  "filesystem \<Rightarrow> (path \<Rightarrow> row list) \<Rightarrow> path \<Rightarrow> nat \<Rightarrow> dag_manifest \<Rightarrow> part_descriptor \<Rightarrow> (nat \<times> row) list"
  where
  "part_rows fs read_parquet rdir rank node part =
     (let loc = part_location fs rdir (mf_snapshot_id node) (pd_path part)
      in if fs_is_file fs loc then map (Pair rank) (read_parquet (fs_resolve fs loc)) else [])"

definition kept_rows ::
  "filesystem \<Rightarrow> (path \<Rightarrow> row list) \<Rightarrow> path \<Rightarrow> string \<Rightarrow> dag_manifest list \<Rightarrow> (part_descriptor \<Rightarrow> bool)
    \<Rightarrow> (nat \<times> row) list" where
  "kept_rows fs read_parquet rdir rel ns P =
     concat (map (\<lambda>(rank, node). concat (map (part_rows fs read_parquet rdir rank node)
       (filter P (relation_parts node rel)))) (enumerate 0 ns))"

lemma raw_rows_kept:
  "rows_of (raw_rows fs read_parquet rdir rel ns) = kept_rows fs read_parquet rdir rel ns (\<lambda>_. True)"
proof -
  let ?q = "map (\<lambda>(rank, node). (rank, node_part_paths fs rdir node (relation_parts node rel))) (enumerate 0 ns)"
  let ?f = "\<lambda>(rank, paths). map (Pair rank) (concat (map read_parquet paths))"
  have parts: "map (Pair rank) (concat (map read_parquet (node_part_paths fs rdir node ps))) =
      concat (map (part_rows fs read_parquet rdir rank node) ps)" for rank :: nat and node ps
    by (induction ps) (auto simp: node_part_paths_def part_rows_def Let_def)
  have drop: "concat (map ?f (filter (\<lambda>(rank, paths). paths \<noteq> []) xs)) = concat (map ?f xs)" for xs
    by (induction xs) auto
  have opt: "rows_of (if F = [] then None else Some (concat (map g F))) = concat (map g F)"
    for g :: "nat \<times> path list \<Rightarrow> (nat \<times> row) list" and F by simp
  have "rows_of (raw_rows fs read_parquet rdir rel ns) = concat (map ?f ?q)"
    unfolding raw_rows_def Let_def opt by (rule drop)
  then show ?thesis by (simp add: kept_rows_def comp_def case_prod_unfold parts)
qed

lemma literal_path_plain: "quote1 \<notin> \<Union> (set ` set p) \<Longrightarrow> literal_path p = Some p"
proof -
  have "quote1 \<notin> set s \<Longrightarrow> sql_unquote s = Some s" for s
    by (induction s rule: sql_unquote.induct) auto
  then have "quote1 \<notin> \<Union> (set ` set p) \<Longrightarrow> those (map sql_unquote p) = Some p"
    by (induction p) auto
  then show "quote1 \<notin> \<Union> (set ` set p) \<Longrightarrow> literal_path p = Some p" by (simp add: literal_path_def)
qed

text \<open>A quote in the name of a candidate makes the query fail or read another file.\<close>

lemma broken_literal:
  assumes "(rank, p) \<in> set cands" "literal_path p = None"
  shows "\<exists>q. candidate_rows fs read_parquet cands = Inl (BrokenPathLiteral q)"
proof -
  have "find (\<lambda>(rank, p). literal_path p = None) cands \<noteq> None"
    using assms by (auto simp: find_None_iff)
  then show ?thesis using assms(1) by (auto simp: candidate_rows_def)
qed

lemma candidate_rows_kept:
  assumes "candidate_rows fs read_parquet (candidate_parts fs rdir lineage rel lo hi) = Inr raw"
    and plain: "\<forall>(rank, p) \<in> set (candidate_parts fs rdir lineage rel lo hi). quote1 \<notin> \<Union> (set ` set p)"
  shows "rows_of raw = kept_rows fs read_parquet rdir rel (lc_nodes lineage) (\<lambda>part. \<not> pruned_out lo hi part)"
proof -
  let ?cands = "candidate_parts fs rdir lineage rel lo hi"
  have "map (\<lambda>(rank, p). (rank, the (literal_path p))) ?cands = ?cands"
    using plain by (intro map_idI) (auto simp: literal_path_plain)
  then have "rows_of raw = concat (map (\<lambda>(rank, q). map (Pair rank) (read_parquet q)) ?cands)"
    using assms(1) by (auto simp: candidate_rows_def Let_def split: if_splits option.splits)
  also have "\<dots> = kept_rows fs read_parquet rdir rel (lc_nodes lineage) (\<lambda>part. \<not> pruned_out lo hi part)"
  proof -
    have parts: "concat (map (\<lambda>(rank, q). map (Pair rank) (read_parquet q)) (map (\<lambda>p. (rank, fs_resolve fs p))
        (filter (fs_is_file fs) (map (\<lambda>part. part_location fs rdir (mf_snapshot_id node) (pd_path part)) ps))))
      = concat (map (part_rows fs read_parquet rdir rank node) ps)" for rank :: nat and node ps
      by (induction ps) (auto simp: part_rows_def Let_def)
    have flat: "concat (map g (concat (map h xs))) = concat (map (\<lambda>x. concat (map g (h x))) xs)"
      for g :: "nat \<times> path \<Rightarrow> (nat \<times> row) list" and h and xs :: "(nat \<times> dag_manifest) list"
      by (induction xs) auto
    show ?thesis
      unfolding candidate_parts_def kept_rows_def flat
      by (intro arg_cong[where f = concat] map_cong refl) (simp only: split_paired_all prod.case parts)
  qed
  finally show ?thesis .
qed

lemma part_rows_mem:
  "(rank, r) \<in> set (part_rows fs read_parquet rdir k node part) \<longleftrightarrow>
     k = rank \<and> (let loc = part_location fs rdir (mf_snapshot_id node) (pd_path part)
                 in fs_is_file fs loc \<and> r \<in> set (read_parquet (fs_resolve fs loc)))"
  by (auto simp: part_rows_def Let_def)

lemma kept_rows_mem:
  "(rank, r) \<in> set (kept_rows fs read_parquet rdir rel (lc_nodes lineage) P) \<longleftrightarrow>
     (\<exists>part. row_in_part fs read_parquet rdir rel lineage rank part r \<and> P part)"
proof -
  have "(rank, r) \<in> set (kept_rows fs read_parquet rdir rel (lc_nodes lineage) P) \<longleftrightarrow>
      (\<exists>k node. (k, node) \<in> set (enumerate 0 (lc_nodes lineage)) \<and>
        (\<exists>part \<in> set (relation_parts node rel). P part \<and>
          (rank, r) \<in> set (part_rows fs read_parquet rdir k node part)))"
    by (fastforce simp: kept_rows_def)
  then show ?thesis
    by (auto simp: enumerate_mem part_rows_mem row_in_part_def Let_def)
qed

lemma kept_rows_filter:
  assumes "\<And>rank part r. row_in_part fs read_parquet rdir rel lineage rank part r \<Longrightarrow> Q (rank, r) \<Longrightarrow> P part"
  shows "filter Q (kept_rows fs read_parquet rdir rel (lc_nodes lineage) P) =
    filter Q (kept_rows fs read_parquet rdir rel (lc_nodes lineage) (\<lambda>_. True))"
proof -
  have drop: "concat (map h (filter P ps)) = concat (map h ps)"
    if "\<forall>part \<in> set ps. \<not> P part \<longrightarrow> h part = []"
    for ps and h :: "part_descriptor \<Rightarrow> (nat \<times> row) list"
    using that by (induction ps) auto
  have none: "filter Q (part_rows fs read_parquet rdir rank (lc_nodes lineage ! rank) part) = []"
    if "rank < length (lc_nodes lineage)" "part \<in> set (relation_parts (lc_nodes lineage ! rank) rel)"
      "\<not> P part" for rank part
    using assms[of rank part] that
    by (auto simp: filter_empty_conv part_rows_def row_in_part_def Let_def split: if_splits)
  show ?thesis
    unfolding kept_rows_def filter_concat map_map
    by (intro arg_cong[where f = concat] map_cong refl)
      (auto simp: filter_concat comp_def enumerate_mem intro!: drop none)
qed

subsection \<open>What a compiled view holds\<close>

definition mask_parent :: "relation_spec \<Rightarrow> string" where
  "mask_parent sp = (case rs_parent_relation sp of None \<Rightarrow> [] | Some p \<Rightarrow> p)"

definition view_content ::
  "((nat \<times> row) list \<Rightarrow> (nat \<times> row) list) \<Rightarrow> (string \<Rightarrow> (nat \<times> row) list option) \<Rightarrow> relation_spec \<Rightarrow> row list"
  where
  "view_content tie rawf sp =
     (let raw = rows_of (rawf (rs_name sp)) in
      case rs_merge_strategy sp of
        Upsert \<Rightarrow> upsert_view tie (rs_primary_key sp) raw
      | Append \<Rightarrow> append_view tie sp raw
      | ScopedMask \<Rightarrow> scoped_mask_view tie (mask_join_keys sp) (rows_of (rawf (mask_parent sp))) raw)"

definition raws_agree :: "(string \<Rightarrow> (nat \<times> row) list option) \<Rightarrow> (string \<times> view) list \<Rightarrow> bool" where
  "raws_agree rawf views \<longleftrightarrow> (\<forall>n v. map_of views n = Some v \<longrightarrow> vw_raw v = rawf n)"

lemma compile_view_content:
  assumes "is_tie tie" "compile_view tie views sp (rawf (rs_name sp)) = Inr v" "raws_agree rawf views"
  shows "v = \<lparr>vw_raw = rawf (rs_name sp), vw_active = view_content tie rawf sp\<rparr>"
proof (cases "rawf (rs_name sp)")
  case None
  have "tie [] = []" using assms(1)[unfolded is_tie_def, rule_format, of "[]"] by simp
  then have "view_content tie rawf sp = []"
    using None by (simp add: view_content_def upsert_view_def append_view_def scoped_mask_view_def
        split: merge_strategy.split)
  then show ?thesis using assms(2) None by (auto simp: compile_view_def bind_res_Inr_iff)
next
  case (Some raw)
  then obtain active where v: "v = \<lparr>vw_raw = Some raw, vw_active = active\<rparr>"
    and a: "active_rows tie views sp raw = Inr active"
    using assms(2) by (auto simp: compile_view_def bind_res_Inr_iff)
  have "active = view_content tie rawf sp"
  proof (cases "rs_merge_strategy sp")
    case ScopedMask
    then obtain pv praw where "map_of views (mask_parent sp) = Some pv" "vw_raw pv = Some praw"
      "active = scoped_mask_view tie (mask_join_keys sp) praw raw"
      using a by (auto simp: active_rows_def mask_parent_def bind_res_Inr_iff Let_def split: option.splits)
    moreover from this have "rawf (mask_parent sp) = Some praw"
      using assms(3) by (simp add: raws_agree_def)
    ultimately show ?thesis using Some ScopedMask by (simp add: view_content_def)
  qed (use a Some in \<open>auto simp: active_rows_def view_content_def bind_res_Inr_iff\<close>)
  then show ?thesis using v Some by simp
qed

lemma compile_view_parent:
  assumes "compile_view tie views sp (rawf (rs_name sp)) = Inr v" "raws_agree rawf views"
    and "rs_merge_strategy sp = ScopedMask" "rawf (rs_name sp) \<noteq> None"
  shows "rawf (mask_parent sp) \<noteq> None"
  using assms by (fastforce simp: compile_view_def active_rows_def mask_parent_def bind_res_Inr_iff
      raws_agree_def Let_def split: option.splits)

lemma compile_specs_content:
  assumes "is_tie tie" "compile_specs tie rawf views sps = Inr out" "raws_agree rawf views"
  shows "map_of views \<subseteq>\<^sub>m map_of out \<and> distinct (map rs_name sps)
    \<and> set (map rs_name sps) \<inter> fst ` set views = {}
    \<and> (\<forall>sp \<in> set sps. map_of out (rs_name sp) =
        Some \<lparr>vw_raw = rawf (rs_name sp), vw_active = view_content tie rawf sp\<rparr>)"
  using assms(2,3)
proof (induction sps arbitrary: views)
  case (Cons sp sps)
  then obtain v where fresh: "map lower_char (rs_name sp) \<notin> set (map (map lower_char \<circ> fst) views)"
    and v: "compile_view tie views sp (rawf (rs_name sp)) = Inr v"
    and rest: "compile_specs tie rawf (views @ [(rs_name sp, v)]) sps = Inr out"
    by (auto simp: bind_res_Inr_iff split: if_splits)
  have new: "rs_name sp \<notin> fst ` set views" using fresh by (force simp: image_iff)
  note content = compile_view_content[OF assms(1) v Cons.prems(2)]
  have "raws_agree rawf (views @ [(rs_name sp, v)])"
    using Cons.prems(2) content by (auto simp: raws_agree_def map_add_Some_iff)
  note IH = Cons.IH[OF rest this]
  have keep: "map_of views \<subseteq>\<^sub>m map_of (views @ [(rs_name sp, v)])"
    using new by (auto simp: map_le_def dom_map_of_conv_image_fst map_add_dom_app_simps)
  have "map_of (views @ [(rs_name sp, v)]) (rs_name sp) = Some v"
    using new by (simp add: map_add_Some_iff map_of_eq_None_iff)
  then have "map_of out (rs_name sp) = Some v"
    using IH by (metis domI map_le_def)
  moreover have "map_of views \<subseteq>\<^sub>m map_of out" using keep IH map_le_trans by blast
  ultimately show ?case using IH new content by auto
qed (simp add: map_le_def)

lemma compile_pruned_content:
  assumes "is_tie tie" "compile_pruned tie raw_of views sps = Inr out" "raws_agree rawf views"
    and "\<And>n raw. raw_of n = Inr raw \<Longrightarrow> rawf n = raw"
    and "distinct (map rs_name sps)" "set (map rs_name sps) \<inter> fst ` set views = {}"
  shows "map_of views \<subseteq>\<^sub>m map_of out \<and> (\<forall>sp \<in> set sps. raw_of (rs_name sp) = Inr (rawf (rs_name sp))
    \<and> (rs_merge_strategy sp = ScopedMask \<and> rawf (rs_name sp) \<noteq> None \<longrightarrow> rawf (mask_parent sp) \<noteq> None)
    \<and> map_of out (rs_name sp) = Some \<lparr>vw_raw = rawf (rs_name sp), vw_active = view_content tie rawf sp\<rparr>)"
  using assms(2,3,5,6)
proof (induction sps arbitrary: views)
  case (Cons sp sps)
  then obtain raw v where raw: "raw_of (rs_name sp) = Inr raw"
    and v: "compile_view tie views sp raw = Inr v"
    and rest: "compile_pruned tie raw_of ((rs_name sp, v) # views) sps = Inr out"
    by (auto simp: bind_res_Inr_iff)
  have new: "rs_name sp \<notin> fst ` set views" using Cons.prems(4) by auto
  note same = assms(4)[OF raw]
  have content: "v = \<lparr>vw_raw = rawf (rs_name sp), vw_active = view_content tie rawf sp\<rparr>"
    by (rule compile_view_content[OF assms(1) _ Cons.prems(2)]) (simp add: v same)
  have "raws_agree rawf ((rs_name sp, v) # views)"
    using Cons.prems(2) content by (auto simp: raws_agree_def)
  moreover have "distinct (map rs_name sps)" "set (map rs_name sps) \<inter> fst ` set ((rs_name sp, v) # views) = {}"
    using Cons.prems(3,4) by auto
  ultimately have IH: "map_of ((rs_name sp, v) # views) \<subseteq>\<^sub>m map_of out \<and> (\<forall>sp \<in> set sps.
      raw_of (rs_name sp) = Inr (rawf (rs_name sp))
      \<and> (rs_merge_strategy sp = ScopedMask \<and> rawf (rs_name sp) \<noteq> None \<longrightarrow> rawf (mask_parent sp) \<noteq> None)
      \<and> map_of out (rs_name sp) =
        Some \<lparr>vw_raw = rawf (rs_name sp), vw_active = view_content tie rawf sp\<rparr>)"
    using Cons.IH[OF rest] by blast
  have keep: "map_of views \<subseteq>\<^sub>m map_of ((rs_name sp, v) # views)"
    using new by (force simp: map_le_def dom_map_of_conv_image_fst)
  have "map_of out (rs_name sp) = Some v"
    using IH by (metis domI fun_upd_same map_le_def map_of.simps(2) fst_conv snd_conv)
  moreover have "map_of views \<subseteq>\<^sub>m map_of out" using keep IH map_le_trans by blast
  moreover have "rawf (mask_parent sp) \<noteq> None" if "rs_merge_strategy sp = ScopedMask" "rawf (rs_name sp) \<noteq> None"
    by (rule compile_view_parent[where tie = tie and v = v, OF _ Cons.prems(2) that]) (simp add: v same)
  ultimately show ?case using IH raw same content by auto
qed (simp add: map_le_def)

subsection \<open>Rows in range\<close>

text \<open>The recorded key range of a part holds the values its rows have in a column.\<close>

definition bounds_hold :: "string \<Rightarrow> part_descriptor \<Rightarrow> row \<Rightarrow> bool" where
  "bounds_hold b part r \<longleftrightarrow>
     (case col r b of
        SqlText v \<Rightarrow> (case pd_key_min part of None \<Rightarrow> True | Some lo \<Rightarrow> lo \<le> v)
          \<and> (case pd_key_max part of None \<Rightarrow> True | Some hi \<Rightarrow> v \<le> hi)
      | _ \<Rightarrow> True)"

definition in_range :: "string \<Rightarrow> string \<Rightarrow> string \<Rightarrow> row \<Rightarrow> bool" where
  "in_range b lo hi r \<longleftrightarrow> (case col r b of SqlText v \<Rightarrow> lo \<le> v \<and> v \<le> hi | _ \<Rightarrow> False)"

lemma bounds_not_pruned:
  assumes "bounds_hold b part r" "in_range b lo hi r"
  shows "\<not> pruned_out (Some lo) (Some hi) part"
proof -
  obtain v where v: "col r b = SqlText v" "lo \<le> v" "v \<le> hi"
    using assms(2) by (auto simp: in_range_def split: sqlval.splits)
  have "\<not> mx < lo" if "pd_key_max part = Some mx" for mx
    using that assms(1) v by (auto simp: bounds_hold_def not_less intro: order_trans)
  moreover have "\<not> hi < mn" if "pd_key_min part = Some mn" for mn
    using that assms(1) v by (auto simp: bounds_hold_def not_less intro: order_trans)
  ultimately show ?thesis by (auto simp: pruned_out_def split: option.splits)
qed

text \<open>
  Two sets of raw rows that agree on the queried rows give views that agree on them, when rows with
  one primary key are queried or not together.
\<close>

lemma first_rows_filter:
  assumes order: "row_order le" and rank: "\<And>a b. le a b \<Longrightarrow> le b a \<Longrightarrow> fst a = fst b"
    and tie: "is_tie tie" "is_tie tie'" and sub: "set P \<subseteq> set F"
    and same: "filter (\<lambda>x. Q (snd x)) P = filter (\<lambda>x. Q (snd x)) F"
    and keys: "node_keys_distinct pk F"
    and det: "\<And>a b. a \<in> set F \<Longrightarrow> b \<in> set F \<Longrightarrow> cols pk (snd a) = cols pk (snd b) \<Longrightarrow> Q (snd a) = Q (snd b)"
  shows "mset (filter Q (map snd (first_per_key (\<lambda>r. cols pk (snd r)) (sort_le le (tie P))))) =
    mset (filter Q (map snd (first_per_key (\<lambda>r. cols pk (snd r)) (sort_le le (tie' F)))))"
proof -
  let ?key = "\<lambda>r. cols pk (snd r)"
  let ?first = "\<lambda>tie xs. first_per_key ?key (sort_le le (tie xs))"
  have iff: "q \<in> set (?first t xs) \<longleftrightarrow> q \<in> set xs \<and> (\<forall>s \<in> set xs. ?key s = ?key q \<longrightarrow> le q s)"
    if "is_tie t" "set xs \<subseteq> set F" for t xs q
    using row_order.first_per_key_iff[OF order, of "t xs" ?key q] tie_set[OF that(1), of xs] that(2)
      node_keys_unique[OF keys] rank by blast
  have queried: "s \<in> set P \<longleftrightarrow> s \<in> set F" if "Q (snd s)" for s
    using arg_cong[OF same, of set] that by auto
  have "q \<in> set (?first tie P) \<longleftrightarrow> q \<in> set (?first tie' F)" if q: "Q (snd q)" for q
  proof -
    have "s \<in> set P \<longleftrightarrow> s \<in> set F" if "?key s = ?key q" "q \<in> set F" for s
      using det[OF _ that(2) that(1)] queried sub q by blast
    then show ?thesis
      unfolding iff[OF tie(1) sub] iff[OF tie(2) subset_refl] using queried[OF q] by blast
  qed
  then have "set (filter Q (map snd (?first tie P))) = set (filter Q (map snd (?first tie' F)))"
    by (auto simp: image_iff)
  moreover have "distinct (filter Q (map snd (?first t xs)))" for t xs
    using first_view_distinct[of pk "sort_le le (t xs)"] by (metis distinct_filter distinct_map)
  ultimately show ?thesis by (subst set_eq_iff_mset_eq_distinct[symmetric])
qed

lemma append_order_rank: "append_order sp a b \<Longrightarrow> append_order sp b a \<Longrightarrow> fst a = fst b"
  by (auto simp: append_order_def oldest_first_def newest_first_def tie_breaker_le_def
      split: if_splits tie_op.splits dest: sql_le_antisym sql_ge_antisym)

lemma newest_rank_filter:
  "filter (\<lambda>x. cols ks (snd x) = k) P = filter (\<lambda>x. cols ks (snd x) = k) F \<Longrightarrow>
   newest_rank ks P k = newest_rank ks F k"
  by (simp add: newest_rank_def)

lemma mask_rows_filter:
  assumes tie: "is_tie tie" "is_tie tie'"
    and same: "filter (\<lambda>x. Q (snd x)) P = filter (\<lambda>x. Q (snd x)) F"
    and parents: "\<And>x. x \<in> set F \<Longrightarrow> Q (snd x) \<Longrightarrow>
      newest_rank ks pP (cols ks (snd x)) = newest_rank ks pF (cols ks (snd x))"
  shows "filter Q (scoped_mask_view tie ks pP P) = filter Q (scoped_mask_view tie' ks pF F)"
proof -
  let ?vis = "\<lambda>praw (rank, r). SqlNull \<notin> set (cols ks r) \<and> newest_rank ks praw (cols ks r) = Some rank"
  have "filter Q (map snd (filter (?vis praw) xs)) = map snd (filter (?vis praw) (filter (\<lambda>x. Q (snd x)) xs))"
    for praw xs by (simp add: filter_map comp_def conj_commute)
  moreover have "filter (?vis pP) (filter (\<lambda>x. Q (snd x)) F) = filter (?vis pF) (filter (\<lambda>x. Q (snd x)) F)"
    using parents by (intro filter_cong refl) auto
  ultimately show ?thesis
    unfolding scoped_mask_view_filter[OF tie(1)] scoped_mask_view_filter[OF tie(2)] by (simp only: same)
qed

subsection \<open>The query and the full view\<close>

lemma query_point_view:
  assumes "query_point cast tie fs read_parquet sp lineage rdir key key_column all_specs = Inr res"
    and "specs = (case all_specs of None \<Rightarrow> [sp] | Some sps \<Rightarrow> sps)"
    and "query_range sp (query_column sp key_column) key = (lo, hi)"
  obtains ranges views v kv where
    "\<And>rel. rel \<in> rs_name ` set specs \<Longrightarrow> ranges rel = (Some lo, Some hi)"
    "\<And>rel. ranges rel = (Some lo, Some hi) \<or> ranges rel = (None, None)"
    "compile_pruned_views tie fs read_parquet specs lineage rdir ranges = Inr views"
    "map_of views (rs_name sp) = Some v" "query_key cast sp (query_column sp key_column) key = Inr kv"
    "res = filter (\<lambda>r. sql_eq (col r (query_column sp key_column)) kv) (vw_active v)"
proof -
  let ?ranges = "\<lambda>n. if n \<in> set (map rs_name specs) then (Some lo, Some hi) else (None, None)"
  obtain views where views: "compile_pruned_views tie fs read_parquet specs lineage rdir ?ranges = Inr views"
    and rest: "bind_res (check_identifiers [rs_name sp, query_column sp key_column]) (\<lambda>_.
      case map_of views (rs_name sp) of
        None \<Rightarrow> Inl (NoSuchView (rs_name sp))
      | Some v \<Rightarrow> bind_res (query_key cast sp (query_column sp key_column) key) (\<lambda>kv.
          Inr (filter (\<lambda>r. sql_eq (col r (query_column sp key_column)) kv) (vw_active v)))) = Inr res"
    using assms(1) unfolding query_point_def assms(2)[symmetric] Let_def assms(3) prod.case bind_res_Inr_iff
    by blast
  then obtain v kv where "map_of views (rs_name sp) = Some v"
    "query_key cast sp (query_column sp key_column) key = Inr kv"
    "res = filter (\<lambda>r. sql_eq (col r (query_column sp key_column)) kv) (vw_active v)"
    unfolding bind_res_Inr_iff by (cases "map_of views (rs_name sp)") (auto simp: bind_res_Inr_iff)
  with views show ?thesis using that[of ?ranges] by force
qed

lemma full_view_content:
  assumes "is_tie tie" "compile_virtual_views tie fs read_parquet specs lineage rdir = Inr views"
    and "sp \<in> set specs" "map_of views (rs_name sp) = Some v"
    and "rawf = (\<lambda>rel. raw_rows fs read_parquet rdir rel (lc_nodes lineage))"
  shows "distinct (map rs_name specs) \<and> vw_raw v = rawf (rs_name sp) \<and> vw_active v = view_content tie rawf sp"
proof -
  obtain sps where sps: "ordered_specs specs = Inr sps" and views: "compile_specs tie rawf [] sps = Inr views"
    using assms(2,5) by (auto simp: compile_virtual_views_def bind_res_Inr_iff)
  have same: "mset sps = mset specs"
    using sps order_specs_loop_sound by (simp add: ordered_specs_def)
  have content: "distinct (map rs_name sps) \<and> (\<forall>sp \<in> set sps. map_of views (rs_name sp) =
      Some \<lparr>vw_raw = rawf (rs_name sp), vw_active = view_content tie rawf sp\<rparr>)"
    using compile_specs_content[OF assms(1) views] by (auto simp: raws_agree_def)
  have "distinct (map rs_name sps) = distinct (map rs_name specs)"
    using same by (intro mset_eq_imp_distinct_iff) simp
  then show ?thesis using content assms(3,4) mset_eq_setD[OF same] by auto
qed

lemma pruned_view_content:
  assumes "is_tie tie" "compile_pruned_views tie fs read_parquet specs lineage rdir ranges = Inr views"
    and "sp \<in> set specs" "distinct (map rs_name specs)" "map_of views (rs_name sp) = Some v"
    and plain: "\<forall>rel. \<forall>(rank, p) \<in> set (candidate_parts fs rdir lineage rel None None). quote1 \<notin> \<Union> (set ` set p)"
    and rows: "\<And>rel. rows rel = kept_rows fs read_parquet rdir rel (lc_nodes lineage)
      (\<lambda>part. \<not> pruned_out (fst (ranges rel)) (snd (ranges rel)) part)"
  obtains rawf where "rows_of (rawf (rs_name sp)) = rows (rs_name sp)" "vw_active v = view_content tie rawf sp"
    "rs_merge_strategy sp = ScopedMask \<Longrightarrow> rows (rs_name sp) \<noteq> [] \<Longrightarrow>
       rows_of (rawf (mask_parent sp)) = rows (mask_parent sp)"
proof -
  let ?raw = "\<lambda>rel. candidate_rows fs read_parquet
    (candidate_parts fs rdir lineage rel (fst (ranges rel)) (snd (ranges rel)))"
  define rawf where "rawf = (\<lambda>rel. case ?raw rel of Inl _ \<Rightarrow> None | Inr raw \<Rightarrow> raw)"
  have perm: "mset (masks_last specs) = mset specs" by (simp add: masks_last_def)
  have "distinct (map rs_name (masks_last specs)) = distinct (map rs_name specs)"
    using perm by (intro mset_eq_imp_distinct_iff) simp
  then have "distinct (map rs_name (masks_last specs))" using assms(4) by simp
  then have content: "?raw (rs_name sp) = Inr (rawf (rs_name sp))
      \<and> (rs_merge_strategy sp = ScopedMask \<and> rawf (rs_name sp) \<noteq> None \<longrightarrow> rawf (mask_parent sp) \<noteq> None)
      \<and> map_of views (rs_name sp) = Some \<lparr>vw_raw = rawf (rs_name sp), vw_active = view_content tie rawf sp\<rparr>"
    using compile_pruned_content[OF assms(1) assms(2)[unfolded compile_pruned_views_def], of rawf]
      assms(3) mset_eq_setD[OF perm] by (auto simp: raws_agree_def rawf_def)
  have kept: "rows_of (rawf rel) = rows rel" if "?raw rel = Inr (rawf rel)" for rel
  proof -
    have sub: "set (candidate_parts fs rdir lineage rel lo hi) \<subseteq> set (candidate_parts fs rdir lineage rel None None)"
      for lo hi by (auto simp: candidate_parts_def pruned_out_def)
    show ?thesis
      unfolding rows
    proof (intro candidate_rows_kept[OF that] ballI)
      fix x
      assume "x \<in> set (candidate_parts fs rdir lineage rel (fst (ranges rel)) (snd (ranges rel)))"
      then have "x \<in> set (candidate_parts fs rdir lineage rel None None)" using sub by (rule rev_subsetD)
      then show "case x of (rank, p) \<Rightarrow> quote1 \<notin> \<Union> (set ` set p)"
        using plain[rule_format, of x rel] by simp
    qed
  qed
  have parent: "rows_of (rawf (mask_parent sp)) = rows (mask_parent sp)"
    if "rs_merge_strategy sp = ScopedMask" "rows (rs_name sp) \<noteq> []"
  proof -
    have "rows_of (rawf (rs_name sp)) = rows (rs_name sp)" by (rule kept) (use content in blast)
    then have "rawf (rs_name sp) \<noteq> None" using that(2) by (cases "rawf (rs_name sp)") auto
    then have "rawf (mask_parent sp) \<noteq> None" using content that(1) by blast
    then show ?thesis by (intro kept) (auto simp: rawf_def split: sum.splits)
  qed
  show ?thesis using kept content assms(5) parent by (intro that[of rawf]) auto
qed

text \<open>
  C10. A point query returns exactly the rows of the full active view whose queried column equals
  the key, as many times as the view holds them, whatever parts the ranges prune: for upsert,
  append and scoped-mask relations, compiled alone or with a list of other relations. \<open>b\<close> names the
  column whose values the recorded key range of a part bounds, per relation. The conditions are:
  both the full compilation and the query succeed; the ranges are right, and queried rows have a
  value in the query range in that column; parent rows that share the join key of a queried child
  row do too; in an upsert or append relation no snapshot holds a primary key twice and rows with the
  same primary key agree on the queried column; and no part path contains a single quote.
\<close>

theorem query_point_complete:
  assumes tie: "is_tie tie" "is_tie tie'"
    and specs: "specs = (case all_specs of None \<Rightarrow> [sp] | Some sps \<Rightarrow> sps)" "sp \<in> set specs"
    and c: "c = query_column sp key_column" "query_range sp c key = (lo, hi)" "query_key cast sp c key = Inr kv"
    and full: "compile_virtual_views tie' fs read_parquet specs lineage rdir = Inr views"
      "map_of views (rs_name sp) = Some v"
    and query: "query_point cast tie fs read_parquet sp lineage rdir key key_column all_specs = Inr res"
    and own: "\<forall>rank part r. row_in_part fs read_parquet rdir (rs_name sp) lineage rank part r \<and> col r c = kv
      \<longrightarrow> bounds_hold (b (rs_name sp)) part r \<and> in_range (b (rs_name sp)) lo hi r"
    and parents: "\<forall>rank part r rank' q. rs_merge_strategy sp = ScopedMask
      \<and> row_in_part fs read_parquet rdir (mask_parent sp) lineage rank part r
      \<and> (rank', q) \<in> set (rows_of (vw_raw v)) \<and> col q c = kv
      \<and> cols (mask_join_keys sp) q = cols (mask_join_keys sp) r
      \<longrightarrow> bounds_hold (b (mask_parent sp)) part r \<and> in_range (b (mask_parent sp)) lo hi r"
    and keys: "rs_merge_strategy sp \<noteq> ScopedMask \<Longrightarrow>
      node_keys_distinct (rs_primary_key sp) (rows_of (vw_raw v))
      \<and> (\<forall>(n, r) \<in> set (rows_of (vw_raw v)). \<forall>(n', r') \<in> set (rows_of (vw_raw v)).
           cols (rs_primary_key sp) r = cols (rs_primary_key sp) r' \<longrightarrow> col r c = col r' c)"
    and plain: "\<forall>rel. \<forall>(rank, p) \<in> set (candidate_parts fs rdir lineage rel None None).
      quote1 \<notin> \<Union> (set ` set p)"
  shows "mset res = mset (filter (\<lambda>r. sql_eq (col r c) kv) (vw_active v))"
proof -
  obtain ranges pviews pv kv' where ranges: "\<And>rel. rel \<in> rs_name ` set specs \<Longrightarrow> ranges rel = (Some lo, Some hi)"
    and any: "\<And>rel. ranges rel = (Some lo, Some hi) \<or> ranges rel = (None, None)"
    and pruned: "compile_pruned_views tie fs read_parquet specs lineage rdir ranges = Inr pviews"
    and pv: "map_of pviews (rs_name sp) = Some pv" and kv': "query_key cast sp c key = Inr kv'"
    and res: "res = filter (\<lambda>r. sql_eq (col r c) kv') (vw_active pv)"
    by (rule query_point_view[OF query specs(1) c(2)[unfolded c(1)], folded c(1)]) (rule that; assumption)
  let ?rows = "\<lambda>rel. kept_rows fs read_parquet rdir rel (lc_nodes lineage)"
  let ?all = "\<lambda>rel. ?rows rel (\<lambda>_. True)"
  let ?kept = "\<lambda>rel. ?rows rel (\<lambda>part. \<not> pruned_out (fst (ranges rel)) (snd (ranges rel)) part)"
  let ?fraw = "\<lambda>rel. raw_rows fs read_parquet rdir rel (lc_nodes lineage)"
  let ?Q = "\<lambda>r. sql_eq (col r c) kv"
  have full': "distinct (map rs_name specs)" "vw_raw v = ?fraw (rs_name sp)" "vw_active v = view_content tie' ?fraw sp"
    using full_view_content[OF tie(2) full(1) specs(2) full(2) refl] by auto
  then have raw: "rows_of (vw_raw v) = ?all (rs_name sp)" by (simp add: raw_rows_kept)
  obtain rawf where P: "rows_of (rawf (rs_name sp)) = ?kept (rs_name sp)"
    and active: "vw_active pv = view_content tie rawf sp"
    and parent: "rs_merge_strategy sp = ScopedMask \<Longrightarrow> ?kept (rs_name sp) \<noteq> [] \<Longrightarrow>
       rows_of (rawf (mask_parent sp)) = ?kept (mask_parent sp)"
    using pruned_view_content[OF tie(1) pruned specs(2) full'(1) pv plain refl] by blast
  have in_ranges: "ranges (rs_name sp) = (Some lo, Some hi)" using ranges specs(2) by blast
  have same: "filter (\<lambda>x. ?Q (snd x)) (?kept (rs_name sp)) = filter (\<lambda>x. ?Q (snd x)) (?all (rs_name sp))"
  proof (rule kept_rows_filter)
    fix rank part r
    assume "row_in_part fs read_parquet rdir (rs_name sp) lineage rank part r" "?Q (snd (rank, r))"
    then have "bounds_hold (b (rs_name sp)) part r" "in_range (b (rs_name sp)) lo hi r"
      using own[rule_format, of rank part r] by (simp_all add: sql_eq_def)
    then show "\<not> pruned_out (fst (ranges (rs_name sp))) (snd (ranges (rs_name sp))) part"
      using bounds_not_pruned in_ranges by simp
  qed
  have sub: "set (?kept (rs_name sp)) \<subseteq> set (?all (rs_name sp))"
    by (auto simp: kept_rows_mem)
  have "mset (filter ?Q (view_content tie rawf sp)) = mset (filter ?Q (view_content tie' ?fraw sp))"
  proof (cases "rs_merge_strategy sp = ScopedMask")
    case False
    note k = keys[OF False, unfolded raw]
    from k have nodes: "node_keys_distinct (rs_primary_key sp) (?all (rs_name sp))" by (rule conjunct1)
    have det: "?Q (snd x) = ?Q (snd y)" if x: "x \<in> set (?all (rs_name sp))" and y: "y \<in> set (?all (rs_name sp))"
      and "cols (rs_primary_key sp) (snd x) = cols (rs_primary_key sp) (snd y)" for x y
    proof -
      have "col (snd x) c = col (snd y) c"
        using bspec[OF bspec[OF conjunct2[OF k] x, unfolded split_beta] y] that(3) by (simp add: split_beta)
      then show ?thesis by simp
    qed
    note first = first_rows_filter[OF _ _ tie sub same nodes det]
    have upsert: "mset (filter ?Q (upsert_view tie (rs_primary_key sp) (?kept (rs_name sp)))) =
        mset (filter ?Q (upsert_view tie' (rs_primary_key sp) (?all (rs_name sp))))"
      unfolding upsert_view_def
      by (rule first[OF newest.row_order_axioms]) (auto simp: newest_first_def)
    have append: "mset (filter ?Q (append_view tie sp (?kept (rs_name sp)))) =
        mset (filter ?Q (append_view tie' sp (?all (rs_name sp))))"
      unfolding append_view_def
      by (rule first[OF appended.row_order_axioms append_order_rank])
    show ?thesis
      unfolding view_content_def Let_def P raw_rows_kept using upsert append False
      by (cases "rs_merge_strategy sp") (simp_all del: mset_filter)
  next
    case True
    have near: "newest_rank (mask_join_keys sp) (rows_of (rawf (mask_parent sp))) (cols (mask_join_keys sp) (snd x)) =
        newest_rank (mask_join_keys sp) (?all (mask_parent sp)) (cols (mask_join_keys sp) (snd x))"
      if x: "x \<in> set (?all (rs_name sp))" "?Q (snd x)" for x
    proof -
      have "x \<in> set (?kept (rs_name sp))" using arg_cong[OF same, of set] x by auto
      then have rows: "rows_of (rawf (mask_parent sp)) = ?kept (mask_parent sp)" using parent True by force
      have eq: "filter (\<lambda>y. cols (mask_join_keys sp) (snd y) = cols (mask_join_keys sp) (snd x)) (?kept (mask_parent sp)) =
          filter (\<lambda>y. cols (mask_join_keys sp) (snd y) = cols (mask_join_keys sp) (snd x)) (?all (mask_parent sp))"
      proof (rule kept_rows_filter)
        fix rank part r
        assume r: "row_in_part fs read_parquet rdir (mask_parent sp) lineage rank part r"
          "cols (mask_join_keys sp) (snd (rank, r)) = cols (mask_join_keys sp) (snd x)"
        have "(fst x, snd x) \<in> set (rows_of (vw_raw v))" "col (snd x) c = kv"
          using x unfolding raw by (simp_all add: sql_eq_def)
        then have "bounds_hold (b (mask_parent sp)) part r" "in_range (b (mask_parent sp)) lo hi r"
          using parents[rule_format, of rank part r "fst x" "snd x"] True r by simp_all
        then have "\<not> pruned_out (Some lo) (Some hi) part" by (rule bounds_not_pruned)
        then show "\<not> pruned_out (fst (ranges (mask_parent sp))) (snd (ranges (mask_parent sp))) part"
          using any[of "mask_parent sp"] by (auto simp: pruned_out_def)
      qed
      show ?thesis unfolding rows by (rule newest_rank_filter[OF eq])
    qed
    have "filter ?Q (scoped_mask_view tie (mask_join_keys sp) (rows_of (rawf (mask_parent sp))) (?kept (rs_name sp))) =
        filter ?Q (scoped_mask_view tie' (mask_join_keys sp) (?all (mask_parent sp)) (?all (rs_name sp)))"
      by (rule mask_rows_filter[OF tie same near])
    then show ?thesis
      unfolding view_content_def Let_def P raw_rows_kept True by (simp del: mset_filter)
  qed
  then show ?thesis using res active full'(3) kv' c(3) by simp
qed

text \<open>A checkpoint with the keys \<open>a\<close> and \<open>b\<close> and a delta that rewrites \<open>b\<close>; a query for \<open>a\<close> skips it.\<close>

definition text_spec :: relation_spec where
  "text_spec = (demo_spec Upsert)\<lparr>rs_schema := [(''k'', ''string''), (''v'', ''int64'')]\<rparr>"

definition text_part :: "string \<Rightarrow> string \<Rightarrow> string \<Rightarrow> part_descriptor" where
  "text_part p lo hi = demo_part\<lparr>pd_path := p, pd_key_min := Some lo, pd_key_max := Some hi\<rparr>"

definition ranged_parts :: lineage_chain where
  "ranged_parts = \<lparr>lc_tip_id = ''d'', lc_checkpoint_anchor_id = ''c'',
     lc_nodes = [(demo_node ''c'' Checkpoint [])\<lparr>mf_relations := [(''r'', [text_part ''p'' ''a'' ''b''])]\<rparr>,
       (demo_node ''d'' Delta [''c''])\<lparr>mf_relations := [(''r'', [text_part ''q'' ''b'' ''b''])]\<rparr>]\<rparr>"

definition text_files :: "path \<Rightarrow> row list" where
  "text_files p = (if last p = ''p''
     then [[(''k'', SqlText ''a''), (''v'', SqlInt 1)], [(''k'', SqlText ''b''), (''v'', SqlInt 2)]]
     else [[(''k'', SqlText ''b''), (''v'', SqlInt 3)]])"

lemmas text_simps = text_spec_def ranged_parts_def text_part_def demo_node_def demo_part_def
  demo_spec_def relation_parts_def is_absolute_def path_parts_def join_path_def part_location_def
  text_files_def

lemma text_identifiers:
  "sql_quoted_identifier ''r'' = Inr [quote2, CHR ''r'', quote2]"
  "sql_quoted_identifier ''v'' = Inr [quote2, CHR ''v'', quote2]"
  "sql_quoted_identifier ''child'' = Inr ([quote2] @ ''child'' @ [quote2])"
  by (simp_all add: sql_quoted_identifier_def identifier_match_def isidentifier_def is_alpha_us_def)

lemma ranged_raw:
  "raw_rows demo_fs text_files [''x''] ''r'' (lc_nodes ranged_parts) =
     Some [(0, [(''k'', SqlText ''a''), (''v'', SqlInt 1)]), (0, [(''k'', SqlText ''b''), (''v'', SqlInt 2)]),
       (1, [(''k'', SqlText ''b''), (''v'', SqlInt 3)])]"
  "raw_rows demo_fs text_files [''x''] ''child'' (lc_nodes ranged_parts) = None"
  by (simp_all add: raw_rows_def node_part_paths_def text_simps demo_fs_def)

lemma ranged_candidates:
  "candidate_parts demo_fs [''x''] ranged_parts ''r'' (Some ''a'') (Some ''a'') = [(0, [''x'', ''c'', ''p''])]"
  "candidate_parts demo_fs [''x''] ranged_parts ''child'' (Some ''a'') (Some ''a'') = []"
  by (simp_all add: candidate_parts_def pruned_out_def text_simps demo_fs_def)

lemma ranged_row:
  "row_in_part demo_fs text_files [''x''] ''r'' ranged_parts rank part r \<longleftrightarrow>
     rank = 0 \<and> part = text_part ''p'' ''a'' ''b''
       \<and> (r = [(''k'', SqlText ''a''), (''v'', SqlInt 1)] \<or> r = [(''k'', SqlText ''b''), (''v'', SqlInt 2)])
     \<or> rank = 1 \<and> part = text_part ''q'' ''b'' ''b'' \<and> r = [(''k'', SqlText ''b''), (''v'', SqlInt 3)]"
proof -
  have loc: "part_location demo_fs [''x''] sid p = [''x''] @ path_parts sid @ path_parts p"
    if "\<not> is_absolute sid" "\<not> is_absolute p" for sid p
    using that by (simp add: part_location_def demo_fs_def join_path_def)
  consider "rank = 0" | "rank = 1" | "2 \<le> rank" by linarith
  then show ?thesis
  proof cases
    case 1
    then show ?thesis
      by (auto simp: row_in_part_def ranged_parts_def demo_node_def relation_parts_def loc text_part_def
          is_absolute_def path_parts_def text_files_def, simp_all add: demo_fs_def text_files_def)
  next
    case 2
    then show ?thesis
      by (auto simp: row_in_part_def ranged_parts_def demo_node_def relation_parts_def loc text_part_def
          is_absolute_def path_parts_def text_files_def, simp_all add: demo_fs_def text_files_def)
  qed (auto simp: row_in_part_def ranged_parts_def)
qed

lemma ranged_plain:
  "(rank, p) \<in> set (candidate_parts demo_fs [''x''] ranged_parts rel None None) \<Longrightarrow>
     p = [''x'', ''c'', ''p''] \<or> p = [''x'', ''d'', ''q'']"
  by (auto simp: candidate_parts_def text_simps demo_fs_def split: if_splits)

theorem query_point_complete_witness:
  "\<exists>res. query_point (\<lambda>_ _. None) rev demo_fs text_files text_spec ranged_parts [''x''] ''a'' None
       (Some [mask_spec, text_spec]) = Inr res
     \<and> mset res = {#[(''k'', SqlText ''a''), (''v'', SqlInt 1)]#}"
proof -
  let ?specs = "[mask_spec, text_spec]"
  have c: "''k'' = query_column text_spec None" by (simp add: query_column_def text_simps given_def)
  have key: "query_key (\<lambda>_ _. None) text_spec ''k'' ''a'' = Inr (SqlText ''a'')"
    by (simp add: query_key_def text_simps)
  have range: "query_range text_spec ''k'' ''a'' = (''a'', ''a'')" by (simp add: query_range_def)
  note ids = text_identifiers two_identifiers
  have order: "ordered_specs ?specs = Inr [text_spec, mask_spec]"
    by (simp add: ordered_specs_def order_specs_loop.simps spec_ready_def mask_spec_def demo_spec_def text_spec_def)
  obtain views v where full: "compile_virtual_views id demo_fs text_files ?specs ranged_parts [''x''] = Inr views"
      "map_of views (rs_name text_spec) = Some v"
    and v: "rows_of (vw_raw v) = rows_of (raw_rows demo_fs text_files [''x''] ''r'' (lc_nodes ranged_parts))"
      "vw_active v = upsert_view id [''k''] (rows_of (raw_rows demo_fs text_files [''x''] ''r'' (lc_nodes ranged_parts)))"
    unfolding compile_virtual_views_def order
    by (simp add: compile_view_def ranged_raw text_spec_def demo_spec_simps mask_spec_def ids lower_char_def)
  have masks: "masks_last ?specs = [text_spec, mask_spec]"
    by (simp add: masks_last_def mask_spec_def text_spec_def demo_spec_def)
  have names: "rs_name text_spec = ''r''" "rs_name mask_spec = ''child''" "rs_merge_strategy text_spec = Upsert"
    "rs_primary_key text_spec = [''k'']"
    by (simp_all add: text_spec_def mask_spec_def demo_spec_def)
  have "candidate_rows demo_fs text_files [(0, [''x'', ''c'', ''p''])] =
      Inr (Some [(0, [(''k'', SqlText ''a''), (''v'', SqlInt 1)]), (0, [(''k'', SqlText ''b''), (''v'', SqlInt 2)])])"
    "candidate_rows demo_fs text_files [] = Inr None"
    by (simp_all add: candidate_rows_def literal_path_def quote1_def demo_fs_def text_files_def)
  then obtain res where query: "query_point (\<lambda>_ _. None) rev demo_fs text_files text_spec ranged_parts
      [''x''] ''a'' None (Some ?specs) = Inr res"
    by (simp add: query_point_def c[symmetric] range key Let_def compile_pruned_views_def masks names
        ranged_candidates compile_view_def)
      (simp add: text_spec_def demo_spec_simps mask_spec_def ids query_key_def)
  have "mset res = mset (filter (\<lambda>r. sql_eq (col r ''k'') (SqlText ''a'')) (vw_active v))"
    by (rule query_point_complete[OF _ _ refl _ c range key _ full(2) query, where b = "\<lambda>_. ''k''" and tie' = id])
      (use full(1) in \<open>auto dest!: ranged_plain simp: is_tie_def names ranged_row v ranged_raw cols_def col_def
         bounds_hold_def in_range_def text_part_def node_keys_distinct_def quote1_def\<close>)
  then show ?thesis using query
    by (simp add: v ranged_raw upsert_view_def newest_first_def cols_def col_def sql_eq_def)
qed

text \<open>
  When the ranges leave no part of a parent but a part of its child, the query raises: the raw view
  of the parent has no column to join on. So a key that no row has can end in an error.
\<close>

lemma pruned_parent_fails:
  assumes "rs_merge_strategy sp = ScopedMask" "map_of views (mask_parent sp) = Some v" "vw_raw v = None"
  shows "\<exists>e. compile_view tie views sp (Some raw) = Inl e"
proof -
  have "active_rows tie views sp raw \<noteq> Inr rows" for rows
    using assms by (auto simp: active_rows_def mask_parent_def bind_res_Inr_iff Let_def split: option.splits)
  then have "\<exists>e. active_rows tie views sp raw = Inl e" by (cases "active_rows tie views sp raw") auto
  then show ?thesis by (auto simp: compile_view_def bind_res_def split: sum.splits)
qed

text \<open>
  The accession range derived from a filing CIK of up to ten digits holds every accession number
  (ten digits, two, six) that starts with that CIK, so pruning by it keeps them.
\<close>

theorem accession_range_covers:
  assumes "acc = zfill 10 cik @ ''-'' @ yy @ ''-'' @ num"
    and "length yy = 2" "length num = 6" "\<forall>d \<in> set (yy @ num). is_digit d"
  shows "fst (derive_accession_range cik) \<le> acc \<and> acc \<le> snd (derive_accession_range cik)"
proof -
  have le: "c # xs \<le> d # ys" if "c \<le> d" "xs \<le> ys" for c d :: char and xs ys
    using that by (auto simp: order.order_iff_strict)
  have digit: "CHR ''0'' \<le> d \<and> d \<le> CHR ''9''" if "is_digit d" for d
    using that by (auto simp: is_digit_def less_eq_char_def)
  obtain y1 y2 where yy: "yy = [y1, y2]" using assms(2) by (auto simp: length_Suc_conv numeral_2_eq_2)
  obtain n1 n2 n3 n4 n5 n6 where num: "num = [n1, n2, n3, n4, n5, n6]"
    using assms(3) by (auto simp: length_Suc_conv eval_nat_numeral)
  have all: "\<forall>d \<in> set (yy @ num). CHR ''0'' \<le> d \<and> d \<le> CHR ''9''" using digit assms(4) by blast
  have prefix: "(p @ xs \<le> p @ ys) = (xs \<le> ys)" for p xs ys :: string by (induction p) auto
  have "''-00-000000'' \<le> ''-'' @ yy @ ''-'' @ num" "''-'' @ yy @ ''-'' @ num \<le> ''-99-999999''"
    using all unfolding yy num append_Cons append_Nil by (intro le; simp)+
  then show ?thesis unfolding derive_accession_range_def assms(1) by (simp add: prefix)
qed

theorem accession_range_covers_witness:
  "fst (derive_accession_range ''320193'') \<le> ''0000320193-24-000123''
   \<and> ''0000320193-24-000123'' \<le> snd (derive_accession_range ''320193'')"
  using accession_range_covers[of "''0000320193-24-000123''" "''320193''" "''24''" "''000123''"]
  by (simp add: zfill_def is_digit_def eval_nat_numeral)

section \<open>The candidate anti-join\<close>

definition non_pk_cols :: "relation_spec \<Rightarrow> string list" where
  "non_pk_cols sp = filter (\<lambda>c. c \<notin> set (rs_primary_key sp)) (map fst (rs_schema sp))"

definition join_matches :: "relation_spec \<Rightarrow> row list \<Rightarrow> row \<Rightarrow> row list" where
  "join_matches sp active c =
     filter (\<lambda>a. list_all2 sql_eq (cols (rs_primary_key sp) c) (cols (rs_primary_key sp) a)) active"

text \<open>
  The \<^verbatim>\<open>LEFT JOIN\<close>: a candidate without a match meets a row of \<^verbatim>\<open>NULL\<close>s. A matched row has no
  \<^verbatim>\<open>NULL\<close> in its key, so only changed columns can select it.
\<close>

definition filter_query :: "relation_spec \<Rightarrow> row list \<Rightarrow> row list \<Rightarrow> row list" where
  "filter_query sp active cands = concat (map (\<lambda>c.
     (let ms = join_matches sp active c in
      if ms = [] then [c]
      else if non_pk_cols sp \<noteq> [] \<and> rs_merge_strategy sp = Upsert
      then map (\<lambda>_. c) (filter (\<lambda>a. \<exists>k \<in> set (non_pk_cols sp). col c k \<noteq> col a k) ms)
      else [])) cands)"

record filtered_delta =
  fd_is_noop :: bool
  fd_filtered_parts :: "(string \<times> row list) list"
  fd_row_counts :: "(string \<times> nat) list"

text \<open>
  \<open>candidate_tables\<close> gives the rows of the candidate table a relation is mapped to, if any, and
  \<open>active\<close> those of its active view. Only a non-empty result is written.
\<close>

definition filter_candidate_delta ::
  "relation_spec list \<Rightarrow> (string \<Rightarrow> row list option) \<Rightarrow> (string \<Rightarrow> row list) \<Rightarrow> filtered_delta" where
  "filter_candidate_delta specs candidate_tables active =
     (let outs = List.map_filter (\<lambda>sp. map_option
            (\<lambda>cands. (rs_name sp, filter_query sp (active (rs_name sp)) cands))
            (candidate_tables (rs_name sp))) specs;
          kept = filter (\<lambda>(n, rows). rows \<noteq> []) outs
      in \<lparr>fd_is_noop = (sum_list (map (\<lambda>(n, rows). length rows) kept) = 0),
          fd_filtered_parts = kept,
          fd_row_counts = map (\<lambda>(n, rows). (n, length rows)) kept\<rparr>)"

text \<open>Rows with exactly the columns of the schema, in its order.\<close>

definition has_schema :: "relation_spec \<Rightarrow> row \<Rightarrow> bool" where
  "has_schema sp r \<longleftrightarrow> map fst r = map fst (rs_schema sp)"

lemma has_schema_eq:
  assumes "has_schema sp a" "has_schema sp b" "distinct (map fst (rs_schema sp))"
    and "\<forall>k \<in> set (map fst (rs_schema sp)). col a k = col b k"
  shows "a = b"
proof -
  have snd: "map snd r = map (col r) (map fst (rs_schema sp))" if "has_schema sp r" for r
  proof -
    have d: "distinct (map fst r)" using that assms(3) by (simp add: has_schema_def)
    have "map snd r = map (col r) (map fst r)"
      using d by (auto simp: col_def intro: list.map_cong)
    then show ?thesis using that unfolding has_schema_def by (metis)
  qed
  have "map snd a = map snd b" using snd[OF assms(1)] snd[OF assms(2)] assms(4) by (simp cong: map_cong)
  moreover have "map fst a = map fst b" using assms(1,2) by (simp add: has_schema_def)
  ultimately show ?thesis by (metis zip_map_fst_snd)
qed

lemma join_matches_single:
  assumes "distinct (map (cols (rs_primary_key sp)) active)" "a \<in> set (join_matches sp active c)"
  shows "join_matches sp active c = [a]"
proof -
  let ?pk = "rs_primary_key sp"
  have a: "a \<in> set active" "cols ?pk c = cols ?pk a" "SqlNull \<notin> set (cols ?pk c)"
    using assms(2) by (auto simp: join_matches_def list_all2_sql_eq)
  have "join_matches sp active c = filter (\<lambda>r. cols ?pk r = cols ?pk a) active"
    unfolding join_matches_def list_all2_sql_eq using a by (auto intro: filter_cong)
  then show ?thesis using filter_key_singleton[OF assms(1) a(1)] by simp
qed

text \<open>A candidate row is dropped exactly when the active view already holds it.\<close>

lemma filter_query_eq:
  assumes "distinct (map (cols (rs_primary_key sp)) active)" "rs_merge_strategy sp = Upsert"
    and "distinct (map fst (rs_schema sp))" "\<forall>r \<in> set (active @ cands). has_schema sp r"
    and "set (rs_primary_key sp) \<subseteq> fst ` set (rs_schema sp)"
  shows "filter_query sp active cands =
    filter (\<lambda>c. c \<notin> set active \<or> SqlNull \<in> set (cols (rs_primary_key sp) c)) cands"
proof -
  let ?pk = "rs_primary_key sp"
  have one: "(let ms = join_matches sp active c in
      if ms = [] then [c]
      else if non_pk_cols sp \<noteq> [] \<and> rs_merge_strategy sp = Upsert
      then map (\<lambda>_. c) (filter (\<lambda>a. \<exists>k \<in> set (non_pk_cols sp). col c k \<noteq> col a k) ms)
      else []) = (if c \<notin> set active \<or> SqlNull \<in> set (cols ?pk c) then [c] else [])"
    if "c \<in> set cands" for c
  proof (cases "join_matches sp active c")
    case Nil
    then have "\<not> (c \<in> set active \<and> SqlNull \<notin> set (cols ?pk c))"
      by (auto simp: join_matches_def list_all2_sql_eq filter_empty_conv)
    then show ?thesis using Nil by (simp add: Let_def)
  next
    case (Cons a as)
    then have a: "join_matches sp active c = [a]" using join_matches_single[OF assms(1), of a c] by simp
    then have mem: "a \<in> set (join_matches sp active c)" by simp
    have m: "a \<in> set active" "cols ?pk c = cols ?pk a" "SqlNull \<notin> set (cols ?pk c)"
      using mem unfolding join_matches_def list_all2_sql_eq by auto
    have pk: "col c k = col a k" if "k \<in> set ?pk" for k
      using m(2) that by (simp add: cols_def)
    have same: "(\<forall>k \<in> set (non_pk_cols sp). col c k = col a k) \<longleftrightarrow> c = a"
      using has_schema_eq[of sp c a] assms(3,4) m(1) that pk by (auto simp: non_pk_cols_def)
    have "c \<in> set active \<longleftrightarrow> c = a"
      using m(1,2) assms(1) by (auto simp: distinct_map dest: inj_onD)
    then show ?thesis using a same m(3) assms(2) by (auto simp: Let_def)
  qed
  have "concat (map (\<lambda>c. if Q c then [c] else []) xs) = filter Q xs" for Q :: "row \<Rightarrow> bool" and xs
    by (induction xs) auto
  then show ?thesis
    unfolding filter_query_def using one by (simp cong: map_cong)
qed

lemma filter_query_keys:
  assumes "rs_merge_strategy sp \<noteq> Upsert"
  shows "filter_query sp active cands = filter (\<lambda>c. SqlNull \<in> set (cols (rs_primary_key sp) c)
    \<or> cols (rs_primary_key sp) c \<notin> cols (rs_primary_key sp) ` set active) cands"
proof -
  let ?pk = "rs_primary_key sp"
  have one: "(join_matches sp active c = []) \<longleftrightarrow>
      SqlNull \<in> set (cols ?pk c) \<or> cols ?pk c \<notin> cols ?pk ` set active" for c
    by (auto simp: join_matches_def list_all2_sql_eq filter_empty_conv)
  have "concat (map (\<lambda>c. if Q c then [c] else []) xs) = filter Q xs" for Q :: "row \<Rightarrow> bool" and xs
    by (induction xs) auto
  then show ?thesis
    unfolding filter_query_def Let_def one using assms by (simp cong: if_cong split del: if_split)
qed

text \<open>What a snapshot with new rows does to the view of an upsert and of an append relation.\<close>

lemma node_keys_extend:
  assumes "node_keys_distinct pk raw" "\<forall>x \<in> set raw. fst x < n" "distinct (map (cols pk) new)"
  shows "node_keys_distinct pk (raw @ map (Pair n) new)"
  using assms by (auto simp: node_keys_distinct_def distinct_map inj_on_def)

lemma upsert_view_extend:
  assumes "is_tie tie" "is_tie tie'" "node_keys_distinct pk raw" "\<forall>x \<in> set raw. fst x < n"
    and "distinct (map (cols pk) new)"
  shows "r \<in> set (upsert_view tie pk (raw @ map (Pair n) new)) \<longleftrightarrow>
    r \<in> set new \<or> r \<in> set (upsert_view tie' pk raw) \<and> cols pk r \<notin> cols pk ` set new"
    (is "?lhs \<longleftrightarrow> ?rhs")
proof -
  have less: "rank < n" if "(rank, r) \<in> set raw" for rank r using assms(4) that by force
  have all: "?lhs \<longleftrightarrow> (\<exists>rank. (rank, r) \<in> set (raw @ map (Pair n) new) \<and>
        (\<forall>(rank', r') \<in> set (raw @ map (Pair n) new). cols pk r' = cols pk r \<longrightarrow> rank' \<le> rank))"
    by (rule upsert_view_newest[OF assms(1) node_keys_extend[OF assms(3,4,5)]])
  note old = upsert_view_newest[OF assms(2,3), of r]
  show ?thesis
  proof
    assume ?lhs
    then obtain rank where m: "(rank, r) \<in> set raw \<or> r \<in> set new"
      and r: "\<And>rank' r'. (rank', r') \<in> set raw \<or> rank' = n \<and> r' \<in> set new \<Longrightarrow> cols pk r' = cols pk r \<Longrightarrow> rank' \<le> rank"
      unfolding all by auto
    show ?rhs
    proof (cases "r \<in> set new")
      case False
      then have "(rank, r) \<in> set raw" using m by blast
      moreover from this have "cols pk r \<notin> cols pk ` set new" using r less by (metis image_iff leD)
      ultimately show ?thesis unfolding old using r by blast
    qed simp
  next
    assume ?rhs
    then show ?lhs
    proof
      assume "r \<in> set new"
      then show ?lhs unfolding all using less by (intro exI[of _ n]) (auto intro: less_imp_le)
    next
      assume "r \<in> set (upsert_view tie' pk raw) \<and> cols pk r \<notin> cols pk ` set new"
      then obtain rank where "(rank, r) \<in> set raw" "cols pk r \<notin> cols pk ` set new"
        "\<forall>(rank', r') \<in> set raw. cols pk r' = cols pk r \<longrightarrow> rank' \<le> rank" unfolding old by blast
      moreover from this have "cols pk r' \<noteq> cols pk r" if "r' \<in> set new" for r' using that by (metis image_eqI)
      ultimately show ?lhs unfolding all by (intro exI[of _ rank]) auto
    qed
  qed
qed

lemma append_view_iff:
  assumes "is_tie tie" "node_keys_distinct (rs_primary_key sp) raw"
  shows "r \<in> set (append_view tie sp raw) \<longleftrightarrow> (\<exists>rank. (rank, r) \<in> set raw \<and> (\<forall>s \<in> set raw.
    cols (rs_primary_key sp) (snd s) = cols (rs_primary_key sp) r \<longrightarrow> append_order sp (rank, r) s))"
proof -
  let ?key = "\<lambda>r. cols (rs_primary_key sp) (snd r)"
  have "q \<in> set (first_per_key ?key (sort_le (append_order sp) (tie raw))) \<longleftrightarrow>
      q \<in> set raw \<and> (\<forall>s \<in> set raw. ?key s = ?key q \<longrightarrow> append_order sp q s)" for q
    using appended.first_per_key_iff[of "tie raw" ?key sp q] tie_set[OF assms(1), of raw]
      node_keys_unique[OF assms(2)] append_order_rank by blast
  then show ?thesis unfolding append_view_def by (auto simp: image_iff) (metis snd_conv)+
qed

lemma append_view_extend:
  assumes "is_tie tie" "is_tie tie'" "node_keys_distinct (rs_primary_key sp) raw" "\<forall>x \<in> set raw. fst x < n"
    and "distinct (map (cols (rs_primary_key sp)) new)" "\<not> given (rs_tie_breaker_column sp)"
  shows "r \<in> set (append_view tie sp (raw @ map (Pair n) new)) \<longleftrightarrow>
    r \<in> set (append_view tie' sp raw)
    \<or> r \<in> set new \<and> cols (rs_primary_key sp) r \<notin> cols (rs_primary_key sp) ` snd ` set raw"
    (is "?lhs \<longleftrightarrow> ?rhs")
proof -
  have less: "rank < n" if "(rank, r) \<in> set raw" for rank r using assms(4) that by force
  have le: "append_order sp a b \<longleftrightarrow> fst a \<le> fst b" for a b
    using assms(6) by (simp add: append_order_def oldest_first_def)
  let ?pk = "rs_primary_key sp"
  have all: "?lhs \<longleftrightarrow> (\<exists>rank. (rank, r) \<in> set (raw @ map (Pair n) new) \<and>
      (\<forall>s \<in> set (raw @ map (Pair n) new). cols ?pk (snd s) = cols ?pk r \<longrightarrow> rank \<le> fst s))"
    unfolding append_view_iff[OF assms(1) node_keys_extend[OF assms(3,4,5)]] le by simp
  have old: "r \<in> set (append_view tie' sp raw) \<longleftrightarrow> (\<exists>rank. (rank, r) \<in> set raw
      \<and> (\<forall>s \<in> set raw. cols ?pk (snd s) = cols ?pk r \<longrightarrow> rank \<le> fst s))"
    unfolding append_view_iff[OF assms(2,3)] le by simp
  show ?thesis
  proof
    assume ?lhs
    then obtain rank where m: "(rank, r) \<in> set raw \<or> rank = n \<and> r \<in> set new"
      and r: "\<And>s. s \<in> set raw \<Longrightarrow> cols ?pk (snd s) = cols ?pk r \<Longrightarrow> rank \<le> fst s"
      unfolding all by auto
    show ?rhs
    proof (cases "(rank, r) \<in> set raw")
      case False
      then have "rank = n" "r \<in> set new" using m by auto
      moreover from this have "cols ?pk (snd s) \<noteq> cols ?pk r" if "s \<in> set raw" for s
        using r[OF that] assms(4) that by (metis leD)
      ultimately show ?thesis by fastforce
    qed (use r old in blast)
  next
    assume ?rhs
    then show ?lhs
    proof
      assume "r \<in> set (append_view tie' sp raw)"
      then obtain rank where "(rank, r) \<in> set raw" "\<forall>s \<in> set raw. cols ?pk (snd s) = cols ?pk r \<longrightarrow> rank \<le> fst s"
        unfolding old by blast
      then show ?lhs unfolding all using less by (intro exI[of _ rank]) (auto intro: less_imp_le)
    next
      assume "r \<in> set new \<and> cols ?pk r \<notin> cols ?pk ` snd ` set raw"
      then show ?lhs unfolding all by (intro exI[of _ n]) (force simp: image_iff)
    qed
  qed
qed

lemma upsert_filter_same:
  assumes tie: "is_tie tie" "is_tie tie'" "is_tie tie''" and active: "active = upsert_view tie'' pk raw"
    and raw: "node_keys_distinct pk raw" "\<forall>x \<in> set raw. fst x < n" and cands: "distinct (map (cols pk) cands)"
    and out: "out = filter (\<lambda>c. c \<notin> set active \<or> N c) cands"
  shows "mset (upsert_view tie pk (raw @ map (Pair n) out)) = mset (upsert_view tie' pk (raw @ map (Pair n) cands))"
proof -
  have dist: "distinct (map (cols pk) out)" using cands unfolding out by (rule distinct_map_filter)
  have view_keys: "distinct (map (cols pk) active)"
    unfolding active upsert_view_def by (rule first_view_distinct)
  have act: "a = b" if "a \<in> set active" "b \<in> set active" "cols pk a = cols pk b" for a b
    using view_keys that by (auto simp: distinct_map dest: inj_onD)
  have one: "a = b" if "a \<in> set cands" "b \<in> set cands" "cols pk a = cols pk b" for a b
    using cands that by (auto simp: distinct_map dest: inj_onD)
  have "r \<in> set out \<or> r \<in> set active \<and> cols pk r \<notin> cols pk ` set out \<longleftrightarrow>
      r \<in> set cands \<or> r \<in> set active \<and> cols pk r \<notin> cols pk ` set cands" for r
  proof (cases "r \<in> set cands")
    case True
    have "cols pk r \<notin> cols pk ` set out" if "r \<notin> set out"
    proof
      assume "cols pk r \<in> cols pk ` set out"
      then obtain q where "q \<in> set out" "cols pk q = cols pk r" by auto
      then have "q = r" using one True out by auto
      then show False using \<open>q \<in> set out\<close> that by blast
    qed
    then show ?thesis using True out by auto
  next
    case False
    have "q \<in> set out" if q: "q \<in> set cands" "cols pk q = cols pk r" "r \<in> set active" for q
      using act[of q r] q False out by auto
    then have "cols pk r \<in> cols pk ` set out \<longleftrightarrow> cols pk r \<in> cols pk ` set cands" if "r \<in> set active"
      using that out by (force simp: image_iff)
    then show ?thesis using False out by auto
  qed
  then have "set (upsert_view tie pk (raw @ map (Pair n) out)) = set (upsert_view tie' pk (raw @ map (Pair n) cands))"
    unfolding set_eq_iff upsert_view_extend[OF tie(1,3) raw dist] upsert_view_extend[OF tie(2,3) raw cands]
      active[symmetric] by blast
  moreover have "distinct (upsert_view t pk xs)" for t xs
    using first_view_distinct[of pk "sort_le newest_first (t xs)"] unfolding upsert_view_def by (metis distinct_map)
  ultimately show ?thesis by (subst set_eq_iff_mset_eq_distinct[symmetric])
qed

lemma append_filter_same:
  assumes tie: "is_tie tie" "is_tie tie'" "is_tie tie''"
    and raw: "node_keys_distinct (rs_primary_key sp) raw" "\<forall>x \<in> set raw. fst x < n"
    and cands: "distinct (map (cols (rs_primary_key sp)) cands)" "\<not> given (rs_tie_breaker_column sp)"
    and out: "out = filter (\<lambda>c. N c \<or> cols (rs_primary_key sp) c \<notin> cols (rs_primary_key sp) ` set (append_view tie'' sp raw)) cands"
  shows "mset (append_view tie sp (raw @ map (Pair n) out)) = mset (append_view tie' sp (raw @ map (Pair n) cands))"
proof -
  have dist: "distinct (map (cols (rs_primary_key sp)) out)" using cands(1) unfolding out by (rule distinct_map_filter)
  have "set (append_view tie sp (raw @ map (Pair n) out)) = set (append_view tie' sp (raw @ map (Pair n) cands))"
    unfolding set_eq_iff append_view_extend[OF tie(1,3) raw dist cands(2)]
      append_view_extend[OF tie(2,3) raw cands] by (auto simp: out append_view_keys[OF tie(3)])
  moreover have "distinct (append_view t sp xs)" for t xs
    using first_view_distinct[of "rs_primary_key sp" "sort_le (append_order sp) (t xs)"]
    unfolding append_view_def by (metis distinct_map)
  ultimately show ?thesis by (subst set_eq_iff_mset_eq_distinct[symmetric])
qed

text \<open>
  C11. Dropping redundant candidates is sound for upsert relations and for append relations without
  a tie-breaker column: the active view over a new snapshot with the filtered rows holds the same
  rows as the view over one with all candidates. And nothing is left exactly when every candidate has
  a key free of \<^verbatim>\<open>NULL\<close> and the active view has that row (upsert), or a row with that key (append).
  Rows have the columns of the schema, and no snapshot nor the candidates hold a key twice. An append
  relation with a tie-breaker and a scoped-mask relation are excluded: see
  \<open>anti_join_drops_better\<close> and \<open>anti_join_hides_children\<close>.
\<close>

theorem anti_join_sound:
  assumes tie: "is_tie tie" "is_tie tie'" "is_tie tie''"
    and kind: "rs_merge_strategy sp = Upsert \<or> rs_merge_strategy sp = Append \<and> \<not> given (rs_tie_breaker_column sp)"
    and spec: "spec_check sp = None" "distinct (map fst (rs_schema sp))"
    and raw: "node_keys_distinct (rs_primary_key sp) raw" "\<forall>x \<in> set raw. fst x < n \<and> has_schema sp (snd x)"
    and cands: "distinct (map (cols (rs_primary_key sp)) cands)" "\<forall>c \<in> set cands. has_schema sp c"
    and active: "active_rows tie'' views sp raw = Inr active"
    and filtered: "active_rows tie views sp (raw @ map (Pair n) (filter_query sp active cands)) = Inr rows"
    and everything: "active_rows tie' views sp (raw @ map (Pair n) cands) = Inr rows'"
  shows "mset rows = mset rows'
    \<and> (filter_query sp active cands = [] \<longleftrightarrow> (\<forall>c \<in> set cands. SqlNull \<notin> set (cols (rs_primary_key sp) c)
        \<and> (if rs_merge_strategy sp = Upsert then c \<in> set active
           else cols (rs_primary_key sp) c \<in> cols (rs_primary_key sp) ` set active)))"
proof -
  let ?pk = "rs_primary_key sp"
  have ranks: "\<forall>x \<in> set raw. fst x < n" using raw(2) by blast
  show ?thesis
  proof (cases "rs_merge_strategy sp = Upsert")
    case True
    then have views: "active = upsert_view tie'' ?pk raw"
      "rows = upsert_view tie ?pk (raw @ map (Pair n) (filter_query sp active cands))"
      "rows' = upsert_view tie' ?pk (raw @ map (Pair n) cands)"
      using active filtered everything by (auto simp: active_rows_def bind_res_Inr_iff)
    have "distinct (map (cols ?pk) active)"
      unfolding views(1) upsert_view_def by (rule first_view_distinct)
    moreover have "\<exists>k. (k, r) \<in> set raw" if "r \<in> set active" for r
      using that upsert_view_newest[OF tie(3) raw(1)] unfolding views(1) by blast
    then have "\<forall>r \<in> set (active @ cands). has_schema sp r" using raw(2) cands(2) by fastforce
    ultimately have out: "filter_query sp active cands = filter (\<lambda>c. c \<notin> set active \<or> SqlNull \<in> set (cols ?pk c)) cands"
      using filter_query_eq True spec(2) spec_check_key(2)[OF spec(1)] by blast
    show ?thesis
      using upsert_filter_same[OF tie views(1) raw(1) ranks cands(1) out] True
      unfolding views(2,3) out by (auto simp: filter_empty_conv)
  next
    case False
    then have views: "active = append_view tie'' sp raw"
      "rows = append_view tie sp (raw @ map (Pair n) (filter_query sp active cands))"
      "rows' = append_view tie' sp (raw @ map (Pair n) cands)" and no: "\<not> given (rs_tie_breaker_column sp)"
      using kind active filtered everything by (auto simp: active_rows_def bind_res_Inr_iff)
    note out = filter_query_keys[OF False, of active cands]
    have "mset rows = mset rows'"
      unfolding views(2,3) by (rule append_filter_same[OF tie raw(1) ranks cands(1) no, where N = "\<lambda>c. SqlNull \<in> set (cols ?pk c)"])
        (simp only: views(1) out[unfolded views(1)])
    then show ?thesis using False unfolding out by (auto simp: filter_empty_conv)
  qed
qed

theorem anti_join_sound_witness:
  "\<exists>rows rows'. active_rows id [] text_spec ([(0, [(''k'', SqlText ''a''), (''v'', SqlInt 1)])] @
       map (Pair 1) (filter_query text_spec [[(''k'', SqlText ''a''), (''v'', SqlInt 1)]]
         [[(''k'', SqlText ''a''), (''v'', SqlInt 1)], [(''k'', SqlText ''b''), (''v'', SqlInt 2)]])) = Inr rows
     \<and> active_rows rev [] text_spec ([(0, [(''k'', SqlText ''a''), (''v'', SqlInt 1)])] @
       map (Pair 1) [[(''k'', SqlText ''a''), (''v'', SqlInt 1)], [(''k'', SqlText ''b''), (''v'', SqlInt 2)]]) = Inr rows'
     \<and> mset rows = mset rows'"
proof -
  let ?a = "[(''k'', SqlText ''a''), (''v'', SqlInt 1)]" and ?b = "[(''k'', SqlText ''b''), (''v'', SqlInt 2)]"
  have ok: "spec_check text_spec = None"
    by (simp add: spec_check_def text_spec_def demo_spec_def isidentifier_def is_alpha_us_def given_def)
  have facts: "rs_merge_strategy text_spec = Upsert" "distinct (map fst (rs_schema text_spec))"
    "rs_primary_key text_spec = [''k'']" "has_schema text_spec ?a" "has_schema text_spec ?b"
    by (simp_all add: text_spec_def demo_spec_def has_schema_def)
  obtain rows rows' where rows: "active_rows id [] text_spec ([(0, ?a)] @ map (Pair 1) (filter_query text_spec [?a] [?a, ?b])) = Inr rows"
    "active_rows rev [] text_spec ([(0, ?a)] @ map (Pair 1) [?a, ?b]) = Inr rows'"
    by (simp add: text_spec_def demo_spec_simps)
  have active: "active_rows id [] text_spec [(0, ?a)] = Inr [?a]"
    by (simp add: text_spec_def demo_spec_simps upsert_view_def)
  have "mset rows = mset rows'"
    using anti_join_sound[OF _ _ _ _ ok facts(2) _ _ _ _ active rows] facts
    by (simp add: is_tie_def node_keys_distinct_def cols_def col_def)
  then show ?thesis using rows by blast
qed

text \<open>
  In an append relation with a tie-breaker the filter drops a candidate whose key is known, also when
  it would win: the row with the smaller value never becomes visible.
\<close>

definition least_spec :: relation_spec where
  "least_spec = (demo_spec Append)\<lparr>rs_tie_breaker_column := Some ''v''\<rparr>"

lemma anti_join_drops_better:
  "\<exists>old new. filter_query least_spec [old] [new] = []
    \<and> append_view id least_spec [(0, old)] = [old]
    \<and> append_view id least_spec ([(0, old)] @ [(1, new)]) = [new] \<and> new \<noteq> old"
  by (intro exI[of _ "[(''k'', SqlInt 1), (''v'', SqlInt 5)]"] exI[of _ "[(''k'', SqlInt 1), (''v'', SqlInt 3)]"])
    (simp add: filter_query_def join_matches_def least_spec_def demo_spec_def cols_def col_def sql_eq_def
      append_view_def append_order_def given_def tie_breaker_le_def oldest_first_def)

text \<open>
  In a scoped-mask relation it drops the children of a parent that is written anew, and without them
  the new parent hides the old ones.
\<close>

lemma anti_join_hides_children:
  "\<exists>parent child. filter_query mask_spec [child] [child] = []
    \<and> scoped_mask_view id [''k''] [(0, parent)] [(0, child)] = [child]
    \<and> scoped_mask_view id [''k''] [(0, parent), (1, parent)] [(0, child)] = []
    \<and> scoped_mask_view id [''k''] [(0, parent), (1, parent)] [(0, child), (1, child)] = [child]"
  by (intro exI[of _ "[(''k'', SqlInt 1)]"])
    (simp add: filter_query_def join_matches_def mask_spec_def demo_spec_def cols_def col_def sql_eq_def
      scoped_mask_view_def winning_parent_def newest_first_def)

section \<open>The logical fingerprint\<close>

fun sql_json :: "sqlval \<Rightarrow> json" where
  "sql_json SqlNull = JNull"
| "sql_json (SqlText s) = JStr s"
| "sql_json (SqlInt i) = JInt i"
| "sql_json (SqlBool b) = JBool b"

text \<open>\<^verbatim>\<open>ORDER BY\<close> the primary key columns, ascending, \<^verbatim>\<open>NULL\<close> last.\<close>

fun key_le :: "sqlval list \<Rightarrow> sqlval list \<Rightarrow> bool" where
  "key_le [] ys = True"
| "key_le (x # xs) [] = False"
| "key_le (x # xs) (y # ys) = (if x = y then key_le xs ys else sql_le x y)"

definition row_text :: "row \<Rightarrow> string" where
  "row_text r = canonical_json (JList (map (sql_json \<circ> snd) r))"

definition view_text :: "(row list \<Rightarrow> row list) \<Rightarrow> relation_spec \<Rightarrow> row list \<Rightarrow> string" where
  "view_text tie sp active =
     concat (map row_text (sort_le (\<lambda>a b. key_le (cols (rs_primary_key sp) a) (cols (rs_primary_key sp) b))
       (tie active)))"

definition compute_logical_fingerprint ::
  "(string \<Rightarrow> string) \<Rightarrow> (row list \<Rightarrow> row list) \<Rightarrow> relation_spec list \<Rightarrow> (string \<Rightarrow> row list) \<Rightarrow> string"
  where
  "compute_logical_fingerprint sha tie specs active =
     sha (concat (map (\<lambda>sp. view_text tie sp (active (rs_name sp))) specs))"

lemma key_le_total: "key_le xs ys \<or> key_le ys xs"
  by (induction xs ys rule: key_le.induct) (use sql_le_total in auto)

lemma key_le_trans: "key_le xs ys \<Longrightarrow> key_le ys zs \<Longrightarrow> key_le xs zs"
proof (induction xs ys arbitrary: zs rule: key_le.induct)
  case (3 x xs y ys)
  obtain z zs' where z: "zs = z # zs'" using 3 by (cases zs) auto
  show ?case
  proof (cases "x = y \<or> y = z")
    case True
    then show ?thesis using 3 z by (auto split: if_splits)
  next
    case False
    then have "sql_le x y" "sql_le y z" "x \<noteq> y" using 3 z by auto
    then have "sql_le x z" "x \<noteq> z" using sql_le_trans sql_le_antisym by blast+
    then show ?thesis using z by simp
  qed
qed auto

lemma key_le_antisym: "key_le xs ys \<Longrightarrow> key_le ys xs \<Longrightarrow> length xs = length ys \<Longrightarrow> xs = ys"
  by (induction xs ys rule: key_le.induct) (auto split: if_splits dest: sql_le_antisym)

interpretation key_order: row_order "\<lambda>a b. key_le (cols pk a) (cols pk b)" for pk
  using key_le_total key_le_trans by unfold_locales blast+

lemma sorted_unique:
  assumes "sorted_wrt le xs" "sorted_wrt le ys" "mset xs = mset ys"
    and "\<And>a b. a \<in> set xs \<Longrightarrow> b \<in> set xs \<Longrightarrow> le a b \<Longrightarrow> le b a \<Longrightarrow> a = b"
  shows "xs = ys"
  using assms
proof (induction xs arbitrary: ys)
  case (Cons x xs)
  then obtain y ys' where ys: "ys = y # ys'" by (cases ys) auto
  have sets: "insert x (set xs) = insert y (set ys')"
    using mset_eq_setD[OF Cons.prems(3)] ys by simp
  have "x = y"
  proof (rule ccontr)
    assume "x \<noteq> y"
    then have "x \<in> set ys'" "y \<in> set xs" using sets by auto
    then have "le y x" "le x y" using Cons.prems(1,2) ys by auto
    then show False using Cons.prems(4)[of x y] \<open>y \<in> set xs\<close> \<open>x \<noteq> y\<close> by simp
  qed
  moreover have "xs = ys'"
    using Cons.IH[of ys'] Cons.prems ys \<open>x = y\<close> by auto
  ultimately show ?case using ys by simp
qed simp

text \<open>
  The fingerprint is a function of the rows alone: for active views with one row per primary key,
  neither the order in which the rows are stored nor the order DuckDB leaves open changes it.
\<close>

theorem fingerprint_deterministic:
  assumes "is_tie tie" "is_tie tie'"
    and "\<forall>sp \<in> set specs. mset (active (rs_name sp)) = mset (active' (rs_name sp))
      \<and> distinct (map (cols (rs_primary_key sp)) (active (rs_name sp)))"
  shows "compute_logical_fingerprint sha tie specs active = compute_logical_fingerprint sha tie' specs active'"
proof -
  have "view_text tie sp (active (rs_name sp)) = view_text tie' sp (active' (rs_name sp))"
    if sp: "sp \<in> set specs" for sp
  proof -
    let ?pk = "rs_primary_key sp" and ?a = "active (rs_name sp)" and ?a' = "active' (rs_name sp)"
    let ?le = "\<lambda>a b. key_le (cols ?pk a) (cols ?pk b)"
    have "sort_le ?le (tie ?a) = sort_le ?le (tie' ?a')"
    proof (rule sorted_unique)
      show "sorted_wrt ?le (sort_le ?le (tie ?a))" "sorted_wrt ?le (sort_le ?le (tie' ?a'))"
        by (rule key_order.sorted_sort_le)+
      show "mset (sort_le ?le (tie ?a)) = mset (sort_le ?le (tie' ?a'))"
        using assms sp by (simp add: is_tie_def)
      fix r q
      assume "r \<in> set (sort_le ?le (tie ?a))" "q \<in> set (sort_le ?le (tie ?a))" "?le r q" "?le q r"
      moreover from this have "cols ?pk r = cols ?pk q"
        by (intro key_le_antisym) (simp_all add: cols_def)
      ultimately show "r = q"
        using assms(3) sp tie_set[OF assms(1)] by (auto simp: distinct_map dest: inj_onD)
    qed
    then show ?thesis by (simp add: view_text_def)
  qed
  then have "map (\<lambda>sp. view_text tie sp (active (rs_name sp))) specs =
      map (\<lambda>sp. view_text tie' sp (active' (rs_name sp))) specs"
    by (intro map_cong refl)
  then show ?thesis unfolding compute_logical_fingerprint_def by (rule arg_cong)
qed

theorem fingerprint_deterministic_witness:
  "compute_logical_fingerprint id id [demo_spec Upsert] (\<lambda>_. [[(''k'', SqlInt 1)], [(''k'', SqlInt 2)]])
   = compute_logical_fingerprint id rev [demo_spec Upsert] (\<lambda>_. [[(''k'', SqlInt 2)], [(''k'', SqlInt 1)]])"
  by (rule fingerprint_deterministic) (simp_all add: is_tie_def demo_spec_def cols_def col_def)

end
