(* ===== verification/DagCompaction.thy ===== *)
theory DagCompaction
  imports DagQuery DagPublication
begin

text \<open>
  Compaction of a lineage into one checkpoint, \<^verbatim>\<open>infra/storage/dag/compaction.py\<close>. The rows of
  each active view are written in parts whose key ranges respect a row budget; \<open>written\<close> is what the
  Parquet writer yields for a part: its digest and size. Part key columns hold text.
\<close>

section \<open>Key ranges\<close>

definition compact_key :: "relation_spec \<Rightarrow> string" where
  "compact_key sp = (if given (rs_entity_key sp) then the (rs_entity_key sp) else hd (rs_primary_key sp))"

text \<open>\<^verbatim>\<open>SELECT key, count(*) ... WHERE key IS NOT NULL GROUP BY key ORDER BY key\<close>\<close>

definition key_counts :: "string \<Rightarrow> row list \<Rightarrow> (sqlval \<times> nat) list" where
  "key_counts c rows =
     map (\<lambda>k. (k, length (filter (\<lambda>r. col r c = k) rows)))
       (sort_le sql_le (remdups (filter (\<lambda>v. v \<noteq> SqlNull) (map (\<lambda>r. col r c) rows))))"

fun pack_ranges :: "nat \<Rightarrow> sqlval list \<Rightarrow> nat \<Rightarrow> (sqlval \<times> nat) list \<Rightarrow> (sqlval \<times> sqlval) list" where
  "pack_ranges max_rows cur_keys cur_cnt [] =
     (if cur_keys = [] then [] else [(hd cur_keys, last cur_keys)])"
| "pack_ranges max_rows cur_keys cur_cnt ((k, cnt) # rest) =
     (if 0 < cur_cnt \<and> max_rows < cur_cnt + cnt
      then (hd cur_keys, last cur_keys) # pack_ranges max_rows [k] cnt rest
      else pack_ranges max_rows (cur_keys @ [k]) (cur_cnt + cnt) rest)"

text \<open>\<open>None\<close> is the range of all rows, with both bounds absent.\<close>

definition compact_ranges :: "relation_spec \<Rightarrow> row list \<Rightarrow> (sqlval \<times> sqlval) option list" where
  "compact_ranges sp rows =
     (case rs_max_rows_per_part sp of
        None \<Rightarrow> [None]
      | Some m \<Rightarrow>
          if rows = [] \<or> int (length rows) \<le> m then [None]
          else (let rs = map Some (pack_ranges (nat m) [] 0 (key_counts (compact_key sp) rows))
                in if rs = [] then [None] else rs))"

definition in_range :: "string \<Rightarrow> (sqlval \<times> sqlval) option \<Rightarrow> row \<Rightarrow> bool" where
  "in_range c rng r =
     (case rng of
        None \<Rightarrow> True
      | Some (lo, hi) \<Rightarrow>
          if lo = hi then sql_eq (col r c) lo
          else col r c \<noteq> SqlNull \<and> sql_le lo (col r c) \<and> sql_le (col r c) hi)"

definition compact_part :: "(row list \<Rightarrow> row list) \<Rightarrow> relation_spec \<Rightarrow> row list \<Rightarrow> (sqlval \<times> sqlval) option \<Rightarrow> row list"
  where
  "compact_part tie sp rows rng =
     sort_le (\<lambda>a b. key_le (cols (rs_sort_order sp) a) (cols (rs_sort_order sp) b))
       (tie (filter (in_range (compact_key sp) rng) rows))"

fun text_of :: "sqlval \<Rightarrow> string option" where
  "text_of (SqlText s) = Some s"
| "text_of _ = None"

definition key_bounds :: "string \<Rightarrow> row list \<Rightarrow> string option \<times> string option" where
  "key_bounds c rows =
     (let vs = List.map_filter (\<lambda>r. text_of (col r c)) rows
      in if vs = [] then (None, None) else (Some (Min (set vs)), Some (Max (set vs))))"

definition compact_relation ::
  "(row list \<Rightarrow> row list) \<Rightarrow> (row list \<Rightarrow> string \<times> int) \<Rightarrow> relation_spec \<Rightarrow> row list
    \<Rightarrow> (part_descriptor \<times> row list) list" where
  "compact_relation tie written sp rows =
     map (\<lambda>(idx, rng).
       (let part = compact_part tie sp rows rng; (kmin, kmax) = key_bounds (compact_key sp) part
        in (\<lparr>pd_path = rs_name sp @ ''/'' @ part_file_name idx, pd_sha256 = fst (written part),
             pd_row_count = int (length part), pd_byte_size = snd (written part),
             pd_key_min = kmin, pd_key_max = kmax\<rparr>, part)))
       (enumerate 0 (compact_ranges sp rows))"

section \<open>Compacting a lineage\<close>

datatype compact_error =
  CompactLineage lineage_error | CompactViews compile_error | CompactionParityError string string
  | CompactPublish publish_error

text \<open>The staged files after the parts were written.\<close>

definition staged_fs :: "filesystem \<Rightarrow> (path \<times> row list) list \<Rightarrow> filesystem" where
  "staged_fs fs files = fs\<lparr>fs_is_file := (\<lambda>p. p \<in> fst ` set files \<or> fs_is_file fs p)\<rparr>"

definition staged_read :: "(path \<Rightarrow> row list) \<Rightarrow> (path \<times> row list) list \<Rightarrow> path \<Rightarrow> row list" where
  "staged_read read_parquet files p = (case map_of files p of None \<Rightarrow> read_parquet p | Some rows \<Rightarrow> rows)"

definition view_rows :: "(string \<times> view) list \<Rightarrow> string \<Rightarrow> row list" where
  "view_rows views name = (case map_of views name of None \<Rightarrow> [] | Some v \<Rightarrow> vw_active v)"

definition compact_checkpoint ::
  "string \<Rightarrow> catalog \<Rightarrow> string \<Rightarrow> string \<Rightarrow> part_descriptor list dict \<Rightarrow> string \<Rightarrow> dag_manifest" where
  "compact_checkpoint now cat tip_id new_snapshot_id rels fingerprint =
     \<lparr>mf_snapshot_id = new_snapshot_id, mf_kind = Checkpoint,
      mf_parents = [\<lparr>pr_snapshot_id = tip_id,
        pr_manifest_sha256 = (case get_manifest_sha256 cat tip_id of None \<Rightarrow> [] | Some d \<Rightarrow> d)\<rparr>],
      mf_checkpoint_anchor_id = new_snapshot_id, mf_lineage_depth = 0, mf_created_at = now,
      mf_relations = rels, mf_logical_fingerprint = fingerprint,
      mf_schema_versions = [], mf_metadata = []\<rparr>"

definition compact_parts ::
  "(row list \<Rightarrow> row list) \<Rightarrow> (row list \<Rightarrow> string \<times> int) \<Rightarrow> relation_spec list \<Rightarrow> (string \<times> view) list
    \<Rightarrow> (string \<times> (part_descriptor \<times> row list) list) list" where
  "compact_parts rtie written specs views =
     map (\<lambda>sp. (rs_name sp, compact_relation rtie written sp (view_rows views (rs_name sp)))) specs"

definition staged_files :: "path \<Rightarrow> (string \<times> (part_descriptor \<times> row list) list) list \<Rightarrow> (path \<times> row list) list" where
  "staged_files staged prts =
     concat (map (\<lambda>(name, ps). map (\<lambda>(d, rows). (join_path staged (pd_path d), rows)) ps) prts)"

definition compact_manifest ::
  "(string \<Rightarrow> string) \<Rightarrow> string \<Rightarrow> (row list \<Rightarrow> row list) \<Rightarrow> catalog \<Rightarrow> relation_spec list \<Rightarrow> string \<Rightarrow> string
    \<Rightarrow> (string \<times> view) list \<Rightarrow> (string \<times> (part_descriptor \<times> row list) list) list \<Rightarrow> dag_manifest" where
  "compact_manifest sha now rtie cat specs tip_id new_snapshot_id views prts =
     compact_checkpoint now cat tip_id new_snapshot_id (map (\<lambda>(name, ps). (name, map fst ps)) prts)
       (compute_logical_fingerprint sha rtie specs (view_rows views))"

definition lift_err :: "('e \<Rightarrow> 'f) \<Rightarrow> ('e, 'a) result \<Rightarrow> ('f, 'a) result" where
  "lift_err f r = (case r of Inl e \<Rightarrow> Inl (f e) | Inr x \<Rightarrow> Inr x)"

lemma lift_err_Inr_iff: "lift_err f r = Inr x \<longleftrightarrow> r = Inr x"
  by (auto simp: lift_err_def split: sum.splits)

definition compact_lineage ::
  "(string \<Rightarrow> string) \<Rightarrow> string \<Rightarrow> ((string \<times> nat) list \<Rightarrow> (string \<times> nat) list)
    \<Rightarrow> ((nat \<times> row) list \<Rightarrow> (nat \<times> row) list) \<Rightarrow> (row list \<Rightarrow> row list) \<Rightarrow> (row list \<Rightarrow> string \<times> int)
    \<Rightarrow> filesystem \<Rightarrow> (path \<Rightarrow> row list) \<Rightarrow> path \<Rightarrow> catalog \<Rightarrow> relation_spec list \<Rightarrow> string \<Rightarrow> string \<Rightarrow> path
    \<Rightarrow> bool \<Rightarrow> string option
    \<Rightarrow> (compact_error, dag_manifest \<times> catalog) result option" where
  "compact_lineage sha now ltie vtie rtie written fs read_parquet rdir cat specs tip_id new_snapshot_id
      staged publish branch_name =
     map_option (\<lambda>walk.
       bind_res (lift_err CompactLineage walk) (\<lambda>lineage.
       bind_res (lift_err CompactViews (compile_virtual_views vtie fs read_parquet specs lineage rdir)) (\<lambda>views.
       let prts = compact_parts rtie written specs views;
           files = staged_files staged prts;
           m = compact_manifest sha now rtie cat specs tip_id new_snapshot_id views prts;
           chain = \<lparr>lc_tip_id = new_snapshot_id, lc_checkpoint_anchor_id = new_snapshot_id, lc_nodes = [m]\<rparr> in
       bind_res (lift_err CompactViews
           (compile_virtual_views vtie (staged_fs fs files) (staged_read read_parquet files) specs chain staged))
         (\<lambda>staged_views.
         let pre = mf_logical_fingerprint m;
             post = compute_logical_fingerprint sha rtie specs (view_rows staged_views) in
         if post \<noteq> pre then Inl (CompactionParityError pre post)
         else if \<not> publish then Inr (m, cat)
         else bind_res (lift_err CompactPublish
                (snd (publish_node sha now fs rdir cat m (Some staged) (Some tip_id) branch_name True False)))
              (\<lambda>cat'. Inr (m, cat'))))))
      (walk_lineage ltie cat tip_id)"

section \<open>The parts partition the rows\<close>

interpretation value_order: row_order sql_le
  using sql_le_total sql_le_trans by unfold_locales blast+

definition sorted_keys :: "sqlval list \<Rightarrow> bool" where
  "sorted_keys ks \<longleftrightarrow> sorted_wrt (\<lambda>a b. sql_le a b \<and> a \<noteq> b) ks"

lemma key_counts_keys:
  "sorted_keys (map fst (key_counts c rows))"
  "set (map fst (key_counts c rows)) = {v. v \<noteq> SqlNull \<and> (\<exists>r \<in> set rows. col r c = v)}"
proof -
  let ?ks = "remdups (filter (\<lambda>v. v \<noteq> SqlNull) (map (\<lambda>r. col r c) rows))"
  have keys: "map fst (key_counts c rows) = sort_le sql_le ?ks" by (simp add: key_counts_def comp_def)
  show "set (map fst (key_counts c rows)) = {v. v \<noteq> SqlNull \<and> (\<exists>r \<in> set rows. col r c = v)}"
    unfolding keys by auto
  have "distinct (sort_le sql_le ?ks)"
    unfolding mset_eq_imp_distinct_iff[OF mset_sort_le] by (rule distinct_remdups)
  then show "sorted_keys (map fst (key_counts c rows))"
    unfolding keys sorted_keys_def using value_order.sorted_sort_le[of ?ks]
    by (simp add: sorted_wrt_iff_nth_less distinct_conv_nth)
qed

text \<open>The groups of keys the greedy packing forms; a range is the ends of a group.\<close>

fun pack_groups :: "nat \<Rightarrow> sqlval list \<Rightarrow> nat \<Rightarrow> (sqlval \<times> nat) list \<Rightarrow> sqlval list list" where
  "pack_groups max_rows cur_keys cur_cnt [] = (if cur_keys = [] then [] else [cur_keys])"
| "pack_groups max_rows cur_keys cur_cnt ((k, cnt) # rest) =
     (if 0 < cur_cnt \<and> max_rows < cur_cnt + cnt
      then cur_keys # pack_groups max_rows [k] cnt rest
      else pack_groups max_rows (cur_keys @ [k]) (cur_cnt + cnt) rest)"

lemma pack_ranges_groups: "pack_ranges m cur n kcs = map (\<lambda>g. (hd g, last g)) (pack_groups m cur n kcs)"
  by (induction m cur n kcs rule: pack_groups.induct) auto

lemma pack_groups_concat: "concat (pack_groups m cur n kcs) = cur @ map fst kcs"
  by (induction m cur n kcs rule: pack_groups.induct) auto

lemma pack_groups_nonempty:
  "(cur = [] \<longrightarrow> n = 0) \<Longrightarrow> [] \<notin> set (pack_groups m cur n kcs)"
  by (induction m cur n kcs rule: pack_groups.induct) auto

lemma pack_groups_budget:
  assumes "n = sum_list (map cnt cur)" "\<forall>(k, x) \<in> set kcs. x = cnt k \<and> 0 < x" "\<forall>k \<in> set cur. 0 < cnt k"
    and "length cur \<le> 1 \<or> n \<le> m"
  shows "\<forall>g \<in> set (pack_groups m cur n kcs). length g \<le> 1 \<or> sum_list (map cnt g) \<le> m"
  using assms
proof (induction m cur n kcs rule: pack_groups.induct)
  case (2 m cur n k x rest)
  show ?case
  proof (cases "0 < n \<and> m < n + x")
    case True
    then show ?thesis using 2 by auto
  next
    case False
    have "length (cur @ [k]) \<le> 1 \<or> n + x \<le> m"
      using False 2 by (cases cur) auto
    then show ?thesis using False 2 by auto
  qed
qed auto

lemma sorted_keys_distinct: "sorted_keys ks \<Longrightarrow> distinct ks"
  by (auto simp: sorted_keys_def sorted_wrt_iff_nth_less distinct_conv_nth) (metis linorder_neqE_nat)

lemma range_is_group:
  assumes "sorted_keys (xs @ g @ ys)" "g \<noteq> []" "k \<in> set (xs @ g @ ys)"
  shows "sql_le (hd g) k \<and> sql_le k (last g) \<longleftrightarrow> k \<in> set g"
proof
  assume between: "sql_le (hd g) k \<and> sql_le k (last g)"
  have "k \<notin> set xs"
  proof
    assume "k \<in> set xs"
    then have "sql_le k (hd g)" "k \<noteq> hd g" using assms(1,2) by (auto simp: sorted_keys_def sorted_wrt_append)
    then show False using between sql_le_antisym by blast
  qed
  moreover have "k \<notin> set ys"
  proof
    assume "k \<in> set ys"
    then have "sql_le (last g) k" "k \<noteq> last g" using assms(1,2) by (auto simp: sorted_keys_def sorted_wrt_append)
    then show False using between sql_le_antisym by blast
  qed
  ultimately show "k \<in> set g" using assms(3) by auto
next
  assume k: "k \<in> set g"
  then obtain us vs where g: "g = us @ k # vs" by (auto dest: split_list)
  have sorted: "sorted_wrt (\<lambda>a b. sql_le a b \<and> a \<noteq> b) (us @ k # vs)"
    using assms(1) g by (auto simp: sorted_keys_def sorted_wrt_append)
  have "sql_le (hd g) k" using sorted value_order.refl by (cases us) (auto simp: g sorted_wrt_append)
  moreover have "sql_le k (last g)"
    using sorted value_order.refl by (cases vs rule: rev_cases) (auto simp: g sorted_wrt_append)
  ultimately show "sql_le (hd g) k \<and> sql_le k (last g)" by simp
qed

lemma in_range_group:
  assumes "sorted_keys (concat gs)" "g \<in> set gs" "[] \<notin> set gs" "col r c \<in> set (concat gs)" "col r c \<noteq> SqlNull"
  shows "in_range c (Some (hd g, last g)) r \<longleftrightarrow> col r c \<in> set g"
proof -
  obtain as bs where gs: "gs = as @ g # bs" using assms(2) by (auto dest: split_list)
  have g: "g \<noteq> []" using assms(2,3) by auto
  have iff: "sql_le (hd g) (col r c) \<and> sql_le (col r c) (last g) \<longleftrightarrow> col r c \<in> set g"
    using range_is_group[of "concat as" g "concat bs" "col r c"] assms(1,4) g gs by simp
  have "sql_eq (col r c) (hd g) \<longleftrightarrow> sql_le (hd g) (col r c) \<and> sql_le (col r c) (last g)" if "hd g = last g"
  proof
    assume "sql_eq (col r c) (hd g)"
    then show "sql_le (hd g) (col r c) \<and> sql_le (col r c) (last g)"
      using that value_order.refl by (simp add: sql_eq_def)
  next
    assume "sql_le (hd g) (col r c) \<and> sql_le (col r c) (last g)"
    then have "col r c = hd g" using that sql_le_antisym by metis
    then show "sql_eq (col r c) (hd g)" using assms(5) by (simp add: sql_eq_def)
  qed
  then show ?thesis using iff assms(5) by (auto simp: in_range_def)
qed

lemma groups_partition:
  "distinct (concat gs) \<Longrightarrow>
   mset (concat (map (\<lambda>g. filter (\<lambda>r. f r \<in> set g) rows) gs)) = mset (filter (\<lambda>r. f r \<in> set (concat gs)) rows)"
proof (induction gs)
  case (Cons g gs)
  have "mset (filter P rows) + mset (filter Q rows) = mset (filter (\<lambda>r. P r \<or> Q r) rows)"
    if "\<And>r. \<not> (P r \<and> Q r)" for P Q using that by (induction rows) auto
  from this[of "\<lambda>r. f r \<in> set g" "\<lambda>r. f r \<in> set (concat gs)"] show ?case using Cons by auto
qed simp

lemma group_size:
  "distinct g \<Longrightarrow> length (filter (\<lambda>r. f r \<in> set g) rows) = sum_list (map (\<lambda>k. length (filter (\<lambda>r. f r = k) rows)) g)"
proof (induction g)
  case (Cons k g)
  have "length (filter (\<lambda>r. f r = k \<or> f r \<in> set g) rows) =
      length (filter (\<lambda>r. f r = k) rows) + length (filter (\<lambda>r. f r \<in> set g) rows)"
    using Cons.prems by (induction rows) auto
  then show ?case using Cons by simp
qed simp

lemma compact_part_mset: "is_tie tie \<Longrightarrow> mset (compact_part tie sp rows rng) = mset (filter (in_range (compact_key sp) rng) rows)"
  by (simp add: compact_part_def is_tie_def)

lemma compact_relation_parts:
  "map snd (compact_relation tie written sp rows) = map (compact_part tie sp rows) (compact_ranges sp rows)"
proof -
  have "map snd (compact_relation tie written sp rows) =
      map (\<lambda>x. compact_part tie sp rows (snd x)) (enumerate 0 (compact_ranges sp rows))"
    by (simp add: compact_relation_def comp_def split_beta Let_def)
  also have "\<dots> = map (compact_part tie sp rows) (map snd (enumerate 0 (compact_ranges sp rows)))"
    by (simp del: map_snd_enumerate)
  finally show ?thesis by simp
qed

lemma compact_ranges_cases:
  obtains "compact_ranges sp rows = [None]" "\<forall>m. rs_max_rows_per_part sp = Some m \<longrightarrow> rows = [] \<or> int (length rows) \<le> m
      \<or> (\<forall>r \<in> set rows. col r (compact_key sp) = SqlNull)"
  | m where "rs_max_rows_per_part sp = Some m"
      "compact_ranges sp rows = map (\<lambda>g. Some (hd g, last g)) (pack_groups (nat m) [] 0 (key_counts (compact_key sp) rows))"
proof (cases "rs_max_rows_per_part sp")
  case None
  then show ?thesis using that(1) by (simp add: compact_ranges_def)
next
  case (Some m)
  let ?gs = "pack_groups (nat m) [] 0 (key_counts (compact_key sp) rows)"
  show ?thesis
  proof (cases "rows = [] \<or> int (length rows) \<le> m \<or> ?gs = []")
    case True
    have "\<forall>r \<in> set rows. col r (compact_key sp) = SqlNull" if "?gs = []"
      using pack_groups_concat[of "nat m" "[]" 0 "key_counts (compact_key sp) rows"] that
        key_counts_keys(2)[of "compact_key sp" rows] by auto
    then show ?thesis
      using that(1) True Some by (auto simp: compact_ranges_def pack_ranges_groups Let_def)
  next
    case False
    then show ?thesis using that(2)[OF Some] Some
      by (simp add: compact_ranges_def pack_ranges_groups Let_def comp_def)
  qed
qed

lemma pack_groups_facts:
  fixes rows :: "row list" and m :: nat and c :: string
  assumes "\<forall>r \<in> set rows. col r c \<noteq> SqlNull"
  defines "gs \<equiv> pack_groups m [] 0 (key_counts c rows)"
  shows "sorted_keys (concat gs)" "\<And>r. r \<in> set rows \<Longrightarrow> col r c \<in> set (concat gs)"
    and "\<And>g. g \<in> set gs \<Longrightarrow> filter (in_range c (Some (hd g, last g))) rows = filter (\<lambda>r. col r c \<in> set g) rows"
    and "\<And>g. g \<in> set gs \<Longrightarrow> length g \<le> 1 \<or> length (filter (\<lambda>r. col r c \<in> set g) rows) \<le> m"
proof -
  let ?kcs = "key_counts c rows" and ?cnt = "\<lambda>k. length (filter (\<lambda>r. col r c = k) rows)"
  have keys: "concat gs = map fst ?kcs" using pack_groups_concat[of m "[]" 0 ?kcs] by (simp add: gs_def)
  show sorted: "sorted_keys (concat gs)" using key_counts_keys(1) keys by simp
  have ne: "[] \<notin> set gs" unfolding gs_def by (rule pack_groups_nonempty) simp
  show mem: "col r c \<in> set (concat gs)" if "r \<in> set rows" for r
    unfolding keys key_counts_keys(2) using that assms(1) by auto
  show "filter (in_range c (Some (hd g, last g))) rows = filter (\<lambda>r. col r c \<in> set g) rows"
    if "g \<in> set gs" for g
    using in_range_group[OF sorted that ne mem] assms(1) by (auto intro: filter_cong)
  have "\<forall>(k, x) \<in> set ?kcs. x = ?cnt k \<and> 0 < x" by (auto simp: key_counts_def filter_empty_conv)
  then have budget: "\<forall>g \<in> set gs. length g \<le> 1 \<or> sum_list (map ?cnt g) \<le> m"
    unfolding gs_def by (intro pack_groups_budget) auto
  show "length g \<le> 1 \<or> length (filter (\<lambda>r. col r c \<in> set g) rows) \<le> m" if "g \<in> set gs" for g
  proof -
    have "distinct g" using sorted_keys_distinct[OF sorted] that by (metis distinct_concat_iff)
    then show ?thesis using budget that group_size[of g "\<lambda>r. col r c" rows] by auto
  qed
qed

lemma compact_groups:
  fixes rows :: "row list"
  assumes "is_tie tie" "\<forall>r \<in> set rows. col r (compact_key sp) \<noteq> SqlNull"
    and "compact_ranges sp rows = map (\<lambda>g. Some (hd g, last g)) (pack_groups m [] 0 (key_counts (compact_key sp) rows))"
  obtains gs part where "map snd (compact_relation tie written sp rows) = map part gs"
    "sorted_keys (concat gs)" "\<forall>r \<in> set rows. col r (compact_key sp) \<in> set (concat gs)"
    "\<forall>g \<in> set gs. mset (part g) = mset (filter (\<lambda>r. col r (compact_key sp) \<in> set g) rows)"
    "\<forall>g \<in> set gs. length g \<le> 1 \<or> length (part g) \<le> m"
proof -
  let ?gs = "pack_groups m [] 0 (key_counts (compact_key sp) rows)"
  let ?part = "\<lambda>g. compact_part tie sp rows (Some (hd g, last g))"
  note facts = pack_groups_facts[OF assms(2), where m = m]
  have parts: "map snd (compact_relation tie written sp rows) = map ?part ?gs"
    unfolding compact_relation_parts assms(3) by simp
  have pm: "mset (?part g) = mset (filter (\<lambda>r. col r (compact_key sp) \<in> set g) rows)" if "g \<in> set ?gs" for g
    using compact_part_mset[OF assms(1), of sp rows "Some (hd g, last g)"] facts(3)[OF that] by simp
  have "length g \<le> 1 \<or> length (?part g) \<le> m" if "g \<in> set ?gs" for g
    using facts(4)[OF that] mset_eq_length[OF pm[OF that]] by simp
  with that[OF parts facts(1)] facts(2) pm show thesis by blast
qed

text \<open>
  C16. Compaction loses and duplicates nothing: where every row has a key, the parts of a relation
  together hold exactly its rows; the parts are in key order and no key is split over two of them; and
  a part exceeds the row budget only if it holds a single key.
\<close>

theorem compaction_partitions:
  assumes "is_tie tie" "\<forall>r \<in> set rows. col r (compact_key sp) \<noteq> SqlNull"
    and "spec_check sp = None"
  shows "mset (concat (map snd (compact_relation tie written sp rows))) = mset rows
    \<and> sorted_wrt (\<lambda>p q. \<forall>r \<in> set p. \<forall>r' \<in> set q. sql_le (col r (compact_key sp)) (col r' (compact_key sp))
        \<and> col r (compact_key sp) \<noteq> col r' (compact_key sp)) (map snd (compact_relation tie written sp rows))
    \<and> (\<forall>m p. rs_max_rows_per_part sp = Some m \<and> p \<in> set (map snd (compact_relation tie written sp rows)) \<longrightarrow>
        int (length p) \<le> m \<or> (\<exists>k. \<forall>r \<in> set p. col r (compact_key sp) = k))"
proof (cases rule: compact_ranges_cases[of sp rows])
  case 1
  have all: "mset (compact_part tie sp rows None) = mset rows"
    by (simp add: compact_part_mset[OF assms(1)] in_range_def)
  have "int (length rows) \<le> m" if "rs_max_rows_per_part sp = Some m" for m
    using 1(2) that assms(2) spec_check_key(3)[OF assms(3) that] by (cases rows) auto
  then show ?thesis using all mset_eq_length[OF all] unfolding compact_relation_parts 1(1) by auto
next
  case (2 m)
  let ?c = "compact_key sp"
  obtain gs part where parts: "map snd (compact_relation tie written sp rows) = map part gs"
    and sorted: "sorted_keys (concat gs)" and mem: "\<forall>r \<in> set rows. col r ?c \<in> set (concat gs)"
    and pm: "\<forall>g \<in> set gs. mset (part g) = mset (filter (\<lambda>r. col r ?c \<in> set g) rows)"
    and budget: "\<forall>g \<in> set gs. length g \<le> 1 \<or> length (part g) \<le> nat m"
    using compact_groups[OF assms(1,2) 2(2)] .
  have ps: "set (part g) = {r \<in> set rows. col r ?c \<in> set g}" if "g \<in> set gs" for g
    using pm that mset_eq_setD[of "part g"] by fastforce
  have concat_mset: "mset (concat xss) = sum_list (map mset xss)" for xss :: "row list list"
    by (induction xss) auto
  have "mset (concat (map part gs)) = mset (concat (map (\<lambda>g. filter (\<lambda>r. col r ?c \<in> set g) rows) gs))"
    unfolding concat_mset map_map using pm by (intro arg_cong[where f = sum_list] map_cong) auto
  also have "\<dots> = mset (filter (\<lambda>r. col r ?c \<in> set (concat gs)) rows)"
    by (rule groups_partition[OF sorted_keys_distinct[OF sorted]])
  also have "filter (\<lambda>r. col r ?c \<in> set (concat gs)) rows = rows" using mem by simp
  finally have total: "mset (concat (map part gs)) = mset rows" .
  have "sorted_wrt (\<lambda>g h. \<forall>a \<in> set g. \<forall>b \<in> set h. sql_le a b \<and> a \<noteq> b) hs" if "sorted_keys (concat hs)" for hs
    using that by (induction hs) (auto simp: sorted_keys_def sorted_wrt_append)
  from this[OF sorted] have order: "sorted_wrt (\<lambda>p q. \<forall>r \<in> set p. \<forall>r' \<in> set q.
      sql_le (col r ?c) (col r' ?c) \<and> col r ?c \<noteq> col r' ?c) (map part gs)"
    unfolding sorted_wrt_map by (rule sorted_wrt_mono_rel[rotated]) (simp add: ps)
  have "int (length (part g)) \<le> m \<or> (\<exists>k. \<forall>r \<in> set (part g). col r ?c = k)" if g: "g \<in> set gs" for g
  proof (cases "length g \<le> 1")
    case True
    then obtain k where "set g \<subseteq> {k}" by (cases g) auto
    then show ?thesis using ps[OF g] by blast
  next
    case False
    then show ?thesis using budget g spec_check_key(3)[OF assms(3) 2(1)] by fastforce
  qed
  then show ?thesis using total order 2(1) unfolding parts by auto
qed

definition budget_spec :: relation_spec where
  "budget_spec = (demo_spec Upsert)\<lparr>rs_max_rows_per_part := Some 1\<rparr>"

theorem compaction_partitions_witness:
  "mset (concat (map snd (compact_relation id (\<lambda>_. ([], 0)) budget_spec
     [[(''k'', SqlText ''b'')], [(''k'', SqlText ''a'')]]))) = mset [[(''k'', SqlText ''a'')], [(''k'', SqlText ''b'')]]
   \<and> length (compact_relation id (\<lambda>_. ([], 0)) budget_spec [[(''k'', SqlText ''b'')], [(''k'', SqlText ''a'')]]) = 2"
proof -
  let ?rows = "[[(''k'', SqlText ''b'')], [(''k'', SqlText ''a'')]]"
  have "spec_check budget_spec = None"
    by (simp add: budget_spec_def spec_check_def demo_spec_def isidentifier_def is_alpha_us_def given_def)
  moreover have "\<forall>r \<in> set ?rows. col r (compact_key budget_spec) \<noteq> SqlNull" and "is_tie id"
    by (simp_all add: budget_spec_def demo_spec_def compact_key_def given_def col_def is_tie_def)
  ultimately have "mset (concat (map snd (compact_relation id (\<lambda>_. ([], 0)) budget_spec ?rows))) = mset ?rows"
    using compaction_partitions by blast
  moreover have "length (compact_relation id (\<lambda>_. ([], 0)) budget_spec ?rows) = 2"
    by (simp add: compact_relation_def compact_ranges_def budget_spec_def demo_spec_def key_counts_def
        compact_key_def given_def col_def)
  ultimately show ?thesis by simp
qed

text \<open>
  A compaction that returns a manifest passed its parity gate: reading the staged checkpoint gives
  the fingerprint of the lineage it replaces. It publishes only on request, then only if the branch still
  points to the compacted tip, and it never moves the branch otherwise.
\<close>

theorem compaction_parity:
  assumes "catalog_inv cat" "walk_lineage ltie cat tip_id = Some (Inr lineage)"
    and "compact_lineage sha now ltie vtie rtie written fs read_parquet rdir cat specs tip_id new_id staged
      publish branch = Some (Inr (m, cat'))"
  shows "(\<exists>views. compile_virtual_views vtie fs read_parquet specs lineage rdir = Inr views
      \<and> mf_logical_fingerprint m = compute_logical_fingerprint sha rtie specs (view_rows views))
    \<and> (\<exists>files views. compile_virtual_views vtie (staged_fs fs files) (staged_read read_parquet files) specs
          \<lparr>lc_tip_id = new_id, lc_checkpoint_anchor_id = new_id, lc_nodes = [m]\<rparr> staged = Inr views
        \<and> mf_logical_fingerprint m = compute_logical_fingerprint sha rtie specs (view_rows views))
    \<and> mf_kind m = Checkpoint \<and> map pr_snapshot_id (mf_parents m) = [tip_id]
    \<and> (if publish then current_tip cat (target_branch branch) = Some tip_id
          \<and> current_tip cat' (target_branch branch) = Some new_id
       else cat' = cat)"
proof -
  let ?chain = "\<lparr>lc_tip_id = new_id, lc_checkpoint_anchor_id = new_id, lc_nodes = [m]\<rparr>"
  define plan where "plan views = compact_manifest sha now rtie cat specs tip_id new_id views
    (compact_parts rtie written specs views)" for views
  define files where "files views = staged_files staged (compact_parts rtie written specs views)" for views
  obtain views sv where views: "compile_virtual_views vtie fs read_parquet specs lineage rdir = Inr views"
    and m: "m = plan views"
    and sv: "compile_virtual_views vtie (staged_fs fs (files views)) (staged_read read_parquet (files views)) specs
      \<lparr>lc_tip_id = new_id, lc_checkpoint_anchor_id = new_id, lc_nodes = [plan views]\<rparr> staged = Inr sv"
    and parity: "compute_logical_fingerprint sha rtie specs (view_rows sv) = mf_logical_fingerprint (plan views)"
    and pub: "publish \<longrightarrow> snd (publish_node sha now fs rdir cat (plan views) (Some staged) (Some tip_id) branch True False) = Inr cat'"
      "\<not> publish \<longrightarrow> cat' = cat"
    using assms(3) unfolding compact_lineage_def assms(2) Let_def plan_def[symmetric] files_def[symmetric]
    by (auto simp: bind_res_Inr_iff lift_err_Inr_iff split: if_split_asm)
  have id: "mf_snapshot_id m = new_id" "mf_kind m = Checkpoint" "map pr_snapshot_id (mf_parents m) = [tip_id]"
    "mf_logical_fingerprint m = compute_logical_fingerprint sha rtie specs (view_rows views)"
    by (simp_all add: m plan_def compact_manifest_def compact_checkpoint_def)
  have "current_tip cat (target_branch branch) = Some tip_id \<and> current_tip cat' (target_branch branch) = Some new_id"
    if p: "publish"
  proof -
    have "snd (publish_node sha now fs rdir cat m (Some staged) (Some tip_id) branch True False) = Inr cat'"
      using pub(1) p m by simp
    then obtain moves where "publish_node sha now fs rdir cat m (Some staged) (Some tip_id) branch True False = (moves, Inr cat')"
      by (metis prod.collapse)
    note ok = publish_node_ok[OF this]
    show ?thesis using ok(1) catalog_publish_tip(2)[OF assms(1) ok(2)] id(1) by simp
  qed
  then have tip: "if publish then current_tip cat (target_branch branch) = Some tip_id
      \<and> current_tip cat' (target_branch branch) = Some new_id else cat' = cat" using pub(2) by simp
  have gate: "\<exists>files sv. compile_virtual_views vtie (staged_fs fs files) (staged_read read_parquet files) specs ?chain staged = Inr sv
      \<and> mf_logical_fingerprint m = compute_logical_fingerprint sha rtie specs (view_rows sv)"
    using sv parity m by metis
  have "\<exists>views. compile_virtual_views vtie fs read_parquet specs lineage rdir = Inr views
      \<and> mf_logical_fingerprint m = compute_logical_fingerprint sha rtie specs (view_rows views)"
    using views id(4) by blast
  then show ?thesis using gate tip id(2,3) by (intro conjI)
qed

theorem compaction_parity_witness:
  "\<exists>m. compact_lineage id ''t'' id id id (\<lambda>_. ([], 0)) (demo_fs\<lparr>fs_is_file := (\<lambda>p. False)\<rparr>) (\<lambda>_. [])
      [''x''] chain_catalog [demo_spec Upsert] ''d'' ''n'' [''y''] False None = Some (Inr (m, chain_catalog))
    \<and> mf_kind m = Checkpoint"
proof -
  let ?fs = "demo_fs\<lparr>fs_is_file := (\<lambda>p. False)\<rparr>"
  obtain lineage where walk: "walk_lineage id chain_catalog ''d'' = Some (Inr lineage)"
    using chain_catalog_walk by blast
  have ids: "check_identifiers [''r''] = Inr ()" "check_identifiers [''k'', ''v''] = Inr ()" "check_identifiers [''k''] = Inr ()"
    by (simp_all add: sql_quoted_identifier_def identifier_match_def isidentifier_def is_alpha_us_def)
  have order: "ordered_specs [demo_spec Upsert] = Inr [demo_spec Upsert]"
    by (simp add: ordered_specs_def order_specs_loop.simps spec_ready_def demo_spec_def)
  have none: "raw_rows ?fs rp rdir rel ns = None" for rp rdir rel ns
    by (simp add: raw_rows_def node_part_paths_def filter_empty_conv split_beta)
  have names: "rs_name (demo_spec Upsert) = ''r''" "map fst (rs_schema (demo_spec Upsert)) = [''k'', ''v'']"
    by (simp_all add: demo_spec_def)
  have views: "compile_virtual_views id ?fs (\<lambda>_. []) [demo_spec Upsert] lineage [''x''] =
      Inr [(''r'', \<lparr>vw_raw = None, vw_active = []\<rparr>)]"
    by (simp add: compile_virtual_views_def order compile_view_def none names ids del: check_identifiers.simps)
  have parts: "compact_relation id (\<lambda>_. ([], 0)) (demo_spec Upsert) [] =
      [(\<lparr>pd_path = ''r/'' @ part_file_name 0, pd_sha256 = [], pd_row_count = 0, pd_byte_size = 0,
         pd_key_min = None, pd_key_max = None\<rparr>, [])]"
    by (simp add: compact_relation_def compact_ranges_def demo_spec_def compact_part_def key_bounds_def
        List.map_filter_simps)
  have upsert: "active_rows id vs (demo_spec Upsert) raw = Inr (upsert_view id [''k''] raw)" for vs raw
    using ids by (simp add: active_rows_def demo_spec_def del: check_identifiers.simps)
  have staged: "\<exists>sv. compile_virtual_views id fs' (staged_read (\<lambda>_. []) [(p, [])]) [demo_spec Upsert] chain [''y'']
      = Inr [(''r'', sv)] \<and> vw_active sv = []" for fs' p chain
  proof -
    have read: "staged_read (\<lambda>_. []) [(p, [])] q = []" for q by (simp add: staged_read_def)
    have "raw = []" if "raw_rows fs' (staged_read (\<lambda>_. []) [(p, [])]) [''y''] ''r'' (lc_nodes chain) = Some raw" for raw
      using that by (auto simp: raw_rows_def read Let_def split: if_splits)
    then show ?thesis
      by (cases "raw_rows fs' (staged_read (\<lambda>_. []) [(p, [])]) [''y''] ''r'' (lc_nodes chain)")
        (simp_all add: compile_virtual_views_def order compile_view_def names ids upsert upsert_view_def
          del: check_identifiers.simps)
  qed
  have fp: "compute_logical_fingerprint id id [demo_spec Upsert] (view_rows [(''r'', v)]) = []" if "vw_active v = []" for v
    using that by (simp add: compute_logical_fingerprint_def view_rows_def names view_text_def)
  let ?views = "[(''r'', \<lparr>vw_raw = None, vw_active = []\<rparr>)]"
  let ?prts = "compact_parts id (\<lambda>_. ([], 0)) [demo_spec Upsert] ?views"
  let ?m = "compact_manifest id ''t'' id chain_catalog [demo_spec Upsert] ''d'' ''n'' ?views ?prts"
  have files: "staged_files [''y''] ?prts = [(join_path [''y''] (''r/'' @ part_file_name 0), [])]"
    by (simp add: staged_files_def compact_parts_def view_rows_def names parts)
  obtain sv where sv: "compile_virtual_views id (staged_fs ?fs (staged_files [''y''] ?prts))
      (staged_read (\<lambda>_. []) (staged_files [''y''] ?prts)) [demo_spec Upsert]
      \<lparr>lc_tip_id = ''n'', lc_checkpoint_anchor_id = ''n'', lc_nodes = [?m]\<rparr> [''y''] = Inr [(''r'', sv)]" "vw_active sv = []"
    unfolding files using staged by blast
  have "mf_logical_fingerprint ?m = []"
    unfolding compact_manifest_def compact_checkpoint_def by (simp add: fp)
  then have "\<exists>m. compact_lineage id ''t'' id id id (\<lambda>_. ([], 0)) ?fs (\<lambda>_. []) [''x''] chain_catalog [demo_spec Upsert]
      ''d'' ''n'' [''y''] False None = Some (Inr (m, chain_catalog))"
    unfolding compact_lineage_def walk Let_def
    by (simp add: lift_err_def views sv(1) fp[OF sv(2)])
  then obtain m where m: "compact_lineage id ''t'' id id id (\<lambda>_. ([], 0)) ?fs (\<lambda>_. []) [''x''] chain_catalog [demo_spec Upsert]
      ''d'' ''n'' [''y''] False None = Some (Inr (m, chain_catalog))" ..
  from compaction_parity[OF chain_catalog_inv walk m] m show ?thesis by blast
qed

end
