(* ===== verification/UrlSplit.thy ===== *)
theory UrlSplit
  imports PyText
begin

text \<open>
  What the program uses of \<^verbatim>\<open>urllib.parse\<close>, on ASCII text: \<^verbatim>\<open>urlsplit\<close> with the host, user and port of its
  result. Leading control characters and blanks go, tabs and line breaks are removed everywhere, then
  scheme, network location, fragment and query are cut off in this order.
\<close>

section \<open>Cutting a URL\<close>

definition url_clean :: "string \<Rightarrow> string" where
  "url_clean url = filter (\<lambda>c. (of_char c :: nat) \<notin> {9, 10, 13}) (dropWhile (\<lambda>c. (of_char c :: nat) \<le> 32) url)"

definition is_alpha :: "char \<Rightarrow> bool" where
  "is_alpha c \<longleftrightarrow> is_alpha_us c \<and> c \<noteq> CHR ''_''"

definition is_scheme_char :: "char \<Rightarrow> bool" where
  "is_scheme_char c \<longleftrightarrow> is_alpha c \<or> is_digit c \<or> c \<in> {CHR ''+'', CHR ''-'', CHR ''.''}"

definition before :: "char \<Rightarrow> string \<Rightarrow> string" where
  "before c s = takeWhile (\<lambda>d. d \<noteq> c) s"

definition after :: "char \<Rightarrow> string \<Rightarrow> string" where
  "after c s = tl (dropWhile (\<lambda>d. d \<noteq> c) s)"

definition url_scheme :: "string \<Rightarrow> string \<times> string" where
  "url_scheme url =
     (let pre = before (CHR '':'') url in
      if CHR '':'' \<in> set url \<and> pre \<noteq> [] \<and> is_alpha (hd pre) \<and> list_all is_scheme_char pre
      then (map lower_char pre, after (CHR '':'') url) else ([], url))"

definition url_netloc :: "string \<Rightarrow> string" where
  "url_netloc url =
     (if take 2 url = ''//'' then takeWhile (\<lambda>c. c \<notin> {CHR ''/'', CHR ''?'', CHR ''#''}) (drop 2 url) else [])"

definition url_rest :: "string \<Rightarrow> string" where
  "url_rest url = (if take 2 url = ''//'' then dropWhile (\<lambda>c. c \<notin> {CHR ''/'', CHR ''?'', CHR ''#''}) (drop 2 url) else url)"

section \<open>Bracketed hosts\<close>

text \<open>
  \<^verbatim>\<open>_check_bracketed_host\<close>: an IPvFuture literal, or an address that \<^verbatim>\<open>ipaddress\<close> reads as IPv6. \<open>split_on\<close> is
  \<^verbatim>\<open>str.split\<close>.
\<close>

definition is_hex :: "char \<Rightarrow> bool" where
  "is_hex c \<longleftrightarrow> is_digit c \<or> (let n = (of_char (lower_char c) :: nat) in 97 \<le> n \<and> n \<le> 102)"

definition is_ipv4 :: "string \<Rightarrow> bool" where
  "is_ipv4 s \<longleftrightarrow> length (split_on (CHR ''.'') s) = 4
     \<and> list_all (\<lambda>p. p \<noteq> [] \<and> list_all is_digit p \<and> length p \<le> 3 \<and> (hd p \<noteq> CHR ''0'' \<or> p = ''0'') \<and> digits_val p \<le> 255)
         (split_on (CHR ''.'') s)"

definition is_hextet :: "string \<Rightarrow> bool" where
  "is_hextet p \<longleftrightarrow> p \<noteq> [] \<and> length p \<le> 4 \<and> list_all is_hex p"

definition ipv6_parts :: "string \<Rightarrow> string list option" where
  "ipv6_parts addr =
     (let ps = split_on (CHR '':'') addr in
      if length ps < 3 then None
      else if CHR ''.'' \<in> set (last ps) then (if is_ipv4 (last ps) then Some (butlast ps @ [''0'', ''0'']) else None)
      else Some ps)"

definition is_ipv6 :: "string \<Rightarrow> bool" where
  "is_ipv6 s \<longleftrightarrow>
     (let addr = before (CHR ''%'') s; scope = after (CHR ''%'') s in
      (CHR ''%'' \<in> set s \<longrightarrow> scope \<noteq> [] \<and> CHR ''%'' \<notin> set scope)
      \<and> (case ipv6_parts addr of
           None \<Rightarrow> False
         | Some ps \<Rightarrow>
             (let inner = filter (\<lambda>i. ps ! i = []) [1..<length ps - 1] in
              length ps \<le> 9 \<and> length inner \<le> 1
              \<and> (case inner of
                   [] \<Rightarrow> length ps = 8 \<and> list_all is_hextet ps
                 | i # _ \<Rightarrow>
                     (let hi = (if hd ps = [] then i - 1 else i);
                          lo = (if last ps = [] then length ps - i - 2 else length ps - i - 1) in
                      (hd ps = [] \<longrightarrow> hi = 0) \<and> (last ps = [] \<longrightarrow> lo = 0) \<and> hi + lo < 8
                      \<and> list_all is_hextet (take hi ps) \<and> list_all is_hextet (drop (length ps - lo) ps))))))"

definition bracketed_ok :: "string \<Rightarrow> bool" where
  "bracketed_ok host \<longleftrightarrow>
     (if host \<noteq> [] \<and> hd host = CHR ''v''
      then before (CHR ''.'') (tl host) \<noteq> [] \<and> list_all is_hex (before (CHR ''.'') (tl host)) \<and> after (CHR ''.'') (tl host) \<noteq> []
      else is_ipv6 host)"

section \<open>The parts\<close>

record split_url =
  su_scheme :: string
  su_netloc :: string
  su_path :: string
  su_query :: string
  su_fragment :: string

definition netloc_ok :: "string \<Rightarrow> bool" where
  "netloc_ok netloc \<longleftrightarrow>
     (CHR ''['' \<in> set netloc \<longleftrightarrow> CHR '']'' \<in> set netloc)
     \<and> (CHR ''['' \<in> set netloc \<longrightarrow> bracketed_ok (before (CHR '']'') (after (CHR ''['') netloc)))"

definition urlsplit :: "string \<Rightarrow> (py_error, split_url) result" where
  "urlsplit url =
     (let (scheme, rest) = url_scheme (url_clean url); netloc = url_netloc rest; rest = url_rest rest;
          body = before (CHR ''#'') rest in
      if \<not> netloc_ok netloc then Inl ValueError
      else Inr \<lparr>su_scheme = scheme, su_netloc = netloc, su_path = before (CHR ''?'') body,
             su_query = (if CHR ''?'' \<in> set body then after (CHR ''?'') body else []),
             su_fragment = (if CHR ''#'' \<in> set rest then after (CHR ''#'') rest else [])\<rparr>)"

text \<open>
  \<^verbatim>\<open>rpartition('@')\<close>: \<open>hostinfo\<close> is what follows the last at sign; the host is lower case, without a
  scope in the case; the port is the text after the colon.
\<close>

definition hostinfo :: "string \<Rightarrow> string" where
  "hostinfo netloc = rev (before (CHR ''@'') (rev netloc))"

definition has_userinfo :: "split_url \<Rightarrow> bool" where
  "has_userinfo u \<longleftrightarrow> CHR ''@'' \<in> set (su_netloc u)"

definition host_text :: "string \<Rightarrow> string" where
  "host_text info = (if CHR ''['' \<in> set info then before (CHR '']'') (after (CHR ''['') info) else before (CHR '':'') info)"

definition url_hostname :: "split_url \<Rightarrow> string option" where
  "url_hostname u =
     (let h = host_text (hostinfo (su_netloc u)) in
      if h = [] then None
      else Some (map lower_char (before (CHR ''%'') h) @ dropWhile (\<lambda>c. c \<noteq> CHR ''%'') h))"

definition port_text :: "string \<Rightarrow> string" where
  "port_text info =
     (if CHR ''['' \<in> set info then after (CHR '':'') (after (CHR '']'') (after (CHR ''['') info)) else after (CHR '':'') info)"

text \<open>\<^verbatim>\<open>SplitResult.port\<close>: absent, a number up to 65535, or a \<^verbatim>\<open>ValueError\<close>.\<close>

definition url_port :: "split_url \<Rightarrow> (py_error, nat option) result" where
  "url_port u =
     (let p = port_text (hostinfo (su_netloc u)) in
      if p = [] then Inr None
      else if list_all is_digit p \<and> digits_val p \<le> 65535 then Inr (Some (digits_val p))
      else Inl ValueError)"

section \<open>Plain URLs\<close>

text \<open>A URL of a plain host and path splits into them.\<close>

definition plain_char :: "char \<Rightarrow> bool" where
  "plain_char c \<longleftrightarrow> 32 < (of_char c :: nat) \<and> c \<noteq> CHR ''?'' \<and> c \<noteq> CHR ''#''"

lemma before_append: "c \<notin> set xs \<Longrightarrow> before c (xs @ c # ys) = xs" "c \<notin> set xs \<Longrightarrow> before c xs = xs"
  by (induction xs) (auto simp: before_def)

lemma after_append: "c \<notin> set xs \<Longrightarrow> after c (xs @ c # ys) = ys"
  by (induction xs) (auto simp: after_def)

lemma url_clean_plain: "list_all plain_char s \<Longrightarrow> url_clean s = s"
proof -
  assume s: "list_all plain_char s"
  then have "dropWhile (\<lambda>c. (of_char c :: nat) \<le> 32) s = s"
    by (cases s) (auto simp: plain_char_def)
  moreover have "filter (\<lambda>c. (of_char c :: nat) \<notin> {9, 10, 13}) s = s"
  proof (rule filter_True, rule ballI)
    fix c assume "c \<in> set s"
    then have "32 < (of_char c :: nat)" using s unfolding list_all_iff plain_char_def by blast
    then show "(of_char c :: nat) \<notin> {9, 10, 13}" by auto
  qed
  ultimately show ?thesis unfolding url_clean_def by simp
qed

definition plain_host :: "string \<Rightarrow> bool" where
  "plain_host h \<longleftrightarrow> h \<noteq> [] \<and> list_all (\<lambda>c. c = CHR ''.'' \<or> is_alpha_us c \<and> lower_char c = c) h"

lemma plain_host_chars:
  assumes "plain_host h" "c \<in> set h"
  shows "plain_char c" "c \<notin> {CHR ''/'', CHR ''?'', CHR ''#'', CHR ''['', CHR '']'', CHR ''@'', CHR '':'', CHR ''%''}"
    "lower_char c = c"
proof -
  have "c = CHR ''.'' \<or> is_alpha_us c \<and> lower_char c = c" using assms by (auto simp: plain_host_def list_all_iff)
  then show "lower_char c = c" by (auto simp: lower_char_def)
  from \<open>c = CHR ''.'' \<or> is_alpha_us c \<and> lower_char c = c\<close>
  show "plain_char c" "c \<notin> {CHR ''/'', CHR ''?'', CHR ''#'', CHR ''['', CHR '']'', CHR ''@'', CHR '':'', CHR ''%''}"
    by (auto simp: plain_char_def is_alpha_us_def Let_def)
qed

lemma urlsplit_plain:
  assumes "plain_host h" "list_all plain_char p" "p \<noteq> []" "hd p = CHR ''/''"
  shows "urlsplit (''https://'' @ h @ p) = Inr \<lparr>su_scheme = ''https'', su_netloc = h, su_path = p, su_query = [], su_fragment = []\<rparr>"
proof -
  let ?url = "''https://'' @ h @ p"
  have "list_all plain_char h" using plain_host_chars(1)[OF assms(1)] by (simp add: list_all_iff)
  moreover have "list_all plain_char ''https://''" by code_simp
  ultimately have clean: "url_clean ?url = ?url" using assms(2) by (intro url_clean_plain) simp
  have "before (CHR '':'') ?url = ''https''" "after (CHR '':'') ?url = ''//'' @ h @ p"
    by (simp_all add: before_def after_def)
  moreover have "is_alpha (hd ''https'')" "list_all is_scheme_char ''https''" "map lower_char ''https'' = ''https''" by code_simp+
  ultimately have scheme: "url_scheme ?url = (''https'', ''//'' @ h @ p)" by (simp add: url_scheme_def)
  obtain p' where p: "p = CHR ''/'' # p'" using assms(3,4) by (cases p) auto
  have nostop: "\<forall>c \<in> set h. c \<notin> {CHR ''/'', CHR ''?'', CHR ''#''}" using plain_host_chars(2)[OF assms(1)] by blast
  have netloc: "url_netloc (''//'' @ h @ p) = h"
    using nostop by (simp add: url_netloc_def p takeWhile_tail)
  have rest: "url_rest (''//'' @ h @ p) = p"
    using nostop by (simp add: url_rest_def p dropWhile_append3)
  have path: "CHR ''#'' \<notin> set p" "CHR ''?'' \<notin> set p" using assms(2) by (auto simp: list_all_iff plain_char_def)
  have "netloc_ok h" using plain_host_chars(2)[OF assms(1)] by (auto simp: netloc_ok_def)
  then show ?thesis
    unfolding urlsplit_def clean scheme Let_def prod.case netloc rest using path by (simp add: before_append)
qed

lemma plain_host_parts:
  assumes "plain_host h" "su_netloc u = h"
  shows "url_hostname u = Some h" "url_port u = Inr None" "\<not> has_userinfo u"
proof -
  have no: "CHR ''@'' \<notin> set h" "CHR ''['' \<notin> set h" "CHR '':'' \<notin> set h" "CHR ''%'' \<notin> set h"
    using plain_host_chars(2)[OF assms(1)] by blast+
  have info: "hostinfo h = h" using no(1) by (simp add: hostinfo_def before_append)
  have "map lower_char h = h" using plain_host_chars(3)[OF assms(1)] by (simp add: map_idI)
  moreover have "dropWhile (\<lambda>c. c \<noteq> CHR ''%'') h = []" using no(4) by auto
  ultimately show "url_hostname u = Some h"
    using no assms unfolding url_hostname_def Let_def assms(2) info host_text_def
    by (simp add: before_append plain_host_def)
  have "after (CHR '':'') h = []" using no(3) by (induction h) (auto simp: after_def)
  then show "url_port u = Inr None" using no by (simp add: url_port_def assms(2) info port_text_def)
  show "\<not> has_userinfo u" using no(1) assms(2) by (simp add: has_userinfo_def)
qed

end
