(* ===== verification/RunModels.thy ===== *)
theory RunModels
  imports UrlSplit
begin

text \<open>
  The values of one document-acquisition run, from \<^verbatim>\<open>pipelines/document_acquisition/models.py\<close> and
  \<^verbatim>\<open>run_state/models.py\<close>: attempts, outcomes, slot resolutions and the rows of the run-state tables,
  with the constraints of their \<^verbatim>\<open>CREATE TABLE\<close> statements, the statements \<^verbatim>\<open>INSERT\<close> and \<^verbatim>\<open>UPDATE\<close>
  under those constraints, and the exact-URL test of \<^verbatim>\<open>run_state/store.py\<close>. A Boolean stands for the
  columns that hold 0 or 1; a JSON column holds the parsed value.
\<close>

section \<open>Attempts and outcomes\<close>

record acquisition_attempt =
  aa_attempt_id :: string
  aa_target_id :: string
  aa_attempt_number :: int
  aa_attempt_kind :: string
  aa_source :: string
  aa_requested_url :: string
  aa_outcome :: string
  aa_retryable :: bool
  aa_error_code :: "string option"
  aa_http_status :: "int option"
  aa_final_url :: "string option"
  aa_started_at_utc :: string
  aa_finished_at_utc :: string
  aa_source_sha256 :: "string option"
  aa_source_byte_size :: "int option"
  aa_source_body_relative_path :: "string option"
  aa_selected_sha256 :: "string option"
  aa_selected_byte_size :: "int option"
  aa_selected_body_relative_path :: "string option"
  aa_selected_filename :: "string option"

record acquisition_outcome =
  ao_target_id :: string
  ao_source :: "string option"
  ao_status :: string
  ao_attempt_count :: int
  ao_last_attempt_id :: "string option"
  ao_error_code :: "string option"
  ao_retryable :: bool
  ao_source_sha256 :: "string option"
  ao_source_byte_size :: "int option"
  ao_source_body_relative_path :: "string option"
  ao_selected_sha256 :: "string option"
  ao_selected_byte_size :: "int option"
  ao_body_lifecycle :: "string option"
  ao_selected_body_relative_path :: "string option"

text \<open>The resolution of a target slot, with the fields that are stored.\<close>

record target_slot_resolution =
  sr_resolution_id :: string
  sr_resolution_schema_version :: string
  sr_target_id :: string
  sr_selector :: string
  sr_expected_statutory_type :: string
  sr_initial_sequence :: "int option"
  sr_screen_kind :: string
  sr_screen_result :: string
  sr_evaluator_version :: "string option"
  sr_initial_body_sha256 :: string
  sr_index_attempt_id :: "string option"
  sr_index_response_sha256 :: "string option"
  sr_index_parser_version :: "string option"
  sr_matching_entry_ids :: "string list"
  sr_selected_sequence :: "int option"
  sr_selected_retrieval_mode :: "string option"
  sr_selected_url :: "string option"
  sr_result :: string

record target_state =
  ts_target_id :: string
  ts_executable :: bool
  ts_skip_reason :: "string option"
  ts_outcome :: string
  ts_source :: "string option"
  ts_retryable :: bool
  ts_attempt_count :: int
  ts_last_attempt_id :: "string option"
  ts_error_code :: "string option"
  ts_source_sha256 :: "string option"
  ts_source_byte_size :: "int option"
  ts_source_body_relative_path :: "string option"
  ts_selected_sha256 :: "string option"
  ts_selected_byte_size :: "int option"
  ts_selected_body_relative_path :: "string option"

record operation_state =
  os_operation_id :: string
  os_target_id :: string
  os_operation :: string
  os_requested :: bool
  os_request_mode :: string
  os_selected :: bool
  os_source_request_id :: "string option"
  os_input_ordinal :: "int option"
  os_input_role :: "string option"
  os_support_status :: string
  os_support_reason :: "string option"
  os_capability_id :: "string option"
  os_capability_version :: "string option"
  os_handler_id :: "string option"
  os_handler_version :: "string option"
  os_output_kind :: "string option"
  os_status :: string
  os_retryable :: bool
  os_attempt_count :: int
  os_last_attempt_id :: "string option"
  os_error_code :: "string option"

record operation_attempt =
  oa_attempt_id :: string
  oa_operation_id :: string
  oa_attempt_number :: int
  oa_outcome :: string
  oa_retryable :: bool
  oa_error_code :: "string option"
  oa_started_at_utc :: string
  oa_finished_at_utc :: string

section \<open>Errors and constraints\<close>

datatype run_error =
  RunStateError string | RunValueError string | IntegrityError string | RunPyError py_error
  | ProgrammingError | RuntimeError string | RunLockError string | LockOSError

text \<open>A comparison with \<^verbatim>\<open>NULL\<close> is unknown, and a \<^verbatim>\<open>CHECK\<close> refuses only what is false.\<close>

definition null_or :: "('a \<Rightarrow> bool) \<Rightarrow> 'a option \<Rightarrow> bool" where
  "null_or P x = (case x of None \<Rightarrow> True | Some v \<Rightarrow> P v)"

lemma null_or_simps [simp]: "null_or P None" "null_or P (Some v) = P v"
  by (simp_all add: null_or_def)

definition OUTCOMES :: "string list" where
  "OUTCOMES = [''pending'', ''skipped'', ''acquired'', ''not_filed'', ''required_missing'', ''ambiguous'', ''failed'']"

definition target_check :: "target_state \<Rightarrow> bool" where
  "target_check t \<longleftrightarrow>
     ts_outcome t \<in> set OUTCOMES
     \<and> null_or (\<lambda>s. s = ''live_sec'' \<or> s = ''fixture_replay'') (ts_source t)
     \<and> 0 \<le> ts_attempt_count t
     \<and> null_or (\<lambda>n. 0 \<le> n) (ts_source_byte_size t) \<and> null_or (\<lambda>n. 0 \<le> n) (ts_selected_byte_size t)
     \<and> (ts_executable t \<and> ts_skip_reason t = None \<or> \<not> ts_executable t \<and> ts_skip_reason t \<noteq> None)
     \<and> (ts_outcome t = ''skipped'' \<and> \<not> ts_executable t \<or> ts_outcome t \<noteq> ''skipped'' \<and> ts_executable t)
     \<and> (ts_outcome t = ''failed'' \<or> \<not> ts_retryable t)"

definition attempt_check :: "acquisition_attempt \<Rightarrow> bool" where
  "attempt_check a \<longleftrightarrow>
     0 < aa_attempt_number a
     \<and> aa_outcome a \<in> {''acquired'', ''not_filed'', ''required_missing'', ''ambiguous'', ''failed''}
     \<and> aa_attempt_kind a \<in> {''document_body'', ''lazy_index''}
     \<and> aa_source a \<in> {''live_sec'', ''fixture_replay''}
     \<and> null_or (\<lambda>n. 0 \<le> n) (aa_source_byte_size a) \<and> null_or (\<lambda>n. 0 \<le> n) (aa_selected_byte_size a)
     \<and> (aa_outcome a = ''failed'' \<or> \<not> aa_retryable a)"

definition resolution_check :: "target_slot_resolution \<Rightarrow> bool" where
  "resolution_check r \<longleftrightarrow>
     sr_selector r \<in> {''submitted_primary'', ''exact_form_with_lazy_index'', ''sgml_bundle_scan''}
     \<and> null_or (\<lambda>n. n = 1) (sr_initial_sequence r)
     \<and> sr_screen_kind r \<in> {''none'', ''sgml_type'', ''html_cover''}
     \<and> sr_screen_result r \<in> {''not_run'', ''form_match'', ''type_mismatch'', ''unverifiable''}
     \<and> null_or (\<lambda>n. 0 < n) (sr_selected_sequence r)
     \<and> null_or (\<lambda>m. m \<in> {''direct_url'', ''bundle_sequence'', ''bundle_scan''}) (sr_selected_retrieval_mode r)
     \<and> sr_result r \<in> {''accepted_sequence_1'', ''recovered'', ''selected_in_bundle'', ''not_filed'',
          ''required_missing'', ''ambiguous'', ''failed''}"

definition op_pins :: "operation_state \<Rightarrow> string option list" where
  "op_pins o1 = [os_capability_id o1, os_capability_version o1, os_handler_id o1, os_handler_version o1, os_output_kind o1]"

definition op_status_check :: "operation_state \<Rightarrow> bool" where
  "op_status_check o1 \<longleftrightarrow>
     (\<not> os_requested o1 \<and> os_request_mode o1 = ''not_requested'' \<and> \<not> os_selected o1
        \<and> os_support_status o1 = ''not_evaluated'' \<and> os_status o1 = ''not_requested'')
     \<or> (os_requested o1 \<and> os_request_mode o1 = ''default_candidate'' \<and> \<not> os_selected o1
        \<and> os_support_status o1 \<in> {''supported'', ''unsupported''} \<and> os_status o1 = ''not_selected'')
     \<or> (os_requested o1 \<and> os_request_mode o1 \<noteq> ''default_candidate'' \<and> os_support_status o1 = ''unsupported''
        \<and> \<not> os_selected o1 \<and> os_status o1 = ''unsupported'')
     \<or> (os_requested o1 \<and> os_request_mode o1 \<noteq> ''default_candidate'' \<and> os_support_status o1 = ''supported''
        \<and> \<not> os_selected o1 \<and> os_status o1 = ''not_selected'')
     \<or> (os_requested o1 \<and> os_request_mode o1 \<noteq> ''not_requested'' \<and> os_support_status o1 = ''supported''
        \<and> os_selected o1 \<and> os_status o1 \<in> {''pending'', ''blocked'', ''succeeded'', ''failed''})"

definition op_support_check :: "operation_state \<Rightarrow> bool" where
  "op_support_check o1 \<longleftrightarrow>
     (os_support_status o1 = ''supported'' \<and> os_support_reason o1 = None \<and> None \<notin> set (op_pins o1))
     \<or> (os_support_status o1 = ''unsupported'' \<and> os_support_reason o1 \<noteq> None \<and> set (op_pins o1) = {None})
     \<or> (os_support_status o1 = ''not_evaluated'' \<and> os_support_reason o1 = None \<and> set (op_pins o1) = {None})"

definition operation_check :: "operation_state \<Rightarrow> bool" where
  "operation_check o1 \<longleftrightarrow>
     os_request_mode o1 \<in> {''mandatory_raw'', ''profile'', ''default_candidate'', ''not_requested''}
     \<and> null_or (\<lambda>n. n = 0) (os_input_ordinal o1)
     \<and> os_support_status o1 \<in> {''supported'', ''unsupported'', ''not_evaluated''}
     \<and> os_status o1 \<in> {''pending'', ''not_requested'', ''unsupported'', ''not_selected'', ''blocked'', ''succeeded'', ''failed''}
     \<and> 0 \<le> os_attempt_count o1
     \<and> op_status_check o1
     \<and> (os_source_request_id o1 = None \<and> os_input_ordinal o1 = None \<and> os_input_role o1 = None
        \<or> os_source_request_id o1 \<noteq> None \<and> null_or (\<lambda>n. n = 0) (os_input_ordinal o1)
          \<and> null_or (\<lambda>s. s = ''selected_target_body'') (os_input_role o1))
     \<and> op_support_check o1
     \<and> (\<not> os_selected o1 \<or> os_support_status o1 = ''supported'')
     \<and> (os_status o1 \<in> {''blocked'', ''unsupported'', ''failed''} \<or> os_error_code o1 = None)
     \<and> (os_status o1 = ''failed'' \<or> \<not> os_retryable o1)"

definition operation_attempt_check :: "operation_attempt \<Rightarrow> bool" where
  "operation_attempt_check a \<longleftrightarrow>
     0 < oa_attempt_number a \<and> oa_outcome a \<in> {''succeeded'', ''failed''}
     \<and> (oa_outcome a = ''failed'' \<or> \<not> oa_retryable a)"

section \<open>Statements\<close>

text \<open>
  \<^verbatim>\<open>INSERT\<close> of one row under its \<^verbatim>\<open>CHECK\<close>s, its keys (the primary key and a \<^verbatim>\<open>UNIQUE\<close> column list) and
  its foreign keys; \<^verbatim>\<open>UPDATE ... WHERE\<close> under the \<^verbatim>\<open>CHECK\<close>s, with the number of rows it matched.
\<close>

definition sql_insert ::
  "('r \<Rightarrow> bool) \<Rightarrow> ('r \<Rightarrow> 'k) \<Rightarrow> ('r \<Rightarrow> 'u) \<Rightarrow> ('r \<Rightarrow> bool) \<Rightarrow> 'r \<Rightarrow> 'r list \<Rightarrow> (run_error, 'r list) result" where
  "sql_insert chk pk uniq fk row rows =
     (if \<not> chk row then Inl (IntegrityError ''CHECK'')
      else if pk row \<in> set (map pk rows) \<or> uniq row \<in> set (map uniq rows) then Inl (IntegrityError ''UNIQUE'')
      else if \<not> fk row then Inl (IntegrityError ''FOREIGN KEY'')
      else Inr (rows @ [row]))"

definition sql_update ::
  "('r \<Rightarrow> bool) \<Rightarrow> ('r \<Rightarrow> bool) \<Rightarrow> ('r \<Rightarrow> 'r) \<Rightarrow> 'r list \<Rightarrow> (run_error, 'r list \<times> nat) result" where
  "sql_update chk wher upd rows =
     (if list_all (\<lambda>r. wher r \<longrightarrow> chk (upd r)) rows
      then Inr (map (\<lambda>r. if wher r then upd r else r) rows, length (filter wher rows))
      else Inl (IntegrityError ''CHECK''))"

lemma sql_insert_Inr:
  "sql_insert chk pk uniq fk row rows = Inr rows' \<longleftrightarrow>
     chk row \<and> pk row \<notin> pk ` set rows \<and> uniq row \<notin> uniq ` set rows \<and> fk row \<and> rows' = rows @ [row]"
  by (auto simp: sql_insert_def)

lemma sql_update_Inr:
  "sql_update chk wher upd rows = Inr (rows', n) \<longleftrightarrow>
     (\<forall>r \<in> set rows. wher r \<longrightarrow> chk (upd r))
     \<and> rows' = map (\<lambda>r. if wher r then upd r else r) rows \<and> n = length (filter wher rows)"
  by (auto simp: sql_update_def list_all_iff)

section \<open>Exact URLs\<close>

text \<open>
  \<^verbatim>\<open>_url_value\<close>. A network location with a bracket is malformed or names an address literal, a port is
  malformed or present: each is refused, so that the host is the text before the first colon.
\<close>

definition url_ok :: "string \<Rightarrow> bool" where
  "url_ok value \<longleftrightarrow>
     value \<noteq> [] \<and> strip value = value
     \<and> (let (scheme, rest) = url_scheme (url_clean value); netloc = url_netloc rest in
        scheme = ''https''
        \<and> CHR ''['' \<notin> set netloc \<and> CHR '']'' \<notin> set netloc
        \<and> map lower_char (takeWhile (\<lambda>c. c \<noteq> CHR '':'') netloc) = ''www.sec.gov''
        \<and> CHR ''@'' \<notin> set netloc
        \<and> tl (dropWhile (\<lambda>c. c \<noteq> CHR '':'') netloc) = [])
     \<and> CHR ''?'' \<notin> set value \<and> CHR ''#'' \<notin> set value"

definition url_value :: "string option \<Rightarrow> string \<Rightarrow> bool \<Rightarrow> (run_error, string option) result" where
  "url_value value name required =
     (case value of
        None \<Rightarrow> if required then Inl (RunValueError name) else Inr None
      | Some v \<Rightarrow> if url_ok v then Inr (Some v) else Inl (RunValueError name))"

lemma url_value_Inr: "url_value v name req = Inr u \<longleftrightarrow> u = v \<and> null_or url_ok v \<and> (v = None \<longrightarrow> \<not> req)"
  by (auto simp: url_value_def split: option.splits)

text \<open>A line break inside the text passes the test although it is no part of the URL that was checked.\<close>

lemma url_ok_plain: "url_ok ''https://www.sec.gov/Archives/a.txt''"
  by code_simp

lemma url_ok_line_break: "url_ok (''https://www.sec'' @ [CHR 0x0A] @ ''.gov/Archives/a.txt'')"
  by code_simp

end
