(* ===== verification/RunOperations.thy ===== *)
theory RunOperations
  imports RunModels
begin

text \<open>
  Processing operations of a run, \<^verbatim>\<open>run_state/operations.py\<close>: seeding the operation table from a work
  order, recording attempts, unblocking operations when their target has a body, and the check that
  the operation table agrees with its attempt history. \<open>sha\<close> is the SHA-256 hex digest.
\<close>

section \<open>The run-state database\<close>

text \<open>
  \<open>db_version\<close> is \<^verbatim>\<open>PRAGMA user_version\<close>, \<open>db_tables\<close> tells whether any table exists; the rows of a
  table are in insertion order.
\<close>

record run_db =
  db_version :: int
  db_tables :: bool
  db_targets :: "target_state list"
  db_attempts :: "acquisition_attempt list"
  db_resolutions :: "target_slot_resolution list"
  db_operations :: "operation_state list"
  db_operation_attempts :: "operation_attempt list"

definition SCHEMA_VERSION :: int where
  "SCHEMA_VERSION = 6"

definition has_target :: "run_db \<Rightarrow> string \<Rightarrow> bool" where
  "has_target db tid \<longleftrightarrow> tid \<in> set (map ts_target_id (db_targets db))"

definition require_schema :: "run_db \<Rightarrow> (run_error, unit) result" where
  "require_schema db =
     (if db_version db \<noteq> SCHEMA_VERSION then Inl (RunStateError ''unsupported run-state schema version'') else Inr ())"

text \<open>The connection of the operation queries raises a plain \<^verbatim>\<open>RuntimeError\<close> instead.\<close>

definition operations_connect :: "run_db \<Rightarrow> (run_error, unit) result" where
  "operations_connect db =
     (if db_version db \<noteq> SCHEMA_VERSION then Inl (RuntimeError ''unsupported run-state schema version'') else Inr ())"

lemma operations_connect_Inr: "operations_connect db = Inr u \<longleftrightarrow> db_version db = SCHEMA_VERSION"
  by (auto simp: operations_connect_def)

lemma require_schema_Inr: "require_schema db = Inr u \<longleftrightarrow> db_version db = SCHEMA_VERSION"
  by (auto simp: require_schema_def)

section \<open>Seeding\<close>

fun is_text :: "json \<Rightarrow> bool" where
  "is_text (JStr s) \<longleftrightarrow> s \<noteq> []"
| "is_text _ \<longleftrightarrow> False"

fun is_bool :: "json \<Rightarrow> bool" where
  "is_bool (JBool b) \<longleftrightarrow> True"
| "is_bool _ \<longleftrightarrow> False"

fun the_text :: "json \<Rightarrow> string" where
  "the_text (JStr s) = s"
| "the_text _ = []"

fun text_opt :: "json \<Rightarrow> string option" where
  "text_opt (JStr s) = Some s"
| "text_opt _ = None"

text \<open>\<^verbatim>\<open>value in {...}\<close> for a set of strings; an unhashable value raises.\<close>

definition in_set :: "json \<Rightarrow> string list \<Rightarrow> (run_error, bool) result" where
  "in_set v names =
     (case v of JStr s \<Rightarrow> Inr (s \<in> set names) | JList _ \<Rightarrow> Inl (RunPyError TypeError) | JObj _ \<Rightarrow> Inl (RunPyError TypeError)
      | _ \<Rightarrow> Inr False)"

text \<open>\<^verbatim>\<open>v == 0\<close>, and what a text column stores for a bound value.\<close>

fun is_zero :: "json \<Rightarrow> bool" where
  "is_zero (JInt i) \<longleftrightarrow> i = 0"
| "is_zero (JBool b) \<longleftrightarrow> \<not> b"
| "is_zero _ \<longleftrightarrow> False"

fun bind_text :: "json \<Rightarrow> (run_error, string option) result" where
  "bind_text JNull = Inr None"
| "bind_text (JStr s) = Inr (Some s)"
| "bind_text (JInt i) = Inr (Some (int_dec i))"
| "bind_text (JBool b) = Inr (Some (if b then ''1'' else ''0''))"
| "bind_text _ = Inl ProgrammingError"

definition operation_fields :: "string list" where
  "operation_fields = [''operation_id'', ''target_id'', ''operation'', ''requested'', ''request_mode'', ''selected'',
     ''source_request_id'', ''input_ordinal'', ''input_role'', ''support_status'', ''support_reason'',
     ''capability_id'', ''capability_version'', ''handler_id'', ''handler_version'', ''output_kind'']"

definition seed_status :: "bool \<Rightarrow> string \<Rightarrow> bool \<Rightarrow> string \<Rightarrow> string" where
  "seed_status requested request_mode selected support_status =
     (if \<not> requested then ''not_requested''
      else if request_mode = ''default_candidate'' \<and> \<not> selected then ''not_selected''
      else if support_status = ''unsupported'' then ''unsupported''
      else if \<not> selected then ''not_selected''
      else ''blocked'')"

definition seed_error :: "string \<Rightarrow> string option \<Rightarrow> string option" where
  "seed_error status support_reason =
     (if status = ''unsupported'' then map_option (\<lambda>r. ''unsupported:'' @ r) support_reason
      else if status = ''blocked'' then Some ''blocked:acquisition_not_ready''
      else None)"

text \<open>The support evidence of a seed: complete pins, a reason, or neither.\<close>

definition seed_support :: "(string \<Rightarrow> json) \<Rightarrow> (run_error, unit) result" where
  "seed_support v =
     (let pins = map v [''capability_id'', ''capability_version'', ''handler_id'', ''handler_version'', ''output_kind''];
          support = the_text (v ''support_status''); reason = v ''support_reason''; requested = v ''requested'' = JBool True in
      if support = ''supported'' \<and> (list_ex (\<lambda>p. \<not> is_text p) pins \<or> reason \<noteq> JNull)
      then Inl (RunValueError ''supported operation does not contain complete pins'')
      else if support = ''unsupported'' \<and> (list_ex (\<lambda>p. p \<noteq> JNull) pins \<or> \<not> is_text reason)
      then Inl (RunValueError ''unsupported operation does not contain a reason'')
      else if support = ''not_evaluated'' \<and> (requested \<or> list_ex (\<lambda>p. p \<noteq> JNull) pins \<or> reason \<noteq> JNull)
      then Inl (RunValueError ''unevaluated operation has resolved pins'')
      else Inr ())"

definition seed_input :: "(string \<Rightarrow> json) \<Rightarrow> (run_error, unit) result" where
  "seed_input v =
     (let source = v ''source_request_id''; ordinal = v ''input_ordinal''; role = v ''input_role'' in
      if (source = JNull) \<noteq> (ordinal = JNull) \<or> (source = JNull) \<noteq> (role = JNull)
      then Inl (RunValueError ''resolved operation input references are incomplete'')
      else if ordinal \<noteq> JNull \<and> (\<not> is_zero ordinal \<or> role \<noteq> JStr ''selected_target_body'')
      then Inl (RunValueError ''resolved operation input reference is invalid'')
      else Inr ())"

definition seed_intent :: "(string \<Rightarrow> string) \<Rightarrow> (string \<Rightarrow> json) \<Rightarrow> (run_error, unit) result" where
  "seed_intent sha v =
     (let name = the_text (v ''operation'') in
      if \<not> list_all is_text [v ''operation_id'', v ''target_id'', v ''operation'']
      then Inl (RunValueError ''work-order operation identity must be non-empty'')
      else if name \<notin> {''raw'', ''render_to_txt'', ''render_to_xml''}
          \<or> the_text (v ''operation_id'') \<noteq> canonical_hash sha (JList [v ''target_id'', v ''operation''])
      then Inl (RunValueError ''work-order operation ID does not match its identity'')
      else if \<not> is_bool (v ''requested'') \<or> \<not> is_bool (v ''selected'')
      then Inl (RunValueError ''work-order operation flags must be boolean'')
      else bind_res (in_set (v ''request_mode'') [''mandatory_raw'', ''profile'', ''default_candidate'', ''not_requested''])
        (\<lambda>known. let requested = v ''requested'' = JBool True; mode = the_text (v ''request_mode'') in
          if \<not> known then Inl (RunValueError ''work-order operation request mode is invalid'')
          else if name = ''raw'' \<and> (\<not> requested \<or> mode \<noteq> ''mandatory_raw'')
          then Inl (RunValueError ''raw operation intent is not mandatory'')
          else if name \<noteq> ''raw'' \<and> (requested \<and> mode \<notin> {''profile'', ''default_candidate''} \<or> \<not> requested \<and> mode \<noteq> ''not_requested'')
          then Inl (RunValueError ''operation request mode disagrees with requested flag'')
          else bind_res (in_set (v ''support_status'') [''supported'', ''unsupported'', ''not_evaluated''])
            (\<lambda>known. if known then Inr () else Inl (RunValueError ''resolved operation support status is invalid''))))"

definition seed_row :: "(string \<Rightarrow> json) \<Rightarrow> string option \<Rightarrow> operation_state" where
  "seed_row v source =
     (let requested = v ''requested'' = JBool True; selected = v ''selected'' = JBool True;
          mode = the_text (v ''request_mode''); support = the_text (v ''support_status'');
          reason = text_opt (v ''support_reason''); status = seed_status requested mode selected support in
      \<lparr>os_operation_id = the_text (v ''operation_id''), os_target_id = the_text (v ''target_id''),
       os_operation = the_text (v ''operation''), os_requested = requested, os_request_mode = mode,
       os_selected = selected, os_source_request_id = source,
       os_input_ordinal = (if v ''input_ordinal'' = JNull then None else Some 0),
       os_input_role = text_opt (v ''input_role''), os_support_status = support, os_support_reason = reason,
       os_capability_id = text_opt (v ''capability_id''), os_capability_version = text_opt (v ''capability_version''),
       os_handler_id = text_opt (v ''handler_id''), os_handler_version = text_opt (v ''handler_version''),
       os_output_kind = text_opt (v ''output_kind''), os_status = status, os_retryable = False,
       os_attempt_count = 0, os_last_attempt_id = None, os_error_code = seed_error status reason\<rparr>)"

definition operation_seed :: "(string \<Rightarrow> string) \<Rightarrow> json dict \<Rightarrow> (run_error, operation_state) result" where
  "operation_seed sha operation =
     (case find (\<lambda>name. map_of operation name = None) operation_fields of
        Some name \<Rightarrow> Inl (RunPyError (KeyError name))
      | None \<Rightarrow>
          let v = (\<lambda>name. the (map_of operation name)) in
          bind_res (seed_intent sha v) (\<lambda>_.
          bind_res (seed_support v) (\<lambda>_.
          if v ''selected'' = JBool True \<and> (v ''requested'' \<noteq> JBool True \<or> v ''support_status'' \<noteq> JStr ''supported'')
          then Inl (RunValueError ''unrequested or unsupported operation was selected'')
          else bind_res (seed_input v) (\<lambda>_.
          bind_res (bind_text (v ''source_request_id'')) (\<lambda>source. Inr (seed_row v source))))))"

definition insert_operation :: "run_db \<Rightarrow> operation_state \<Rightarrow> (run_error, run_db) result" where
  "insert_operation db row =
     bind_res (sql_insert operation_check os_operation_id os_operation_id (\<lambda>o1. has_target db (os_target_id o1)) row (db_operations db))
       (\<lambda>rows. Inr (db\<lparr>db_operations := rows\<rparr>))"

fun seed_operation_state :: "(string \<Rightarrow> string) \<Rightarrow> run_db \<Rightarrow> json dict list \<Rightarrow> (run_error, run_db) result" where
  "seed_operation_state sha db [] = Inr db"
| "seed_operation_state sha db (operation # operations) =
     bind_res (operation_seed sha operation) (\<lambda>row.
     bind_res (insert_operation db row) (\<lambda>db'. seed_operation_state sha db' operations))"

section \<open>Attempts\<close>

definition operation_attempt_id :: "(string \<Rightarrow> string) \<Rightarrow> string \<Rightarrow> int \<Rightarrow> (run_error, string) result" where
  "operation_attempt_id sha operation_id attempt_number =
     (if operation_id = [] \<or> attempt_number < 1 then Inl (RunValueError ''operation attempt identity is invalid'')
      else Inr (canonical_hash sha (JList [JStr operation_id, JInt attempt_number])))"

definition valid_operation_attempt :: "(string \<Rightarrow> string) \<Rightarrow> operation_attempt \<Rightarrow> bool" where
  "valid_operation_attempt sha a \<longleftrightarrow>
     1 \<le> oa_attempt_number a
     \<and> operation_attempt_id sha (oa_operation_id a) (oa_attempt_number a) = Inr (oa_attempt_id a)
     \<and> oa_started_at_utc a \<noteq> [] \<and> oa_finished_at_utc a \<noteq> []
     \<and> oa_outcome a \<in> {''succeeded'', ''failed''} \<and> \<not> (oa_outcome a = ''succeeded'' \<and> oa_retryable a)"

definition record_operation_attempt :: "operation_attempt \<Rightarrow> operation_state \<Rightarrow> operation_state" where
  "record_operation_attempt a o1 =
     o1\<lparr>os_status := if oa_outcome a = ''succeeded'' then ''succeeded'' else ''failed'',
        os_retryable := oa_retryable a, os_attempt_count := oa_attempt_number a,
        os_last_attempt_id := Some (oa_attempt_id a), os_error_code := oa_error_code a\<rparr>"

definition append_operation_attempt ::
  "(string \<Rightarrow> string) \<Rightarrow> run_db \<Rightarrow> operation_attempt \<Rightarrow> (run_error, run_db) result" where
  "append_operation_attempt sha db a =
     (if \<not> valid_operation_attempt sha a then Inl (RunValueError ''operation attempt identity or fields are invalid'')
      else bind_res (operations_connect db) (\<lambda>_.
        case tbl_lookup os_operation_id (oa_operation_id a) (db_operations db) of
          None \<Rightarrow> Inl (RunStateError ''operation is missing or unrequested'')
        | Some row \<Rightarrow>
            if \<not> os_requested row \<or> \<not> os_selected row \<or> os_support_status row \<noteq> ''supported''
            then Inl (RunStateError ''operation is missing or unrequested'')
            else if oa_attempt_number a \<noteq> os_attempt_count row + 1
            then Inl (RunStateError ''operation attempt number is not the next attempt'')
            else if os_status row \<noteq> ''pending'' \<and> \<not> (os_status row = ''failed'' \<and> os_retryable row)
            then Inl (RunStateError ''operation status is not eligible for an attempt'')
            else bind_res (sql_insert operation_attempt_check oa_attempt_id (\<lambda>x. (oa_operation_id x, oa_attempt_number x))
                     (\<lambda>x. oa_operation_id x \<in> set (map os_operation_id (db_operations db))) a (db_operation_attempts db)) (\<lambda>history.
                 bind_res (sql_update operation_check (\<lambda>o1. os_operation_id o1 = oa_operation_id a) (record_operation_attempt a)
                     (db_operations db)) (\<lambda>(operations, _).
                 Inr (db\<lparr>db_operation_attempts := history, db_operations := operations\<rparr>)))))"

section \<open>Readiness\<close>

definition target_ready :: "string \<Rightarrow> string option \<Rightarrow> bool" where
  "target_ready outcome selected_path \<longleftrightarrow> outcome = ''acquired'' \<and> selected_path \<noteq> None"

definition readiness_rows :: "run_db \<Rightarrow> string \<Rightarrow> (string \<times> string \<times> string option) list" where
  "readiness_rows db tid =
     concat (map (\<lambda>o1.
       if os_target_id o1 = tid \<and> os_requested o1 \<and> os_selected o1 \<and> os_support_status o1 = ''supported'' \<and> os_attempt_count o1 = 0
       then map (\<lambda>t. (os_operation_id o1, ts_outcome t, ts_selected_body_relative_path t))
              (filter (\<lambda>t. ts_target_id t = os_target_id o1) (db_targets db))
       else []) (db_operations db))"

definition set_readiness :: "bool \<Rightarrow> operation_state \<Rightarrow> operation_state" where
  "set_readiness ready o1 =
     o1\<lparr>os_status := if ready then ''pending'' else ''blocked'', os_retryable := False,
        os_error_code := if ready then None else Some ''blocked:acquisition_not_ready''\<rparr>"

fun refresh_rows ::
  "operation_state list \<Rightarrow> (string \<times> string \<times> string option) list \<Rightarrow> nat \<Rightarrow> (run_error, operation_state list \<times> nat) result" where
  "refresh_rows operations [] changed = Inr (operations, changed)"
| "refresh_rows operations ((operation_id, outcome, path) # rows) changed =
     bind_res (sql_update operation_check
         (\<lambda>o1. os_operation_id o1 = operation_id \<and> os_status o1 \<in> {''pending'', ''blocked''})
         (set_readiness (target_ready outcome path)) operations)
       (\<lambda>(operations', n). refresh_rows operations' rows (changed + n))"

definition refresh_operation_readiness :: "run_db \<Rightarrow> string \<Rightarrow> (run_error, run_db \<times> nat) result" where
  "refresh_operation_readiness db tid =
     bind_res (refresh_rows (db_operations db) (readiness_rows db tid) 0)
       (\<lambda>(operations, changed). Inr (db\<lparr>db_operations := operations\<rparr>, changed))"

section \<open>Queries\<close>

definition get_operation_state :: "run_db \<Rightarrow> string \<Rightarrow> (run_error, operation_state option) result" where
  "get_operation_state db operation_id =
     bind_res (operations_connect db) (\<lambda>_. Inr (tbl_lookup os_operation_id operation_id (db_operations db)))"

definition list_operation_attempts :: "run_db \<Rightarrow> string \<Rightarrow> (run_error, operation_attempt list) result" where
  "list_operation_attempts db operation_id =
     bind_res (operations_connect db) (\<lambda>_.
       Inr (sort_key oa_attempt_number (filter (\<lambda>a. oa_operation_id a = operation_id) (db_operation_attempts db))))"

definition iter_operation_states :: "run_db \<Rightarrow> string option \<Rightarrow> (run_error, operation_state list) result" where
  "iter_operation_states db target_id =
     bind_res (operations_connect db) (\<lambda>_.
       Inr (sort_key os_target_id (sort_key os_operation
         (filter (\<lambda>o1. null_or (\<lambda>tid. os_target_id o1 = tid) target_id) (db_operations db)))))"

section \<open>Validation\<close>

text \<open>The status an operation without attempts should have, given its target.\<close>

definition expected_status :: "operation_state \<Rightarrow> target_state \<Rightarrow> string" where
  "expected_status o1 t =
     (if \<not> os_requested o1 then ''not_requested''
      else if os_request_mode o1 = ''default_candidate'' \<and> \<not> os_selected o1 then ''not_selected''
      else if os_support_status o1 = ''unsupported'' then ''unsupported''
      else if \<not> os_selected o1 then ''not_selected''
      else if ts_outcome t = ''acquired'' \<and> ts_selected_body_relative_path t \<noteq> None then ''pending''
      else ''blocked'')"

definition expected_error :: "operation_state \<Rightarrow> string option" where
  "expected_error o1 =
     (if os_status o1 = ''blocked'' then Some ''blocked:acquisition_not_ready''
      else if os_status o1 = ''unsupported'' then map_option (\<lambda>r. ''unsupported:'' @ r) (os_support_reason o1)
      else None)"

text \<open>
  The \<^verbatim>\<open>WHERE\<close> clause: \<open>history\<close> holds the attempts of the operation, \<open>latest\<close> is the joined attempt
  with the operation's count, if any; a comparison with a missing row is not true.
\<close>

definition history_mismatch :: "operation_state \<Rightarrow> target_state \<Rightarrow> operation_attempt list \<Rightarrow> operation_attempt option \<Rightarrow> bool" where
  "history_mismatch o1 t history latest \<longleftrightarrow>
     os_attempt_count o1 \<noteq> int (length history)
     \<or> os_attempt_count o1 = 0 \<and>
         (os_last_attempt_id o1 \<noteq> None \<or> os_retryable o1 \<or> os_status o1 \<noteq> expected_status o1 t
          \<or> os_error_code o1 \<noteq> expected_error o1)
     \<or> 0 < os_attempt_count o1 \<and>
         (history \<noteq> [] \<and> (Min (set (map oa_attempt_number history)) \<noteq> 1
              \<or> Max (set (map oa_attempt_number history)) \<noteq> os_attempt_count o1)
          \<or> \<not> os_requested o1 \<or> \<not> os_selected o1 \<or> os_support_status o1 \<noteq> ''supported''
          \<or> map_option oa_attempt_id latest \<noteq> os_last_attempt_id o1
          \<or> (case latest of None \<Rightarrow> None | Some a \<Rightarrow> oa_error_code a) \<noteq> os_error_code o1
          \<or> \<not> null_or (\<lambda>a. oa_retryable a = os_retryable o1) latest
          \<or> \<not> null_or (\<lambda>a. oa_outcome a = os_status o1) latest)"

definition left_join :: "'a list \<Rightarrow> 'a option list" where
  "left_join rows = (if rows = [] then [None] else map Some rows)"

definition operation_mismatches :: "run_db \<Rightarrow> operation_state \<Rightarrow> bool" where
  "operation_mismatches db o1 =
     (let history = filter (\<lambda>a. oa_operation_id a = os_operation_id o1) (db_operation_attempts db) in
      list_ex (\<lambda>t. list_ex (history_mismatch o1 t history)
          (left_join (filter (\<lambda>a. oa_attempt_number a = os_attempt_count o1) history)))
        (filter (\<lambda>t. ts_target_id t = os_target_id o1) (db_targets db)))"

definition validate_operation_state :: "(string \<Rightarrow> string) \<Rightarrow> run_db \<Rightarrow> (run_error, unit) result" where
  "validate_operation_state sha db =
     (if list_ex (operation_mismatches db) (db_operations db)
      then Inl (RunStateError ''operation state does not match its attempt history'')
      else if list_ex (\<lambda>o1. os_operation_id o1 \<noteq> canonical_hash sha (JList [JStr (os_target_id o1), JStr (os_operation o1)]))
                (db_operations db)
      then Inl (RunStateError ''operation state identity is invalid'')
      else Inr ())"

end
