(* ===== verification/RunStore.thy ===== *)
theory RunStore
  imports RunOperations
begin

text \<open>
  The run-state store, \<^verbatim>\<open>run_state/store.py\<close>: initialising a run from its work order, recording
  acquisition attempts with the projection of the target they belong to, and the queries. Each call
  is one transaction: an error leaves the database as it was, so a failing call returns no database.
\<close>

section \<open>Initialisation\<close>

definition target_seed :: "json dict \<Rightarrow> (run_error, string \<times> bool \<times> string option \<times> string) result" where
  "target_seed target =
     (case find (\<lambda>name. map_of target name = None) [''target_id'', ''executable'', ''skip_reason''] of
        Some name \<Rightarrow> Inl (RunPyError (KeyError name))
      | None \<Rightarrow>
          let target_id = the (map_of target ''target_id''); executable = the (map_of target ''executable'');
              skip_reason = the (map_of target ''skip_reason'') in
          if \<not> is_text target_id then Inl (RunValueError ''work-order target ID must be a non-empty string'')
          else if \<not> is_bool executable then Inl (RunValueError ''work-order executable flag must be boolean'')
          else if executable = JBool True \<and> skip_reason \<noteq> JNull
          then Inl (RunValueError ''executable work-order targets cannot have a skip reason'')
          else if executable \<noteq> JBool True \<and> \<not> is_text skip_reason
          then Inl (RunValueError ''skipped work-order targets require a skip reason'')
          else Inr (the_text target_id, executable = JBool True, text_opt skip_reason,
                 if executable = JBool True then ''pending'' else ''skipped''))"

definition new_target :: "string \<times> bool \<times> string option \<times> string \<Rightarrow> target_state" where
  "new_target seed =
     (case seed of (target_id, executable, skip_reason, outcome) \<Rightarrow>
        \<lparr>ts_target_id = target_id, ts_executable = executable, ts_skip_reason = skip_reason, ts_outcome = outcome,
         ts_source = None, ts_retryable = False, ts_attempt_count = 0, ts_last_attempt_id = None, ts_error_code = None,
         ts_source_sha256 = None, ts_source_byte_size = None, ts_source_body_relative_path = None,
         ts_selected_sha256 = None, ts_selected_byte_size = None, ts_selected_body_relative_path = None\<rparr>)"

fun seed_targets :: "run_db \<Rightarrow> json dict list \<Rightarrow> (run_error, run_db) result" where
  "seed_targets db [] = Inr db"
| "seed_targets db (target # targets) =
     bind_res (target_seed target) (\<lambda>seed.
     bind_res (sql_insert target_check ts_target_id ts_target_id (\<lambda>_. True) (new_target seed) (db_targets db)) (\<lambda>rows.
     seed_targets (db\<lparr>db_targets := rows\<rparr>) targets))"

definition empty_db :: run_db where
  "empty_db = \<lparr>db_version = 0, db_tables = False, db_targets = [], db_attempts = [], db_resolutions = [],
     db_operations = [], db_operation_attempts = []\<rparr>"

definition create_schema :: "run_db \<Rightarrow> (run_error, run_db) result" where
  "create_schema db =
     (if db_version db = 0 \<and> \<not> db_tables db then Inr (empty_db\<lparr>db_version := SCHEMA_VERSION, db_tables := True\<rparr>)
      else if db_version db \<noteq> SCHEMA_VERSION then Inl (RunStateError ''unsupported run-state schema version'')
      else Inr db)"

definition initialize_run_state ::
  "(string \<Rightarrow> string) \<Rightarrow> run_db \<Rightarrow> json dict list \<Rightarrow> json dict list \<Rightarrow> (run_error, run_db) result" where
  "initialize_run_state sha db targets operations =
     bind_res (create_schema db) (\<lambda>db1. bind_res (seed_targets db1 targets) (\<lambda>db2. seed_operation_state sha db2 operations))"

section \<open>Recording attempts\<close>

text \<open>The row of an attempt: its URLs are exact SEC URLs.\<close>

definition attempt_values :: "acquisition_attempt \<Rightarrow> (run_error, acquisition_attempt) result" where
  "attempt_values a =
     bind_res (url_value (Some (aa_requested_url a)) ''requested_url'' True) (\<lambda>_.
     bind_res (url_value (aa_final_url a) ''final_url'' False) (\<lambda>_. Inr a))"

definition insert_attempt :: "run_db \<Rightarrow> acquisition_attempt \<Rightarrow> (run_error, run_db) result" where
  "insert_attempt db a =
     bind_res (sql_insert attempt_check aa_attempt_id (\<lambda>x. (aa_target_id x, aa_attempt_number x))
         (\<lambda>x. has_target db (aa_target_id x)) a (db_attempts db))
       (\<lambda>rows. Inr (db\<lparr>db_attempts := rows\<rparr>))"

definition project_outcome :: "acquisition_outcome \<Rightarrow> target_state \<Rightarrow> target_state" where
  "project_outcome out t =
     t\<lparr>ts_outcome := ao_status out, ts_source := ao_source out, ts_retryable := ao_retryable out,
       ts_attempt_count := ao_attempt_count out, ts_last_attempt_id := ao_last_attempt_id out,
       ts_error_code := ao_error_code out, ts_source_sha256 := ao_source_sha256 out,
       ts_source_byte_size := ao_source_byte_size out, ts_source_body_relative_path := ao_source_body_relative_path out,
       ts_selected_sha256 := ao_selected_sha256 out, ts_selected_byte_size := ao_selected_byte_size out,
       ts_selected_body_relative_path := ao_selected_body_relative_path out\<rparr>"

text \<open>The projection and what follows it in both calls: exactly one row, then the operations.\<close>

definition update_target :: "run_db \<Rightarrow> acquisition_outcome \<Rightarrow> (run_error, run_db) result" where
  "update_target db out =
     bind_res (sql_update target_check (\<lambda>t. ts_target_id t = ao_target_id out \<and> ts_executable t) (project_outcome out) (db_targets db))
       (\<lambda>(rows, n).
         if n \<noteq> 1 then Inl (RunStateError ''target projection update did not match one target'')
         else bind_res (refresh_operation_readiness (db\<lparr>db_targets := rows\<rparr>) (ao_target_id out)) (\<lambda>(db', _). Inr db'))"

definition eligible :: "target_state \<Rightarrow> bool" where
  "eligible t \<longleftrightarrow> ts_outcome t = ''pending'' \<or> ts_outcome t = ''failed'' \<and> ts_retryable t"

definition same_evidence :: "acquisition_attempt \<Rightarrow> acquisition_outcome \<Rightarrow> bool" where
  "same_evidence a out \<longleftrightarrow>
     aa_error_code a = ao_error_code out \<and> aa_source_sha256 a = ao_source_sha256 out
     \<and> aa_source_byte_size a = ao_source_byte_size out \<and> aa_source_body_relative_path a = ao_source_body_relative_path out
     \<and> aa_selected_sha256 a = ao_selected_sha256 out \<and> aa_selected_byte_size a = ao_selected_byte_size out
     \<and> aa_selected_body_relative_path a = ao_selected_body_relative_path out"

definition append_attempt_and_update_target ::
  "run_db \<Rightarrow> acquisition_attempt \<Rightarrow> acquisition_outcome \<Rightarrow> (run_error, run_db) result" where
  "append_attempt_and_update_target db attempt out =
     bind_res (attempt_values attempt) (\<lambda>values.
     if aa_target_id attempt \<noteq> ao_target_id out then Inl (RunValueError ''attempt and outcome target IDs differ'')
     else if aa_outcome attempt \<noteq> ao_status out then Inl (RunValueError ''attempt and target outcome differ'')
     else if Some (aa_source attempt) \<noteq> ao_source out \<or> aa_retryable attempt \<noteq> ao_retryable out
     then Inl (RunValueError ''attempt and target source/retry state differ'')
     else if \<not> same_evidence attempt out then Inl (RunValueError ''attempt and target evidence differ'')
     else bind_res (require_schema db) (\<lambda>_.
       case tbl_lookup ts_target_id (aa_target_id attempt) (db_targets db) of
         None \<Rightarrow> Inl (RunStateError ''attempt target is missing or not executable'')
       | Some t \<Rightarrow>
           if \<not> ts_executable t then Inl (RunStateError ''attempt target is missing or not executable'')
           else if aa_attempt_number attempt \<noteq> ts_attempt_count t + 1
           then Inl (RunStateError ''attempt number is not the next target attempt'')
           else if \<not> eligible t then Inl (RunStateError ''target outcome is not eligible for an attempt'')
           else if ao_attempt_count out \<noteq> aa_attempt_number attempt \<or> ao_last_attempt_id out \<noteq> Some (aa_attempt_id attempt)
           then Inl (RunValueError ''outcome attempt projection is inconsistent'')
           else bind_res (insert_attempt db values) (\<lambda>db'. update_target db' out)))"

fun insert_attempts :: "run_db \<Rightarrow> acquisition_attempt list \<Rightarrow> (run_error, run_db) result" where
  "insert_attempts db [] = Inr db"
| "insert_attempts db (a # as) = bind_res (insert_attempt db a) (\<lambda>db'. insert_attempts db' as)"

text \<open>The target status that a resolution result stands for.\<close>

definition resolution_status :: "string \<Rightarrow> string option" where
  "resolution_status res = map_of
     [(''accepted_sequence_1'', ''acquired''), (''recovered'', ''acquired''), (''selected_in_bundle'', ''acquired''),
      (''not_filed'', ''not_filed''), (''required_missing'', ''required_missing''), (''ambiguous'', ''ambiguous''),
      (''failed'', ''failed'')] res"

definition expected_resolution_status :: "acquisition_outcome \<Rightarrow> target_slot_resolution \<Rightarrow> string option" where
  "expected_resolution_status out r =
     (if resolution_status (sr_result r) \<noteq> None \<and> ao_status out = ''acquired'' \<and> sr_selected_url r = None
         \<and> sr_result r \<in> {''not_filed'', ''required_missing'', ''ambiguous'', ''failed''}
      then Some ''acquired'' else resolution_status (sr_result r))"

definition check_resolution ::
  "acquisition_outcome \<Rightarrow> target_slot_resolution \<Rightarrow> string option \<Rightarrow> (run_error, unit) result" where
  "check_resolution out r recorded_at_utc =
     (if sr_target_id r \<noteq> ao_target_id out then Inl (RunValueError ''resolution and outcome target IDs differ'')
      else if sr_selector r = ''sgml_bundle_scan'' \<and> sr_index_attempt_id r \<noteq> None
      then Inl (RunValueError ''bundle-scan resolution must not reference an index attempt'')
      else if sr_selector r \<noteq> ''sgml_bundle_scan'' \<and> sr_index_attempt_id r = None
      then Inl (RunValueError ''resolution must reference its lazy-index attempt'')
      else if recorded_at_utc = None \<or> recorded_at_utc = Some []
      then Inl (RunValueError ''recorded_at_utc is required with a resolution'')
      else case expected_resolution_status out r of
        None \<Rightarrow> Inl (RunPyError (KeyError (sr_result r)))
      | Some status \<Rightarrow>
          if ao_status out \<noteq> status then Inl (RunValueError ''resolution result and target outcome differ'')
          else Inr ())"

definition insert_resolution :: "run_db \<Rightarrow> target_slot_resolution \<Rightarrow> (run_error, run_db) result" where
  "insert_resolution db r =
     bind_res (sql_insert resolution_check sr_resolution_id sr_resolution_id
         (\<lambda>x. has_target db (sr_target_id x)
            \<and> null_or (\<lambda>aid. aid \<in> set (map aa_attempt_id (db_attempts db))) (sr_index_attempt_id x)) r (db_resolutions db))
       (\<lambda>rows. Inr (db\<lparr>db_resolutions := rows\<rparr>))"

definition store_resolution :: "run_db \<Rightarrow> acquisition_outcome \<Rightarrow> target_slot_resolution \<Rightarrow> (run_error, run_db) result" where
  "store_resolution db out r =
     (if \<not> null_or (\<lambda>aid. map_option (\<lambda>a. (aa_target_id a, aa_attempt_kind a)) (tbl_lookup aa_attempt_id aid (db_attempts db))
               = Some (ao_target_id out, ''lazy_index'')) (sr_index_attempt_id r)
      then Inl (RunValueError ''resolution index attempt is missing or mismatched'')
      else bind_res (url_value (sr_selected_url r) ''selected_url'' False) (\<lambda>_. insert_resolution db r))"

definition commit_attempts_and_update_target ::
  "run_db \<Rightarrow> acquisition_attempt list \<Rightarrow> acquisition_outcome \<Rightarrow> target_slot_resolution option \<Rightarrow> string option
    \<Rightarrow> (run_error, run_db) result" where
  "commit_attempts_and_update_target db attempts out resolution recorded_at_utc =
     (if attempts = [] then Inl (RunValueError ''at least one acquisition attempt is required'')
      else if list_ex (\<lambda>a. aa_target_id a \<noteq> ao_target_id out) attempts
      then Inl (RunValueError ''attempts and outcome target IDs differ'')
      else bind_res (mapM attempt_values attempts) (\<lambda>values.
        bind_res (case resolution of None \<Rightarrow> Inr () | Some r \<Rightarrow> check_resolution out r recorded_at_utc) (\<lambda>_.
        bind_res (require_schema db) (\<lambda>_.
        case tbl_lookup ts_target_id (ao_target_id out) (db_targets db) of
          None \<Rightarrow> Inl (RunStateError ''attempt target is missing or not executable'')
        | Some t \<Rightarrow>
            if \<not> ts_executable t then Inl (RunStateError ''attempt target is missing or not executable'')
            else if \<not> eligible t then Inl (RunStateError ''target outcome is not eligible for an attempt'')
            else if map aa_attempt_number attempts
                \<noteq> [ts_attempt_count t + 1 .. ts_attempt_count t + int (length attempts)]
            then Inl (RunStateError ''attempt numbers are not contiguous for the target'')
            else let final = last attempts in
            if ao_attempt_count out \<noteq> aa_attempt_number final \<or> ao_last_attempt_id out \<noteq> Some (aa_attempt_id final)
            then Inl (RunValueError ''outcome attempt projection is inconsistent'')
            else if ao_source out \<noteq> Some (aa_source final) \<or> ao_retryable out \<noteq> aa_retryable final
            then Inl (RunValueError ''outcome source/retry state differs from final attempt'')
            else bind_res (insert_attempts db values) (\<lambda>db1.
              bind_res (case resolution of None \<Rightarrow> Inr db1 | Some r \<Rightarrow> store_resolution db1 out r) (\<lambda>db2.
              update_target db2 out))))))"

definition append_target_slot_resolution ::
  "run_db \<Rightarrow> target_slot_resolution \<Rightarrow> string \<Rightarrow> (run_error, run_db) result" where
  "append_target_slot_resolution db r recorded_at_utc =
     (if recorded_at_utc = [] then Inl (RunValueError ''recorded_at_utc is required'')
      else bind_res (url_value (sr_selected_url r) ''selected_url'' False) (\<lambda>_.
        bind_res (require_schema db) (\<lambda>_. insert_resolution db r)))"

section \<open>Queries\<close>

definition iter_selected_target_states :: "run_db \<Rightarrow> bool \<Rightarrow> (run_error, target_state list) result" where
  "iter_selected_target_states db retry_failures =
     bind_res (require_schema db) (\<lambda>_.
       Inr (sort_key ts_target_id (filter (\<lambda>t. ts_outcome t = ''pending''
              \<or> retry_failures \<and> ts_outcome t = ''failed'' \<and> ts_retryable t) (db_targets db))))"

definition get_attempt :: "run_db \<Rightarrow> string \<Rightarrow> string \<Rightarrow> (run_error, acquisition_attempt option) result" where
  "get_attempt db target_id attempt_id =
     bind_res (require_schema db) (\<lambda>_.
       Inr (find (\<lambda>a. aa_target_id a = target_id \<and> aa_attempt_id a = attempt_id) (db_attempts db)))"

definition get_target_state :: "run_db \<Rightarrow> string \<Rightarrow> (run_error, target_state option) result" where
  "get_target_state db target_id =
     bind_res (require_schema db) (\<lambda>_. Inr (tbl_lookup ts_target_id target_id (db_targets db)))"

definition list_target_attempts :: "run_db \<Rightarrow> string \<Rightarrow> (run_error, acquisition_attempt list) result" where
  "list_target_attempts db target_id =
     bind_res (require_schema db) (\<lambda>_.
       Inr (sort_key aa_attempt_number (filter (\<lambda>a. aa_target_id a = target_id) (db_attempts db))))"

text \<open>\<^verbatim>\<open>PRAGMA integrity_check\<close> (constraints and unique keys of the rows) and \<^verbatim>\<open>PRAGMA foreign_key_check\<close>.\<close>

definition integrity_ok :: "run_db \<Rightarrow> bool" where
  "integrity_ok db \<longleftrightarrow>
     list_all target_check (db_targets db) \<and> list_all attempt_check (db_attempts db)
     \<and> list_all resolution_check (db_resolutions db) \<and> list_all operation_check (db_operations db)
     \<and> list_all operation_attempt_check (db_operation_attempts db)
     \<and> distinct (map ts_target_id (db_targets db)) \<and> distinct (map aa_attempt_id (db_attempts db))
     \<and> distinct (map (\<lambda>a. (aa_target_id a, aa_attempt_number a)) (db_attempts db))
     \<and> distinct (map sr_resolution_id (db_resolutions db)) \<and> distinct (map os_operation_id (db_operations db))
     \<and> distinct (map oa_attempt_id (db_operation_attempts db))
     \<and> distinct (map (\<lambda>a. (oa_operation_id a, oa_attempt_number a)) (db_operation_attempts db))"

definition foreign_keys_ok :: "run_db \<Rightarrow> bool" where
  "foreign_keys_ok db \<longleftrightarrow>
     list_all (\<lambda>a. has_target db (aa_target_id a)) (db_attempts db)
     \<and> list_all (\<lambda>r. has_target db (sr_target_id r)
          \<and> null_or (\<lambda>aid. aid \<in> set (map aa_attempt_id (db_attempts db))) (sr_index_attempt_id r)) (db_resolutions db)
     \<and> list_all (\<lambda>o1. has_target db (os_target_id o1)) (db_operations db)
     \<and> list_all (\<lambda>a. oa_operation_id a \<in> set (map os_operation_id (db_operations db))) (db_operation_attempts db)"

definition validate_readonly :: "(string \<Rightarrow> string) \<Rightarrow> run_db \<Rightarrow> (run_error, unit) result" where
  "validate_readonly sha db =
     (if \<not> integrity_ok db \<or> \<not> foreign_keys_ok db then Inl (RunStateError ''integrity_check'')
      else validate_operation_state sha db)"

definition validate_run_state :: "(string \<Rightarrow> string) \<Rightarrow> run_db \<Rightarrow> (run_error, unit) result" where
  "validate_run_state sha db = bind_res (require_schema db) (\<lambda>_. validate_readonly sha db)"

record status_counts =
  sc_target_counts :: "nat dict"
  sc_retryable_failure_count :: nat
  sc_non_retryable_failure_count :: nat

definition outcome_count :: "run_db \<Rightarrow> string \<Rightarrow> nat" where
  "outcome_count db status = length (filter (\<lambda>t. ts_outcome t = status) (db_targets db))"

definition failed_count :: "run_db \<Rightarrow> bool \<Rightarrow> nat" where
  "failed_count db retryable = length (filter (\<lambda>t. ts_outcome t = ''failed'' \<and> ts_retryable t = retryable) (db_targets db))"

definition summarize_target_state :: "(string \<Rightarrow> string) \<Rightarrow> run_db \<Rightarrow> (run_error, status_counts) result" where
  "summarize_target_state sha db =
     bind_res (require_schema db) (\<lambda>_. bind_res (validate_readonly sha db) (\<lambda>_.
       Inr \<lparr>sc_target_counts = map (\<lambda>status. (status, outcome_count db status)) OUTCOMES,
            sc_retryable_failure_count = failed_count db True,
            sc_non_retryable_failure_count = failed_count db False\<rparr>))"

end
