(* ===== verification/RunInvariant.thy ===== *)
theory RunInvariant
  imports RunStore
begin

text \<open>
  The invariant of a run-state database: the constraints hold, every target and every operation agrees
  with its attempt history, and operations wait exactly for the body of their target. Each store call
  keeps it.
\<close>

section \<open>The invariant\<close>

definition attempts_of :: "run_db \<Rightarrow> string \<Rightarrow> acquisition_attempt list" where
  "attempts_of db tid = filter (\<lambda>a. aa_target_id a = tid) (db_attempts db)"

definition op_attempts_of :: "run_db \<Rightarrow> string \<Rightarrow> operation_attempt list" where
  "op_attempts_of db oid = filter (\<lambda>a. oa_operation_id a = oid) (db_operation_attempts db)"

text \<open>Attempts are numbered from 1 without gaps, and the target row projects the last of them.\<close>

definition target_history :: "acquisition_attempt list \<Rightarrow> target_state \<Rightarrow> bool" where
  "target_history history t \<longleftrightarrow>
     map aa_attempt_number history = [1..ts_attempt_count t]
     \<and> (if history = [] then ts_last_attempt_id t = None \<and> ts_outcome t \<in> {''pending'', ''skipped''}
        else ts_last_attempt_id t = Some (aa_attempt_id (last history)) \<and> ts_source t = Some (aa_source (last history))
          \<and> ts_retryable t = aa_retryable (last history))"

definition operation_history :: "target_state \<Rightarrow> operation_attempt list \<Rightarrow> operation_state \<Rightarrow> bool" where
  "operation_history t history o1 \<longleftrightarrow>
     map oa_attempt_number history = [1..os_attempt_count o1]
     \<and> (if history = []
        then os_last_attempt_id o1 = None \<and> \<not> os_retryable o1 \<and> os_status o1 = expected_status o1 t
          \<and> os_error_code o1 = expected_error o1
        else os_requested o1 \<and> os_selected o1 \<and> os_support_status o1 = ''supported''
          \<and> target_ready (ts_outcome t) (ts_selected_body_relative_path t)
          \<and> os_last_attempt_id o1 = Some (oa_attempt_id (last history)) \<and> os_status o1 = oa_outcome (last history)
          \<and> os_retryable o1 = oa_retryable (last history) \<and> os_error_code o1 = oa_error_code (last history))"

definition operation_id_ok :: "(string \<Rightarrow> string) \<Rightarrow> operation_state \<Rightarrow> bool" where
  "operation_id_ok sha o1 \<longleftrightarrow> os_operation_id o1 = canonical_hash sha (JList [JStr (os_target_id o1), JStr (os_operation o1)])"

definition db_ok :: "run_db \<Rightarrow> bool" where
  "db_ok db \<longleftrightarrow> db_version db = SCHEMA_VERSION \<and> integrity_ok db \<and> foreign_keys_ok db"

definition operations_ok :: "(string \<Rightarrow> string) \<Rightarrow> run_db \<Rightarrow> bool" where
  "operations_ok sha db \<longleftrightarrow>
     (\<forall>o1 \<in> set (db_operations db). operation_id_ok sha o1
       \<and> (\<forall>t \<in> set (db_targets db). ts_target_id t = os_target_id o1 \<longrightarrow> operation_history t (op_attempts_of db (os_operation_id o1)) o1))"

definition targets_ok :: "run_db \<Rightarrow> bool" where
  "targets_ok db \<longleftrightarrow> (\<forall>t \<in> set (db_targets db). target_history (attempts_of db (ts_target_id t)) t)"

definition run_inv :: "(string \<Rightarrow> string) \<Rightarrow> run_db \<Rightarrow> bool" where
  "run_inv sha db \<longleftrightarrow> db_ok db \<and> targets_ok db \<and> operations_ok sha db"

section \<open>Statements keep the constraints\<close>

lemma distinct_key_eq: "distinct (map f xs) \<Longrightarrow> x \<in> set xs \<Longrightarrow> y \<in> set xs \<Longrightarrow> f x = f y \<Longrightarrow> x = y"
  by (auto simp: distinct_map dest: inj_onD)

lemmas db_ok_defs = db_ok_def integrity_ok_def foreign_keys_ok_def has_target_def list_all_iff

lemma insert_attempt_Inr:
  assumes "insert_attempt db a = Inr db'"
  shows "db' = db\<lparr>db_attempts := db_attempts db @ [a]\<rparr>" "db_ok db \<Longrightarrow> db_ok db'"
    "(aa_target_id a, aa_attempt_number a) \<notin> (\<lambda>a. (aa_target_id a, aa_attempt_number a)) ` set (db_attempts db)"
proof -
  show new: "db' = db\<lparr>db_attempts := db_attempts db @ [a]\<rparr>"
    and "(aa_target_id a, aa_attempt_number a) \<notin> (\<lambda>a. (aa_target_id a, aa_attempt_number a)) ` set (db_attempts db)"
    using assms by (auto simp: insert_attempt_def bind_res_Inr_iff sql_insert_Inr)
  have "attempt_check a" "aa_attempt_id a \<notin> aa_attempt_id ` set (db_attempts db)" "has_target db (aa_target_id a)"
    using assms by (auto simp: insert_attempt_def bind_res_Inr_iff sql_insert_Inr)
  moreover have "(aa_target_id a, aa_attempt_number a) \<notin> (\<lambda>a. (aa_target_id a, aa_attempt_number a)) ` set (db_attempts db)"
    using assms by (auto simp: insert_attempt_def bind_res_Inr_iff sql_insert_Inr)
  ultimately show "db_ok db'" if ok: "db_ok db"
    using ok unfolding new db_ok_defs null_or_def by (simp split: option.splits)
qed

lemma insert_attempts_Inr:
  "insert_attempts db as = Inr db' \<Longrightarrow> db' = db\<lparr>db_attempts := db_attempts db @ as\<rparr> \<and> (db_ok db \<longrightarrow> db_ok db')"
proof (induction as arbitrary: db)
  case Nil
  then show ?case by simp
next
  case (Cons a as)
  then obtain db1 where "insert_attempt db a = Inr db1" "insert_attempts db1 as = Inr db'"
    by (auto simp: bind_res_Inr_iff)
  with Cons.IH[of db1] insert_attempt_Inr(1,2)[of db a db1] show ?case by auto
qed

lemma insert_resolution_Inr:
  assumes "insert_resolution db r = Inr db'"
  shows "db' = db\<lparr>db_resolutions := db_resolutions db @ [r]\<rparr>" "db_ok db \<Longrightarrow> db_ok db'"
proof -
  show new: "db' = db\<lparr>db_resolutions := db_resolutions db @ [r]\<rparr>"
    using assms by (auto simp: insert_resolution_def bind_res_Inr_iff sql_insert_Inr)
  have "resolution_check r" "sr_resolution_id r \<notin> sr_resolution_id ` set (db_resolutions db)"
    "has_target db (sr_target_id r)"
    "null_or (\<lambda>aid. aid \<in> aa_attempt_id ` set (db_attempts db)) (sr_index_attempt_id r)"
    using assms by (auto simp: insert_resolution_def bind_res_Inr_iff sql_insert_Inr)
  then show "db_ok db'" if "db_ok db"
    using that unfolding new db_ok_defs by simp
qed

lemma insert_operation_Inr:
  assumes "insert_operation db row = Inr db'"
  shows "db' = db\<lparr>db_operations := db_operations db @ [row]\<rparr>" "db_ok db \<Longrightarrow> db_ok db'"
    "os_operation_id row \<notin> os_operation_id ` set (db_operations db)"
proof -
  show new: "db' = db\<lparr>db_operations := db_operations db @ [row]\<rparr>"
    and "os_operation_id row \<notin> os_operation_id ` set (db_operations db)"
    using assms by (auto simp: insert_operation_def bind_res_Inr_iff sql_insert_Inr)
  then have "operation_check row" "has_target db (os_target_id row)"
    "os_operation_id row \<notin> os_operation_id ` set (db_operations db)"
    using assms by (auto simp: insert_operation_def bind_res_Inr_iff sql_insert_Inr)
  then show "db_ok db'" if "db_ok db"
    using that unfolding new db_ok_defs by auto
qed

text \<open>An update that keeps the keys keeps every constraint.\<close>

lemma update_targets_ok:
  assumes "db_ok db" "\<forall>t \<in> set rows. target_check t" "map ts_target_id rows = map ts_target_id (db_targets db)"
  shows "db_ok (db\<lparr>db_targets := rows\<rparr>)"
  using assms unfolding db_ok_defs by simp

lemma update_operations_ok:
  assumes "db_ok db" "\<forall>o1 \<in> set rows. operation_check o1"
    and "map (\<lambda>o1. (os_operation_id o1, os_target_id o1)) rows = map (\<lambda>o1. (os_operation_id o1, os_target_id o1)) (db_operations db)"
  shows "db_ok (db\<lparr>db_operations := rows\<rparr>)"
proof -
  have ids: "map os_operation_id rows = map os_operation_id (db_operations db)"
    and tids: "map os_target_id rows = map os_target_id (db_operations db)"
    using arg_cong[OF assms(3), of "map fst"] arg_cong[OF assms(3), of "map snd"] by (simp_all add: o_def)
  have "\<forall>o1 \<in> set rows. os_target_id o1 \<in> os_target_id ` set (db_operations db)"
    using tids by (metis image_eqI image_set)
  moreover have "\<forall>x \<in> os_target_id ` set (db_operations db). x \<in> ts_target_id ` set (db_targets db)"
    using assms(1) by (auto simp: db_ok_defs)
  ultimately show ?thesis
    using assms(1,2) ids unfolding db_ok_defs by (simp del: set_map add: set_map[symmetric]) 
qed

section \<open>Refreshing the operations of a target\<close>

definition waiting :: "string \<Rightarrow> operation_state \<Rightarrow> bool" where
  "waiting tid o1 \<longleftrightarrow> os_target_id o1 = tid \<and> os_requested o1 \<and> os_selected o1 \<and> os_support_status o1 = ''supported''
     \<and> os_attempt_count o1 = 0"

definition refresh_one :: "operation_state \<Rightarrow> string \<times> string \<times> string option \<Rightarrow> operation_state" where
  "refresh_one o1 row =
     (if os_operation_id o1 = fst row \<and> os_status o1 \<in> {''pending'', ''blocked''}
      then set_readiness (target_ready (fst (snd row)) (snd (snd row))) o1 else o1)"

lemma refresh_one_keys [simp]:
  "os_operation_id (refresh_one o1 row) = os_operation_id o1" "os_target_id (refresh_one o1 row) = os_target_id o1"
  by (simp_all add: refresh_one_def set_readiness_def)

lemma refresh_rows_Inr:
  "refresh_rows ops rows n = Inr (ops', n') \<Longrightarrow> \<forall>o1 \<in> set ops. operation_check o1 \<Longrightarrow>
     ops' = map (\<lambda>o1. foldl refresh_one o1 rows) ops \<and> (\<forall>o1 \<in> set ops'. operation_check o1)"
proof (induction ops rows n rule: refresh_rows.induct)
  case (1 ops n)
  then show ?case by simp
next
  case (2 ops oid outcome path rows n)
  obtain ops1 k where up: "sql_update operation_check (\<lambda>o1. os_operation_id o1 = oid \<and> os_status o1 \<in> {''pending'', ''blocked''})
      (set_readiness (target_ready outcome path)) ops = Inr (ops1, k)"
    and rest: "refresh_rows ops1 rows (n + k) = Inr (ops', n')"
    using 2(2) by (auto simp: bind_res_Inr_iff)
  have ops1: "ops1 = map (\<lambda>o1. refresh_one o1 (oid, outcome, path)) ops"
    using up by (auto simp: sql_update_Inr refresh_one_def)
  have "\<forall>o1 \<in> set ops1. operation_check o1"
    using up 2(3) by (auto simp: sql_update_Inr)
  from 2(1)[OF rest this] show ?case using ops1 by (simp add: o_def)
qed

lemma foldl_refresh_filter:
  "foldl refresh_one o1 rows = foldl refresh_one o1 (filter (\<lambda>r. fst r = os_operation_id o1) rows)"
  by (induction rows arbitrary: o1) (auto simp: refresh_one_def set_readiness_def)

lemma concat_map_single:
  "distinct xs \<Longrightarrow> x \<in> set xs \<Longrightarrow> \<forall>y \<in> set xs. y \<noteq> x \<longrightarrow> f y = [] \<Longrightarrow> concat (map f xs) = f x"
proof (induction xs)
  case (Cons a xs)
  then show ?case by (cases "x = a") (auto simp: concat_eq_Nil_conv)
qed simp

lemma filter_eq_single: "distinct xs \<Longrightarrow> x \<in> set xs \<Longrightarrow> filter (\<lambda>u. u = x) xs = [x]"
  by (induction xs) (auto simp: filter_empty_conv)

lemma readiness_rows_of:
  assumes "distinct (map os_operation_id (db_operations db))" "o1 \<in> set (db_operations db)"
    and "distinct (map ts_target_id (db_targets db))" "t \<in> set (db_targets db)" "ts_target_id t = os_target_id o1"
  shows "filter (\<lambda>r. fst r = os_operation_id o1) (readiness_rows db tid) =
    (if waiting tid o1 then [(os_operation_id o1, ts_outcome t, ts_selected_body_relative_path t)] else [])"
proof -
  define f where "f o2 = (if waiting tid o2 then map (\<lambda>t. (os_operation_id o2, ts_outcome t, ts_selected_body_relative_path t))
    (filter (\<lambda>t. ts_target_id t = os_target_id o2) (db_targets db)) else [])" for o2
  have "readiness_rows db tid = concat (map f (db_operations db))"
    unfolding readiness_rows_def f_def waiting_def ..
  then have "filter (\<lambda>r. fst r = os_operation_id o1) (readiness_rows db tid)
      = concat (map (\<lambda>o2. filter (\<lambda>r. fst r = os_operation_id o1) (f o2)) (db_operations db))"
    by (simp add: filter_concat o_def)
  also have "\<dots> = filter (\<lambda>r. fst r = os_operation_id o1) (f o1)"
  proof (rule concat_map_single)
    show "distinct (db_operations db)" using assms(1) by (simp add: distinct_map)
    show "o1 \<in> set (db_operations db)" by (rule assms(2))
    show "\<forall>o2 \<in> set (db_operations db). o2 \<noteq> o1 \<longrightarrow> filter (\<lambda>r. fst r = os_operation_id o1) (f o2) = []"
      using distinct_key_eq[OF assms(1) _ assms(2)] by (auto simp: f_def filter_empty_conv)
  qed
  also have "f o1 = (if waiting tid o1 then [(os_operation_id o1, ts_outcome t, ts_selected_body_relative_path t)] else [])"
  proof -
    have "filter (\<lambda>u. ts_target_id u = os_target_id o1) (db_targets db) = [t]"
    proof -
      have "filter (\<lambda>u. ts_target_id u = os_target_id o1) (db_targets db) = filter (\<lambda>u. u = t) (db_targets db)"
        using distinct_key_eq[OF assms(3) _ assms(4)] assms(5) by (intro filter_cong) auto
      also have "\<dots> = [t]" using assms(3,4) by (simp add: distinct_map filter_eq_single)
      finally show ?thesis .
    qed
    then show ?thesis by (simp add: f_def)
  qed
  finally show ?thesis by simp
qed

lemma refresh_operation_readiness_Inr:
  assumes "refresh_operation_readiness db tid = Inr (db', n)" "db_ok db"
  obtains g where "db' = db\<lparr>db_operations := map g (db_operations db)\<rparr>" "db_ok db'"
    "\<And>o1 t. o1 \<in> set (db_operations db) \<Longrightarrow> t \<in> set (db_targets db) \<Longrightarrow> ts_target_id t = os_target_id o1 \<Longrightarrow>
       g o1 = (if waiting tid o1 \<and> os_status o1 \<in> {''pending'', ''blocked''}
         then set_readiness (target_ready (ts_outcome t) (ts_selected_body_relative_path t)) o1 else o1)"
proof -
  define g where "g o1 = foldl refresh_one o1 (readiness_rows db tid)" for o1
  obtain ops' where rows: "refresh_rows (db_operations db) (readiness_rows db tid) 0 = Inr (ops', n)"
    and db': "db' = db\<lparr>db_operations := ops'\<rparr>"
    using assms(1) by (auto simp: refresh_operation_readiness_def bind_res_Inr_iff)
  have checks: "\<forall>o1 \<in> set (db_operations db). operation_check o1" and dist: "distinct (map os_operation_id (db_operations db))"
    "distinct (map ts_target_id (db_targets db))"
    using assms(2) by (auto simp: db_ok_defs)
  have ops': "ops' = map g (db_operations db)" and checks': "\<forall>o1 \<in> set ops'. operation_check o1"
    using refresh_rows_Inr[OF rows checks] by (simp_all add: g_def)
  have keys: "os_operation_id (foldl refresh_one o1 rs) = os_operation_id o1 \<and> os_target_id (foldl refresh_one o1 rs) = os_target_id o1"
    for o1 rs by (induction rs arbitrary: o1) simp_all
  show thesis
  proof
    show "db' = db\<lparr>db_operations := map g (db_operations db)\<rparr>" using db' ops' by simp
    show "db_ok db'" unfolding db'
      using keys by (intro update_operations_ok assms(2) checks') (simp add: ops' g_def)
    show "g o1 = (if waiting tid o1 \<and> os_status o1 \<in> {''pending'', ''blocked''}
         then set_readiness (target_ready (ts_outcome t) (ts_selected_body_relative_path t)) o1 else o1)"
      if "o1 \<in> set (db_operations db)" "t \<in> set (db_targets db)" "ts_target_id t = os_target_id o1" for o1 t
    proof -
      have "g o1 = foldl refresh_one o1 (filter (\<lambda>r. fst r = os_operation_id o1) (readiness_rows db tid))"
        unfolding g_def by (rule foldl_refresh_filter)
      then show ?thesis unfolding readiness_rows_of[OF dist(1) that(1) dist(2) that(2,3)] by (simp add: refresh_one_def)
    qed
  qed
qed

lemma upto_Nil_count: "[1..n] = [] \<Longrightarrow> 0 \<le> n \<Longrightarrow> n = (0::int)"
  by (simp add: upto_empty)

text \<open>An operation of a target that is still being acquired has no attempts, so its status follows the target.\<close>

lemma operation_history_refresh:
  assumes "operation_history t history o1" "operation_check o1" "\<not> target_ready (ts_outcome t) (ts_selected_body_relative_path t)"
    and "o2 = (if waiting (os_target_id o1) o1 \<and> os_status o1 \<in> {''pending'', ''blocked''}
         then set_readiness (target_ready (ts_outcome t') (ts_selected_body_relative_path t')) o1 else o1)"
  shows "operation_history t' history o2"
proof -
  have hist: "history = []" using assms(1,3) by (auto simp: operation_history_def split: if_splits)
  have "0 \<le> os_attempt_count o1" using assms(2) by (simp add: operation_check_def)
  with hist assms(1) have zero: "os_attempt_count o1 = 0" and row: "os_last_attempt_id o1 = None" "\<not> os_retryable o1"
    "os_status o1 = expected_status o1 t" "os_error_code o1 = expected_error o1"
    by (auto simp: operation_history_def)
  show ?thesis
  proof (cases "waiting (os_target_id o1) o1")
    case True
    then have "os_status o1 = ''blocked''"
      using row(3) assms(3) by (auto simp: expected_status_def waiting_def target_ready_def)
    then show ?thesis
      using True hist zero row unfolding assms(4)
      by (auto simp: operation_history_def set_readiness_def expected_status_def expected_error_def waiting_def target_ready_def)
  next
    case False
    then have "\<not> (os_requested o1 \<and> os_selected o1)"
      using zero assms(2) by (auto simp: waiting_def operation_check_def)
    then have "expected_status o1 t' = expected_status o1 t" by (auto simp: expected_status_def)
    then show ?thesis using hist zero row False unfolding assms(4) by (simp add: operation_history_def)
  qed
qed

section \<open>Recording attempts\<close>

lemma project_outcome_key [simp]: "ts_target_id (project_outcome out t) = ts_target_id t"
  by (simp add: project_outcome_def)

lemma eligible_not_ready: "eligible t \<Longrightarrow> \<not> target_ready (ts_outcome t) path"
  by (auto simp: eligible_def target_ready_def)

lemma update_target_Inr:
  assumes "update_target db out = Inr db'" "db_ok db" "t \<in> set (db_targets db)" "ts_target_id t = ao_target_id out"
    "ts_executable t"
  obtains g where "db' = db\<lparr>db_targets := map (\<lambda>u. if u = t then project_outcome out t else u) (db_targets db),
      db_operations := map g (db_operations db)\<rparr>" "db_ok db'"
    "\<And>o1 u. o1 \<in> set (db_operations db) \<Longrightarrow> u \<in> set (db_targets db') \<Longrightarrow> ts_target_id u = os_target_id o1 \<Longrightarrow>
       g o1 = (if waiting (ts_target_id t) o1 \<and> os_status o1 \<in> {''pending'', ''blocked''}
         then set_readiness (target_ready (ts_outcome u) (ts_selected_body_relative_path u)) o1 else o1)"
proof -
  define rows where "rows = map (\<lambda>u. if u = t then project_outcome out t else u) (db_targets db)"
  have uniq: "ts_target_id u = ao_target_id out \<and> ts_executable u \<longleftrightarrow> u = t" if "u \<in> set (db_targets db)" for u
    using that assms(2-5) distinct_key_eq[of ts_target_id "db_targets db" u t] by (auto simp: db_ok_defs)
  obtain rows' n where up: "sql_update target_check (\<lambda>t. ts_target_id t = ao_target_id out \<and> ts_executable t)
      (project_outcome out) (db_targets db) = Inr (rows', n)"
    and rest: "(if n \<noteq> 1 then Inl (RunStateError ''target projection update did not match one target'')
         else bind_res (refresh_operation_readiness (db\<lparr>db_targets := rows'\<rparr>) (ao_target_id out)) (\<lambda>(db', _). Inr db')) = Inr db'"
    using assms(1) unfolding update_target_def bind_res_Inr_iff by auto
  have rows': "rows' = rows" and chk: "target_check (project_outcome out t)"
    using up uniq assms(3) unfolding sql_update_Inr rows_def by auto
  obtain k where refresh: "refresh_operation_readiness (db\<lparr>db_targets := rows\<rparr>) (ts_target_id t) = Inr (db', k)"
    using rest unfolding rows' assms(4) by (auto simp: bind_res_Inr_iff split: if_splits)
  have ok: "db_ok (db\<lparr>db_targets := rows\<rparr>)"
    using assms(2) chk by (intro update_targets_ok) (auto simp: rows_def db_ok_defs)
  obtain g where g: "db' = db\<lparr>db_targets := rows\<rparr>\<lparr>db_operations := map g (db_operations (db\<lparr>db_targets := rows\<rparr>))\<rparr>" "db_ok db'"
    "\<And>o1 u. o1 \<in> set (db_operations (db\<lparr>db_targets := rows\<rparr>)) \<Longrightarrow> u \<in> set (db_targets (db\<lparr>db_targets := rows\<rparr>)) \<Longrightarrow>
       ts_target_id u = os_target_id o1 \<Longrightarrow> g o1 = (if waiting (ts_target_id t) o1 \<and> os_status o1 \<in> {''pending'', ''blocked''}
         then set_readiness (target_ready (ts_outcome u) (ts_selected_body_relative_path u)) o1 else o1)"
    by (rule refresh_operation_readiness_Inr[OF refresh ok]) (rule that; assumption)
  show thesis
  proof (rule that)
    show "db' = db\<lparr>db_targets := map (\<lambda>u. if u = t then project_outcome out t else u) (db_targets db),
      db_operations := map g (db_operations db)\<rparr>" using g(1) unfolding rows_def by simp
    show "db_ok db'" by (rule g(2))
    show "g o1 = (if waiting (ts_target_id t) o1 \<and> os_status o1 \<in> {''pending'', ''blocked''}
         then set_readiness (target_ready (ts_outcome u) (ts_selected_body_relative_path u)) o1 else o1)"
      if "o1 \<in> set (db_operations db)" "u \<in> set (db_targets db')" "ts_target_id u = os_target_id o1" for o1 u
      using that g(1) by (intro g(3)) simp_all
  qed
qed

lemma operations_ok_update:
  assumes ops: "operations_ok sha db" and ok: "db_ok db" and t: "t \<in> set (db_targets db)" "eligible t"
    and db': "db' = db\<lparr>db_targets := map (\<lambda>u. if u = t then project_outcome out t else u) (db_targets db),
      db_operations := map g (db_operations db)\<rparr>"
    and g: "\<And>o1 u. o1 \<in> set (db_operations db) \<Longrightarrow> u \<in> set (db_targets db') \<Longrightarrow> ts_target_id u = os_target_id o1 \<Longrightarrow>
       g o1 = (if waiting (ts_target_id t) o1 \<and> os_status o1 \<in> {''pending'', ''blocked''}
         then set_readiness (target_ready (ts_outcome u) (ts_selected_body_relative_path u)) o1 else o1)"
  shows "operations_ok sha db'"
proof -
  have hist: "operation_history u (op_attempts_of db (os_operation_id o1)) (g o1)"
    if o1: "o1 \<in> set (db_operations db)" and u: "u \<in> set (db_targets db')" "ts_target_id u = os_target_id o1" for o1 u
  proof (cases "os_target_id o1 = ts_target_id t")
    case True
    show ?thesis
    proof (rule operation_history_refresh)
      show "operation_history t (op_attempts_of db (os_operation_id o1)) o1"
        using ops o1 t(1) True unfolding operations_ok_def by metis
      show "operation_check o1" using ok o1 by (auto simp: db_ok_defs)
      show "\<not> target_ready (ts_outcome t) (ts_selected_body_relative_path t)" by (rule eligible_not_ready[OF t(2)])
      show "g o1 = (if waiting (os_target_id o1) o1 \<and> os_status o1 \<in> {''pending'', ''blocked''}
         then set_readiness (target_ready (ts_outcome u) (ts_selected_body_relative_path u)) o1 else o1)"
        unfolding True by (rule g[OF o1 u])
    qed
  next
    case False
    then have "u \<in> set (db_targets db)" using u by (auto simp: db' split: if_splits)
    moreover have "g o1 = o1" using g[OF o1 u] False by (simp add: waiting_def)
    ultimately show ?thesis using ops o1 u(2) by (simp add: operations_ok_def)
  qed
  have keys: "os_operation_id (g o1) = os_operation_id o1 \<and> os_target_id (g o1) = os_target_id o1
      \<and> os_operation (g o1) = os_operation o1" if o1: "o1 \<in> set (db_operations db)" for o1
  proof -
    have "has_target db (os_target_id o1)" using ok o1 by (auto simp: db_ok_defs)
    then obtain v where "v \<in> set (db_targets db)" "ts_target_id v = os_target_id o1" by (auto simp: has_target_def)
    then have "(if v = t then project_outcome out t else v) \<in> set (db_targets db')"
      "ts_target_id (if v = t then project_outcome out t else v) = os_target_id o1" by (auto simp: db')
    from g[OF o1 this] show ?thesis by (simp add: set_readiness_def)
  qed
  show ?thesis
    unfolding operations_ok_def
  proof
    fix o2 assume "o2 \<in> set (db_operations db')"
    then obtain o1 where o1: "o1 \<in> set (db_operations db)" and o2: "o2 = g o1" by (auto simp: db')
    have "operation_id_ok sha o1" using ops o1 by (simp add: operations_ok_def)
    then have "operation_id_ok sha o2" using keys[OF o1] by (simp add: operation_id_ok_def o2)
    moreover have "op_attempts_of db' (os_operation_id o2) = op_attempts_of db (os_operation_id o1)"
      using keys[OF o1] by (simp add: op_attempts_of_def db' o2)
    ultimately show "operation_id_ok sha o2 \<and> (\<forall>u \<in> set (db_targets db'). ts_target_id u = os_target_id o2 \<longrightarrow>
        operation_history u (op_attempts_of db' (os_operation_id o2)) o2)"
      using hist[OF o1] keys[OF o1] o2 by simp
  qed
qed

text \<open>What a successful recording call has checked: the target, the attempts and their projection.\<close>

definition recording ::
  "run_db \<Rightarrow> target_state \<Rightarrow> acquisition_attempt list \<Rightarrow> acquisition_outcome \<Rightarrow> run_db \<Rightarrow> run_db \<Rightarrow> bool" where
  "recording db t as out db2 db' \<longleftrightarrow>
     t \<in> set (db_targets db) \<and> ts_target_id t = ao_target_id out \<and> ts_executable t \<and> eligible t
     \<and> as \<noteq> [] \<and> (\<forall>a \<in> set as. aa_target_id a = ao_target_id out)
     \<and> map aa_attempt_number as = [ts_attempt_count t + 1 .. ts_attempt_count t + int (length as)]
     \<and> ao_attempt_count out = aa_attempt_number (last as) \<and> ao_last_attempt_id out = Some (aa_attempt_id (last as))
     \<and> ao_source out = Some (aa_source (last as)) \<and> ao_retryable out = aa_retryable (last as)
     \<and> (\<exists>rs. db2 = db\<lparr>db_attempts := db_attempts db @ as, db_resolutions := db_resolutions db @ rs\<rparr>)
     \<and> (db_ok db \<longrightarrow> db_ok db2) \<and> update_target db2 out = Inr db'"

lemma target_history_extend:
  assumes "target_history h t" "as \<noteq> []" "0 \<le> ts_attempt_count t"
    and "map aa_attempt_number as = [ts_attempt_count t + 1 .. ts_attempt_count t + int (length as)]"
    and "ao_attempt_count out = aa_attempt_number (last as)" "ao_last_attempt_id out = Some (aa_attempt_id (last as))"
    and "ao_source out = Some (aa_source (last as))" "ao_retryable out = aa_retryable (last as)"
  shows "target_history (h @ as) (project_outcome out t)"
proof -
  let ?c = "ts_attempt_count t" and ?n = "int (length as)"
  have "aa_attempt_number (last as) = last [?c + 1 .. ?c + ?n]"
    using assms(2) unfolding assms(4)[symmetric] by (simp add: last_map)
  also have "\<dots> = ?c + ?n"
  proof -
    have "[?c + 1 .. ?c + ?n] = [?c + 1 .. ?c + ?n - 1] @ [?c + ?n]"
      using assms(2) by (intro upto_rec2) (simp add: Suc_le_eq)
    then show ?thesis by simp
  qed
  finally have "ao_attempt_count out = ?c + ?n" using assms(5) by simp
  moreover have "[1..?c] @ [?c + 1 .. ?c + ?n] = [1 .. ?c + ?n]"
    using assms(3) by (cases "?c = 0") (simp_all add: upto_split2[symmetric])
  ultimately have "map aa_attempt_number (h @ as) = [1 .. ao_attempt_count out]"
    using assms(1,4) by (simp add: target_history_def)
  then show ?thesis
    using assms(2,6-8) by (simp add: target_history_def project_outcome_def)
qed

lemma recording_inv:
  assumes inv: "run_inv sha db" and rec: "recording db t as out db2 db'"
  shows "run_inv sha db'"
    and "\<exists>g. db' = db2\<lparr>db_targets := map (\<lambda>u. if u = t then project_outcome out t else u) (db_targets db),
      db_operations := map g (db_operations db)\<rparr>
      \<and> (\<forall>o1 \<in> set (db_operations db). os_attempt_count o1 \<noteq> 0 \<longrightarrow> g o1 = o1)"
proof -
  note r = rec[unfolded recording_def]
  obtain rs where db2: "db2 = db\<lparr>db_attempts := db_attempts db @ as, db_resolutions := db_resolutions db @ rs\<rparr>" using r by blast
  have ok: "db_ok db" "targets_ok db" "operations_ok sha db" using inv by (simp_all add: run_inv_def)
  have ok2: "db_ok db2" and ops2: "operations_ok sha db2" using r ok
    by (simp_all add: operations_ok_def op_attempts_of_def db2)
  have t2: "t \<in> set (db_targets db2)" and up: "update_target db2 out = Inr db'" and tid: "ts_target_id t = ao_target_id out"
    and ex: "ts_executable t" using r by (simp_all add: db2)
  obtain g where g: "db' = db2\<lparr>db_targets := map (\<lambda>u. if u = t then project_outcome out t else u) (db_targets db2),
      db_operations := map g (db_operations db2)\<rparr>" "db_ok db'"
    "\<And>o1 u. o1 \<in> set (db_operations db2) \<Longrightarrow> u \<in> set (db_targets db') \<Longrightarrow> ts_target_id u = os_target_id o1 \<Longrightarrow>
       g o1 = (if waiting (ts_target_id t) o1 \<and> os_status o1 \<in> {''pending'', ''blocked''}
         then set_readiness (target_ready (ts_outcome u) (ts_selected_body_relative_path u)) o1 else o1)"
    by (rule update_target_Inr[OF up ok2 t2 tid ex]) (rule that; assumption)
  have hist: "target_history (attempts_of db' (ts_target_id u)) u" if u: "u \<in> set (db_targets db')" for u
  proof -
    obtain v where v: "v \<in> set (db_targets db)" "u = (if v = t then project_outcome out t else v)"
      using u by (auto simp: g(1) db2)
    have old: "target_history (attempts_of db (ts_target_id v)) v" using ok(2) v(1) by (simp add: targets_ok_def)
    have att: "attempts_of db' (ts_target_id u) = attempts_of db (ts_target_id v) @ filter (\<lambda>a. aa_target_id a = ts_target_id v) as"
      using v(2) by (simp add: attempts_of_def g(1) db2)
    show ?thesis
    proof (cases "v = t")
      case True
      have "0 \<le> ts_attempt_count t" using ok(1) r by (auto simp: db_ok_defs target_check_def)
      then have "target_history (attempts_of db (ts_target_id v) @ as) (project_outcome out t)"
        using old r True by (intro target_history_extend) simp_all
      moreover have "filter (\<lambda>a. aa_target_id a = ts_target_id v) as = as" using r True by simp
      moreover have "u = project_outcome out t" using v(2) True by simp
      ultimately show ?thesis using att by simp
    next
      case False
      then have "ts_target_id v \<noteq> ts_target_id t"
        using ok(1) r v(1) distinct_key_eq[of ts_target_id "db_targets db" v t] by (auto simp: db_ok_defs)
      then have "filter (\<lambda>a. aa_target_id a = ts_target_id v) as = []" using r by (auto simp: filter_empty_conv)
      then show ?thesis using old False att v(2) by simp
    qed
  qed
  have "operations_ok sha db'"
    by (rule operations_ok_update[OF ops2 ok2 t2 _ g(1)]) (use r g(3) in simp_all)
  then show "run_inv sha db'" using g(2) hist by (simp add: run_inv_def targets_ok_def)
  have "g o1 = o1" if o1: "o1 \<in> set (db_operations db)" "os_attempt_count o1 \<noteq> 0" for o1
  proof -
    have "has_target db (os_target_id o1)" using ok(1) o1(1) by (auto simp: db_ok_defs)
    then obtain v where "v \<in> set (db_targets db)" "ts_target_id v = os_target_id o1" by (auto simp: has_target_def)
    then have "(if v = t then project_outcome out t else v) \<in> set (db_targets db')"
      "ts_target_id (if v = t then project_outcome out t else v) = os_target_id o1" by (auto simp: g(1) db2)
    from g(3)[OF _ this] o1 show ?thesis by (simp add: db2 waiting_def)
  qed
  then show "\<exists>g. db' = db2\<lparr>db_targets := map (\<lambda>u. if u = t then project_outcome out t else u) (db_targets db),
      db_operations := map g (db_operations db)\<rparr>
      \<and> (\<forall>o1 \<in> set (db_operations db). os_attempt_count o1 \<noteq> 0 \<longrightarrow> g o1 = o1)"
    using g(1) by (intro exI[of _ g]) (simp add: db2)
qed

section \<open>The calls\<close>

lemma append_attempt_recording:
  assumes "append_attempt_and_update_target db a out = Inr db'"
  shows "\<exists>t db2. recording db t [a] out db2 db' \<and> tbl_lookup ts_target_id (ao_target_id out) (db_targets db) = Some t"
proof -
  obtain t db2 where t: "tbl_lookup ts_target_id (aa_target_id a) (db_targets db) = Some t" "aa_target_id a = ao_target_id out"
    "ts_executable t" "eligible t" "aa_attempt_number a = ts_attempt_count t + 1" "ao_attempt_count out = aa_attempt_number a"
    "ao_last_attempt_id out = Some (aa_attempt_id a)" "ao_source out = Some (aa_source a)" "ao_retryable out = aa_retryable a"
    and ins: "insert_attempt db a = Inr db2" and up: "update_target db2 out = Inr db'"
    using assms
    by (auto simp: append_attempt_and_update_target_def bind_res_Inr_iff attempt_values_def split: if_splits option.splits)
  note new = insert_attempt_Inr[OF ins] and row = tbl_lookup_SomeD[OF t(1)]
  have "recording db t [a] out db2 db'"
    unfolding recording_def using t row new(2) up
    by (auto simp: new(1) intro!: exI[of _ "[]"])
  then show ?thesis using t(1,2) by auto
qed

lemma mapM_attempt_values: "mapM attempt_values as = Inr vs \<Longrightarrow> vs = as"
  by (induction as arbitrary: vs) (auto simp: bind_res_Inr_iff attempt_values_def)

lemma commit_attempts_recording:
  assumes "commit_attempts_and_update_target db as out resolution recorded = Inr db'"
  shows "\<exists>t db2. recording db t as out db2 db' \<and> tbl_lookup ts_target_id (ao_target_id out) (db_targets db) = Some t"
proof -
  obtain t db1 db2 where t: "tbl_lookup ts_target_id (ao_target_id out) (db_targets db) = Some t"
    "ts_executable t" "eligible t" "as \<noteq> []" "\<not> list_ex (\<lambda>a. aa_target_id a \<noteq> ao_target_id out) as"
    "map aa_attempt_number as = [ts_attempt_count t + 1 .. ts_attempt_count t + int (length as)]"
    "ao_attempt_count out = aa_attempt_number (last as)" "ao_last_attempt_id out = Some (aa_attempt_id (last as))"
    "ao_source out = Some (aa_source (last as))" "ao_retryable out = aa_retryable (last as)"
    and ins: "insert_attempts db as = Inr db1"
    and res: "(case resolution of None \<Rightarrow> Inr db1 | Some r \<Rightarrow> store_resolution db1 out r) = Inr db2"
    and up: "update_target db2 out = Inr db'"
    using assms unfolding commit_attempts_and_update_target_def Let_def bind_res_Inr_iff
    by (auto split: if_splits option.split_asm simp: bind_res_Inr_iff dest!: mapM_attempt_values)
  note new = insert_attempts_Inr[OF ins] and row = tbl_lookup_SomeD[OF t(1)]
  have "\<exists>rs. db2 = db1\<lparr>db_resolutions := db_resolutions db1 @ rs\<rparr> \<and> (db_ok db1 \<longrightarrow> db_ok db2)"
  proof (cases resolution)
    case None
    then show ?thesis using res by (intro exI[of _ "[]"]) simp
  next
    case (Some r)
    then have "insert_resolution db1 r = Inr db2"
      using res by (auto simp: store_resolution_def bind_res_Inr_iff split: if_splits)
    from insert_resolution_Inr[OF this] show ?thesis by auto
  qed
  then obtain rs where "db2 = db1\<lparr>db_resolutions := db_resolutions db1 @ rs\<rparr>" "db_ok db1 \<longrightarrow> db_ok db2" by blast
  then have "recording db t as out db2 db'"
    unfolding recording_def using t row new up by (auto simp: list_ex_iff intro!: exI[of _ rs])
  then show ?thesis using t(1) by auto
qed

lemma append_resolution_inv:
  assumes "run_inv sha db" "append_target_slot_resolution db r recorded = Inr db'"
  shows "run_inv sha db'" "db' = db\<lparr>db_resolutions := db_resolutions db @ [r]\<rparr>"
proof -
  have ins: "insert_resolution db r = Inr db'"
    using assms(2) by (auto simp: append_target_slot_resolution_def bind_res_Inr_iff split: if_splits)
  note new = insert_resolution_Inr[OF ins]
  show "db' = db\<lparr>db_resolutions := db_resolutions db @ [r]\<rparr>" by (rule new(1))
  have "db_ok db'" using assms(1) new(2) by (simp add: run_inv_def)
  with assms(1) show "run_inv sha db'"
    by (simp add: run_inv_def targets_ok_def operations_ok_def attempts_of_def op_attempts_of_def new(1))
qed

lemma append_operation_attempt_Inr:
  assumes "append_operation_attempt sha db a = Inr db'" "db_ok db"
  obtains row where "row \<in> set (db_operations db)" "os_operation_id row = oa_operation_id a" "os_requested row" "os_selected row"
    "os_support_status row = ''supported''" "oa_attempt_number a = os_attempt_count row + 1"
    "os_status row = ''pending'' \<or> os_status row = ''failed'' \<and> os_retryable row" "oa_outcome a \<in> {''succeeded'', ''failed''}"
    "db' = db\<lparr>db_operation_attempts := db_operation_attempts db @ [a],
       db_operations := map (\<lambda>o1. if o1 = row then record_operation_attempt a row else o1) (db_operations db)\<rparr>" "db_ok db'"
proof -
  obtain row history ops n where row: "tbl_lookup os_operation_id (oa_operation_id a) (db_operations db) = Some row"
    "os_requested row" "os_selected row" "os_support_status row = ''supported''" "oa_attempt_number a = os_attempt_count row + 1"
    "os_status row = ''pending'' \<or> os_status row = ''failed'' \<and> os_retryable row" "valid_operation_attempt sha a"
    and ins: "sql_insert operation_attempt_check oa_attempt_id (\<lambda>x. (oa_operation_id x, oa_attempt_number x))
       (\<lambda>x. oa_operation_id x \<in> set (map os_operation_id (db_operations db))) a (db_operation_attempts db) = Inr history"
    and up: "sql_update operation_check (\<lambda>o1. os_operation_id o1 = oa_operation_id a) (record_operation_attempt a)
       (db_operations db) = Inr (ops, n)"
    and db': "db' = db\<lparr>db_operation_attempts := history, db_operations := ops\<rparr>"
    using assms(1) unfolding append_operation_attempt_def bind_res_Inr_iff
    by (auto split: if_splits option.split_asm simp: bind_res_Inr_iff)
  have mem: "row \<in> set (db_operations db)" "os_operation_id row = oa_operation_id a"
    using tbl_lookup_SomeD[OF row(1)] by auto
  have uniq: "os_operation_id o1 = oa_operation_id a \<longleftrightarrow> o1 = row" if "o1 \<in> set (db_operations db)" for o1
    using that assms(2) mem distinct_key_eq[of os_operation_id "db_operations db" o1 row] by (auto simp: db_ok_defs)
  have ops: "ops = map (\<lambda>o1. if o1 = row then record_operation_attempt a row else o1) (db_operations db)"
    and chk: "operation_check (record_operation_attempt a row)"
    using up uniq mem(1) unfolding sql_update_Inr by auto
  have hist: "history = db_operation_attempts db @ [a]" "operation_attempt_check a"
    "oa_attempt_id a \<notin> oa_attempt_id ` set (db_operation_attempts db)"
    "(oa_operation_id a, oa_attempt_number a) \<notin> (\<lambda>x. (oa_operation_id x, oa_attempt_number x)) ` set (db_operation_attempts db)"
    "oa_operation_id a \<in> os_operation_id ` set (db_operations db)"
    using ins by (auto simp: sql_insert_Inr)
  have mid: "db_ok (db\<lparr>db_operation_attempts := history\<rparr>)"
    using assms(2) hist unfolding db_ok_defs by simp
  have "db_ok (db\<lparr>db_operation_attempts := history\<rparr>\<lparr>db_operations := ops\<rparr>)"
    using mid chk assms(2) by (intro update_operations_ok) (auto simp: ops db_ok_defs record_operation_attempt_def)
  then show thesis using that[of row] mem row hist(1) ops db' by (simp add: valid_operation_attempt_def)
qed

lemma operation_pending_ready:
  assumes "operation_history t history o1" "operation_check o1"
    and "os_requested o1" "os_selected o1" "os_support_status o1 = ''supported''"
    and "os_status o1 = ''pending'' \<or> os_status o1 = ''failed'' \<and> os_retryable o1"
  shows "target_ready (ts_outcome t) (ts_selected_body_relative_path t)"
proof (cases "history = []")
  case True
  then have "\<not> os_retryable o1" "os_status o1 = expected_status o1 t" using assms(1) by (simp_all add: operation_history_def)
  then show ?thesis using assms(3-6) by (auto simp: expected_status_def target_ready_def split: if_splits)
next
  case False
  then show ?thesis using assms(1) by (simp add: operation_history_def)
qed

lemma operation_history_extend:
  assumes "operation_history t history o1" "operation_check o1"
    and "os_requested o1" "os_selected o1" "os_support_status o1 = ''supported''"
    and "os_status o1 = ''pending'' \<or> os_status o1 = ''failed'' \<and> os_retryable o1"
    and "oa_attempt_number a = os_attempt_count o1 + 1" "oa_outcome a \<in> {''succeeded'', ''failed''}"
  shows "operation_history t (history @ [a]) (record_operation_attempt a o1)"
proof -
  have "0 \<le> os_attempt_count o1" using assms(2) by (simp add: operation_check_def)
  then have "[1 .. os_attempt_count o1 + 1] = [1 .. os_attempt_count o1] @ [os_attempt_count o1 + 1]"
    using upto_rec2[of 1 "os_attempt_count o1 + 1"] by simp
  then show ?thesis
    using assms operation_pending_ready[OF assms(1-6)]
    by (auto simp: operation_history_def record_operation_attempt_def)
qed

lemma append_operation_attempt_inv:
  assumes inv: "run_inv sha db" and app: "append_operation_attempt sha db a = Inr db'"
  shows "run_inv sha db'"
proof -
  have ok: "db_ok db" "targets_ok db" "operations_ok sha db" using inv by (simp_all add: run_inv_def)
  obtain row where row: "row \<in> set (db_operations db)" "os_operation_id row = oa_operation_id a" "os_requested row" "os_selected row"
    "os_support_status row = ''supported''" "oa_attempt_number a = os_attempt_count row + 1"
    "os_status row = ''pending'' \<or> os_status row = ''failed'' \<and> os_retryable row" "oa_outcome a \<in> {''succeeded'', ''failed''}"
    and db': "db' = db\<lparr>db_operation_attempts := db_operation_attempts db @ [a],
       db_operations := map (\<lambda>o1. if o1 = row then record_operation_attempt a row else o1) (db_operations db)\<rparr>" "db_ok db'"
    by (rule append_operation_attempt_Inr[OF app ok(1)])
  have chk: "operation_check row" using ok(1) row(1) by (auto simp: db_ok_defs)
  have same: "op_attempts_of db' oid = op_attempts_of db oid @ (if oid = oa_operation_id a then [a] else [])" for oid
    by (simp add: op_attempts_of_def db')
  have "operations_ok sha db'"
    unfolding operations_ok_def
  proof
    fix o2 assume "o2 \<in> set (db_operations db')"
    then obtain o1 where o1: "o1 \<in> set (db_operations db)" "o2 = (if o1 = row then record_operation_attempt a row else o1)"
      by (auto simp: db')
    have old: "operation_id_ok sha o1" "\<forall>t \<in> set (db_targets db). ts_target_id t = os_target_id o1 \<longrightarrow>
        operation_history t (op_attempts_of db (os_operation_id o1)) o1"
      using ok(3) o1(1) by (simp_all add: operations_ok_def)
    show "operation_id_ok sha o2 \<and> (\<forall>t \<in> set (db_targets db'). ts_target_id t = os_target_id o2 \<longrightarrow>
        operation_history t (op_attempts_of db' (os_operation_id o2)) o2)"
    proof (cases "o1 = row")
      case True
      then have o2: "o2 = record_operation_attempt a row" using o1(2) by simp
      have "operation_id_ok sha o2" using old(1) True unfolding o2 operation_id_ok_def record_operation_attempt_def by simp
      moreover have "operation_history t (op_attempts_of db (oa_operation_id a) @ [a]) o2"
        if "t \<in> set (db_targets db)" "ts_target_id t = os_target_id row" for t
        unfolding o2 using old(2) that True row(2) by (intro operation_history_extend chk row) auto
      moreover have "os_operation_id o2 = oa_operation_id a" "os_target_id o2 = os_target_id row"
        unfolding o2 record_operation_attempt_def using row(2) by simp_all
      moreover have "db_targets db' = db_targets db" by (simp add: db')
      ultimately show ?thesis by (simp add: same)
    next
      case False
      then have "os_operation_id o1 \<noteq> oa_operation_id a"
        using ok(1) o1(1) row(1,2) distinct_key_eq[of os_operation_id "db_operations db" o1 row] by (auto simp: db_ok_defs)
      then show ?thesis using False o1(2) old by (simp add: same) (simp add: db')
    qed
  qed
  moreover have "targets_ok db'" using ok(2) by (simp add: targets_ok_def attempts_of_def db')
  ultimately show ?thesis using db'(2) by (simp add: run_inv_def)
qed

section \<open>Initialisation\<close>

definition unattempted :: "run_db \<Rightarrow> bool" where
  "unattempted db \<longleftrightarrow> (\<forall>t \<in> set (db_targets db). ts_attempt_count t = 0)"

lemma unattempted_not_ready:
  assumes "run_inv sha db" "unattempted db" "t \<in> set (db_targets db)"
  shows "\<not> target_ready (ts_outcome t) path"
proof -
  have "target_history (attempts_of db (ts_target_id t)) t" "ts_attempt_count t = 0"
    using assms by (simp_all add: run_inv_def targets_ok_def unattempted_def)
  then show ?thesis by (auto simp: target_history_def target_ready_def)
qed

lemma target_seed_Inr:
  "target_seed d = Inr seed \<Longrightarrow> ts_attempt_count (new_target seed) = 0 \<and> target_history [] (new_target seed)"
  by (auto simp: target_seed_def new_target_def target_history_def Let_def split: option.split_asm if_splits)

lemma seed_targets_inv:
  "seed_targets db ts = Inr db' \<Longrightarrow> run_inv sha db \<Longrightarrow> unattempted db \<Longrightarrow> run_inv sha db' \<and> unattempted db'"
proof (induction ts arbitrary: db)
  case Nil
  then show ?case by simp
next
  case (Cons d ts)
  obtain seed rows where seed: "target_seed d = Inr seed"
    and ins: "sql_insert target_check ts_target_id ts_target_id (\<lambda>_. True) (new_target seed) (db_targets db) = Inr rows"
    and rest: "seed_targets (db\<lparr>db_targets := rows\<rparr>) ts = Inr db'"
    using Cons.prems(1) by (auto simp: bind_res_Inr_iff)
  let ?t = "new_target seed" and ?db = "db\<lparr>db_targets := rows\<rparr>"
  have rows: "rows = db_targets db @ [?t]" "target_check ?t" "ts_target_id ?t \<notin> ts_target_id ` set (db_targets db)"
    using ins by (simp_all add: sql_insert_Inr)
  have ok: "db_ok db" "targets_ok db" "operations_ok sha db" using Cons.prems(2) by (simp_all add: run_inv_def)
  have "\<forall>a \<in> set (db_attempts db). aa_target_id a \<in> ts_target_id ` set (db_targets db)"
    and fk: "\<forall>o1 \<in> set (db_operations db). os_target_id o1 \<in> ts_target_id ` set (db_targets db)"
    using ok(1) by (auto simp: db_ok_defs)
  then have none: "attempts_of db (ts_target_id ?t) = []"
    using rows(3) unfolding attempts_of_def filter_empty_conv by metis
  have "db_ok ?db" using ok(1) rows unfolding db_ok_defs by auto
  moreover have "targets_ok ?db"
    using ok(2) none target_seed_Inr[OF seed] by (auto simp: targets_ok_def attempts_of_def rows(1))
  moreover have "operations_ok sha ?db"
  proof -
    have "ts_target_id ?t \<noteq> os_target_id o1" if "o1 \<in> set (db_operations db)" for o1
      using fk that rows(3) by metis
    then show ?thesis using ok(3) by (simp add: operations_ok_def op_attempts_of_def rows(1))
  qed
  moreover have "unattempted ?db"
    using Cons.prems(3) target_seed_Inr[OF seed] by (auto simp: unattempted_def rows(1))
  ultimately show ?case using Cons.IH[OF rest] by (simp add: run_inv_def)
qed

lemma is_text_JStr: "is_text v \<Longrightarrow> JStr (the_text v) = v"
  by (cases v) auto

lemma operation_seed_Inr:
  assumes "operation_seed sha d = Inr row"
  shows "operation_id_ok sha row"
    and "\<not> target_ready (ts_outcome t) (ts_selected_body_relative_path t) \<Longrightarrow> operation_history t [] row"
proof -
  define v where "v name = the (map_of d name)" for name
  obtain source where intent: "seed_intent sha v = Inr ()" and row: "row = seed_row v source"
    using assms unfolding operation_seed_def Let_def v_def bind_res_Inr_iff
    by (auto split: option.split_asm if_splits simp: bind_res_Inr_iff)
  have ids: "list_all is_text [v ''operation_id'', v ''target_id'', v ''operation'']"
    "the_text (v ''operation_id'') = canonical_hash sha (JList [v ''target_id'', v ''operation''])"
    using intent unfolding seed_intent_def Let_def by (simp_all split: if_splits)
  then show "operation_id_ok sha row"
    unfolding row seed_row_def Let_def operation_id_ok_def by (simp add: is_text_JStr)
  show "operation_history t [] row" if "\<not> target_ready (ts_outcome t) (ts_selected_body_relative_path t)"
    using that unfolding row seed_row_def Let_def operation_history_def
    by (auto simp: expected_status_def expected_error_def seed_status_def seed_error_def target_ready_def)
qed

lemma seed_operation_state_inv:
  "seed_operation_state sha db ds = Inr db' \<Longrightarrow> run_inv sha db \<Longrightarrow> unattempted db \<Longrightarrow> run_inv sha db' \<and> unattempted db'"
proof (induction ds arbitrary: db)
  case Nil
  then show ?case by simp
next
  case (Cons d ds)
  obtain row db1 where seed: "operation_seed sha d = Inr row" and ins: "insert_operation db row = Inr db1"
    and rest: "seed_operation_state sha db1 ds = Inr db'"
    using Cons.prems(1) by (auto simp: bind_res_Inr_iff)
  note new = insert_operation_Inr[OF ins]
  have ok: "db_ok db" "targets_ok db" "operations_ok sha db" using Cons.prems(2) by (simp_all add: run_inv_def)
  have "\<forall>a \<in> set (db_operation_attempts db). oa_operation_id a \<in> os_operation_id ` set (db_operations db)"
    using ok(1) by (auto simp: db_ok_defs)
  then have none: "op_attempts_of db1 (os_operation_id row) = []"
    using new(3) unfolding op_attempts_of_def new(1) filter_empty_conv by simp metis
  have "operations_ok sha db1"
    using ok(3) none operation_seed_Inr[OF seed] unattempted_not_ready[OF Cons.prems(2,3)]
    by (auto simp: operations_ok_def op_attempts_of_def new(1))
  moreover have "targets_ok db1" "unattempted db1"
    using ok(2) Cons.prems(3) by (simp_all add: targets_ok_def attempts_of_def unattempted_def new(1))
  ultimately show ?case using Cons.IH[OF rest] new(2) ok(1) by (simp add: run_inv_def)
qed

lemma initialize_run_state_inv:
  assumes "initialize_run_state sha empty_db targets operations = Inr db"
  shows "run_inv sha db" "unattempted db"
proof -
  let ?db0 = "empty_db\<lparr>db_version := SCHEMA_VERSION, db_tables := True\<rparr>"
  obtain db2 where "seed_targets ?db0 targets = Inr db2" "seed_operation_state sha db2 operations = Inr db"
    using assms by (auto simp: initialize_run_state_def create_schema_def bind_res_Inr_iff empty_db_def SCHEMA_VERSION_def)
  moreover have "run_inv sha ?db0" "unattempted ?db0"
    by (simp_all add: run_inv_def db_ok_defs targets_ok_def operations_ok_def unattempted_def empty_db_def)
  ultimately show "run_inv sha db" "unattempted db"
    using seed_targets_inv seed_operation_state_inv by blast+
qed

end
