(* ===== verification/RunState.thy ===== *)
theory RunState
  imports RunInvariant
begin

text \<open>
  Runs of the store: any sequence of recording calls on a freshly initialised database. Histories are
  complete and append-only, every reachable database passes its own validation, and exactly the
  selected targets accept another attempt.
\<close>

section \<open>The store as a machine\<close>

datatype run_call =
    AppendAttempt acquisition_attempt acquisition_outcome
  | CommitAttempts "acquisition_attempt list" acquisition_outcome "target_slot_resolution option" "string option"
  | AppendResolution target_slot_resolution string
  | AppendOperationAttempt operation_attempt

fun run_call_result :: "(string \<Rightarrow> string) \<Rightarrow> run_db \<Rightarrow> run_call \<Rightarrow> (run_error, run_db) result" where
  "run_call_result sha db (AppendAttempt a out) = append_attempt_and_update_target db a out"
| "run_call_result sha db (CommitAttempts as out r recorded) = commit_attempts_and_update_target db as out r recorded"
| "run_call_result sha db (AppendResolution r recorded) = append_target_slot_resolution db r recorded"
| "run_call_result sha db (AppendOperationAttempt a) = append_operation_attempt sha db a"

definition run_step :: "(string \<Rightarrow> string) \<Rightarrow> run_db \<Rightarrow> run_call \<Rightarrow> run_db" where
  "run_step sha db c = (case run_call_result sha db c of Inl _ \<Rightarrow> db | Inr db' \<Rightarrow> db')"

lemma run_call_inv:
  assumes "run_inv sha db" "run_call_result sha db c = Inr db'"
  shows "run_inv sha db'"
proof (cases c)
  case (AppendAttempt a out)
  then show ?thesis using assms recording_inv(1) append_attempt_recording by (metis run_call_result.simps(1))
next
  case (CommitAttempts as out r recorded)
  then show ?thesis using assms recording_inv(1) commit_attempts_recording by (metis run_call_result.simps(2))
next
  case (AppendResolution r recorded)
  then show ?thesis using assms append_resolution_inv(1) by simp
next
  case (AppendOperationAttempt a)
  then show ?thesis using assms append_operation_attempt_inv by simp
qed

interpretation run_machine: event_machine "run_step sha" "run_inv sha" for sha
  by unfold_locales (auto simp: run_step_def intro: run_call_inv split: sum.splits)

section \<open>Histories\<close>

lemma sort_key_map_upto: "map f xs = [a..b] \<Longrightarrow> sort_key f xs = xs"
  by (metis sort_key_id_if_sorted sorted_upto)

lemma run_inv_lookup:
  assumes "run_inv sha db" "get_target_state db tid = Inr (Some t)"
  shows "t \<in> set (db_targets db)" "ts_target_id t = tid" "target_history (attempts_of db tid) t"
    "list_target_attempts db tid = Inr (attempts_of db tid)"
proof -
  have "tbl_lookup ts_target_id tid (db_targets db) = Some t"
    using assms(2) by (auto simp: get_target_state_def bind_res_Inr_iff)
  from tbl_lookup_SomeD[OF this] show t: "t \<in> set (db_targets db)" "ts_target_id t = tid" by auto
  then show hist: "target_history (attempts_of db tid) t" using assms(1) by (auto simp: run_inv_def targets_ok_def)
  then have "sort_key aa_attempt_number (attempts_of db tid) = attempts_of db tid"
    by (auto simp: target_history_def intro: sort_key_map_upto)
  then show "list_target_attempts db tid = Inr (attempts_of db tid)"
    using assms(1) by (simp add: list_target_attempts_def require_schema_def run_inv_def db_ok_def attempts_of_def)
qed

text \<open>
  C17. The attempt history of a target is complete: after any calls on a fresh run, the attempts listed
  for a target are numbered 1, 2, ... up to its attempt count, and its row names the last of them with
  its source and retry flag; a target without attempts is pending or skipped.
\<close>

theorem run_history_complete:
  assumes "initialize_run_state sha empty_db targets operations = Inr db0"
    and "db = foldl (run_step sha) db0 calls" "get_target_state db tid = Inr (Some t)"
  shows "\<exists>history. list_target_attempts db tid = Inr history
    \<and> map aa_attempt_number history = [1..ts_attempt_count t]
    \<and> (if history = [] then ts_last_attempt_id t = None \<and> ts_outcome t \<in> {''pending'', ''skipped''}
       else ts_last_attempt_id t = Some (aa_attempt_id (last history)) \<and> ts_source t = Some (aa_source (last history))
         \<and> ts_retryable t = aa_retryable (last history))"
proof -
  have "run_inv sha db" using assms(1,2) run_machine.inv_run initialize_run_state_inv(1) by blast
  from run_inv_lookup(3,4)[OF this assms(3)] show ?thesis unfolding target_history_def by blast
qed

section \<open>Validation\<close>

lemma operation_history_no_mismatch:
  assumes "operation_history t history o1" "operation_check o1"
    and "latest \<in> set (left_join (filter (\<lambda>a. oa_attempt_number a = os_attempt_count o1) history))"
  shows "\<not> history_mismatch o1 t history latest"
proof (cases "history = []")
  case True
  then show ?thesis using assms by (auto simp: operation_history_def history_mismatch_def operation_check_def upto_Nil_count)
next
  case False
  let ?c = "os_attempt_count o1"
  have nums: "map oa_attempt_number history = [1..?c]" using assms(1) by (simp add: operation_history_def)
  have pos: "1 \<le> ?c" using False nums by (metis map_is_Nil_conv upto_empty not_le)
  have len: "int (length history) = ?c" using arg_cong[OF nums, of length] pos by simp
  have rng: "set (map oa_attempt_number history) = {1..?c}" using nums by simp
  have mm: "Min {1..?c} = 1" "Max {1..?c} = ?c"
    using pos by (auto intro!: Min_eqI Max_eqI)
  have lst: "oa_attempt_number (last history) = ?c"
  proof -
    have "oa_attempt_number (last history) = last [1..?c]" using False nums by (metis last_map)
    then show ?thesis using pos upto_rec2[of 1 ?c] by simp
  qed
  have dist: "distinct (map oa_attempt_number history)" using nums by simp
  have latest: "latest = Some (last history)"
  proof -
    have "filter (\<lambda>a. oa_attempt_number a = ?c) history = filter (\<lambda>a. a = last history) history"
      using distinct_key_eq[OF dist _ last_in_set[OF False]] lst by (intro filter_cong) auto
    also have "\<dots> = [last history]"
      using dist last_in_set[OF False] by (intro filter_eq_single) (auto simp: distinct_map)
    finally show ?thesis using assms(3) by (simp add: left_join_def)
  qed
  show ?thesis
    using assms(1) False pos len mm unfolding history_mismatch_def rng latest operation_history_def by simp
qed

lemma run_inv_validates:
  assumes "run_inv sha db"
  shows "validate_run_state sha db = Inr ()"
proof -
  have ok: "db_ok db" "operations_ok sha db" using assms by (simp_all add: run_inv_def)
  have "\<not> operation_mismatches db o1" if o1: "o1 \<in> set (db_operations db)" for o1
  proof -
    have "operation_check o1" using ok(1) o1 by (auto simp: db_ok_defs)
    moreover have "operation_history t (op_attempts_of db (os_operation_id o1)) o1"
      if "t \<in> set (db_targets db)" "ts_target_id t = os_target_id o1" for t
      using ok(2) o1 that by (simp add: operations_ok_def)
    ultimately show ?thesis
      using operation_history_no_mismatch unfolding operation_mismatches_def Let_def list_ex_iff op_attempts_of_def by auto
  qed
  then have "\<not> list_ex (operation_mismatches db) (db_operations db)" by (simp add: list_ex_iff)
  moreover have "\<not> list_ex (\<lambda>o1. os_operation_id o1 \<noteq> canonical_hash sha (JList [JStr (os_target_id o1), JStr (os_operation o1)]))
      (db_operations db)"
    using ok(2) by (auto simp: operations_ok_def operation_id_ok_def list_ex_iff)
  ultimately show ?thesis
    using ok(1) by (simp add: validate_run_state_def validate_readonly_def validate_operation_state_def db_ok_def require_schema_def)
qed

text \<open>
  C18. A run never invalidates itself: the database of a freshly initialised run passes its validation
  (constraints, foreign keys, agreement of every operation with its attempts and its target, operation
  identities) after any sequence of calls, in whatever order they come and whichever of them fail.
\<close>

theorem run_state_always_valid:
  assumes "initialize_run_state sha empty_db targets operations = Inr db0"
  shows "validate_run_state sha (foldl (run_step sha) db0 calls) = Inr ()"
  by (rule run_inv_validates[OF run_machine.inv_run[OF initialize_run_state_inv(1)[OF assms]]])

section \<open>Append-only records\<close>

text \<open>What later states keep: recorded rows stay, and rows that no call may change stay as they are.\<close>

definition finished_operation :: "operation_state \<Rightarrow> bool" where
  "finished_operation o1 \<longleftrightarrow> os_status o1 = ''succeeded'' \<or> os_status o1 = ''failed'' \<and> \<not> os_retryable o1"

definition run_extends :: "run_db \<Rightarrow> run_db \<Rightarrow> bool" where
  "run_extends db db' \<longleftrightarrow>
     (\<exists>as rs os. db_attempts db' = db_attempts db @ as \<and> db_resolutions db' = db_resolutions db @ rs
        \<and> db_operation_attempts db' = db_operation_attempts db @ os)
     \<and> map ts_target_id (db_targets db') = map ts_target_id (db_targets db)
     \<and> (\<forall>t \<in> set (db_targets db). \<not> eligible t \<longrightarrow> t \<in> set (db_targets db'))
     \<and> (\<forall>o1 \<in> set (db_operations db). finished_operation o1 \<longrightarrow> o1 \<in> set (db_operations db'))"

lemma run_extends_refl: "run_extends db db"
  by (simp add: run_extends_def)

lemma run_extends_trans: "run_extends s t \<Longrightarrow> run_extends t u \<Longrightarrow> run_extends s u"
  unfolding run_extends_def by (elim conjE exE) (intro conjI; (fastforce | metis append_assoc))

lemma recording_extends:
  assumes inv: "run_inv sha db" and rec: "recording db t as out db2 db'"
  shows "run_extends db db'"
proof -
  obtain g rs where db': "db' = db2\<lparr>db_targets := map (\<lambda>u. if u = t then project_outcome out t else u) (db_targets db),
      db_operations := map g (db_operations db)\<rparr>"
    and keep: "\<forall>o1 \<in> set (db_operations db). os_attempt_count o1 \<noteq> 0 \<longrightarrow> g o1 = o1"
    and db2: "db2 = db\<lparr>db_attempts := db_attempts db @ as, db_resolutions := db_resolutions db @ rs\<rparr>"
    and t: "eligible t"
    using recording_inv(2)[OF assms] rec unfolding recording_def by blast
  have fin: "os_attempt_count o1 \<noteq> 0" if o1: "o1 \<in> set (db_operations db)" "finished_operation o1" for o1
  proof
    assume zero: "os_attempt_count o1 = 0"
    have "has_target db (os_target_id o1)" using inv o1(1) by (auto simp: run_inv_def db_ok_defs)
    then obtain u where "u \<in> set (db_targets db)" "ts_target_id u = os_target_id o1" by (auto simp: has_target_def)
    then have "operation_history u (op_attempts_of db (os_operation_id o1)) o1"
      using inv o1(1) by (simp add: run_inv_def operations_ok_def)
    then have "os_status o1 = expected_status o1 u" using zero by (simp add: operation_history_def)
    then show False using o1(2) by (auto simp: finished_operation_def expected_status_def split: if_splits)
  qed
  have "o1 \<in> set (db_operations db')" if "o1 \<in> set (db_operations db)" "finished_operation o1" for o1
    using that fin[OF that] keep by (auto simp: db' intro: rev_image_eqI)
  moreover have "u \<in> set (db_targets db')" if "u \<in> set (db_targets db)" "\<not> eligible u" for u
    using that t by (auto simp: db' intro: rev_image_eqI)
  moreover have "map ts_target_id (db_targets db') = map ts_target_id (db_targets db)" by (simp add: db')
  ultimately show ?thesis unfolding run_extends_def by (simp add: db' db2)
qed

lemma operation_attempt_extends:
  assumes "run_inv sha db" "append_operation_attempt sha db a = Inr db'"
  shows "run_extends db db'"
proof -
  have ok: "db_ok db" using assms(1) by (simp add: run_inv_def)
  obtain row where
    row: "os_status row = ''pending'' \<or> os_status row = ''failed'' \<and> os_retryable row"
    and db': "db' = db\<lparr>db_operation_attempts := db_operation_attempts db @ [a],
       db_operations := map (\<lambda>o1. if o1 = row then record_operation_attempt a row else o1) (db_operations db)\<rparr>"
    by (rule append_operation_attempt_Inr[OF assms(2) ok]) (rule that; assumption)
  have "\<not> finished_operation row" using row by (auto simp: finished_operation_def)
  then have "o1 \<in> set (db_operations db')" if "o1 \<in> set (db_operations db)" "finished_operation o1" for o1
    using that by (auto simp: db' intro: rev_image_eqI)
  then show ?thesis by (simp add: run_extends_def db')
qed

lemma run_step_extends:
  assumes "run_inv sha db"
  shows "run_extends db (run_step sha db c)"
proof (cases "run_call_result sha db c")
  case (Inl e)
  then show ?thesis by (simp add: run_step_def run_extends_refl)
next
  case (Inr db')
  have "run_extends db db'"
  proof (cases c)
    case (AppendAttempt a out)
    then show ?thesis using Inr assms recording_extends append_attempt_recording by (metis run_call_result.simps(1))
  next
    case (CommitAttempts as out r recorded)
    then show ?thesis using Inr assms recording_extends commit_attempts_recording by (metis run_call_result.simps(2))
  next
    case (AppendResolution r recorded)
    then show ?thesis using Inr append_resolution_inv(2)[OF assms, of r recorded db'] by (simp add: run_extends_def)
  next
    case (AppendOperationAttempt a)
    then show ?thesis using Inr operation_attempt_extends[OF assms] by simp
  qed
  then show ?thesis using Inr by (simp add: run_step_def)
qed

text \<open>
  C19. Records are append-only and final outcomes are final: whatever calls follow, recorded attempts,
  resolutions and operation attempts stay in place, the target list stays the same, a target that is
  neither pending nor a retryable failure keeps its row, and so does a succeeded or finally failed
  operation.
\<close>

theorem run_records_append_only:
  assumes "initialize_run_state sha empty_db targets operations = Inr db0"
    and "db = foldl (run_step sha) db0 calls" "db' = foldl (run_step sha) db calls'"
  shows "(\<exists>as rs os. db_attempts db' = db_attempts db @ as \<and> db_resolutions db' = db_resolutions db @ rs
        \<and> db_operation_attempts db' = db_operation_attempts db @ os)
     \<and> map ts_target_id (db_targets db') = map ts_target_id (db_targets db)
     \<and> (\<forall>t \<in> set (db_targets db). \<not> (ts_outcome t = ''pending'' \<or> ts_outcome t = ''failed'' \<and> ts_retryable t) \<longrightarrow>
          t \<in> set (db_targets db'))
     \<and> (\<forall>o1 \<in> set (db_operations db). os_status o1 = ''succeeded'' \<or> os_status o1 = ''failed'' \<and> \<not> os_retryable o1 \<longrightarrow>
          o1 \<in> set (db_operations db'))"
proof -
  have "run_inv sha db" using assms(1,2) run_machine.inv_run initialize_run_state_inv(1) by blast
  then have "run_extends db db'"
    unfolding assms(3) by (rule run_machine.rel_run) (rule run_extends_refl run_extends_trans run_step_extends; assumption)+
  then show ?thesis unfolding run_extends_def eligible_def finished_operation_def by blast
qed

section \<open>Which targets accept an attempt\<close>

lemma set_readiness_check:
  "operation_check o1 \<Longrightarrow> os_status o1 \<in> {''pending'', ''blocked''} \<Longrightarrow> operation_check (set_readiness ready o1)"
proof -
  assume chk: "operation_check o1" and st: "os_status o1 \<in> {''pending'', ''blocked''}"
  have "op_status_check o1" using chk unfolding operation_check_def by blast
  then have "os_requested o1 \<and> os_request_mode o1 \<noteq> ''not_requested'' \<and> os_support_status o1 = ''supported'' \<and> os_selected o1"
    using st unfolding op_status_check_def by (elim disjE conjE) simp_all
  then have "op_status_check (set_readiness ready o1)" by (simp add: op_status_check_def set_readiness_def)
  moreover have "op_support_check (set_readiness ready o1) = op_support_check o1"
    by (simp add: op_support_check_def op_pins_def set_readiness_def)
  ultimately show ?thesis
    using chk unfolding operation_check_def by (elim conjE, intro conjI) (simp_all add: set_readiness_def)
qed

lemma refresh_rows_total:
  "\<forall>o1 \<in> set ops. operation_check o1 \<Longrightarrow> \<exists>ops' n'. refresh_rows ops rows n = Inr (ops', n')"
proof (induction ops rows n rule: refresh_rows.induct)
  case (1 ops n)
  then show ?case by simp
next
  case (2 ops oid outcome path rows n)
  let ?w = "\<lambda>o1. os_operation_id o1 = oid \<and> os_status o1 \<in> {''pending'', ''blocked''}"
    and ?f = "set_readiness (target_ready outcome path)"
  let ?ops = "map (\<lambda>o1. if ?w o1 then ?f o1 else o1) ops"
  have "sql_update operation_check ?w ?f ops = Inr (?ops, length (filter ?w ops))"
    using 2(2) by (simp add: sql_update_Inr set_readiness_check)
  moreover have "\<exists>ops' n'. refresh_rows ?ops rows (n + length (filter ?w ops)) = Inr (ops', n')"
    using 2(2) by (intro 2(1)) (auto simp: set_readiness_check)
  ultimately show ?case by (simp del: map_map)
qed

lemma update_target_total:
  assumes "db_ok db" "t \<in> set (db_targets db)" "ts_target_id t = ao_target_id out" "ts_executable t"
    and "target_check (project_outcome out t)"
  shows "\<exists>db'. update_target db out = Inr db'"
proof -
  have uniq: "ts_target_id u = ao_target_id out \<and> ts_executable u \<longleftrightarrow> u = t" if "u \<in> set (db_targets db)" for u
    using that assms(1-4) distinct_key_eq[of ts_target_id "db_targets db" u t] by (auto simp: db_ok_defs)
  have "filter (\<lambda>u. ts_target_id u = ao_target_id out \<and> ts_executable u) (db_targets db) = filter (\<lambda>u. u = t) (db_targets db)"
    using uniq by (intro filter_cong) auto
  also have "\<dots> = [t]"
    using assms(1,2) by (intro filter_eq_single) (auto simp: db_ok_defs distinct_map)
  finally obtain rows where "sql_update target_check (\<lambda>t. ts_target_id t = ao_target_id out \<and> ts_executable t)
      (project_outcome out) (db_targets db) = Inr (rows, 1)"
    using uniq assms(5) by (auto simp: sql_update_Inr)
  moreover have "\<exists>db' n. refresh_operation_readiness (db\<lparr>db_targets := rows\<rparr>) (ao_target_id out) = Inr (db', n)"
  proof -
    have "\<forall>o1 \<in> set (db_operations db). operation_check o1" using assms(1) by (auto simp: db_ok_defs)
    from refresh_rows_total[OF this] show ?thesis by (fastforce simp: refresh_operation_readiness_def bind_res_Inr_iff)
  qed
  ultimately show ?thesis by (auto simp: update_target_def bind_res_Inr_iff)
qed

text \<open>The projection of an attempt on its target, as the runner computes it.\<close>

definition outcome_of :: "acquisition_attempt \<Rightarrow> acquisition_outcome" where
  "outcome_of a = \<lparr>ao_target_id = aa_target_id a, ao_source = Some (aa_source a), ao_status = aa_outcome a,
     ao_attempt_count = aa_attempt_number a, ao_last_attempt_id = Some (aa_attempt_id a), ao_error_code = aa_error_code a,
     ao_retryable = aa_retryable a, ao_source_sha256 = aa_source_sha256 a, ao_source_byte_size = aa_source_byte_size a,
     ao_source_body_relative_path = aa_source_body_relative_path a, ao_selected_sha256 = aa_selected_sha256 a,
     ao_selected_byte_size = aa_selected_byte_size a, ao_body_lifecycle = None,
     ao_selected_body_relative_path = aa_selected_body_relative_path a\<rparr>"

lemma outcome_of_check:
  assumes "attempt_check a" "target_check t" "eligible t"
  shows "target_check (project_outcome (outcome_of a) t)"
proof -
  have "aa_outcome a \<in> set OUTCOMES" "aa_outcome a \<noteq> ''skipped''" "aa_source a = ''live_sec'' \<or> aa_source a = ''fixture_replay''"
    using assms(1) by (auto simp: attempt_check_def OUTCOMES_def)
  moreover have "ts_executable t" "ts_skip_reason t = None"
    using assms(2,3) by (auto simp: target_check_def eligible_def)
  ultimately show ?thesis
    using assms(1) unfolding attempt_check_def target_check_def
    by (elim conjE, intro conjI) (simp_all add: project_outcome_def outcome_of_def)
qed

lemma next_attempt_fresh:
  assumes "target_history (attempts_of db tid) t" "aa_attempt_number a = ts_attempt_count t + 1" "aa_target_id a = tid"
  shows "(aa_target_id a, aa_attempt_number a) \<notin> (\<lambda>x. (aa_target_id x, aa_attempt_number x)) ` set (db_attempts db)"
proof
  assume "(aa_target_id a, aa_attempt_number a) \<in> (\<lambda>x. (aa_target_id x, aa_attempt_number x)) ` set (db_attempts db)"
  then have "aa_attempt_number a \<in> set (map aa_attempt_number (attempts_of db tid))"
    using assms(3) by (auto simp: attempts_of_def)
  then show False using assms(1,2) unfolding target_history_def by auto
qed

lemma eligible_target_accepts:
  assumes inv: "run_inv sha db" and get: "get_target_state db tid = Inr (Some t)" and el: "eligible t"
    and a: "aa_target_id a = tid" "attempt_check a" "aa_attempt_number a = ts_attempt_count t + 1"
      "url_ok (aa_requested_url a)" "null_or url_ok (aa_final_url a)" "aa_attempt_id a \<notin> aa_attempt_id ` set (db_attempts db)"
  shows "\<exists>db'. append_attempt_and_update_target db a (outcome_of a) = Inr db'"
proof -
  note t = run_inv_lookup[OF inv get]
  have look: "tbl_lookup ts_target_id (aa_target_id a) (db_targets db) = Some t"
    using get a(1) by (auto simp: get_target_state_def bind_res_Inr_iff)
  have ok: "db_ok db" and ver: "require_schema db = Inr ()"
    using inv by (simp_all add: run_inv_def db_ok_def require_schema_def)
  have chk: "target_check t" using ok t(1) by (auto simp: db_ok_defs)
  then have ex: "ts_executable t" using el by (auto simp: target_check_def eligible_def)
  let ?db1 = "db\<lparr>db_attempts := db_attempts db @ [a]\<rparr>"
  have ins: "insert_attempt db a = Inr ?db1"
    using next_attempt_fresh[OF t(3) a(3,1)] a t(1,2)
    by (simp add: insert_attempt_def bind_res_Inr_iff sql_insert_Inr has_target_def rev_image_eqI)
  have up: "\<exists>db'. update_target ?db1 (outcome_of a) = Inr db'"
    using insert_attempt_Inr(2)[OF ins ok] t(1,2) a(1) ex
    by (intro update_target_total[where t = t] outcome_of_check[OF a(2) chk el]) (simp_all add: outcome_of_def)
  have vals: "attempt_values a = Inr a"
    using a(4,5) by (auto simp: attempt_values_def url_value_def split: option.splits)
  show ?thesis
    using up unfolding append_attempt_and_update_target_def vals bind_res_simps ver look
    by (simp add: outcome_of_def same_evidence_def ex el a(3) ins)
qed

text \<open>
  C20. The targets selected for a retry run are exactly those that accept work: a well-formed next
  attempt for a target, with a fresh identity and its own projection, is recorded if and only if the
  target is in the list that \<^verbatim>\<open>iter_selected_target_states(retry_failures=True)\<close> yields.
\<close>

theorem selected_targets_accept:
  assumes "initialize_run_state sha empty_db targets operations = Inr db0"
    and "db = foldl (run_step sha) db0 calls" "get_target_state db tid = Inr (Some t)"
    and "iter_selected_target_states db True = Inr ts"
    and "aa_target_id a = tid" "attempt_check a" "aa_attempt_number a = ts_attempt_count t + 1"
      "url_ok (aa_requested_url a)" "null_or url_ok (aa_final_url a)" "aa_attempt_id a \<notin> aa_attempt_id ` set (db_attempts db)"
  shows "(\<exists>db'. append_attempt_and_update_target db a (outcome_of a) = Inr db') \<longleftrightarrow> t \<in> set ts"
proof -
  have inv: "run_inv sha db" using assms(1,2) run_machine.inv_run initialize_run_state_inv(1) by blast
  have ts: "t \<in> set ts \<longleftrightarrow> eligible t"
    using assms(4) run_inv_lookup(1)[OF inv assms(3)]
    by (auto simp: iter_selected_target_states_def bind_res_Inr_iff eligible_def)
  have look: "tbl_lookup ts_target_id (aa_target_id a) (db_targets db) = Some t"
    using assms(3,5) by (auto simp: get_target_state_def bind_res_Inr_iff)
  have "eligible t" if "append_attempt_and_update_target db a (outcome_of a) = Inr db'" for db'
    using append_attempt_recording[OF that] look by (auto simp: recording_def outcome_of_def)
  then show ?thesis using ts eligible_target_accepts[OF inv assms(3) _ assms(5-10)] by blast
qed

section \<open>A concrete run\<close>

definition demo_targets :: "json dict list" where
  "demo_targets =
     [[(''target_id'', JStr ''t1''), (''executable'', JBool True), (''skip_reason'', JNull)],
      [(''target_id'', JStr ''t2''), (''executable'', JBool False), (''skip_reason'', JStr ''no source'')]]"

definition demo_operations :: "json dict list" where
  "demo_operations =
     [[(''operation_id'', JStr (canonical_hash id (JList [JStr ''t1'', JStr ''raw'']))), (''target_id'', JStr ''t1''),
       (''operation'', JStr ''raw''), (''requested'', JBool True), (''request_mode'', JStr ''mandatory_raw''),
       (''selected'', JBool True), (''source_request_id'', JNull), (''input_ordinal'', JNull), (''input_role'', JNull),
       (''support_status'', JStr ''supported''), (''support_reason'', JNull), (''capability_id'', JStr ''c''),
       (''capability_version'', JStr ''1''), (''handler_id'', JStr ''h''), (''handler_version'', JStr ''1''),
       (''output_kind'', JStr ''raw'')]]"

definition demo_attempt :: "int \<Rightarrow> string \<Rightarrow> bool \<Rightarrow> acquisition_attempt" where
  "demo_attempt n outcome retryable =
     \<lparr>aa_attempt_id = ''a'' @ int_dec n, aa_target_id = ''t1'', aa_attempt_number = n, aa_attempt_kind = ''document_body'',
      aa_source = ''live_sec'', aa_requested_url = ''https://www.sec.gov/a.txt'', aa_outcome = outcome,
      aa_retryable = retryable, aa_error_code = None, aa_http_status = Some 200, aa_final_url = None,
      aa_started_at_utc = ''s'', aa_finished_at_utc = ''f'', aa_source_sha256 = None, aa_source_byte_size = Some 10,
      aa_source_body_relative_path = None, aa_selected_sha256 = None, aa_selected_byte_size = Some 10,
      aa_selected_body_relative_path = Some ''bodies/a'', aa_selected_filename = None\<rparr>"

definition demo_run :: "run_db \<times> run_db \<times> run_db" where
  "demo_run =
     (let db0 = projr (initialize_run_state id empty_db demo_targets demo_operations);
          a1 = demo_attempt 1 ''failed'' True; a2 = demo_attempt 2 ''acquired'' False;
          db1 = run_step id db0 (AppendAttempt a1 (outcome_of a1));
          db2 = run_step id db1 (CommitAttempts [a2] (outcome_of a2) None None)
      in (db0, db1, db2))"

lemma demo_run_facts:
  "initialize_run_state id empty_db demo_targets demo_operations = Inr (fst demo_run)"
  "map os_status (db_operations (fst (snd demo_run))) = [''blocked'']"
  "map os_status (db_operations (snd (snd demo_run))) = [''pending'']"
  "map ts_outcome (db_targets (snd (snd demo_run))) = [''acquired'', ''skipped'']"
  by code_simp+

definition demo_calls :: "run_call list" where
  "demo_calls = [AppendAttempt (demo_attempt 1 ''failed'' True) (outcome_of (demo_attempt 1 ''failed'' True)),
     CommitAttempts [demo_attempt 2 ''acquired'' False] (outcome_of (demo_attempt 2 ''acquired'' False)) None None]"

lemma demo_run_foldl:
  "fst (snd demo_run) = foldl (run_step id) (fst demo_run) (take 1 demo_calls)"
  "snd (snd demo_run) = foldl (run_step id) (fst demo_run) demo_calls"
  by (simp_all add: demo_run_def demo_calls_def Let_def)

definition demo_target :: "run_db \<Rightarrow> target_state" where
  "demo_target db = hd (db_targets db)"

lemma demo_target_facts:
  "get_target_state (fst (snd demo_run)) ''t1'' = Inr (Some (demo_target (fst (snd demo_run))))"
  "get_target_state (snd (snd demo_run)) ''t1'' = Inr (Some (demo_target (snd (snd demo_run))))"
  "ts_attempt_count (demo_target (fst (snd demo_run))) = 1"
  "ts_attempt_count (demo_target (snd (snd demo_run))) = 2"
  by code_simp+

theorem run_history_complete_witness:
  "\<exists>history. list_target_attempts (snd (snd demo_run)) ''t1'' = Inr history \<and> map aa_attempt_number history = [1..2]
    \<and> ts_last_attempt_id (demo_target (snd (snd demo_run))) = Some (aa_attempt_id (last history))"
proof -
  obtain h where h: "list_target_attempts (snd (snd demo_run)) ''t1'' = Inr h" "map aa_attempt_number h = [1..2]"
    "h = [] \<or> ts_last_attempt_id (demo_target (snd (snd demo_run))) = Some (aa_attempt_id (last h))"
    using run_history_complete[OF demo_run_facts(1) demo_run_foldl(2) demo_target_facts(2)]
    unfolding demo_target_facts(4) by (auto split: if_splits)
  then have "h \<noteq> []" by auto
  with h show ?thesis by blast
qed

theorem run_state_always_valid_witness: "validate_run_state id (snd (snd demo_run)) = Inr ()"
  unfolding demo_run_foldl(2) by (rule run_state_always_valid[OF demo_run_facts(1)])

theorem run_records_append_only_witness:
  "\<exists>as. db_attempts (snd (snd demo_run)) = db_attempts (fst (snd demo_run)) @ as"
proof -
  have "snd (snd demo_run) = foldl (run_step id) (fst (snd demo_run)) (drop 1 demo_calls)"
    by (simp add: demo_run_def demo_calls_def Let_def)
  from run_records_append_only[OF demo_run_facts(1) demo_run_foldl(1) this] show ?thesis by blast
qed

theorem selected_targets_accept_witness:
  "\<exists>db'. append_attempt_and_update_target (fst (snd demo_run)) (demo_attempt 2 ''acquired'' False)
     (outcome_of (demo_attempt 2 ''acquired'' False)) = Inr db'"
proof -
  let ?db = "fst (snd demo_run)" and ?a = "demo_attempt 2 ''acquired'' False"
  have sel: "iter_selected_target_states ?db True = Inr [demo_target ?db]" by code_simp
  have "aa_target_id ?a = ''t1''" "attempt_check ?a" "aa_attempt_number ?a = ts_attempt_count (demo_target ?db) + 1"
    "url_ok (aa_requested_url ?a)" "null_or url_ok (aa_final_url ?a)" "aa_attempt_id ?a \<notin> aa_attempt_id ` set (db_attempts ?db)"
    by code_simp+
  from selected_targets_accept[OF demo_run_facts(1) demo_run_foldl(1) demo_target_facts(1) sel this] show ?thesis by simp
qed

end
