(* ===== verification/RunLock.thy ===== *)
theory RunLock
  imports RunState
begin

text \<open>
  The lock of a run, \<^verbatim>\<open>run_state/locks.py\<close>, and the status report of \<^verbatim>\<open>run_state/store.py\<close> that reads it.
  The lock protocol is a step relation over the two files it uses: the lock itself and the recovery
  marker; processes interleave between any two file operations and may stop at any point.
\<close>

section \<open>The protocol\<close>

record lock_payload =
  lp_run_id :: string
  lp_host :: string
  lp_pid :: int
  lp_owner_token :: string

text \<open>
  Where a \<^verbatim>\<open>RunLock\<close> object stands: before the exclusive create; after \<^verbatim>\<open>_recover_existing\<close> accepted the
  stale lock with the given token; holding the recovery marker; after the second read confirmed the
  token; after the unlink; after the second create; held; after \<^verbatim>\<open>close\<close> read its own token; closed; or
  raised.
\<close>

datatype lock_pc = Start | Stale string | Recovering string | Confirmed string | Unlinked | Replacing
  | Held | Closing | Closed | Raised

record lock_world =
  lw_lock :: "lock_payload option"
  lw_recovery :: "lock_payload option"
  lw_pc :: "string \<Rightarrow> lock_pc"
  lw_dead :: "string set"

text \<open>
  \<open>owner k\<close> is the payload of the object with token \<open>k\<close>, \<open>confirmed k\<close> its \<^verbatim>\<open>stale_local_lock_confirmed\<close>. A
  process that runs always answers the signal of \<^verbatim>\<open>_pid_is_alive\<close>, so a lock is found stale only if its
  owner is gone. Any read may find the file unreadable, half written, and raise.
\<close>

definition recoverable :: "(string \<Rightarrow> lock_payload) \<Rightarrow> (string \<Rightarrow> bool) \<Rightarrow> lock_world \<Rightarrow> string \<Rightarrow> lock_payload \<Rightarrow> bool" where
  "recoverable owner confirmed w k existing \<longleftrightarrow>
     lp_run_id existing = lp_run_id (owner k) \<and> lp_host existing = lp_host (owner k) \<and> 0 < lp_pid existing
     \<and> lp_owner_token existing \<in> lw_dead w \<and> confirmed k"

inductive lock_step :: "(string \<Rightarrow> lock_payload) \<Rightarrow> (string \<Rightarrow> bool) \<Rightarrow> lock_world \<Rightarrow> lock_world \<Rightarrow> bool"
  for owner :: "string \<Rightarrow> lock_payload" and confirmed :: "string \<Rightarrow> bool" where
  create: "k \<notin> lw_dead w \<Longrightarrow> lw_pc w k = Start \<Longrightarrow> lw_lock w = None \<Longrightarrow>
    lock_step owner confirmed w (w\<lparr>lw_lock := Some (owner k), lw_pc := (lw_pc w)(k := Held)\<rparr>)"
| refused: "k \<notin> lw_dead w \<Longrightarrow> lw_pc w k = Start \<Longrightarrow> lw_lock w = Some existing \<Longrightarrow>
    lock_step owner confirmed w (w\<lparr>lw_pc := (lw_pc w)(k := Raised)\<rparr>)"
| stale: "k \<notin> lw_dead w \<Longrightarrow> lw_pc w k = Start \<Longrightarrow> lw_lock w = Some existing \<Longrightarrow> recoverable owner confirmed w k existing \<Longrightarrow>
    lock_step owner confirmed w (w\<lparr>lw_pc := (lw_pc w)(k := Stale (lp_owner_token existing))\<rparr>)"
| mark: "k \<notin> lw_dead w \<Longrightarrow> lw_pc w k = Stale e \<Longrightarrow> lw_recovery w = None \<Longrightarrow>
    lock_step owner confirmed w (w\<lparr>lw_recovery := Some (owner k), lw_pc := (lw_pc w)(k := Recovering e)\<rparr>)"
| marked: "k \<notin> lw_dead w \<Longrightarrow> lw_pc w k = Stale e \<Longrightarrow> lw_recovery w = Some other \<Longrightarrow>
    lock_step owner confirmed w (w\<lparr>lw_pc := (lw_pc w)(k := Raised)\<rparr>)"
| recheck: "k \<notin> lw_dead w \<Longrightarrow> lw_pc w k = Recovering e \<Longrightarrow> lw_lock w = Some current \<Longrightarrow> lp_owner_token current = e \<Longrightarrow>
    lock_step owner confirmed w (w\<lparr>lw_pc := (lw_pc w)(k := Confirmed e)\<rparr>)"
| changed: "k \<notin> lw_dead w \<Longrightarrow> lw_pc w k = Recovering e \<Longrightarrow>
    lock_step owner confirmed w (w\<lparr>lw_recovery := None, lw_pc := (lw_pc w)(k := Raised)\<rparr>)"
| unlink: "k \<notin> lw_dead w \<Longrightarrow> lw_pc w k = Confirmed e \<Longrightarrow>
    lock_step owner confirmed w (w\<lparr>lw_lock := None, lw_pc := (lw_pc w)(k := Unlinked)\<rparr>)"
| replace: "k \<notin> lw_dead w \<Longrightarrow> lw_pc w k = Unlinked \<Longrightarrow> lw_lock w = None \<Longrightarrow>
    lock_step owner confirmed w (w\<lparr>lw_lock := Some (owner k), lw_pc := (lw_pc w)(k := Replacing)\<rparr>)"
| overtaken: "k \<notin> lw_dead w \<Longrightarrow> lw_pc w k = Unlinked \<Longrightarrow> lw_lock w = Some other \<Longrightarrow>
    lock_step owner confirmed w (w\<lparr>lw_recovery := None, lw_pc := (lw_pc w)(k := Raised)\<rparr>)"
| unmark: "k \<notin> lw_dead w \<Longrightarrow> lw_pc w k = Replacing \<Longrightarrow>
    lock_step owner confirmed w (w\<lparr>lw_recovery := None, lw_pc := (lw_pc w)(k := Held)\<rparr>)"
| close_own: "k \<notin> lw_dead w \<Longrightarrow> lw_pc w k = Held \<Longrightarrow> lw_lock w = Some current \<Longrightarrow> lp_owner_token current = k \<Longrightarrow>
    lock_step owner confirmed w (w\<lparr>lw_pc := (lw_pc w)(k := Closing)\<rparr>)"
| close_other: "k \<notin> lw_dead w \<Longrightarrow> lw_pc w k = Held \<Longrightarrow>
    lock_step owner confirmed w (w\<lparr>lw_pc := (lw_pc w)(k := Closed)\<rparr>)"
| release: "k \<notin> lw_dead w \<Longrightarrow> lw_pc w k = Closing \<Longrightarrow>
    lock_step owner confirmed w (w\<lparr>lw_lock := None, lw_pc := (lw_pc w)(k := Closed)\<rparr>)"
| stop: "lock_step owner confirmed w (w\<lparr>lw_dead := insert k (lw_dead w)\<rparr>)"

definition lock_start :: "lock_world \<Rightarrow> bool" where
  "lock_start w \<longleftrightarrow> lw_lock w = None \<and> lw_recovery w = None \<and> (\<forall>k. lw_pc w k = Start)"

definition holds_lock :: "lock_world \<Rightarrow> string \<Rightarrow> bool" where
  "holds_lock w k \<longleftrightarrow> k \<notin> lw_dead w \<and> lw_pc w k \<in> {Replacing, Held, Closing}"

section \<open>Mutual exclusion\<close>

text \<open>
  A running holder owns the lock file; who recovers owns the marker, and the lock it recovers belongs to
  a process that is gone, up to the unlink.
\<close>

definition lock_inv :: "(string \<Rightarrow> lock_payload) \<Rightarrow> lock_world \<Rightarrow> bool" where
  "lock_inv owner w \<longleftrightarrow>
     (\<forall>k. holds_lock w k \<longrightarrow> lw_lock w = Some (owner k))
     \<and> (\<forall>k e. lw_pc w k \<in> {Recovering e, Confirmed e, Unlinked, Replacing} \<longrightarrow> lw_recovery w = Some (owner k))
     \<and> (\<forall>k e. lw_pc w k \<in> {Stale e, Recovering e, Confirmed e} \<longrightarrow> e \<in> lw_dead w)
     \<and> (\<forall>k e. lw_pc w k = Confirmed e \<longrightarrow> map_option lp_owner_token (lw_lock w) = Some e)"

lemma lock_inv_step:
  assumes step: "lock_step owner confirmed w w'" and inv: "lock_inv owner w"
    and tok: "\<forall>k. lp_owner_token (owner k) = k"
  shows "lock_inv owner w'"
proof -
  have inj [simp]: "owner k = owner k' \<longleftrightarrow> k = k'" for k k' using tok by metis
  have lock: "lw_lock w = Some (owner k)" if "holds_lock w k" for k
    using inv that by (simp add: lock_inv_def)
  have rec: "lw_pc w k = Recovering e \<Longrightarrow> lw_recovery w = Some (owner k)" "lw_pc w k = Confirmed e \<Longrightarrow> lw_recovery w = Some (owner k)"
    "lw_pc w k = Unlinked \<Longrightarrow> lw_recovery w = Some (owner k)" "lw_pc w k = Replacing \<Longrightarrow> lw_recovery w = Some (owner k)" for k e
    using inv unfolding lock_inv_def by blast+
  have dead: "lw_pc w k = Stale e \<Longrightarrow> e \<in> lw_dead w" "lw_pc w k = Recovering e \<Longrightarrow> e \<in> lw_dead w"
    "lw_pc w k = Confirmed e \<Longrightarrow> e \<in> lw_dead w" for k e
    using inv unfolding lock_inv_def by blast+
  have conf: "map_option lp_owner_token (lw_lock w) = Some e" if "lw_pc w k = Confirmed e" for k e
    using inv that unfolding lock_inv_def by blast
  have alone: "lw_pc w j \<noteq> Recovering e \<and> lw_pc w j \<noteq> Confirmed e \<and> lw_pc w j \<noteq> Unlinked \<and> lw_pc w j \<noteq> Replacing"
    if "lw_recovery w = Some (owner k)" "j \<noteq> k" for j k e
    using rec(1,2)[of j e] rec(3,4)[of j] that by auto
  from step show ?thesis
  proof cases
    case (create k)
    then have "\<not> holds_lock w j" for j using lock by fastforce
    moreover have "lw_pc w j \<noteq> Confirmed e" for j e using conf create by fastforce
    ultimately show ?thesis
      using create rec dead unfolding lock_inv_def holds_lock_def by auto
  next
    case (unlink k e)
    have e: "e \<in> lw_dead w" "map_option lp_owner_token (lw_lock w) = Some e" using dead(3) conf unlink by blast+
    have none: "\<not> holds_lock w j" for j
    proof
      assume j: "holds_lock w j"
      then have "e = j" using e(2) lock tok by simp
      then show False using e(1) j by (simp add: holds_lock_def)
    qed
    have "lw_pc w j \<noteq> Confirmed e'" if "j \<noteq> k" for j e'
      using rec(2)[of j e'] rec(2)[OF unlink(3)] that by auto
    then show ?thesis
      using unlink none rec dead unfolding lock_inv_def holds_lock_def by auto
  next
    case (replace k)
    then have "\<not> holds_lock w j" for j using lock by fastforce
    moreover have "lw_pc w j \<noteq> Confirmed e" for j e using conf replace by fastforce
    moreover have "lw_pc w j \<noteq> Unlinked" if "j \<noteq> k" for j
      using rec(3)[of j] rec(3)[OF replace(3)] that by auto
    ultimately show ?thesis
      using replace rec dead unfolding lock_inv_def holds_lock_def by auto
  next
    case (release k)
    then have k: "holds_lock w k" by (simp add: holds_lock_def)
    have "\<not> holds_lock w j" if "j \<noteq> k" for j using lock[of j] lock[OF k] that by auto
    moreover have "lw_pc w j \<noteq> Confirmed e" for j e
    proof
      assume j: "lw_pc w j = Confirmed e"
      then have "e = k" using conf lock[OF k] tok by simp
      then show False using dead(3)[OF j] release by simp
    qed
    ultimately show ?thesis
      using release rec dead unfolding lock_inv_def holds_lock_def by auto
  next
    case (recheck k e current)
    show ?thesis using recheck alone[OF rec(1)[OF recheck(3)]] rec(1)[OF recheck(3)] lock dead conf
      unfolding lock_inv_def holds_lock_def by auto
  next
    case (changed k e)
    show ?thesis using changed alone[OF rec(1)[OF changed(3)]] lock dead conf unfolding lock_inv_def holds_lock_def by auto
  next
    case (overtaken k other)
    show ?thesis using overtaken alone[OF rec(3)[OF overtaken(3)]] lock dead conf unfolding lock_inv_def holds_lock_def by auto
  next
    case (unmark k)
    show ?thesis using unmark alone[OF rec(4)[OF unmark(3)]] lock dead conf unfolding lock_inv_def holds_lock_def by auto
  qed (use lock rec dead conf in \<open>auto simp: lock_inv_def holds_lock_def recoverable_def\<close>)
qed

lemma lock_inv_reachable:
  assumes "(lock_step owner confirmed)\<^sup>*\<^sup>* w w'" "lock_start w" "\<forall>k. lp_owner_token (owner k) = k"
  shows "lock_inv owner w'"
  using assms(1)
proof (induction rule: rtranclp_induct)
  case base
  show ?case using assms(2) by (auto simp: lock_start_def lock_inv_def holds_lock_def)
next
  case (step u v)
  then show ?case using lock_inv_step[OF step(2) step.IH assms(3)] by blast
qed

text \<open>
  C21. The run lock excludes: however the processes interleave between their file operations and
  wherever they stop, two running processes never hold the lock of a run at the same time, and the
  holder's token is the one in the lock file. This includes the recovery of a stale lock.
\<close>

theorem run_lock_mutual_exclusion:
  assumes "\<forall>k. lp_owner_token (owner k) = k" "lock_start w" "(lock_step owner confirmed)\<^sup>*\<^sup>* w w'"
    and "holds_lock w' p" "holds_lock w' q"
  shows "p = q \<and> map_option lp_owner_token (lw_lock w') = Some p"
  using lock_inv_reachable[OF assms(3,2,1)] assms(1,4,5) unfolding lock_inv_def by (metis option.map(2) option.inject)

section \<open>Inspection\<close>

text \<open>
  A process that stops during recovery leaves the marker behind; then the marker stays, and every later
  recovery of a stale lock is refused.
\<close>

lemma abandoned_marker_stays:
  assumes "(lock_step owner confirmed)\<^sup>*\<^sup>* w w'" "\<forall>k. lp_owner_token (owner k) = k" "lock_inv owner w"
    and "lw_recovery w = Some (owner p)" "p \<in> lw_dead w"
  shows "lw_recovery w' = Some (owner p) \<and> p \<in> lw_dead w'"
proof -
  have "lw_recovery w' = Some (owner p) \<and> p \<in> lw_dead w' \<and> lock_inv owner w'"
    using assms(1)
  proof (induction rule: rtranclp_induct)
    case base
    show ?case using assms by simp
  next
    case (step u v)
    then have u: "lw_recovery u = Some (owner p)" "p \<in> lw_dead u" "lock_inv owner u" by auto
    have other: "lw_pc u k \<noteq> Recovering e \<and> lw_pc u k \<noteq> Unlinked \<and> lw_pc u k \<noteq> Replacing" if "k \<notin> lw_dead u" for k e
      using u that assms(2) unfolding lock_inv_def by (metis insertCI option.inject)
    have "lw_recovery v = Some (owner p) \<and> p \<in> lw_dead v"
      using step(2) u(1,2) other by cases auto
    then show ?case using lock_inv_step[OF step(2) u(3) assms(2)] by blast
  qed
  then show ?thesis by blast
qed

record run_lock_info =
  li_host :: string
  li_pid :: int
  li_started_at_utc :: string
  li_owner_token :: string

text \<open>
  What \<^verbatim>\<open>inspect_run_lock\<close> finds at the path: nothing, something that is no plain file, a file that cannot
  be read or parsed, or a JSON value. \<open>hostname\<close> and \<open>alive\<close> are the answers of the operating system.
\<close>

datatype lock_path = Missing | Unsafe | Unreadable | LockFile json

definition lock_field :: "json dict \<Rightarrow> string \<Rightarrow> json" where
  "lock_field d name = (case map_of d name of None \<Rightarrow> JNull | Some v \<Rightarrow> v)"

fun is_pid :: "json \<Rightarrow> bool" where
  "is_pid (JInt i) \<longleftrightarrow> 0 < i"
| "is_pid _ \<longleftrightarrow> False"

fun the_int :: "json \<Rightarrow> int" where
  "the_int (JInt i) = i"
| "the_int _ = 0"

fun inspect_run_lock ::
  "string \<Rightarrow> (int \<Rightarrow> bool) \<Rightarrow> lock_path \<Rightarrow> string option \<Rightarrow> (run_error, run_lock_info option) result" where
  "inspect_run_lock hostname alive Missing expected = Inr None"
| "inspect_run_lock hostname alive Unsafe expected = Inl (RunLockError ''run lock path is unsafe'')"
| "inspect_run_lock hostname alive Unreadable expected = Inl (RunLockError ''existing run lock is unreadable'')"
| "inspect_run_lock hostname alive (LockFile (JObj d)) expected =
     (let host = lock_field d ''host''; run_id = lock_field d ''run_id''; pid = lock_field d ''pid'';
          started = lock_field d ''started_at_utc''; token = lock_field d ''owner_token'' in
      if \<not> is_text host \<or> \<not> is_text run_id \<or> \<not> is_pid pid \<or> \<not> is_text started \<or> \<not> is_text token
      then Inl (RunLockError ''existing run lock is malformed'')
      else if \<not> null_or (\<lambda>e. the_text run_id = e) expected then Inl (RunLockError ''run lock belongs to a different run'')
      else if the_text host = hostname \<and> \<not> alive (the_int pid) then Inr None
      else Inr (Some \<lparr>li_host = the_text host, li_pid = the_int pid, li_started_at_utc = the_text started,
             li_owner_token = the_text token\<rparr>))"
| "inspect_run_lock hostname alive (LockFile _) expected = Inl (RunLockError ''existing run lock is malformed'')"

section \<open>The status report\<close>

record status_report =
  sp_run_id :: string
  sp_state :: string
  sp_target_counts :: "nat dict"
  sp_retryable_failure_count :: nat
  sp_non_retryable_failure_count :: nat
  sp_active_lock :: "run_lock_info option"
  sp_invalid_reason :: "run_error option"

definition attempted_count :: "run_db \<Rightarrow> nat" where
  "attempted_count db = length (filter (\<lambda>t. 0 < ts_attempt_count t) (db_targets db))"

definition invalid_report :: "string \<Rightarrow> run_lock_info option \<Rightarrow> run_error \<Rightarrow> status_report" where
  "invalid_report run_id active error =
     \<lparr>sp_run_id = run_id, sp_state = ''invalid'', sp_target_counts = map (\<lambda>s. (s, 0)) OUTCOMES,
      sp_retryable_failure_count = 0, sp_non_retryable_failure_count = 0, sp_active_lock = active,
      sp_invalid_reason = Some error\<rparr>"

definition run_state_of :: "run_lock_info option \<Rightarrow> status_counts \<Rightarrow> nat \<Rightarrow> string" where
  "run_state_of active counts attempted =
     (let count = (\<lambda>s. the (map_of (sc_target_counts counts) s)) in
      if active \<noteq> None then ''running''
      else if count ''pending'' \<noteq> 0 \<and> attempted \<noteq> 0 then ''interrupted''
      else if sc_retryable_failure_count counts \<noteq> 0 then ''needs_retry''
      else if sc_non_retryable_failure_count counts \<noteq> 0 \<or> count ''required_missing'' \<noteq> 0 then ''complete_with_errors''
      else if attempted = 0 then ''ready''
      else ''complete'')"

definition inspect_run_state ::
  "(string \<Rightarrow> string) \<Rightarrow> string \<Rightarrow> (int \<Rightarrow> bool) \<Rightarrow> string \<Rightarrow> run_db \<Rightarrow> lock_path \<Rightarrow> status_report" where
  "inspect_run_state sha hostname alive run_id db path =
     (case inspect_run_lock hostname alive path (Some run_id) of
        Inl e \<Rightarrow> invalid_report run_id None e
      | Inr active \<Rightarrow>
          (case summarize_target_state sha db of
             Inl e \<Rightarrow> invalid_report run_id active e
           | Inr counts \<Rightarrow>
               \<lparr>sp_run_id = run_id, sp_state = run_state_of active counts (attempted_count db),
                sp_target_counts = sc_target_counts counts,
                sp_retryable_failure_count = sc_retryable_failure_count counts,
                sp_non_retryable_failure_count = sc_non_retryable_failure_count counts,
                sp_active_lock = active, sp_invalid_reason = None\<rparr>))"

lemma run_inv_summary:
  assumes "run_inv sha db"
  shows "summarize_target_state sha db = Inr \<lparr>sc_target_counts = map (\<lambda>status. (status, outcome_count db status)) OUTCOMES,
    sc_retryable_failure_count = failed_count db True, sc_non_retryable_failure_count = failed_count db False\<rparr>"
  using run_inv_validates[OF assms] assms
  by (simp add: summarize_target_state_def validate_run_state_def run_inv_def db_ok_def require_schema_def)

lemma sort_key_empty_iff: "sort_key f xs = [] \<longleftrightarrow> xs = []"
  by (metis length_0_conv length_sort)

lemma outcome_needs_attempt:
  assumes "run_inv sha db" "t \<in> set (db_targets db)" "ts_outcome t \<notin> {''pending'', ''skipped''}"
  shows "0 < ts_attempt_count t"
proof -
  have "target_history (attempts_of db (ts_target_id t)) t" using assms by (simp add: run_inv_def targets_ok_def)
  then have "[1..ts_attempt_count t] \<noteq> []" using assms(3) by (auto simp: target_history_def split: if_splits)
  then show ?thesis by simp
qed

text \<open>
  The report of a run agrees with the work that is left. For a run that was attempted and is not
  locked, it says complete, with or without errors, exactly when no target would be selected for a
  retry run; complete without errors moreover means that no target failed or misses a required
  document; and a database that was only written by the store is never reported as invalid.
\<close>

theorem run_report_agrees:
  assumes "initialize_run_state sha empty_db targets operations = Inr db0"
    and "db = foldl (run_step sha) db0 calls" "inspect_run_lock hostname alive path (Some run_id) = Inr active"
    and "sp = inspect_run_state sha hostname alive run_id db path"
  shows "sp_state sp \<noteq> ''invalid''
    \<and> (sp_state sp \<in> {''complete'', ''complete_with_errors''} \<longleftrightarrow>
        active = None \<and> (\<exists>t \<in> set (db_targets db). 0 < ts_attempt_count t) \<and> iter_selected_target_states db True = Inr [])
    \<and> (sp_state sp = ''complete'' \<longrightarrow> (\<forall>t \<in> set (db_targets db). ts_outcome t \<in> {''acquired'', ''not_filed'', ''ambiguous'', ''skipped''}))"
proof -
  have inv: "run_inv sha db" using assms(1,2) run_machine.inv_run initialize_run_state_inv(1) by blast
  let ?T = "set (db_targets db)"
  define pend where "pend \<longleftrightarrow> (\<exists>t \<in> ?T. ts_outcome t = ''pending'')"
  define retry where "retry \<longleftrightarrow> (\<exists>t \<in> ?T. ts_outcome t = ''failed'' \<and> ts_retryable t)"
  define bad where "bad \<longleftrightarrow> (\<exists>t \<in> ?T. ts_outcome t = ''failed'' \<and> \<not> ts_retryable t \<or> ts_outcome t = ''required_missing'')"
  define tried where "tried \<longleftrightarrow> (\<exists>t \<in> ?T. 0 < ts_attempt_count t)"
  have state: "sp_state sp = (if active \<noteq> None then ''running'' else if pend \<and> tried then ''interrupted''
      else if retry then ''needs_retry'' else if bad then ''complete_with_errors'' else if \<not> tried then ''ready'' else ''complete'')"
    unfolding assms(4) inspect_run_state_def assms(3) sum.case run_inv_summary[OF inv] run_state_of_def OUTCOMES_def
      outcome_count_def failed_count_def attempted_count_def Let_def pend_def retry_def bad_def tried_def
    by (auto simp: filter_empty_conv)
  have sel: "iter_selected_target_states db True = Inr [] \<longleftrightarrow> \<not> pend \<and> \<not> retry"
    using inv by (auto simp: iter_selected_target_states_def require_schema_def run_inv_def db_ok_def
        pend_def retry_def filter_empty_conv sort_key_empty_iff)
  have "retry \<longrightarrow> tried" "bad \<longrightarrow> tried"
    using outcome_needs_attempt[OF inv] unfolding retry_def bad_def tried_def by fastforce+
  moreover have "ts_outcome t \<in> {''acquired'', ''not_filed'', ''ambiguous'', ''skipped''}"
    if "t \<in> ?T" "\<not> pend" "\<not> retry" "\<not> bad" for t
  proof -
    have "target_check t" using inv that(1) by (auto simp: run_inv_def db_ok_defs)
    then show ?thesis using that by (auto simp: target_check_def OUTCOMES_def pend_def retry_def bad_def)
  qed
  ultimately show ?thesis
    unfolding state sel tried_def[symmetric] by auto
qed

section \<open>A stale lock recovered\<close>

definition demo_owner :: "string \<Rightarrow> lock_payload" where
  "demo_owner k = \<lparr>lp_run_id = ''r'', lp_host = ''h'', lp_pid = 7, lp_owner_token = k\<rparr>"

definition lock_start_world :: lock_world where
  "lock_start_world = \<lparr>lw_lock = None, lw_recovery = None, lw_pc = (\<lambda>_. Start), lw_dead = {}\<rparr>"

text \<open>The first process takes the lock and stops; the second one finds it stale and replaces it.\<close>

definition stale_lock_world :: lock_world where
  "stale_lock_world = \<lparr>lw_lock = Some (demo_owner ''a''), lw_recovery = None, lw_pc = (\<lambda>_. Start)(''a'' := Held), lw_dead = {''a''}\<rparr>"

definition recovered_world :: lock_world where
  "recovered_world = \<lparr>lw_lock = Some (demo_owner ''b''), lw_recovery = Some (demo_owner ''b''),
     lw_pc = (\<lambda>_. Start)(''a'' := Held, ''b'' := Replacing), lw_dead = {''a''}\<rparr>"

lemma lock_step_then:
  "lock_step owner confirmed w w' \<Longrightarrow> (lock_step owner confirmed)\<^sup>*\<^sup>* w' w'' \<Longrightarrow> (lock_step owner confirmed)\<^sup>*\<^sup>* w w''"
  by (rule converse_rtranclp_into_rtranclp)

lemma stale_lock_reached: "(lock_step demo_owner (\<lambda>_. True))\<^sup>*\<^sup>* lock_start_world stale_lock_world"
  unfolding lock_start_world_def stale_lock_world_def
  by (rule lock_step_then[OF lock_step.create[where k = "''a''"]], simp, simp, simp,
      rule lock_step_then[OF lock_step.stop[where k = "''a''"]], simp)

lemma lock_recovered: "(lock_step demo_owner (\<lambda>_. True))\<^sup>*\<^sup>* stale_lock_world recovered_world"
  unfolding stale_lock_world_def recovered_world_def
  by (rule lock_step_then[OF lock_step.stale[where k = "''b''" and existing = "demo_owner ''a''"]], simp, simp, simp,
        simp add: recoverable_def demo_owner_def,
      rule lock_step_then[OF lock_step.mark[where k = "''b''" and e = "''a''"]], simp, simp add: demo_owner_def, simp,
      rule lock_step_then[OF lock_step.recheck[where k = "''b''" and e = "''a''" and current = "demo_owner ''a''"]],
        simp, simp, simp, simp add: demo_owner_def,
      rule lock_step_then[OF lock_step.unlink[where k = "''b''" and e = "''a''"]], simp, simp,
      rule lock_step_then[OF lock_step.replace[where k = "''b''"]], simp, simp, simp, simp)

theorem run_lock_mutual_exclusion_witness:
  "holds_lock recovered_world ''b'' \<and> map_option lp_owner_token (lw_lock recovered_world) = Some ''b''"
proof -
  have "\<forall>k. lp_owner_token (demo_owner k) = k" by (simp add: demo_owner_def)
  moreover have "lock_start lock_start_world" by (simp add: lock_start_def lock_start_world_def)
  moreover have hold: "holds_lock recovered_world ''b''" by (simp add: holds_lock_def recovered_world_def)
  ultimately show ?thesis
    using run_lock_mutual_exclusion[OF _ _ rtranclp_trans[OF stale_lock_reached lock_recovered] hold hold] by blast
qed

theorem run_report_agrees_witness:
  "sp_state (inspect_run_state id ''h'' (\<lambda>_. True) ''r'' (snd (snd demo_run)) Missing) = ''complete''
    \<and> iter_selected_target_states (snd (snd demo_run)) True = Inr []"
proof -
  have lock: "inspect_run_lock ''h'' (\<lambda>_. True) Missing (Some ''r'') = Inr None" by simp
  have "sp_state (inspect_run_state id ''h'' (\<lambda>_. True) ''r'' (snd (snd demo_run)) Missing) = ''complete''" by code_simp
  then show ?thesis using run_report_agrees[OF demo_run_facts(1) demo_run_foldl(2) lock refl] by simp
qed

end
