(* ===== verification/RateLimit.thy ===== *)
theory RateLimit
  imports Prelude
begin

text \<open>
  Request pacing of the SEC HTTP transport: the slot-reserving limiter of \<^verbatim>\<open>infra/sec_http/rate_limit.py\<close>.

  The seconds of the code are Python floats; here they are exact rationals, so no statement
  below depends on rounding. Each method takes the value its call of
  \<^verbatim>\<open>time.monotonic()\<close> returns as the argument \<open>now\<close>; the mutual exclusion of the methods (their
  lock) makes every run a sequence of whole calls.
\<close>

section \<open>The limiter\<close>

definition DEFAULT_RATE_LIMIT_RPS :: rat where
  "DEFAULT_RATE_LIMIT_RPS = 8"

definition DEFAULT_MIN_INTERVAL_S :: rat where
  "DEFAULT_MIN_INTERVAL_S = 1 / DEFAULT_RATE_LIMIT_RPS"

definition MAX_INTERVAL_S :: rat where "MAX_INTERVAL_S = 60"
definition THROTTLE_MULTIPLIER :: rat where "THROTTLE_MULTIPLIER = 3 / 2"
definition RECOVERY_QUIET_S :: rat where "RECOVERY_QUIET_S = 30"
definition RECOVERY_DECAY :: rat where "RECOVERY_DECAY = 1 / 10"
definition RETRY_AFTER_CAP_S :: rat where "RETRY_AFTER_CAP_S = 120"

lemmas rate_constants =
  DEFAULT_RATE_LIMIT_RPS_def DEFAULT_MIN_INTERVAL_S_def MAX_INTERVAL_S_def
  THROTTLE_MULTIPLIER_def RECOVERY_QUIET_S_def RECOVERY_DECAY_def RETRY_AFTER_CAP_S_def

record rate_limiter =
  min_interval :: rat
  max_interval :: rat
  interval :: rat
  next_slot :: rat
  cool_until :: rat
  last_throttle :: rat

datatype limiter_error = MinIntervalNotPositive

definition RateLimiter :: "rat \<Rightarrow> rat \<Rightarrow> rat \<Rightarrow> (limiter_error, rate_limiter) result" where
  "RateLimiter min_interval_s max_interval_s now =
     (if min_interval_s \<le> 0 then Inl MinIntervalNotPositive
      else Inr \<lparr>min_interval = min_interval_s, max_interval = max_interval_s,
                interval = min_interval_s, next_slot = now, cool_until = 0, last_throttle = 0\<rparr>)"

definition recovered_interval :: "rate_limiter \<Rightarrow> rat \<Rightarrow> rat" where
  "recovered_interval rl now =
     (if min_interval rl < interval rl \<and> RECOVERY_QUIET_S < now - last_throttle rl
      then max (min_interval rl)
               (interval rl - (interval rl - min_interval rl) * RECOVERY_DECAY)
      else interval rl)"

text \<open>The time at which the caller of \<open>acquire\<close> may send.\<close>

definition wake_time :: "rate_limiter \<Rightarrow> rat \<Rightarrow> rat" where
  "wake_time rl now = max (next_slot rl) (max now (cool_until rl))"

definition acquire :: "rate_limiter \<Rightarrow> rat \<Rightarrow> rat \<times> rate_limiter" where
  "acquire rl now =
     (let iv = recovered_interval rl now;
          wake = wake_time rl now
      in (max 0 (wake - now), rl\<lparr>interval := iv, next_slot := wake + iv\<rparr>))"

definition throttle_delay :: "rate_limiter \<Rightarrow> rat option \<Rightarrow> rat" where
  "throttle_delay rl retry_after_s =
     (case retry_after_s of
        Some r \<Rightarrow> min (max r (interval rl)) (min (max_interval rl) RETRY_AFTER_CAP_S)
      | None \<Rightarrow> min (interval rl * THROTTLE_MULTIPLIER) (max_interval rl))"

definition signal_throttle :: "rate_limiter \<Rightarrow> rat \<Rightarrow> rat option \<Rightarrow> rat \<times> rate_limiter" where
  "signal_throttle rl now retry_after_s =
     (let delay = throttle_delay rl retry_after_s
      in (delay, rl\<lparr>last_throttle := now, interval := max (interval rl) delay,
                    cool_until := now + delay\<rparr>))"

definition signal_network_error :: "rate_limiter \<Rightarrow> rate_limiter" where
  "signal_network_error rl = rl"

text \<open>Python's \<^verbatim>\<open>round(x, 4)\<close>: to the nearest multiple, ties to the even one.\<close>

definition round_half_even :: "rat \<Rightarrow> int" where
  "round_half_even x =
     (let f = \<lfloor>x\<rfloor>; d = x - of_int f
      in if d < 1 / 2 then f else if 1 / 2 < d then f + 1 else if even f then f else f + 1)"

definition round4 :: "rat \<Rightarrow> rat" where
  "round4 x = of_int (round_half_even (x * 10000)) / 10000"

record limiter_snapshot =
  current_interval_s :: rat
  cool_until_in_s :: rat
  last_throttle_age_s :: "rat option"

definition snapshot :: "rate_limiter \<Rightarrow> rat \<Rightarrow> limiter_snapshot" where
  "snapshot rl now =
     \<lparr>current_interval_s = round4 (interval rl),
      cool_until_in_s = round4 (max 0 (cool_until rl - now)),
      last_throttle_age_s =
        (if last_throttle rl \<noteq> 0 then Some (round4 (now - last_throttle rl)) else None)\<rparr>"

section \<open>Runs of the limiter\<close>

datatype limiter_call = Acquire rat | SignalThrottle rat "rat option" | SignalNetworkError

fun call_time :: "limiter_call \<Rightarrow> rat option" where
  "call_time (Acquire now) = Some now"
| "call_time (SignalThrottle now r) = Some now"
| "call_time SignalNetworkError = None"

fun limiter_step :: "rate_limiter \<Rightarrow> limiter_call \<Rightarrow> rate_limiter" where
  "limiter_step rl (Acquire now) = snd (acquire rl now)"
| "limiter_step rl (SignalThrottle now r) = snd (signal_throttle rl now r)"
| "limiter_step rl SignalNetworkError = signal_network_error rl"

text \<open>
  The send time of an \<open>acquire\<close> call: the caller sleeps the returned delay from \<open>now\<close>.
\<close>

fun send_time :: "rate_limiter \<Rightarrow> limiter_call \<Rightarrow> rat option" where
  "send_time rl (Acquire now) = Some (now + fst (acquire rl now))"
| "send_time rl c = None"

abbreviation sends :: "rate_limiter \<Rightarrow> limiter_call list \<Rightarrow> rat list" where
  "sends \<equiv> outputs limiter_step send_time"

definition limiter_inv :: "rat \<Rightarrow> rate_limiter \<Rightarrow> bool" where
  "limiter_inv g rl \<longleftrightarrow> 0 < g \<and> min_interval rl = g \<and> g \<le> interval rl"

lemma acquire_fst: "now + fst (acquire rl now) = wake_time rl now"
  by (simp add: acquire_def wake_time_def Let_def)

lemma acquire_snd:
  "snd (acquire rl now) =
     rl\<lparr>interval := recovered_interval rl now,
        next_slot := wake_time rl now + recovered_interval rl now\<rparr>"
  by (simp add: acquire_def Let_def)

lemma signal_throttle_snd:
  "snd (signal_throttle rl now r) =
     rl\<lparr>last_throttle := now, interval := max (interval rl) (throttle_delay rl r),
        cool_until := now + throttle_delay rl r\<rparr>"
  by (simp add: signal_throttle_def Let_def)

lemmas [step_simps] = acquire_fst acquire_snd signal_throttle_snd signal_network_error_def

lemma recovered_bounds:
  "min_interval rl \<le> interval rl \<Longrightarrow>
   min_interval rl \<le> recovered_interval rl now \<and> recovered_interval rl now \<le> interval rl"
  by (auto simp: recovered_interval_def rate_constants)

lemma limiter_inv_step: "limiter_inv g rl \<Longrightarrow> limiter_inv g (limiter_step rl c)"
  using recovered_bounds[of rl] by (cases c) (auto simp: limiter_inv_def step_simps max_def)

lemma next_slot_mono: "limiter_inv g rl \<Longrightarrow> next_slot rl \<le> next_slot (limiter_step rl c)"
proof (cases c)
  case (Acquire now)
  assume "limiter_inv g rl"
  then have "0 \<le> recovered_interval rl now"
    using recovered_bounds[of rl now] by (auto simp: limiter_inv_def)
  moreover have "next_slot rl \<le> wake_time rl now" by (simp add: wake_time_def)
  ultimately show ?thesis using Acquire by (simp add: step_simps)
qed (simp_all add: step_simps)

interpretation limiter: spaced_machine limiter_step "limiter_inv g" send_time next_slot g
  for g
proof (unfold_locales, goal_cases)
  case (1 s e)
  then show ?case by (rule limiter_inv_step)
next
  case (2 s e w)
  then show ?case by (cases e) (auto simp: step_simps wake_time_def)
next
  case (3 s e w)
  then show ?case using recovered_bounds[of s]
    by (cases e) (auto simp: limiter_inv_def step_simps)
next
  case (4 s e)
  then show ?case by (rule next_slot_mono)
qed

lemma RateLimiter_inv: "RateLimiter m M now = Inr rl \<Longrightarrow> limiter_inv m rl"
  by (auto simp: RateLimiter_def limiter_inv_def split: if_splits)

section \<open>Properties of the limiter\<close>

text \<open>
  C1. The rate bound: whatever sequence of \<open>acquire\<close>, \<open>signal_throttle\<close> and
  \<open>signal_network_error\<close> calls threads make on a limiter built with the minimum interval \<open>m\<close>
  (at any clock readings), no window of \<open>T\<close> seconds holds more than \<open>T / m + 1\<close> send times.
\<close>

theorem limiter_rate_bound:
  assumes "RateLimiter m M t0 = Inr rl" and "0 \<le> T"
  shows "rat_of_nat (length (filter (\<lambda>w. a \<le> w \<and> w \<le> a + T) (sends rl calls))) * m \<le> T + m"
proof (rule spaced_window_count)
  show "sorted_wrt (\<lambda>a b. a + m \<le> b) (sends rl calls)"
    using RateLimiter_inv[OF assms(1)] by (rule limiter.outputs_spaced)
  show "0 \<le> m" using assms(1) by (auto simp: RateLimiter_def split: if_splits)
qed (rule assms)

theorem limiter_rate_bound_witness:
  "\<exists>rl. RateLimiter (1 / 8) 60 5 = Inr rl \<and> (0::rat) \<le> 1 \<and>
     rat_of_nat (length (filter (\<lambda>w. 5 \<le> w \<and> w \<le> 5 + 1)
       (sends rl [Acquire 5, Acquire 5, SignalThrottle 5 None, Acquire 6]))) * (1 / 8) \<le> 1 + 1 / 8"
proof (intro exI conjI)
  let ?rl = "\<lparr>min_interval = 1 / 8, max_interval = 60, interval = 1 / 8, next_slot = 5,
              cool_until = 0, last_throttle = 0\<rparr>"
  show r: "RateLimiter (1 / 8) 60 5 = Inr ?rl" by (simp add: RateLimiter_def)
  show "(0::rat) \<le> 1" by simp
  then show "rat_of_nat (length (filter (\<lambda>w. 5 \<le> w \<and> w \<le> 5 + 1)
       (sends ?rl [Acquire 5, Acquire 5, SignalThrottle 5 None, Acquire 6]))) * (1 / 8)
     \<le> 1 + 1 / 8"
    by (rule limiter_rate_bound[OF r])
qed

text \<open>
  What a throttle at time \<open>t\<close> with delay \<open>d\<close> leaves behind: either the cool-down is still
  pending with an interval of at least \<open>d\<close>, or a slot at or after \<open>t + d\<close> has been reserved.
\<close>

definition cooling :: "rat \<Rightarrow> rat \<Rightarrow> rate_limiter \<Rightarrow> bool" where
  "cooling t d rl \<longleftrightarrow>
     0 \<le> min_interval rl \<and> min_interval rl \<le> interval rl \<and> d \<le> max_interval rl \<and> 0 \<le> d \<and>
     (t + d \<le> next_slot rl \<or> t + d \<le> cool_until rl \<and> d \<le> interval rl)"

lemma throttle_delay_ge:
  "0 \<le> d \<Longrightarrow> d \<le> interval rl \<Longrightarrow> d \<le> max_interval rl \<Longrightarrow> d \<le> RETRY_AFTER_CAP_S \<Longrightarrow>
   d \<le> throttle_delay rl r"
  by (auto simp: throttle_delay_def rate_constants split: option.splits)

lemma cooling_step:
  assumes "cooling t d rl" "d \<le> RETRY_AFTER_CAP_S"
    and "\<And>now. call_time c = Some now \<Longrightarrow> t \<le> now"
  shows "cooling t d (limiter_step rl c)"
proof (cases c)
  case (Acquire now)
  have "t + d \<le> wake_time rl now"
    using assms(1) by (auto simp: cooling_def wake_time_def)
  then show ?thesis
    using Acquire assms(1) recovered_bounds[of rl now] by (auto simp: cooling_def step_simps)
next
  case (SignalThrottle now r)
  have "d \<le> throttle_delay rl r" if "d \<le> interval rl"
    using that assms(1,2) by (auto simp: cooling_def intro: throttle_delay_ge)
  then show ?thesis
    using SignalThrottle assms(1) assms(3)[of now] by (auto simp: cooling_def step_simps)
next
  case SignalNetworkError
  then show ?thesis using assms(1) by (simp add: step_simps)
qed

lemma sends_not_early:
  assumes "\<forall>c \<in> set calls. \<forall>now. call_time c = Some now \<longrightarrow> t \<le> now" "w \<in> set (sends rl calls)"
  shows "t \<le> w"
  using assms
proof (induction calls arbitrary: rl)
  case (Cons c cs)
  have "t \<le> w" if "send_time rl c = Some w"
    using that Cons.prems(1) by (cases c) (auto simp: step_simps wake_time_def)
  then show ?case using Cons.IH[of "limiter_step rl c"] Cons.prems by (auto split: option.splits)
qed simp

lemma max_interval_step [simp]: "max_interval (limiter_step rl c) = max_interval rl"
  by (cases c) (auto simp: step_simps)

lemma cooling_sends:
  assumes "cooling t d rl" "d \<le> RETRY_AFTER_CAP_S"
    and "\<forall>c \<in> set calls. \<forall>now. call_time c = Some now \<longrightarrow> t \<le> now"
    and "w \<in> set (sends rl calls)"
  shows "t + d \<le> w"
  using assms
proof (induction calls arbitrary: rl)
  case Nil
  then show ?case by simp
next
  case (Cons c cs)
  have hd: "t + d \<le> w" if "send_time rl c = Some w"
    using that Cons.prems(1)
    by (cases c) (auto simp: cooling_def step_simps wake_time_def)
  have "cooling t d (limiter_step rl c)"
    using Cons.prems by (intro cooling_step) auto
  then have tl: "t + d \<le> w" if "w \<in> set (sends (limiter_step rl c) cs)"
    using that Cons.prems by (intro Cons.IH[of "limiter_step rl c"]) auto
  show ?case using hd tl Cons.prems(4) by (auto split: option.splits)
qed

text \<open>
  C2. A cool-down is not cut short by more than the cap on \<^verbatim>\<open>Retry-After\<close>. After \<open>signal_throttle\<close> at time \<open>t\<close> returned the delay
  \<open>d\<close>, every later \<open>acquire\<close> whose clock does not run backwards sends at \<open>t + min d RETRY_AFTER_CAP_S\<close> or later, whatever throttles,
  recoveries and network errors come in between and whatever the limiter's maximal interval is. So a delay of at most 120 seconds, which is
  every delay of a limiter with the default maximal interval of 60, is kept in full, although a later throttle overwrites the cool-down instant.
\<close>

theorem throttle_cooldown_respected:
  assumes "limiter_inv m rl" and "signal_throttle rl t r = (d, rl')"
    and "\<forall>c \<in> set calls. \<forall>now. call_time c = Some now \<longrightarrow> t \<le> now"
    and "w \<in> set (sends rl' calls)"
  shows "t + min d RETRY_AFTER_CAP_S \<le> w"
proof (cases "0 \<le> d")
  case True
  let ?d = "min d RETRY_AFTER_CAP_S"
  show ?thesis
  proof (rule cooling_sends[OF _ _ assms(3,4)])
    have "0 < interval rl" using assms(1) by (auto simp: limiter_inv_def)
    then have "d \<le> max_interval rl"
      using assms(2)
      by (auto simp: signal_throttle_def throttle_delay_def Let_def split: option.splits)
    then show "cooling t ?d rl'"
      using assms(1,2) True by (auto simp: cooling_def limiter_inv_def signal_throttle_def Let_def max_def rate_constants)
    show "?d \<le> RETRY_AFTER_CAP_S" by simp
  qed
next
  case False
  then show ?thesis using sends_not_early[OF assms(3,4)] by (simp add: min_def rate_constants)
qed

text \<open>
  With a larger maximal interval the cap does cut a cool-down short: a throttle without \<^verbatim>\<open>Retry-After\<close> asks for 180 seconds, and a later one
  with \<^verbatim>\<open>Retry-After\<close> lets a request through after 121.
\<close>

lemma long_cooldown_cut_short:
  "let rl = \<lparr>min_interval = 1, max_interval = 200, interval = 120, next_slot = 0, cool_until = 0, last_throttle = 0\<rparr>;
       rl' = snd (signal_throttle rl 0 None)
   in limiter_inv 1 rl \<and> fst (signal_throttle rl 0 None) = 180
     \<and> sends rl' [SignalThrottle 1 (Some 5), Acquire 2] = [121]"
  by (simp add: limiter_inv_def signal_throttle_def throttle_delay_def acquire_def wake_time_def recovered_interval_def rate_constants Let_def)

theorem throttle_cooldown_respected_witness:
  "let rl = \<lparr>min_interval = 1 / 8, max_interval = 60, interval = 1 / 8, next_slot = 0,
             cool_until = 0, last_throttle = 0\<rparr>;
       rl' = snd (signal_throttle rl 100 (Some 20))
   in 100 + 20 \<le> hd (sends rl' [SignalThrottle 101 None, Acquire 102])"
proof -
  let ?rl = "\<lparr>min_interval = 1 / 8, max_interval = 60, interval = 1 / 8, next_slot = 0,
             cool_until = 0, last_throttle = 0\<rparr> :: rate_limiter"
  let ?calls = "[SignalThrottle 101 None, Acquire 102]"
  have sig: "signal_throttle ?rl 100 (Some 20) = (20, snd (signal_throttle ?rl 100 (Some 20)))"
    by (simp add: signal_throttle_def throttle_delay_def Let_def rate_constants)
  have w: "hd (sends (snd (signal_throttle ?rl 100 (Some 20))) ?calls)
      \<in> set (sends (snd (signal_throttle ?rl 100 (Some 20))) ?calls)"
    by (intro hd_in_set) simp
  have "100 + 20 \<le> hd (sends (snd (signal_throttle ?rl 100 (Some 20))) ?calls)"
    using throttle_cooldown_respected[OF _ sig _ w, where m = "1 / 8"]
    by (auto simp: limiter_inv_def rate_constants)
  then show ?thesis by (simp add: Let_def)
qed

end
