(* ===== verification/RetryMetrics.thy ===== *)
theory RetryMetrics
  imports RateLimit
begin

text \<open>
  The retry classification and backoff of \<^verbatim>\<open>infra/sec_http/retry.py\<close> and the counters of
  \<^verbatim>\<open>infra/sec_http/metrics.py\<close>. The jitter \<^verbatim>\<open>random.uniform(0.0, self.jitter)\<close> is the argument \<open>u\<close>
  of \<open>retry_delay\<close>, for which only \<open>0 \<le> u \<le> jitter\<close> is assumed.
\<close>

section \<open>Retry policy\<close>

definition BACKOFF_BASE_S :: rat where "BACKOFF_BASE_S = 1 / 2"
definition BACKOFF_CAP_S :: rat where "BACKOFF_CAP_S = 30"
definition DEFAULT_MAX_RETRIES :: int where "DEFAULT_MAX_RETRIES = 3"

record retry_policy =
  max_retries :: int
  backoff_base_s :: rat
  backoff_cap_s :: rat
  jitter :: rat

definition RetryPolicy :: "retry_policy" where
  "RetryPolicy = \<lparr>max_retries = DEFAULT_MAX_RETRIES, backoff_base_s = BACKOFF_BASE_S,
                  backoff_cap_s = BACKOFF_CAP_S, jitter = 1 / 4\<rparr>"

datatype status_kind = Ok | Throttle | Retry | Permanent

definition classify :: "int \<Rightarrow> status_kind" where
  "classify status_code =
     (if status_code = 200 then Ok
      else if status_code = 429 then Throttle
      else if status_code = 408 \<or> status_code = 425 then Retry
      else if 500 \<le> status_code \<and> status_code < 600 then Retry
      else Permanent)"

definition retry_base :: "retry_policy \<Rightarrow> nat \<Rightarrow> rat option \<Rightarrow> rat" where
  "retry_base p attempt retry_after_s =
     (case retry_after_s of
        Some r \<Rightarrow> min (max r 0) RETRY_AFTER_CAP_S
      | None \<Rightarrow> min (backoff_base_s p * 2 ^ attempt) (backoff_cap_s p))"

definition retry_delay :: "retry_policy \<Rightarrow> nat \<Rightarrow> rat option \<Rightarrow> rat \<Rightarrow> rat" where
  "retry_delay p attempt retry_after_s u = retry_base p attempt retry_after_s * (1 + u)"

lemma retry_base_bounds:
  "0 \<le> backoff_base_s p \<Longrightarrow> 0 \<le> backoff_cap_s p \<Longrightarrow>
   0 \<le> retry_base p n r \<and> retry_base p n r \<le> max (backoff_cap_s p) RETRY_AFTER_CAP_S"
  by (auto simp: retry_base_def rate_constants split: option.splits)

lemma retry_base_mono:
  assumes "0 \<le> backoff_base_s p" "n \<le> k"
  shows "retry_base p n None \<le> retry_base p k None"
proof -
  have "backoff_base_s p * 2 ^ n \<le> backoff_base_s p * 2 ^ k"
    using assms by (intro mult_left_mono power_increasing) auto
  then show ?thesis by (auto simp: retry_base_def min_def)
qed

text \<open>
  Every backoff sleep is non-negative and at most \<open>(1 + jitter)\<close> times the larger of the
  policy's cap and the 120 second cap on \<^verbatim>\<open>Retry-After\<close>; without a \<^verbatim>\<open>Retry-After\<close> value the
  jitter-free base never shrinks from one attempt to the next.
\<close>

theorem retry_delay_bounds:
  assumes "0 \<le> backoff_base_s p" "0 \<le> backoff_cap_s p" "0 \<le> u" "u \<le> jitter p"
  shows "0 \<le> retry_delay p n r u \<and>
         retry_delay p n r u \<le> max (backoff_cap_s p) RETRY_AFTER_CAP_S * (1 + jitter p) \<and>
         retry_base p n None \<le> retry_base p (Suc n) None"
proof (intro conjI)
  have b: "0 \<le> retry_base p n r" "retry_base p n r \<le> max (backoff_cap_s p) RETRY_AFTER_CAP_S"
    using retry_base_bounds[OF assms(1,2)] by auto
  show "0 \<le> retry_delay p n r u" using b assms by (simp add: retry_delay_def)
  show "retry_delay p n r u \<le> max (backoff_cap_s p) RETRY_AFTER_CAP_S * (1 + jitter p)"
    unfolding retry_delay_def using b assms by (intro mult_mono) auto
  show "retry_base p n None \<le> retry_base p (Suc n) None"
    using assms by (intro retry_base_mono) auto
qed

theorem retry_delay_bounds_witness:
  "0 \<le> retry_delay RetryPolicy 9 None (1 / 5) \<and>
   retry_delay RetryPolicy 9 None (1 / 5)
     \<le> max (backoff_cap_s RetryPolicy) RETRY_AFTER_CAP_S * (1 + jitter RetryPolicy) \<and>
   retry_base RetryPolicy 9 None \<le> retry_base RetryPolicy (Suc 9) None"
  by (rule retry_delay_bounds)
    (simp_all add: RetryPolicy_def BACKOFF_BASE_S_def BACKOFF_CAP_S_def)

section \<open>Metrics\<close>

record http_metrics =
  requests_total :: int
  cache_hits :: int
  responses_2xx :: int
  status_counts :: "int \<Rightarrow> int option"
  throttled_count :: int
  network_errors :: int
  retries_used :: int
  bytes_received :: int
  latency_sum_s :: rat
  last_error :: "string option"

definition HttpMetrics :: http_metrics where
  "HttpMetrics = \<lparr>requests_total = 0, cache_hits = 0, responses_2xx = 0,
     status_counts = (\<lambda>_. None), throttled_count = 0, network_errors = 0, retries_used = 0,
     bytes_received = 0, latency_sum_s = 0, last_error = None\<rparr>"

definition record_attempt :: "http_metrics \<Rightarrow> http_metrics" where
  "record_attempt m = m\<lparr>requests_total := requests_total m + 1\<rparr>"

definition record_status :: "int \<Rightarrow> rat \<Rightarrow> int \<Rightarrow> http_metrics \<Rightarrow> http_metrics" where
  "record_status status_code latency_s byte_count m =
     m\<lparr>responses_2xx := responses_2xx m + 1,
       status_counts := (status_counts m)(status_code \<mapsto>
         (case status_counts m status_code of None \<Rightarrow> 0 | Some n \<Rightarrow> n) + 1),
       latency_sum_s := latency_sum_s m + latency_s,
       bytes_received := bytes_received m + byte_count\<rparr>"

definition record_failure :: "string \<Rightarrow> string \<Rightarrow> http_metrics \<Rightarrow> http_metrics" where
  "record_failure kind detail m =
     (let m1 = (if kind = ''throttle'' then m\<lparr>throttled_count := throttled_count m + 1\<rparr>
                else if kind = ''network'' then m\<lparr>network_errors := network_errors m + 1\<rparr>
                else m)
      in m1\<lparr>last_error := Some detail\<rparr>)"

definition record_retry :: "http_metrics \<Rightarrow> http_metrics" where
  "record_retry m = m\<lparr>retries_used := retries_used m + 1\<rparr>"

definition record_cache_hit :: "http_metrics \<Rightarrow> http_metrics" where
  "record_cache_hit m = m\<lparr>cache_hits := cache_hits m + 1\<rparr>"

definition metrics_snapshot :: "http_metrics \<Rightarrow> http_metrics" where
  "metrics_snapshot m = m\<lparr>latency_sum_s := round4 (latency_sum_s m)\<rparr>"

datatype metrics_call =
  RecordAttempt | RecordStatus int rat int | RecordFailure string string | RecordRetry
  | RecordCacheHit

fun metrics_step :: "http_metrics \<Rightarrow> metrics_call \<Rightarrow> http_metrics" where
  "metrics_step m RecordAttempt = record_attempt m"
| "metrics_step m (RecordStatus c l b) = record_status c l b m"
| "metrics_step m (RecordFailure k d) = record_failure k d m"
| "metrics_step m RecordRetry = record_retry m"
| "metrics_step m RecordCacheHit = record_cache_hit m"

lemmas metrics_defs [step_simps] =
  record_attempt_def record_status_def record_failure_def record_retry_def record_cache_hit_def

fun status_of :: "metrics_call \<Rightarrow> int option" where
  "status_of (RecordStatus c l b) = Some c"
| "status_of _ = None"

abbreviation count_of :: "http_metrics \<Rightarrow> int \<Rightarrow> int" where
  "count_of m c \<equiv> (case status_counts m c of None \<Rightarrow> 0 | Some n \<Rightarrow> n)"

lemma metrics_run_counts:
  "count_of (foldl metrics_step m calls) c
     = count_of m c + int (length (filter (\<lambda>e. status_of e = Some c) calls)) \<and>
   responses_2xx (foldl metrics_step m calls)
     = responses_2xx m + int (length (filter (\<lambda>e. status_of e \<noteq> None) calls))"
proof (induction calls arbitrary: m)
  case Nil
  then show ?case by simp
next
  case (Cons e es)
  show ?case using Cons.IH[of "metrics_step m e"]
    by (cases e) (auto simp: step_simps Let_def)
qed

text \<open>
  Along any sequence of calls the per-status counters are exact, but \<open>responses_2xx\<close> is
  the number of all responses whatever their status: it is not the number of 2xx responses its
  name announces (a single 404 already makes the two differ).
\<close>

theorem metrics_status_counting:
  "count_of (foldl metrics_step HttpMetrics calls) c
     = int (length (filter (\<lambda>e. status_of e = Some c) calls)) \<and>
   responses_2xx (foldl metrics_step HttpMetrics calls)
     = int (length (filter (\<lambda>e. status_of e \<noteq> None) calls)) \<and>
   responses_2xx (foldl metrics_step HttpMetrics [RecordAttempt, RecordStatus 404 0 0]) = 1"
  using metrics_run_counts[of HttpMetrics calls c]
  by (simp add: HttpMetrics_def step_simps)

end
