(* ===== verification/SecUrls.thy ===== *)
theory SecUrls
  imports UrlSplit
begin

text \<open>
  SEC identities and endpoints, \<^verbatim>\<open>domain/identity.py\<close> and \<^verbatim>\<open>domain/sec_urls.py\<close>: the two spellings of an
  accession number, the URL builders, the parser and validator of archive URLs, and the classification
  of a URL by its shape. Text is ASCII; a \<^verbatim>\<open>str | int\<close> argument is given as its text.
\<close>

section \<open>Identities\<close>

definition is_digits :: "string \<Rightarrow> bool" where
  "is_digits s \<longleftrightarrow> s \<noteq> [] \<and> list_all is_digit s"

definition is_hyphenated_accession :: "string \<Rightarrow> bool" where
  "is_hyphenated_accession s \<longleftrightarrow>
     length s = 20 \<and> list_all is_digit (take 10 s) \<and> s ! 10 = CHR ''-'' \<and> list_all is_digit (take 2 (drop 11 s))
     \<and> s ! 13 = CHR ''-'' \<and> list_all is_digit (drop 14 s)"

definition no_hyphens :: "string \<Rightarrow> string" where
  "no_hyphens s = filter (\<lambda>c. c \<noteq> CHR ''-'') s"

text \<open>\<^verbatim>\<open>_ACCESSION_DIGITS_RE.match\<close>: the dollar sign also matches before a final line break.\<close>

definition accession_digits :: "string \<Rightarrow> bool" where
  "accession_digits s \<longleftrightarrow> (length s = 18 \<or> length s = 19 \<and> last s = CHR 0x0A) \<and> list_all is_digit (take 18 s)"

definition AccessionNumber :: "string \<Rightarrow> (py_error, string) result" where
  "AccessionNumber raw = (if is_hyphenated_accession (strip raw) then Inr (strip raw) else Inl ValueError)"

definition accession_from_any :: "string \<Rightarrow> (py_error, string) result" where
  "accession_from_any raw =
     (let txt = strip raw; digits = no_hyphens txt in
      AccessionNumber (if \<not> is_hyphenated_accession txt \<and> accession_digits digits
        then take 10 digits @ ''-'' @ take 2 (drop 10 digits) @ ''-'' @ drop 12 digits else txt))"

definition Cik :: "int \<Rightarrow> (py_error, int) result" where
  "Cik v = (if v < 0 \<or> 9999999999 < v then Inl ValueError else Inr v)"

definition cik_from_raw :: "string \<Rightarrow> (py_error, int) result" where
  "cik_from_raw raw =
     (let cleaned = dropWhile (\<lambda>c. c = CHR ''0'') (strip raw) in
      bind_res (if cleaned = [] then Inr 0 else int_of_string cleaned) Cik)"

definition to_10digit :: "int \<Rightarrow> string" where
  "to_10digit v = zfill 10 (int_dec v)"

section \<open>Builders\<close>

definition SEC_SUBMISSIONS_BASE :: string where "SEC_SUBMISSIONS_BASE = ''https://data.sec.gov/submissions''"
definition SEC_XBRL_API_BASE :: string where "SEC_XBRL_API_BASE = ''https://data.sec.gov/api/xbrl''"
definition SEC_ARCHIVE_BASE :: string where "SEC_ARCHIVE_BASE = ''https://www.sec.gov/Archives/edgar/data''"
definition SUBMISSIONS_BULK_URL :: string where
  "SUBMISSIONS_BULK_URL = ''https://www.sec.gov/Archives/edgar/daily-index/bulkdata/submissions.zip''"

definition normalize_cik :: "string \<Rightarrow> string" where
  "normalize_cik cik = zfill 10 cik"

definition submissions_url :: "string \<Rightarrow> string" where
  "submissions_url cik = SEC_SUBMISSIONS_BASE @ ''/CIK'' @ normalize_cik cik @ ''.json''"

definition historical_submissions_url :: "string \<Rightarrow> string" where
  "historical_submissions_url source_file = SEC_SUBMISSIONS_BASE @ ''/'' @ source_file"

definition companyconcept_url :: "string \<Rightarrow> string \<Rightarrow> string \<Rightarrow> string" where
  "companyconcept_url cik taxonomy tag =
     SEC_XBRL_API_BASE @ ''/companyconcept/CIK'' @ normalize_cik cik @ ''/'' @ taxonomy @ ''/'' @ tag @ ''.json''"

definition rstrip_slash :: "string \<Rightarrow> string" where
  "rstrip_slash s = rev (dropWhile (\<lambda>c. c = CHR ''/'') (rev s))"

definition archives_url :: "string \<Rightarrow> string \<Rightarrow> string \<Rightarrow> string \<Rightarrow> (py_error, string) result" where
  "archives_url cik accession_number document_name archive_base_url =
     bind_res (int_of_string cik) (\<lambda>n.
       Inr (rstrip_slash archive_base_url @ ''/'' @ int_dec n @ ''/'' @ no_hyphens accession_number @ ''/'' @ document_name))"

definition index_url_for :: "string \<Rightarrow> string \<Rightarrow> string \<Rightarrow> (py_error, string) result" where
  "index_url_for accession archive_cik archive_base_url =
     bind_res (accession_from_any accession) (\<lambda>identity.
       archives_url archive_cik (no_hyphens identity) (identity @ ''-index.html'') archive_base_url)"

definition index_json_url_for :: "string \<Rightarrow> string \<Rightarrow> string \<Rightarrow> (py_error, string) result" where
  "index_json_url_for accession archive_cik archive_base_url =
     bind_res (accession_from_any accession) (\<lambda>identity.
       archives_url archive_cik (no_hyphens identity) ''index.json'' archive_base_url)"

definition normalize_accession :: "string \<Rightarrow> string option" where
  "normalize_accession accession =
     (let compact = no_hyphens (strip accession) in
      if accession = [] \<or> \<not> is_digits compact \<or> length compact < 10 \<or> 18 < length compact then None else Some compact)"

definition accession_hyphenated :: "string \<Rightarrow> (py_error, string) result" where
  "accession_hyphenated accession =
     (case normalize_accession accession of
        None \<Rightarrow> Inl ValueError
      | Some canonical \<Rightarrow>
          if length canonical = 18
          then Inr (take 10 canonical @ ''-'' @ take 2 (drop 10 canonical) @ ''-'' @ drop 12 canonical)
          else Inr (take 10 canonical @ ''-'' @ drop 10 canonical))"

definition bundle_url :: "string \<Rightarrow> string \<Rightarrow> string \<Rightarrow> (py_error, string) result" where
  "bundle_url suffix archive_cik accession =
     (case normalize_accession accession of
        None \<Rightarrow> Inl ValueError
      | Some canonical \<Rightarrow>
          bind_res (accession_hyphenated canonical) (\<lambda>dashed.
          bind_res (int_of_string archive_cik) (\<lambda>n.
            archives_url (int_dec n) canonical (dashed @ suffix) SEC_ARCHIVE_BASE)))"

definition full_submission_url_for :: "string \<Rightarrow> string \<Rightarrow> (py_error, string) result" where
  "full_submission_url_for archive_cik accession = bundle_url ''.txt'' archive_cik accession"

definition xbrl_package_url_for :: "string \<Rightarrow> string \<Rightarrow> (py_error, string) result" where
  "xbrl_package_url_for archive_cik accession = bundle_url ''-xbrl.zip'' archive_cik accession"

section \<open>Archive URLs\<close>

record archive_url_parts =
  ap_url :: string
  ap_archive_cik :: string
  ap_accession :: string
  ap_document_path :: string

definition ARCHIVE_PREFIX :: string where "ARCHIVE_PREFIX = ''/Archives/edgar/data/''"

text \<open>\<^verbatim>\<open>_ARCHIVE_PATH_RE.fullmatch\<close>: the directory number, the accession digits and a document path in one line.\<close>

definition archive_path_match :: "string \<Rightarrow> (string \<times> string \<times> string) option" where
  "archive_path_match path =
     (if \<not> starts_with ARCHIVE_PREFIX path then None
      else
        (let rest = drop (length ARCHIVE_PREFIX) path;
             cik = takeWhile is_digit rest; rest1 = dropWhile is_digit rest;
             acc = takeWhile is_digit (tl rest1); rest2 = dropWhile is_digit (tl rest1); doc = tl rest2 in
         if cik \<noteq> [] \<and> rest1 \<noteq> [] \<and> hd rest1 = CHR ''/'' \<and> 10 \<le> length acc \<and> length acc \<le> 18
            \<and> rest2 \<noteq> [] \<and> hd rest2 = CHR ''/'' \<and> doc \<noteq> [] \<and> CHR 0x0A \<notin> set doc
         then Some (cik, acc, doc) else None))"

definition archive_parts :: "string \<Rightarrow> string \<Rightarrow> archive_url_parts option" where
  "archive_parts path url =
     (case archive_path_match path of
        None \<Rightarrow> None
      | Some (cik, acc, doc) \<Rightarrow>
          (case normalize_accession acc of
             None \<Rightarrow> None
           | Some accession \<Rightarrow>
               if list_all (\<lambda>c. c = CHR ''/'') doc then None
               else Some \<lparr>ap_url = url, ap_archive_cik = cik, ap_accession = accession, ap_document_path = doc\<rparr>))"

definition parse_archive_url :: "string \<Rightarrow> archive_url_parts option" where
  "parse_archive_url url =
     (let value = strip url in
      if url = [] \<or> \<not> starts_with (SEC_ARCHIVE_BASE @ ''/'') value then None
      else archive_parts (drop (length ''https://www.sec.gov'') value) value)"

record archive_url_policy =
  po_allowed_schemes :: "string list"
  po_allowed_hosts :: "string list"

definition ArchiveUrlPolicy :: "string list \<Rightarrow> string list \<Rightarrow> (py_error, archive_url_policy) result" where
  "ArchiveUrlPolicy allowed_schemes allowed_hosts =
     (let schemes = map (map lower_char) allowed_schemes; hosts = map (map lower_char) allowed_hosts in
      if schemes = [] \<or> hosts = [] \<or> list_ex (\<lambda>s. s = []) (schemes @ hosts) then Inl ValueError
      else if list_ex (\<lambda>s. \<not> (is_alpha (hd s) \<and> list_all is_scheme_char s)) schemes then Inl ValueError
      else if list_ex (\<lambda>h. CHR ''/'' \<in> set h \<or> CHR '':'' \<in> set h \<or> CHR ''@'' \<in> set h) hosts then Inl ValueError
      else Inr \<lparr>po_allowed_schemes = schemes, po_allowed_hosts = hosts\<rparr>)"

definition DEFAULT_ARCHIVE_URL_POLICY :: archive_url_policy where
  "DEFAULT_ARCHIVE_URL_POLICY = \<lparr>po_allowed_schemes = [''https''], po_allowed_hosts = [''www.sec.gov'']\<rparr>"

definition double_slash :: "string \<Rightarrow> bool" where
  "double_slash s \<longleftrightarrow> list_ex (\<lambda>(a, b). a = CHR ''/'' \<and> b = CHR ''/'') (zip s (tl s))"

definition unsafe_path :: "string \<Rightarrow> bool" where
  "unsafe_path path \<longleftrightarrow> CHR ''%'' \<in> set path \<or> CHR 0x5C \<in> set path \<or> double_slash path
     \<or> list_ex (\<lambda>seg. seg = ''.'' \<or> seg = ''..'') (split_on (CHR ''/'') path)"

definition match_identity ::
  "string \<Rightarrow> string option \<Rightarrow> archive_url_parts option \<Rightarrow> (py_error, archive_url_parts) result" where
  "match_identity accession expected_archive_cik archive =
     bind_res (accession_from_any accession) (\<lambda>expected.
       case archive of
         None \<Rightarrow> Inl ValueError
       | Some ap \<Rightarrow>
           if ap_accession ap \<noteq> no_hyphens expected then Inl ValueError
           else (case expected_archive_cik of
                   None \<Rightarrow> Inr ap
                 | Some raw \<Rightarrow>
                     bind_res (cik_from_raw raw) (\<lambda>cik.
                       if int (digits_val (ap_archive_cik ap)) \<noteq> cik then Inl ValueError else Inr ap)))"

definition validate_archive_url ::
  "string \<Rightarrow> string \<Rightarrow> string option \<Rightarrow> archive_url_policy \<Rightarrow> (py_error, archive_url_parts) result" where
  "validate_archive_url url accession expected_archive_cik policy =
     (if url = [] \<or> url \<noteq> strip url then Inl ValueError
      else if CHR ''?'' \<in> set url \<or> CHR ''#'' \<in> set url \<or> list_ex (\<lambda>c. (of_char c :: nat) \<le> 32 \<or> (of_char c :: nat) = 127) url
      then Inl ValueError
      else bind_res (urlsplit url) (\<lambda>parts. bind_res (url_port parts) (\<lambda>port.
        if map lower_char (su_scheme parts) \<notin> set (po_allowed_schemes policy)
           \<or> url_hostname parts = None \<or> map lower_char (the (url_hostname parts)) \<notin> set (po_allowed_hosts policy)
           \<or> has_userinfo parts \<or> port \<noteq> None
        then Inl ValueError
        else if unsafe_path (su_path parts) then Inl ValueError
        else match_identity accession expected_archive_cik (archive_parts (su_path parts) url))))"

section \<open>Surfaces\<close>

definition infix_of :: "string \<Rightarrow> string \<Rightarrow> bool" where
  "infix_of p s \<longleftrightarrow> list_ex (\<lambda>n. starts_with p (drop n s)) [0..<Suc (length s)]"

definition at_or_below :: "string \<Rightarrow> string \<Rightarrow> bool" where
  "at_or_below p s \<longleftrightarrow> s = p \<or> starts_with (p @ ''/'') s"

text \<open>The file name of a path with a directory number and a directory below the archive root.\<close>

definition archive_member :: "string \<Rightarrow> string option" where
  "archive_member path =
     (case split_on (CHR ''/'') path of
        [e, a, b, c, cik, dir, name] \<Rightarrow>
          if e = [] \<and> a = ''Archives'' \<and> b = ''edgar'' \<and> c = ''data'' \<and> is_digits cik \<and> dir \<noteq> [] then Some name else None
      | _ \<Rightarrow> None)"

definition member_is :: "(string \<Rightarrow> bool) \<Rightarrow> string \<Rightarrow> bool" where
  "member_is P path = (case archive_member path of None \<Rightarrow> False | Some name \<Rightarrow> P name)"

text \<open>The rules in order: surface, host, and the meaning of the path pattern.\<close>

definition SEC_SURFACE_RULES :: "(string \<times> string \<times> (string \<Rightarrow> bool)) list" where
  "SEC_SURFACE_RULES =
     [(''submissions_historical_shards'', ''data.sec.gov'', \<lambda>p. starts_with ''/submissions/'' p \<and>
         (let seg = drop (length ''/submissions/'') p in CHR ''/'' \<notin> set seg \<and> ends_with ''.json'' seg
            \<and> infix_of ''-submissions-'' (take (length seg - 5) seg))),
      (''submissions'', ''data.sec.gov'', at_or_below ''/submissions''),
      (''companyconcept'', ''data.sec.gov'', at_or_below ''/api/xbrl''),
      (''submissions_bulk'', ''www.sec.gov'', \<lambda>p. p = ''/Archives/edgar/daily-index/bulkdata/submissions.zip''),
      (''cik_lookup'', ''www.sec.gov'', \<lambda>p. p = ''/Archives/edgar/cik-lookup-data.txt''),
      (''company_tickers'', ''www.sec.gov'', \<lambda>p. p = ''/files/company_tickers.json''),
      (''company_tickers_exchange'', ''www.sec.gov'', \<lambda>p. p = ''/files/company_tickers_exchange.json''),
      (''company_tickers_mf'', ''www.sec.gov'', \<lambda>p. p = ''/files/company_tickers_mf.json''),
      (''ticker_txt'', ''www.sec.gov'', \<lambda>p. p = ''/include/ticker.txt''),
      (''taxonomy_archives'', ''www.sec.gov'', \<lambda>p. starts_with ''/files/'' p \<and>
         (let seg = drop (length ''/files/'') p in CHR ''/'' \<notin> set seg \<and> ends_with ''.zip'' seg)),
      (''archive_index_json'', ''www.sec.gov'', member_is (\<lambda>n. n = ''index.json'')),
      (''archive_index_pages'', ''www.sec.gov'', member_is (\<lambda>n. ends_with ''-index.html'' n \<or> ends_with ''-index.txt'' n
         \<or> ends_with ''-index-headers.html'' n \<or> ends_with ''-index-headers.txt'' n)),
      (''full_submission_bundles'', ''www.sec.gov'', member_is (\<lambda>n. ends_with ''.txt'' n
         \<and> is_hyphenated_accession (take (length n - 4) n))),
      (''xbrl_packages'', ''www.sec.gov'', member_is (ends_with ''-xbrl.zip'')),
      (''archive_documents'', ''www.sec.gov'', at_or_below ''/Archives/edgar/data''),
      (''taxonomy_archives'', ''xbrl.sec.gov'', \<lambda>p. True)]"

definition classify_sec_surface :: "string \<Rightarrow> (py_error, string option) result" where
  "classify_sec_surface url =
     (if url = [] then Inr None
      else bind_res (urlsplit (strip url)) (\<lambda>parts.
        let host = map lower_char (case url_hostname parts of None \<Rightarrow> [] | Some h \<Rightarrow> h) in
        Inr (map_option fst (find (\<lambda>(_, rule_host, matches). host = rule_host \<and> matches (su_path parts)) SEC_SURFACE_RULES))))"

section \<open>Digits and hyphens\<close>

lemma digit_chars:
  assumes "is_digit c"
  shows "plain_char c" "c \<noteq> CHR ''/''" "c \<noteq> CHR ''-''" "\<not> is_space c" "c \<noteq> CHR 0x0A"
  using assms by (auto simp: is_digit_def plain_char_def is_space_def Let_def)

lemma int_dec_nonneg: "0 \<le> n \<Longrightarrow> is_digits (int_dec n)"
proof -
  have "nat_dec k \<noteq> []" for k by (subst nat_dec.simps) simp
  then show "0 \<le> n \<Longrightarrow> is_digits (int_dec n)"
    using nat_dec_digits by (simp add: is_digits_def int_dec_def list_all_iff)
qed

lemma no_hyphens_digits: "list_all is_digit s \<Longrightarrow> no_hyphens s = s"
  unfolding no_hyphens_def using digit_chars(3) by (intro filter_True) (auto simp: list_all_iff)

lemma strip_plain:
  assumes "s \<noteq> []" "\<not> is_space (hd s)" "\<not> is_space (last s)"
  shows "strip s = s"
proof -
  have "dropWhile is_space s = s" using assms(1,2) by (cases s) auto
  moreover have "dropWhile is_space (rev s) = rev s" using assms(1,3) by (cases "rev s") (auto simp: hd_rev[symmetric])
  ultimately show ?thesis unfolding strip_def by simp
qed

lemma plain_not_space: "plain_char c \<Longrightarrow> \<not> is_space c"
  by (auto simp: plain_char_def is_space_def Let_def)

lemma strip_plain_all: "list_all plain_char s \<Longrightarrow> strip s = s"
  by (cases "s = []") (simp add: strip_def, rule strip_plain, auto simp: list_all_iff plain_not_space)

text \<open>The two spellings of an accession are the same identity.\<close>

lemma hyphenated_parts:
  assumes "is_hyphenated_accession s"
  obtains a b c where "s = a @ ''-'' @ b @ ''-'' @ c" "length a = 10" "length b = 2" "length c = 6"
    "list_all is_digit a" "list_all is_digit b" "list_all is_digit c"
proof
  note s = assms[unfolded is_hyphenated_accession_def]
  have "s = take 10 s @ [s ! 10] @ drop 11 s" using s id_take_nth_drop[of 10 s] by simp
  moreover have "drop 11 s = take 2 (drop 11 s) @ [s ! 13] @ drop 14 s"
    using s id_take_nth_drop[of 2 "drop 11 s"] by simp
  ultimately show "s = take 10 s @ ''-'' @ take 2 (drop 11 s) @ ''-'' @ drop 14 s" using s by simp
  show "length (take 10 s) = 10" "length (take 2 (drop 11 s)) = 2" "length (drop 14 s) = 6"
    "list_all is_digit (take 10 s)" "list_all is_digit (take 2 (drop 11 s))" "list_all is_digit (drop 14 s)"
    using s by simp_all
qed

lemma hyphenated_normalized:
  assumes "is_hyphenated_accession s"
  shows "length (no_hyphens s) = 18" "is_digits (no_hyphens s)" "list_all plain_char s" "CHR ''/'' \<notin> set s"
    "accession_hyphenated (no_hyphens s) = Inr s" "s \<noteq> []"
proof -
  obtain a b c where s: "s = a @ ''-'' @ b @ ''-'' @ c" and len: "length a = 10" "length b = 2" "length c = 6"
    and dig: "list_all is_digit a" "list_all is_digit b" "list_all is_digit c"
    using hyphenated_parts[OF assms] by metis
  have no: "no_hyphens s = a @ b @ c"
    using dig[THEN no_hyphens_digits] unfolding s no_hyphens_def by simp
  show n18: "length (no_hyphens s) = 18" and digs: "is_digits (no_hyphens s)" using no len dig by (auto simp: is_digits_def)
  have pl: "list_all plain_char w" if "list_all is_digit w" for w
    using that digit_chars(1) by (simp add: list_all_iff)
  show "list_all plain_char s" unfolding s using dig[THEN pl] by (simp add: plain_char_def)
  show "CHR ''/'' \<notin> set s" unfolding s using dig digit_chars(2) by (auto simp: list_all_iff)
  have "strip (no_hyphens s) = no_hyphens s" using pl[of "no_hyphens s"] digs by (simp add: strip_plain_all is_digits_def)
  moreover have "no_hyphens (no_hyphens s) = no_hyphens s" using digs by (simp add: no_hyphens_digits is_digits_def)
  ultimately have "normalize_accession (no_hyphens s) = Some (no_hyphens s)"
    using n18 digs by (auto simp: normalize_accession_def is_digits_def)
  then show "accession_hyphenated (no_hyphens s) = Inr s"
    unfolding accession_hyphenated_def using n18 no len by (simp add: s)
  show "s \<noteq> []" by (simp add: s)
qed

lemma AccessionNumber_Inr: "AccessionNumber raw = Inr s \<Longrightarrow> is_hyphenated_accession s"
  by (auto simp: AccessionNumber_def split: if_splits)

lemma accession_from_any_Inr: "accession_from_any raw = Inr s \<Longrightarrow> is_hyphenated_accession s"
  by (auto simp: accession_from_any_def Let_def intro: AccessionNumber_Inr split: if_splits)

section \<open>Round trips\<close>

lemma archive_path_match_built:
  assumes "is_digits cik" "is_digits acc" "10 \<le> length acc" "length acc \<le> 18" "doc \<noteq> []" "CHR 0x0A \<notin> set doc"
  shows "archive_path_match (ARCHIVE_PREFIX @ cik @ ''/'' @ acc @ ''/'' @ doc) = Some (cik, acc, doc)"
proof -
  have slash: "\<not> is_digit (CHR ''/'')" by code_simp
  have "\<forall>c \<in> set cik. is_digit c" "\<forall>c \<in> set acc. is_digit c" "cik \<noteq> []"
    using assms(1,2) by (auto simp: is_digits_def list_all_iff)
  then have "takeWhile is_digit (cik @ ''/'' @ r) = cik" "dropWhile is_digit (cik @ ''/'' @ r) = ''/'' @ r"
    "takeWhile is_digit (acc @ ''/'' @ r) = acc" "dropWhile is_digit (acc @ ''/'' @ r) = ''/'' @ r" "cik \<noteq> []" for r
    using slash by (simp_all add: takeWhile_tail dropWhile_append3)
  then show ?thesis
    using assms unfolding archive_path_match_def Let_def by (simp add: starts_with_append)
qed

lemma archive_base_split: "SEC_ARCHIVE_BASE @ ''/'' = ''https://www.sec.gov'' @ ARCHIVE_PREFIX"
  by (simp add: SEC_ARCHIVE_BASE_def ARCHIVE_PREFIX_def)

lemma archives_url_Inr:
  assumes "archives_url cik acc doc SEC_ARCHIVE_BASE = Inr url"
  obtains n where "int_of_string cik = Inr n"
    "url = ''https://www.sec.gov'' @ ARCHIVE_PREFIX @ int_dec n @ ''/'' @ no_hyphens acc @ ''/'' @ doc"
proof -
  have "rstrip_slash SEC_ARCHIVE_BASE = SEC_ARCHIVE_BASE" by code_simp
  then obtain n where n: "int_of_string cik = Inr n"
    "url = (SEC_ARCHIVE_BASE @ ''/'') @ int_dec n @ ''/'' @ no_hyphens acc @ ''/'' @ doc"
    using assms by (auto simp: archives_url_def bind_res_Inr_iff)
  show thesis using that[OF n(1)] n(2) unfolding archive_base_split by simp
qed

text \<open>
  C23. Archive URLs are built and parsed consistently: parsing the URL built for a directory number, an
  accession of 10 to 18 digits in either spelling and a document name gives these back, and the
  hyphenated form of a full accession is recovered from its digits.
\<close>

theorem archive_url_roundtrip:
  assumes "archives_url cik acc doc SEC_ARCHIVE_BASE = Inr url" "int_of_string cik = Inr n" "0 \<le> n"
    and "is_digits (no_hyphens acc)" "10 \<le> length (no_hyphens acc)" "length (no_hyphens acc) \<le> 18"
    and "list_all plain_char doc" "\<exists>c \<in> set doc. c \<noteq> CHR ''/''"
  shows "parse_archive_url url = Some \<lparr>ap_url = url, ap_archive_cik = int_dec n, ap_accession = no_hyphens acc, ap_document_path = doc\<rparr>
    \<and> (is_hyphenated_accession acc \<longrightarrow> accession_hyphenated (no_hyphens acc) = Inr acc)"
proof -
  have url: "url = ''https://www.sec.gov'' @ ARCHIVE_PREFIX @ int_dec n @ ''/'' @ no_hyphens acc @ ''/'' @ doc"
    using archives_url_Inr[OF assms(1)] assms(2) by (metis Inr_inject)
  have pl: "list_all plain_char w" if "is_digits w" for w
    using that digit_chars(1) by (simp add: is_digits_def list_all_iff)
  have "list_all plain_char url"
    unfolding url using pl[OF int_dec_nonneg[OF assms(3)]] pl[OF assms(4)] assms(7)
    by (simp add: ARCHIVE_PREFIX_def) (simp add: plain_char_def)
  then have strip: "strip url = url" by (rule strip_plain_all)
  have "strip (no_hyphens acc) = no_hyphens acc" using pl[OF assms(4)] by (rule strip_plain_all)
  moreover have "no_hyphens (no_hyphens acc) = no_hyphens acc" using assms(4) by (simp add: no_hyphens_digits is_digits_def)
  moreover have "no_hyphens acc \<noteq> []" using assms(4) by (simp add: is_digits_def)
  ultimately have norm: "normalize_accession (no_hyphens acc) = Some (no_hyphens acc)"
    using assms(4-6) unfolding normalize_accession_def Let_def by simp
  have "\<not> plain_char (CHR 0x0A)" by code_simp
  then have "CHR 0x0A \<notin> set doc" using assms(7) unfolding list_all_iff by blast
  moreover have "doc \<noteq> []" "\<not> list_all (\<lambda>c. c = CHR ''/'') doc" using assms(8) by (auto simp: list_all_iff)
  ultimately have parts: "archive_parts (ARCHIVE_PREFIX @ int_dec n @ ''/'' @ no_hyphens acc @ ''/'' @ doc) url
      = Some \<lparr>ap_url = url, ap_archive_cik = int_dec n, ap_accession = no_hyphens acc, ap_document_path = doc\<rparr>"
    using archive_path_match_built[OF int_dec_nonneg[OF assms(3)] assms(4-6)] norm by (simp add: archive_parts_def)
  have "starts_with (SEC_ARCHIVE_BASE @ ''/'') url"
    unfolding archive_base_split url by (simp add: starts_with_def ARCHIVE_PREFIX_def)
  moreover have "drop (length ''https://www.sec.gov'') url = ARCHIVE_PREFIX @ int_dec n @ ''/'' @ no_hyphens acc @ ''/'' @ doc"
    unfolding url by simp
  moreover have "url \<noteq> []" by (simp add: url)
  ultimately have "parse_archive_url url = Some \<lparr>ap_url = url, ap_archive_cik = int_dec n, ap_accession = no_hyphens acc, ap_document_path = doc\<rparr>"
    unfolding parse_archive_url_def Let_def strip using parts by simp
  then show ?thesis using hyphenated_normalized(5) by blast
qed

theorem archive_url_roundtrip_witness:
  "parse_archive_url ''https://www.sec.gov/Archives/edgar/data/7/000032019323000106/a.htm''
    = Some \<lparr>ap_url = ''https://www.sec.gov/Archives/edgar/data/7/000032019323000106/a.htm'', ap_archive_cik = ''7'',
        ap_accession = ''000032019323000106'', ap_document_path = ''a.htm''\<rparr>"
proof -
  have "archives_url ''0007'' ''0000320193-23-000106'' ''a.htm'' SEC_ARCHIVE_BASE
      = Inr ''https://www.sec.gov/Archives/edgar/data/7/000032019323000106/a.htm''"
    "int_of_string ''0007'' = Inr 7" "(0::int) \<le> 7"
    "is_digits (no_hyphens ''0000320193-23-000106'')" "10 \<le> length (no_hyphens ''0000320193-23-000106'')"
    "length (no_hyphens ''0000320193-23-000106'') \<le> 18" "list_all plain_char ''a.htm''" "\<exists>c \<in> set ''a.htm''. c \<noteq> CHR ''/''"
    by code_simp+
  note built = archive_url_roundtrip[OF this]
  have "int_dec 7 = ''7''" "no_hyphens ''0000320193-23-000106'' = ''000032019323000106''" by code_simp+
  then show ?thesis using built by simp
qed

section \<open>Validated URLs\<close>

lemma before_after: "c \<in> set s \<Longrightarrow> s = before c s @ c # after c s"
  unfolding before_def after_def by (induction s) auto

lemma before_absent: "c \<notin> set s \<Longrightarrow> before c s = s" "c \<notin> set s \<Longrightarrow> after c s = []"
  unfolding before_def after_def by (induction s) auto

lemma archive_path_match_Some:
  assumes "archive_path_match path = Some (cik, acc, doc)"
  shows "path = ARCHIVE_PREFIX @ cik @ ''/'' @ acc @ ''/'' @ doc" "list_all is_digit cik" "list_all is_digit acc"
proof -
  define rest where "rest = drop (length ARCHIVE_PREFIX) path"
  define rest1 where "rest1 = dropWhile is_digit rest"
  define rest2 where "rest2 = dropWhile is_digit (tl rest1)"
  have m: "take (length ARCHIVE_PREFIX) path = ARCHIVE_PREFIX" "cik = takeWhile is_digit rest" "acc = takeWhile is_digit (tl rest1)"
    "doc = tl rest2" "rest1 \<noteq> []" "hd rest1 = CHR ''/''" "rest2 \<noteq> []" "hd rest2 = CHR ''/''"
    using assms unfolding archive_path_match_def Let_def rest_def rest1_def rest2_def starts_with_def
    by (simp_all split: if_splits)
  have "path = ARCHIVE_PREFIX @ rest" using m(1) append_take_drop_id[of "length ARCHIVE_PREFIX" path] by (simp add: rest_def)
  moreover have "rest = cik @ rest1" by (simp add: m(2) rest1_def)
  moreover have "rest1 = CHR ''/'' # acc @ rest2" using m(5,6) by (cases rest1) (simp_all add: m(3) rest2_def)
  moreover have "rest2 = CHR ''/'' # doc" using m(4,7,8) by (cases rest2) simp_all
  ultimately show "path = ARCHIVE_PREFIX @ cik @ ''/'' @ acc @ ''/'' @ doc" by simp
  show "list_all is_digit cik" "list_all is_digit acc" by (auto simp: m(2,3) list_all_iff dest: set_takeWhileD)
qed

lemma archive_parts_Some:
  assumes "archive_parts path url = Some ap"
  shows "path = ARCHIVE_PREFIX @ ap_archive_cik ap @ ''/'' @ ap_accession ap @ ''/'' @ ap_document_path ap"
proof -
  obtain cik acc doc a where m: "archive_path_match path = Some (cik, acc, doc)" "normalize_accession acc = Some a"
    "ap = \<lparr>ap_url = url, ap_archive_cik = cik, ap_accession = a, ap_document_path = doc\<rparr>"
    using assms by (auto simp: archive_parts_def split: option.splits prod.splits if_splits)
  note path = archive_path_match_Some[OF m(1)]
  have "list_all plain_char acc" using path(3) digit_chars(1) by (simp add: list_all_iff)
  then have "a = acc"
    using m(2) path(3) by (auto simp: normalize_accession_def Let_def strip_plain_all no_hyphens_digits split: if_splits)
  then show ?thesis using path(1) m(3) by simp
qed

lemma sec_host_not_bracketed:
  assumes "map lower_char h = ''www.sec.gov''"
  shows "\<not> bracketed_ok h" "CHR ''%'' \<notin> set h"
proof -
  have no: "c \<notin> set h" if "lower_char c \<notin> set ''www.sec.gov''" for c
    using that arg_cong[OF assms, of set] by (metis image_eqI list.set_map)
  show pc: "CHR ''%'' \<notin> set h" by (rule no) code_simp
  have "CHR '':'' \<notin> set h" by (rule no) code_simp
  moreover have "h \<noteq> []" using assms by auto
  moreover have "hd h \<noteq> CHR ''v''" using \<open>h \<noteq> []\<close> assms by (cases h) (auto simp: lower_char_def)
  ultimately show "\<not> bracketed_ok h"
    using pc by (simp add: bracketed_ok_def is_ipv6_def before_absent ipv6_parts_def split_on_word)
qed

lemma urlsplit_join:
  assumes "urlsplit url = Inr u" "su_scheme u \<noteq> []" "su_netloc u \<noteq> []"
    and "list_all plain_char url"
  obtains scheme where "url = scheme @ ''://'' @ su_netloc u @ su_path u" "map lower_char scheme = su_scheme u"
proof -
  have clean: "url_clean url = url" by (rule url_clean_plain[OF assms(4)])
  obtain sch rest where sr: "url_scheme url = (sch, rest)" by (cases "url_scheme url")
  have u: "su_scheme u = sch" "su_netloc u = url_netloc rest" "su_path u = before (CHR ''?'') (before (CHR ''#'') (url_rest rest))"
    using assms(1) unfolding urlsplit_def clean sr Let_def prod.case by (auto split: if_splits)
  have col: "CHR '':'' \<in> set url" "sch = map lower_char (before (CHR '':'') url)" "rest = after (CHR '':'') url"
    using sr assms(2) u(1) by (auto simp: url_scheme_def Let_def split: if_splits)
  have url: "url = before (CHR '':'') url @ '':'' @ rest" using before_after[OF col(1)] col(3) by simp
  have two: "take 2 rest = ''//''" using assms(3) u(2) by (auto simp: url_netloc_def split: if_splits)
  have "rest = ''//'' @ drop 2 rest" using append_take_drop_id[of 2 rest] two by simp
  moreover have "drop 2 rest = url_netloc rest @ url_rest rest" using two by (simp add: url_netloc_def url_rest_def)
  ultimately have rest: "rest = ''//'' @ su_netloc u @ url_rest rest" using u(2) by simp
  have "list_all plain_char (url_rest rest)"
    using assms(4) url rest by (metis list_all_append)
  then have "CHR ''#'' \<notin> set (url_rest rest)" "CHR ''?'' \<notin> set (url_rest rest)" by (auto simp: list_all_iff plain_char_def)
  then have "su_path u = url_rest rest" using u(3) by (simp add: before_absent)
  then show thesis using that[of "before (CHR '':'') url"] url rest col(2) u(1) by (metis append.assoc append_Cons append_Nil)
qed

lemma in_dropWhile: "c \<in> set s \<Longrightarrow> c \<in> set (dropWhile (\<lambda>d. d \<noteq> c) s)"
  by (induction s) auto

lemma lower_char_idem: "lower_char (lower_char c) = lower_char c"
proof (cases "65 \<le> (of_char c :: nat) \<and> (of_char c :: nat) \<le> 90")
  case True
  then show ?thesis by (simp add: lower_char_def)
next
  case False
  then have "lower_char c = c" unfolding lower_char_def Let_def by (rule if_not_P)
  then show ?thesis by simp
qed

lemma sec_netloc:
  assumes "netloc_ok (su_netloc u)" "\<not> has_userinfo u" "url_port u = Inr None" "url_hostname u = Some h"
    and "map lower_char h = ''www.sec.gov''"
  obtains host port where "su_netloc u = host @ port" "map lower_char host = ''www.sec.gov''" "port = [] \<or> port = '':''"
proof -
  let ?n = "su_netloc u" let ?host = "host_text ?n"
  have info: "hostinfo ?n = ?n" using assms(2) by (simp add: hostinfo_def has_userinfo_def before_absent)
  have h: "h = map lower_char (before (CHR ''%'') ?host) @ dropWhile (\<lambda>c. c \<noteq> CHR ''%'') ?host"
    using assms(4) by (auto simp: url_hostname_def info Let_def split: if_splits)
  have nopc: "CHR ''%'' \<notin> set ?host"
  proof
    assume "CHR ''%'' \<in> set ?host"
    then have "CHR ''%'' \<in> set (dropWhile (\<lambda>c. c \<noteq> CHR ''%'') ?host)" by (rule in_dropWhile)
    then have "CHR ''%'' \<in> set h" using h by simp
    then show False using sec_host_not_bracketed(2)[OF assms(5)] by blast
  qed
  then have "h = map lower_char ?host" using h by (auto simp: before_absent)
  then have low: "map lower_char ?host = ''www.sec.gov''" using assms(5) by (simp add: o_def lower_char_idem)
  have nobr: "CHR ''['' \<notin> set ?n"
  proof
    assume "CHR ''['' \<in> set ?n"
    then have "bracketed_ok ?host" using assms(1) by (simp add: netloc_ok_def host_text_def)
    then show False using sec_host_not_bracketed(1)[OF low] by blast
  qed
  have "after (CHR '':'') ?n = []"
    using assms(3) nobr by (auto simp: url_port_def info port_text_def Let_def split: if_splits)
  then have "?n = ?host @ (if CHR '':'' \<in> set ?n then '':'' else [])"
    using nobr before_after[of "CHR '':''" ?n] by (simp add: host_text_def before_absent)
  then show thesis using that[OF _ low] by (metis (full_types))
qed

lemma match_identity_Inr:
  assumes "match_identity accession expected_cik archive = Inr ap"
  obtains identity where "archive = Some ap" "accession_from_any accession = Inr identity" "ap_accession ap = no_hyphens identity"
    "\<forall>raw. expected_cik = Some raw \<longrightarrow> cik_from_raw raw = Inr (int (digits_val (ap_archive_cik ap)))"
proof -
  obtain identity where id: "accession_from_any accession = Inr identity"
    using assms by (auto simp: match_identity_def bind_res_Inr_iff)
  show thesis
  proof (cases archive)
    case None
    then show thesis using assms id by (simp add: match_identity_def)
  next
    case (Some a)
    then show thesis using assms id that
      by (cases expected_cik) (auto simp: match_identity_def bind_res_Inr_iff split: if_splits)
  qed
qed

lemma validate_archive_url_Inr:
  assumes "validate_archive_url url accession expected_cik policy = Inr ap"
  obtains u h where "list_all plain_char url" "urlsplit url = Inr u" "url_port u = Inr None"
    "map lower_char (su_scheme u) \<in> set (po_allowed_schemes policy)"
    "url_hostname u = Some h" "map lower_char h \<in> set (po_allowed_hosts policy)" "\<not> has_userinfo u" "\<not> unsafe_path (su_path u)"
    "match_identity accession expected_cik (archive_parts (su_path u) url) = Inr ap"
proof -
  have chars: "CHR ''?'' \<notin> set url" "CHR ''#'' \<notin> set url" "\<not> list_ex (\<lambda>c. (of_char c :: nat) \<le> 32 \<or> (of_char c :: nat) = 127) url"
    using assms by (auto simp: validate_archive_url_def split: if_splits)
  have "list_all plain_char url"
    using chars unfolding list_ex_iff list_all_iff plain_char_def by (metis not_less)
  then show thesis
    using assms that unfolding validate_archive_url_def bind_res_Inr_iff
    by (auto split: if_splits simp: bind_res_Inr_iff)
qed

text \<open>
  C22. A validated archive URL is what it seems: it is an HTTPS URL of the SEC host, without user or
  port, whose path is the archive directory of the expected accession, and of the expected directory
  number when one is given, followed by a document path without dot segments, escapes or backslashes.
\<close>

theorem validated_archive_url_safe:
  assumes "validate_archive_url url accession expected_cik DEFAULT_ARCHIVE_URL_POLICY = Inr ap"
  shows "\<exists>scheme host port identity.
      url = scheme @ ''://'' @ host @ port @ ARCHIVE_PREFIX @ ap_archive_cik ap @ ''/'' @ ap_accession ap @ ''/'' @ ap_document_path ap
    \<and> map lower_char scheme = ''https'' \<and> map lower_char host = ''www.sec.gov'' \<and> port \<in> {[], '':''}
    \<and> accession_from_any accession = Inr identity \<and> ap_accession ap = no_hyphens identity
    \<and> list_all (\<lambda>seg. seg \<noteq> ''.'' \<and> seg \<noteq> ''..'') (split_on (CHR ''/'') (ap_document_path ap))
    \<and> CHR ''%'' \<notin> set (ap_document_path ap) \<and> CHR 0x5C \<notin> set (ap_document_path ap)
    \<and> (\<forall>raw. expected_cik = Some raw \<longrightarrow> cik_from_raw raw = Inr (int (digits_val (ap_archive_cik ap))))"
proof -
  obtain u h where plain: "list_all plain_char url" and u: "urlsplit url = Inr u" "url_port u = Inr None"
      "map lower_char (su_scheme u) = ''https''" "url_hostname u = Some h" "map lower_char h = ''www.sec.gov''"
      "\<not> has_userinfo u" "\<not> unsafe_path (su_path u)"
    and match: "match_identity accession expected_cik (archive_parts (su_path u) url) = Inr ap"
    by (rule validate_archive_url_Inr[OF assms]) (rule that; (assumption | simp add: DEFAULT_ARCHIVE_URL_POLICY_def))
  obtain identity where id: "archive_parts (su_path u) url = Some ap" "accession_from_any accession = Inr identity"
      "ap_accession ap = no_hyphens identity"
    and cik: "\<forall>raw. expected_cik = Some raw \<longrightarrow> cik_from_raw raw = Inr (int (digits_val (ap_archive_cik ap)))"
    by (rule match_identity_Inr[OF match])
  have nok: "netloc_ok (su_netloc u)"
    using u(1) unfolding urlsplit_def Let_def by (auto split: if_splits prod.splits)
  obtain host port where net: "su_netloc u = host @ port" "map lower_char host = ''www.sec.gov''" "port = [] \<or> port = '':''"
    by (rule sec_netloc[OF nok u(6,2,4,5)])
  have ne: "su_netloc u \<noteq> []" "su_scheme u \<noteq> []" using net u(3) by auto
  obtain scheme where url: "url = scheme @ ''://'' @ su_netloc u @ su_path u" "map lower_char scheme = su_scheme u"
    by (rule urlsplit_join[OF u(1) ne(2,1) plain])
  have "map lower_char scheme = ''https''"
  proof -
    have "map lower_char (map lower_char scheme) = map lower_char scheme" by (simp add: lower_char_idem)
    then show ?thesis using url(2) u(3) by metis
  qed
  note path = archive_parts_Some[OF id(1)]
  let ?d = "ap_document_path ap"
  have "split_on (CHR ''/'') (su_path u) = split_on (CHR ''/'') (ARCHIVE_PREFIX @ ap_archive_cik ap @ ''/'' @ ap_accession ap) @ split_on (CHR ''/'') ?d"
    unfolding path using split_on_join[of "CHR ''/''" "ARCHIVE_PREFIX @ ap_archive_cik ap @ ''/'' @ ap_accession ap" ?d] by simp
  then have "list_all (\<lambda>seg. seg \<noteq> ''.'' \<and> seg \<noteq> ''..'') (split_on (CHR ''/'') ?d)"
    using u(7) by (auto simp: unsafe_path_def list_ex_iff list_all_iff)
  moreover have "CHR ''%'' \<notin> set ?d" "CHR 0x5C \<notin> set ?d"
  proof -
    have "set ?d \<subseteq> set (su_path u)" unfolding path by auto
    then show "CHR ''%'' \<notin> set ?d" "CHR 0x5C \<notin> set ?d" using u(7) unfolding unsafe_path_def by blast+
  qed
  moreover have "url = scheme @ ''://'' @ host @ port @ ARCHIVE_PREFIX @ ap_archive_cik ap @ ''/'' @ ap_accession ap @ ''/'' @ ?d"
    using url(1) net(1) path by simp
  moreover have "port \<in> {[], '':''}" using net(3) by simp
  ultimately show ?thesis
    using \<open>map lower_char scheme = ''https''\<close> net(2) id(2,3) cik
    by (intro exI[of _ scheme] exI[of _ host] exI[of _ port] exI[of _ identity] conjI) assumption+
qed

theorem validated_archive_url_safe_witness:
  "\<exists>scheme host port. ''https://www.sec.gov/Archives/edgar/data/7/000032019323000106/a.htm''
      = scheme @ ''://'' @ host @ port @ ARCHIVE_PREFIX @ ''7'' @ ''/'' @ ''000032019323000106'' @ ''/'' @ ''a.htm''
    \<and> map lower_char host = ''www.sec.gov''"
proof -
  let ?ap = "\<lparr>ap_url = ''https://www.sec.gov/Archives/edgar/data/7/000032019323000106/a.htm'', ap_archive_cik = ''7'',
        ap_accession = ''000032019323000106'', ap_document_path = ''a.htm''\<rparr>"
  have "validate_archive_url ''https://www.sec.gov/Archives/edgar/data/7/000032019323000106/a.htm'' ''0000320193-23-000106''
      None DEFAULT_ARCHIVE_URL_POLICY = Inr ?ap" by code_simp
  from validated_archive_url_safe[OF this] show ?thesis
    unfolding archive_url_parts.simps by (elim exE conjE) (intro exI conjI; assumption)
qed

section \<open>Surfaces of the builders\<close>

lemma classify_plain:
  assumes "plain_host h" "list_all plain_char p" "p \<noteq> []" "hd p = CHR ''/''"
  shows "classify_sec_surface (''https://'' @ h @ p) =
    Inr (map_option fst (find (\<lambda>(_, rule_host, matches). h = rule_host \<and> matches p) SEC_SURFACE_RULES))"
proof -
  have "list_all plain_char ''https://''" by code_simp
  moreover have "list_all plain_char h" using plain_host_chars(1)[OF assms(1)] by (simp add: list_all_iff)
  ultimately have "list_all plain_char (''https://'' @ h @ p)" using assms(2) by (simp only: list_all_append)
  then have strip: "strip (''https://'' @ h @ p) = ''https://'' @ h @ p" by (rule strip_plain_all)
  let ?u = "\<lparr>su_scheme = ''https'', su_netloc = h, su_path = p, su_query = [], su_fragment = []\<rparr>"
  have host: "url_hostname ?u = Some h" by (rule plain_host_parts(1)[OF assms(1)]) simp
  have "map lower_char h = h" using plain_host_chars(3)[OF assms(1)] by (simp add: map_idI)
  then show ?thesis
    unfolding classify_sec_surface_def strip urlsplit_plain[OF assms] bind_res_simps Let_def host option.case
    by simp
qed

lemma sec_hosts: "plain_host ''www.sec.gov''" "plain_host ''data.sec.gov''"
  by code_simp+

lemma starts_with_iff: "starts_with p s \<longleftrightarrow> (\<exists>r. s = p @ r)"
  unfolding starts_with_def by (metis append_eq_conv_conj)

lemma archive_member_built:
  assumes "is_digits cik" "dir \<noteq> []" "CHR ''/'' \<notin> set dir" "CHR ''/'' \<notin> set name"
  shows "archive_member (ARCHIVE_PREFIX @ cik @ ''/'' @ dir @ ''/'' @ name) = Some name"
proof -
  have cik: "CHR ''/'' \<notin> set cik" using assms(1) digit_chars(2) by (auto simp: is_digits_def list_all_iff)
  have "split_on (CHR ''/'') (ARCHIVE_PREFIX @ cik @ ''/'' @ dir @ ''/'' @ name) =
      ['''', ''Archives'', ''edgar'', ''data'', cik, dir, name]"
    unfolding ARCHIVE_PREFIX_def using cik assms(3,4) by (simp add: split_on_append split_on_word)
  then show ?thesis using assms(1,2) by (simp add: archive_member_def)
qed

text \<open>The archive rules decide by the name alone.\<close>

definition member_surface :: "string \<Rightarrow> string" where
  "member_surface n =
     (if n = ''index.json'' then ''archive_index_json''
      else if ends_with ''-index.html'' n \<or> ends_with ''-index.txt'' n \<or> ends_with ''-index-headers.html'' n
        \<or> ends_with ''-index-headers.txt'' n then ''archive_index_pages''
      else if ends_with ''.txt'' n \<and> is_hyphenated_accession (take (length n - 4) n) then ''full_submission_bundles''
      else if ends_with ''-xbrl.zip'' n then ''xbrl_packages''
      else ''archive_documents'')"

lemma classify_member:
  assumes "is_digits cik" "is_digits dir" "list_all plain_char name" "CHR ''/'' \<notin> set name"
  shows "classify_sec_surface (''https://www.sec.gov'' @ ARCHIVE_PREFIX @ cik @ ''/'' @ dir @ ''/'' @ name) = Inr (Some (member_surface name))"
proof -
  let ?p = "ARCHIVE_PREFIX @ cik @ ''/'' @ dir @ ''/'' @ name"
  have pl: "list_all plain_char w" if "is_digits w" for w using that digit_chars(1) by (simp add: is_digits_def list_all_iff)
  have plain: "list_all plain_char ?p"
    using pl[OF assms(1)] pl[OF assms(2)] assms(3) by (simp add: ARCHIVE_PREFIX_def) (simp add: plain_char_def)
  have hd: "?p \<noteq> []" "hd ?p = CHR ''/''" by (simp_all add: ARCHIVE_PREFIX_def)
  have dir: "dir \<noteq> []" "CHR ''/'' \<notin> set dir" using assms(2) digit_chars(2) by (auto simp: is_digits_def list_all_iff)
  have mem: "member_is P ?p = P name" for P unfolding member_is_def archive_member_built[OF assms(1) dir assms(4)] by simp
  obtain d ds where cik: "cik = d # ds" "is_digit d" using assms(1) by (cases cik) (auto simp: is_digits_def)
  have no: "?p \<noteq> ''/Archives/edgar/daily-index/bulkdata/submissions.zip''" "?p \<noteq> ''/Archives/edgar/cik-lookup-data.txt''"
    "?p \<noteq> ''/files/company_tickers.json''" "?p \<noteq> ''/files/company_tickers_exchange.json''"
    "?p \<noteq> ''/files/company_tickers_mf.json''" "?p \<noteq> ''/include/ticker.txt''" "\<not> starts_with ''/files/'' ?p"
    by (simp_all add: ARCHIVE_PREFIX_def starts_with_def)
  have below: "at_or_below ''/Archives/edgar/data'' ?p" by (simp add: at_or_below_def starts_with_def ARCHIVE_PREFIX_def)
  have "classify_sec_surface (''https://'' @ ''www.sec.gov'' @ ?p) = Inr (Some (member_surface name))"
    unfolding classify_plain[OF sec_hosts(1) plain hd] SEC_SURFACE_RULES_def
    using no below by (simp only: find.simps prod.case mem simp_thms if_True if_False) (simp add: member_surface_def)
  then show ?thesis by simp
qed

lemma classify_data:
  assumes "list_all plain_char p" "p \<noteq> []" "hd p = CHR ''/''"
  shows "at_or_below ''/submissions'' p \<Longrightarrow> CHR ''-'' \<notin> set p \<Longrightarrow> classify_sec_surface (''https://data.sec.gov'' @ p) = Inr (Some ''submissions'')"
    and "at_or_below ''/api/xbrl'' p \<Longrightarrow> classify_sec_surface (''https://data.sec.gov'' @ p) = Inr (Some ''companyconcept'')"
proof -
  note cl = classify_plain[OF sec_hosts(2) assms]
  have url: "''https://data.sec.gov'' @ p = ''https://'' @ ''data.sec.gov'' @ p" by simp
  show "classify_sec_surface (''https://data.sec.gov'' @ p) = Inr (Some ''submissions'')"
    if "at_or_below ''/submissions'' p" "CHR ''-'' \<notin> set p"
  proof -
    have "\<not> infix_of ''-submissions-'' (take n (drop m p))" for n m
    proof
      assume "infix_of ''-submissions-'' (take n (drop m p))"
      then obtain k where k: "take (length ''-submissions-'') (drop k (take n (drop m p))) = ''-submissions-''"
        unfolding infix_of_def list_ex_iff starts_with_def by blast
      have "CHR ''-'' \<in> set (take (length ''-submissions-'') (drop k (take n (drop m p))))" unfolding k by simp
      then show False using that(2) by (meson in_set_dropD in_set_takeD)
    qed
    then show ?thesis unfolding url cl SEC_SURFACE_RULES_def using that(1) by (simp add: Let_def)
  qed
  show "classify_sec_surface (''https://data.sec.gov'' @ p) = Inr (Some ''companyconcept'')" if below: "at_or_below ''/api/xbrl'' p"
  proof -
    obtain r where "p = ''/api/xbrl'' @ r" using below unfolding at_or_below_def starts_with_iff by auto
    then have "\<not> starts_with ''/submissions/'' p" "\<not> at_or_below ''/submissions'' p"
      by (simp_all add: at_or_below_def starts_with_def)
    then show ?thesis unfolding url cl SEC_SURFACE_RULES_def using below by simp
  qed
qed

lemma ends_with_append: "ends_with q (p @ q)"
  by (simp add: ends_with_def)

lemma not_ends_with: "length q \<le> length s \<Longrightarrow> s ! (length s - length q) \<noteq> hd q \<Longrightarrow> q \<noteq> [] \<Longrightarrow> \<not> ends_with q s"
  unfolding ends_with_def by (metis Cons_nth_drop_Suc diff_less length_greater_0_conv list.sel(1) le_zero_eq not_le)

lemma bundle_surface:
  assumes "is_hyphenated_accession s"
  shows "member_surface (s @ ''.txt'') = ''full_submission_bundles''" "member_surface (s @ ''-xbrl.zip'') = ''xbrl_packages''"
    "member_surface (s @ ''-index.html'') = ''archive_index_pages''"
proof -
  obtain a b c where s: "s = a @ ''-'' @ b @ ''-'' @ c" and len: "length a = 10" "length b = 2" "length c = 6"
    and dig: "list_all is_digit a" "list_all is_digit b" "list_all is_digit c"
    using hyphenated_parts[OF assms] by metis
  have s20: "length s = 20" using assms by (simp add: is_hyphenated_accession_def)
  have d6: "is_digit (s ! 6)" using dig(1) len by (simp add: s nth_append list_all_length)
  have d14: "is_digit (s ! 14)"
  proof -
    have "list_all is_digit (drop 14 s)" "drop 14 s \<noteq> []" using assms s20
      by (simp_all add: is_hyphenated_accession_def)
    then have "is_digit (hd (drop 14 s))" by (cases "drop 14 s") auto
    then show ?thesis using s20 by (simp add: hd_drop_conv_nth)
  qed
  have nd: "\<not> is_digit (CHR ''-'')" by code_simp
  show "member_surface (s @ ''-index.html'') = ''archive_index_pages''"
    using s20 by (auto simp: member_surface_def ends_with_append)
  have "\<not> ends_with ''-index.txt'' (s @ ''.txt'')" "\<not> ends_with ''-index-headers.txt'' (s @ ''.txt'')"
    by (rule not_ends_with; use s20 d6 d14 nd in \<open>auto simp: nth_append\<close>)+
  moreover have "\<not> ends_with ''-index.html'' (s @ ''.txt'')" "\<not> ends_with ''-index-headers.html'' (s @ ''.txt'')"
    using s20 by (simp_all add: ends_with_def)
  ultimately show "member_surface (s @ ''.txt'') = ''full_submission_bundles''"
    using s20 assms by (auto simp: member_surface_def ends_with_append)
  show "member_surface (s @ ''-xbrl.zip'') = ''xbrl_packages''"
    using s20 by (auto simp: member_surface_def ends_with_append ends_with_def)
qed

lemma normalize_cik_digits: "is_digits cik \<Longrightarrow> is_digits (normalize_cik cik)"
proof -
  assume cik: "is_digits cik"
  then have "is_digit (hd cik)" by (cases cik) (auto simp: is_digits_def)
  then have "hd cik \<noteq> CHR ''+''" "hd cik \<noteq> CHR ''-''" by (auto simp: is_digit_def)
  moreover have "is_digit (CHR ''0'')" by code_simp
  ultimately show ?thesis using cik by (auto simp: normalize_cik_def zfill_def is_digits_def list_all_iff)
qed

lemma numeral_body_digits: "is_digits ds \<Longrightarrow> numeral_body ds = Some ds"
proof (induction ds rule: numeral_body.induct)
  case (3 c d cs)
  then have "d \<noteq> CHR ''_''" by (auto simp: is_digits_def is_digit_def)
  with 3 show ?case by (auto simp: is_digits_def)
qed (auto simp: is_digits_def)

lemma int_of_string_dec: "0 \<le> n \<Longrightarrow> int_of_string (int_dec n) = Inr n"
proof -
  assume n: "0 \<le> n"
  have dig: "is_digits (nat_dec (nat n))" using int_dec_nonneg[OF n] n by (simp add: int_dec_def)
  then obtain c cs where cs: "nat_dec (nat n) = c # cs" "is_digit c" by (cases "nat_dec (nat n)") (auto simp: is_digits_def)
  have "list_all plain_char (nat_dec (nat n))" using dig digit_chars(1) by (simp add: is_digits_def list_all_iff)
  then have "strip (nat_dec (nat n)) = c # cs" by (simp add: strip_plain_all cs(1))
  moreover have "c \<noteq> CHR ''-''" "c \<noteq> CHR ''+''" using cs(2) by (auto simp: is_digit_def)
  moreover have "numeral_body (c # cs) = Some (c # cs)" using numeral_body_digits[OF dig] by (simp add: cs(1))
  moreover have "digits_val (c # cs) = nat n" using digits_val_nat_dec[of "nat n"] by (simp add: cs(1))
  ultimately show ?thesis using n by (simp add: int_of_string_def int_dec_def)
qed

lemma archives_url_built:
  "int_of_string c = Inr n \<Longrightarrow> archives_url c acc name SEC_ARCHIVE_BASE
     = Inr (''https://www.sec.gov'' @ ARCHIVE_PREFIX @ int_dec n @ ''/'' @ no_hyphens acc @ ''/'' @ name)"
proof -
  assume "int_of_string c = Inr n"
  moreover have "rstrip_slash SEC_ARCHIVE_BASE = SEC_ARCHIVE_BASE" by code_simp
  ultimately show ?thesis by (simp add: archives_url_def SEC_ARCHIVE_BASE_def ARCHIVE_PREFIX_def)
qed

lemma builder_surfaces:
  assumes "is_digits cik" "int_of_string cik = Inr n" "0 \<le> n" "is_hyphenated_accession acc"
    and "list_all plain_char taxonomy" "list_all plain_char tag"
  shows "classify_sec_surface (submissions_url cik) = Inr (Some ''submissions'')
    \<and> classify_sec_surface (companyconcept_url cik taxonomy tag) = Inr (Some ''companyconcept'')
    \<and> classify_sec_surface SUBMISSIONS_BULK_URL = Inr (Some ''submissions_bulk'')
    \<and> bind_res (index_url_for acc cik SEC_ARCHIVE_BASE) classify_sec_surface = Inr (Some ''archive_index_pages'')
    \<and> bind_res (index_json_url_for acc cik SEC_ARCHIVE_BASE) classify_sec_surface = Inr (Some ''archive_index_json'')
    \<and> bind_res (full_submission_url_for cik acc) classify_sec_surface = Inr (Some ''full_submission_bundles'')
    \<and> bind_res (xbrl_package_url_for cik acc) classify_sec_surface = Inr (Some ''xbrl_packages'')"
proof -
  have pl: "list_all plain_char w" if "is_digits w" for w using that digit_chars(1) by (simp add: is_digits_def list_all_iff)
  have norm: "is_digits (normalize_cik cik)" "CHR ''-'' \<notin> set (normalize_cik cik)"
    using normalize_cik_digits[OF assms(1)] digit_chars(3) by (auto simp: is_digits_def list_all_iff)
  have sub: "classify_sec_surface (submissions_url cik) = Inr (Some ''submissions'')"
    using classify_data(1)[of "''/submissions/CIK'' @ normalize_cik cik @ ''.json''"] pl[OF norm(1)] norm(2)
    by (simp add: submissions_url_def SEC_SUBMISSIONS_BASE_def at_or_below_def starts_with_def plain_char_def)
  have con: "classify_sec_surface (companyconcept_url cik taxonomy tag) = Inr (Some ''companyconcept'')"
    using classify_data(2)[of "''/api/xbrl/companyconcept/CIK'' @ normalize_cik cik @ ''/'' @ taxonomy @ ''/'' @ tag @ ''.json''"]
      pl[OF norm(1)] assms(5,6)
    by (simp add: companyconcept_url_def SEC_XBRL_API_BASE_def at_or_below_def starts_with_def plain_char_def)
  have bulk: "classify_sec_surface SUBMISSIONS_BULK_URL = Inr (Some ''submissions_bulk'')" by code_simp
  note acc = hyphenated_normalized[OF assms(4)]
  have member: "bind_res (archives_url c (no_hyphens acc) name SEC_ARCHIVE_BASE) classify_sec_surface = Inr (Some (member_surface name))"
    if "int_of_string c = Inr n" "list_all plain_char name" "CHR ''/'' \<notin> set name" for c name
    using archives_url_built[OF that(1), of "no_hyphens acc" name] acc(2)
      classify_member[OF int_dec_nonneg[OF assms(3)] acc(2) that(2,3)]
    by (simp add: no_hyphens_digits is_digits_def)
  have strip: "strip acc = acc" by (rule strip_plain_all[OF acc(3)])
  have from_any: "accession_from_any acc = Inr acc"
    using assms(4) by (simp add: accession_from_any_def Let_def AccessionNumber_def strip)
  have "no_hyphens acc \<noteq> []" using acc(2) by (simp add: is_digits_def)
  have nacc: "normalize_accession acc = Some (no_hyphens acc)"
    using acc(1,2,6) by (simp add: normalize_accession_def Let_def strip)
  have dec: "int_of_string (int_dec n) = Inr n" by (rule int_of_string_dec[OF assms(3)])
  have suffix: "list_all plain_char (acc @ w)" "CHR ''/'' \<notin> set (acc @ w)"
    if "list_all plain_char w" "CHR ''/'' \<notin> set w" for w using that acc(3,4) by simp_all
  have bundled: "bind_res (bundle_url w cik acc) classify_sec_surface = Inr (Some (member_surface (acc @ w)))"
    if "list_all plain_char w" "CHR ''/'' \<notin> set w" for w
    using member[OF dec suffix[OF that]] by (simp add: bundle_url_def nacc acc(5) assms(2))
  have "list_all plain_char ''-index.html''" "list_all plain_char ''index.json''" "list_all plain_char ''.txt''"
    "list_all plain_char ''-xbrl.zip''" by code_simp+
  then have "bind_res (index_url_for acc cik SEC_ARCHIVE_BASE) classify_sec_surface = Inr (Some ''archive_index_pages'')"
    "bind_res (index_json_url_for acc cik SEC_ARCHIVE_BASE) classify_sec_surface = Inr (Some ''archive_index_json'')"
    "bind_res (full_submission_url_for cik acc) classify_sec_surface = Inr (Some ''full_submission_bundles'')"
    "bind_res (xbrl_package_url_for cik acc) classify_sec_surface = Inr (Some ''xbrl_packages'')"
    using member[OF assms(2) suffix] member[OF assms(2), of "''index.json''"] bundled bundle_surface[OF assms(4)]
    by (simp_all add: index_url_for_def index_json_url_for_def from_any full_submission_url_for_def xbrl_package_url_for_def
        member_surface_def)
  with sub con bulk show ?thesis by blast
qed


text \<open>
  The surface table tells the truth: every URL that a builder returns for a numeric CIK and an
  accession classifies as the surface the builder is registered for.
\<close>

theorem builders_classified:
  assumes "is_digits cik" "int_of_string cik = Inr n" "0 \<le> n" "is_hyphenated_accession acc"
    and "list_all plain_char taxonomy" "list_all plain_char tag"
  shows "classify_sec_surface (submissions_url cik) = Inr (Some ''submissions'')
    \<and> classify_sec_surface (companyconcept_url cik taxonomy tag) = Inr (Some ''companyconcept'')
    \<and> classify_sec_surface SUBMISSIONS_BULK_URL = Inr (Some ''submissions_bulk'')
    \<and> bind_res (index_url_for acc cik SEC_ARCHIVE_BASE) classify_sec_surface = Inr (Some ''archive_index_pages'')
    \<and> bind_res (index_json_url_for acc cik SEC_ARCHIVE_BASE) classify_sec_surface = Inr (Some ''archive_index_json'')
    \<and> bind_res (full_submission_url_for cik acc) classify_sec_surface = Inr (Some ''full_submission_bundles'')
    \<and> bind_res (xbrl_package_url_for cik acc) classify_sec_surface = Inr (Some ''xbrl_packages'')"
  by (rule builder_surfaces[OF assms])

theorem builders_classified_witness:
  "bind_res (full_submission_url_for ''7'' ''0000000007-23-000106'') classify_sec_surface = Inr (Some ''full_submission_bundles'')
   \<and> classify_sec_surface (companyconcept_url ''7'' ''us-gaap'' ''Assets'') = Inr (Some ''companyconcept'')"
proof -
  have "is_digits ''7''" "int_of_string ''7'' = Inr 7" "is_hyphenated_accession ''0000000007-23-000106''"
    "list_all plain_char ''us-gaap''" "list_all plain_char ''Assets''" by code_simp+
  from builders_classified[OF this(1,2) _ this(3-5)] show ?thesis by simp
qed

end
