(* ===== verification/HttpCache.thy ===== *)
theory HttpCache
  imports SecUrls
begin

text \<open>
  The response cache and failure ledger of the SEC HTTP transport, \<^verbatim>\<open>infra/sec_http/cache.py\<close>, with the
  freshness policy of \<^verbatim>\<open>foundation/runtime/settings\<close>.

  A time stamp of the two tables is text of the form \<^verbatim>\<open>2024-01-31T00:00:00Z\<close>, whose order is that of the
  whole seconds it names; here it is the number of seconds. Each method takes the seconds its clock call
  returns as an argument. A byte string is a list of 8-bit characters. \<^verbatim>\<open>hashlib\<close>'s digest and the \<^verbatim>\<open>zstandard\<close>
  codec are the record \<open>codec\<close>, a parameter. Every statement of the class runs under its lock and in a transaction
  of its own, so a run is a sequence of whole calls.
\<close>

type_synonym bytes = string

record codec =
  sha256 :: "string \<Rightarrow> string"
  compress_payload :: "bytes \<Rightarrow> bytes"
  decompress_payload :: "bytes \<Rightarrow> bytes"

section \<open>Freshness policy\<close>

definition DEFAULT_CACHE_TTL_S :: int where "DEFAULT_CACHE_TTL_S = 90 * 24 * 60 * 60"
definition DEFAULT_TRANSIENT_TTL_S :: int where "DEFAULT_TRANSIENT_TTL_S = 24 * 60 * 60"

datatype surface_kind = SURFACE_KIND_STATIC | SURFACE_KIND_TRANSIENT

record surface_policy =
  sp_kind :: surface_kind
  sp_ttl_path :: "string option"

abbreviation transient :: "string \<Rightarrow> surface_policy" where
  "transient p \<equiv> \<lparr>sp_kind = SURFACE_KIND_TRANSIENT, sp_ttl_path = Some p\<rparr>"

abbreviation static :: surface_policy where
  "static \<equiv> \<lparr>sp_kind = SURFACE_KIND_STATIC, sp_ttl_path = None\<rparr>"

definition SURFACE_POLICIES :: "(string \<times> surface_policy) list" where
  "SURFACE_POLICIES =
     [(''submissions'', transient ''sec.ttl.submissions''),
      (''submissions_bulk'', transient ''sec.ttl.submissions_bulk''),
      (''companyconcept'', transient ''sec.ttl.companyconcept''),
      (''company_tickers'', transient ''sec.ttl.company_tickers''),
      (''company_tickers_exchange'', transient ''sec.ttl.company_tickers_exchange''),
      (''company_tickers_mf'', transient ''sec.ttl.company_tickers_mf''),
      (''ticker_txt'', transient ''sec.ttl.ticker_txt''),
      (''cik_lookup'', transient ''sec.ttl.cik_lookup''),
      (''archive_documents'', static), (''archive_index_pages'', static), (''archive_index_json'', static),
      (''full_submission_bundles'', static), (''xbrl_packages'', static),
      (''submissions_historical_shards'', static), (''taxonomy_archives'', static)]"

type_synonym ttl_table = "(string \<times> int option) list"

text \<open>\<open>raw\<close> holds the resolved values of the settings below \<^verbatim>\<open>sec.ttl\<close>.\<close>

definition surface_ttl :: "(string \<Rightarrow> int) \<Rightarrow> surface_policy \<Rightarrow> int option" where
  "surface_ttl raw policy =
     (if sp_kind policy = SURFACE_KIND_STATIC then None
      else case sp_ttl_path policy of Some p \<Rightarrow> Some (raw p) | None \<Rightarrow> Some (raw ''sec.ttl.default_s''))"

definition resolve_surface_policy :: "(string \<Rightarrow> int) \<Rightarrow> ttl_table \<times> int" where
  "resolve_surface_policy raw =
     (map (map_prod id (surface_ttl raw)) SURFACE_POLICIES, raw ''sec.ttl.default_s'')"

definition format_expiry :: "rat \<Rightarrow> int \<Rightarrow> int" where
  "format_expiry fetched ttl_s = \<lfloor>fetched + of_int ttl_s\<rfloor>"

definition policy_in_force :: "ttl_table \<times> int \<Rightarrow> ttl_table option \<Rightarrow> int option \<Rightarrow> ttl_table \<times> int" where
  "policy_in_force resolved surface_ttls default_surface_ttl_s =
     (case surface_ttls of
        None \<Rightarrow> (fst resolved, case default_surface_ttl_s of None \<Rightarrow> snd resolved | Some d \<Rightarrow> d)
      | Some table \<Rightarrow> (table, case default_surface_ttl_s of None \<Rightarrow> DEFAULT_TRANSIENT_TTL_S | Some d \<Rightarrow> d))"

definition suffix_expiry :: "string \<Rightarrow> rat \<Rightarrow> int \<Rightarrow> bool \<Rightarrow> (py_error, int option) result" where
  "suffix_expiry url fetched ttl_s mutable =
     (if mutable then Inr (Some (format_expiry fetched ttl_s))
      else bind_res (urlsplit url) (\<lambda>parts.
        Inr (if ends_with ''.json'' (map lower_char (su_path parts)) then Some (format_expiry fetched ttl_s) else None)))"

definition expires_at ::
    "ttl_table \<times> int \<Rightarrow> string \<Rightarrow> rat \<Rightarrow> int \<Rightarrow> bool \<Rightarrow> ttl_table option \<Rightarrow> int option \<Rightarrow> (py_error, int option) result" where
  "expires_at resolved url fetched ttl_s mutable surface_ttls default_surface_ttl_s =
     (if ttl_s \<le> 0 then Inr None
      else bind_res (classify_sec_surface url) (\<lambda>surface.
        let (table, default_ttl) = policy_in_force resolved surface_ttls default_surface_ttl_s in
        case Option.bind surface (map_of table) of
          Some (Some ttl) \<Rightarrow> Inr (Some (format_expiry fetched ttl))
        | Some None \<Rightarrow> Inr (if mutable then Some (format_expiry fetched default_ttl) else None)
        | None \<Rightarrow> suffix_expiry url fetched ttl_s mutable))"

definition is_expired :: "int option \<Rightarrow> int \<Rightarrow> bool" where
  "is_expired expires now = (case expires of None \<Rightarrow> False | Some e \<Rightarrow> e \<le> now)"

section \<open>The two tables\<close>

record response_row =
  rs_url_sha256 :: string
  rs_url :: string
  rs_payload :: bytes
  rs_payload_sha256 :: string
  rs_byte_size :: int
  rs_content_kind :: string
  rs_fetched_at :: int
  rs_expires_at :: "int option"

record failure_row =
  fr_url_sha256 :: string
  fr_url :: string
  fr_failed_runs :: int
  fr_last_kind :: string
  fr_last_status :: "int option"
  fr_last_detail :: string
  fr_permanent :: bool
  fr_updated_at :: int

record sql_cache =
  c_ttl_s :: int
  c_surface_ttls :: "ttl_table option"
  c_default_surface_ttl_s :: "int option"
  url_responses :: "response_row list"
  url_failures :: "failure_row list"

definition SqlCache :: "int \<Rightarrow> ttl_table option \<Rightarrow> int option \<Rightarrow> sql_cache" where
  "SqlCache ttl_s surface_ttls default_surface_ttl_s =
     \<lparr>c_ttl_s = ttl_s, c_surface_ttls = surface_ttls, c_default_surface_ttl_s = default_surface_ttl_s,
      url_responses = [], url_failures = []\<rparr>"

definition cache_get :: "codec \<Rightarrow> string \<Rightarrow> int \<Rightarrow> sql_cache \<Rightarrow> bytes option" where
  "cache_get cd url now c =
     (case tbl_lookup rs_url_sha256 (sha256 cd url) (url_responses c) of
        None \<Rightarrow> None
      | Some row \<Rightarrow> if is_expired (rs_expires_at row) now then None else Some (decompress_payload cd (rs_payload row)))"

text \<open>\<open>now\<close> is the stamp of the row, \<open>fetched\<close> the clock reading from which the expiry is computed.\<close>

definition cache_put ::
    "codec \<Rightarrow> ttl_table \<times> int \<Rightarrow> string \<Rightarrow> bytes \<Rightarrow> string \<Rightarrow> int \<Rightarrow> string \<Rightarrow> bool \<Rightarrow> int \<Rightarrow> rat \<Rightarrow> sql_cache
       \<Rightarrow> (py_error, sql_cache) result" where
  "cache_put cd resolved url payload sha byte_size content_kind mutable now fetched c =
     bind_res (expires_at resolved url fetched (c_ttl_s c) mutable (c_surface_ttls c) (c_default_surface_ttl_s c)) (\<lambda>expires.
       Inr (c\<lparr>url_responses := tbl_upsert rs_url_sha256
         \<lparr>rs_url_sha256 = sha256 cd url, rs_url = url, rs_payload = compress_payload cd payload, rs_payload_sha256 = sha,
          rs_byte_size = byte_size, rs_content_kind = content_kind, rs_fetched_at = now, rs_expires_at = expires\<rparr>
         (url_responses c)\<rparr>))"

definition cache_load_failure_entry :: "codec \<Rightarrow> string \<Rightarrow> sql_cache \<Rightarrow> failure_row option" where
  "cache_load_failure_entry cd url c = tbl_lookup fr_url_sha256 (sha256 cd url) (url_failures c)"

definition failed_again :: "string \<Rightarrow> string \<Rightarrow> string \<Rightarrow> string \<Rightarrow> int option \<Rightarrow> bool \<Rightarrow> int \<Rightarrow> failure_row option \<Rightarrow> failure_row" where
  "failed_again digest url kind detail status_code permanent now entry =
     (case entry of
        None \<Rightarrow> \<lparr>fr_url_sha256 = digest, fr_url = url, fr_failed_runs = 1, fr_last_kind = kind, fr_last_status = status_code,
                 fr_last_detail = take 500 detail, fr_permanent = permanent, fr_updated_at = now\<rparr>
      | Some row \<Rightarrow> row\<lparr>fr_failed_runs := fr_failed_runs row + 1, fr_last_kind := kind, fr_last_status := status_code,
                 fr_last_detail := take 500 detail, fr_permanent := permanent, fr_updated_at := now\<rparr>)"

definition cache_record_failure ::
    "codec \<Rightarrow> string \<Rightarrow> string \<Rightarrow> string \<Rightarrow> int option \<Rightarrow> bool \<Rightarrow> int \<Rightarrow> sql_cache \<Rightarrow> sql_cache" where
  "cache_record_failure cd url kind detail status_code permanent now c =
     c\<lparr>url_failures := tbl_upsert fr_url_sha256
        (failed_again (sha256 cd url) url kind detail status_code permanent now (cache_load_failure_entry cd url c))
        (url_failures c)\<rparr>"

definition cache_clear_failure :: "codec \<Rightarrow> string \<Rightarrow> sql_cache \<Rightarrow> sql_cache" where
  "cache_clear_failure cd url c = c\<lparr>url_failures := tbl_delete fr_url_sha256 (sha256 cd url) (url_failures c)\<rparr>"

section \<open>Clearing\<close>

record clear_filter =
  cf_url :: "string option"
  cf_url_pattern :: "string option"
  cf_cik :: "string option"
  cf_kind :: "string option"
  cf_older_than_s :: "rat option"
  cf_expired_only :: bool
  cf_clear_failures :: bool

definition cik_condition :: "string \<Rightarrow> string \<Rightarrow> bool" where
  "cik_condition cik url =
     (let s = strip cik; padded = zfill 10 s; bare = (if is_digits s then int_dec (int (digits_val s)) else s) in
      sql_like (''%CIK'' @ padded @ ''%'') url \<or> sql_like (''%/data/'' @ bare @ ''/%'') url
      \<or> sql_like (''%/data/'' @ padded @ ''/%'') url)"

text \<open>The conditions on the URL, shared by both tables; an absent filter gives none.\<close>

definition url_conditions :: "clear_filter \<Rightarrow> string \<Rightarrow> bool" where
  "url_conditions f url \<longleftrightarrow>
     (case cf_url f of None \<Rightarrow> True | Some u \<Rightarrow> url = u)
     \<and> (case cf_url_pattern f of None \<Rightarrow> True | Some p \<Rightarrow> sql_like p url)
     \<and> (case cf_cik f of None \<Rightarrow> True | Some cik \<Rightarrow> cik_condition cik url)"

definition clear_matches :: "clear_filter \<Rightarrow> rat \<Rightarrow> int \<Rightarrow> response_row \<Rightarrow> bool" where
  "clear_matches f clock now row \<longleftrightarrow>
     url_conditions f (rs_url row)
     \<and> (case cf_kind f of None \<Rightarrow> True | Some k \<Rightarrow> rs_content_kind row = k)
     \<and> (case cf_older_than_s f of None \<Rightarrow> True | Some age \<Rightarrow> 0 < age \<longrightarrow> rs_fetched_at row \<le> \<lfloor>clock - age\<rfloor>)
     \<and> (cf_expired_only f \<longrightarrow> is_expired (rs_expires_at row) now)"

definition cache_clear :: "clear_filter \<Rightarrow> rat \<Rightarrow> int \<Rightarrow> sql_cache \<Rightarrow> nat \<times> sql_cache" where
  "cache_clear f clock now c =
     (length (filter (clear_matches f clock now) (url_responses c)),
      c\<lparr>url_responses := filter (\<lambda>r. \<not> clear_matches f clock now r) (url_responses c),
        url_failures := (if cf_clear_failures f then filter (\<lambda>r. \<not> url_conditions f (fr_url r)) (url_failures c)
                         else url_failures c)\<rparr>)"

section \<open>Statistics\<close>

record cache_stats =
  responses_count :: nat
  failures_count :: nat
  expired_count :: nat
  total_bytes :: int
  compressed_bytes :: int
  oldest_fetched_at :: "int option"
  newest_fetched_at :: "int option"
  db_size_bytes :: int

definition stats :: "int \<Rightarrow> int \<Rightarrow> sql_cache \<Rightarrow> cache_stats" where
  "stats now db_size c =
     (let rows = url_responses c; stamps = map rs_fetched_at rows in
      \<lparr>responses_count = length rows, failures_count = length (url_failures c),
       expired_count = length (filter (\<lambda>r. is_expired (rs_expires_at r) now) rows),
       total_bytes = sum_list (map rs_byte_size rows),
       compressed_bytes = sum_list (map (int \<circ> length \<circ> rs_payload) rows),
       oldest_fetched_at = (if rows = [] then None else Some (Min (set stamps))),
       newest_fetched_at = (if rows = [] then None else Some (Max (set stamps))),
       db_size_bytes = db_size\<rparr>)"

section \<open>What the cache promises\<close>

text \<open>
  The abstract store: for every URL the response last put, with its raw payload, and the failure entry.
\<close>

record url_store =
  stored :: "string \<Rightarrow> response_row option"
  ledger :: "string \<Rightarrow> failure_row option"

datatype cache_call =
    CachePut string bytes string int string bool int rat
  | CacheRecordFailure string string string "int option" bool int
  | CacheClearFailure string
  | CacheClear clear_filter rat int

fun cache_step :: "codec \<Rightarrow> ttl_table \<times> int \<Rightarrow> sql_cache \<Rightarrow> cache_call \<Rightarrow> sql_cache" where
  "cache_step cd resolved c (CachePut url payload sha byte_size kind mutable now fetched) =
     (case cache_put cd resolved url payload sha byte_size kind mutable now fetched c of Inl _ \<Rightarrow> c | Inr c' \<Rightarrow> c')"
| "cache_step cd resolved c (CacheRecordFailure url kind detail status permanent now) =
     cache_record_failure cd url kind detail status permanent now c"
| "cache_step cd resolved c (CacheClearFailure url) = cache_clear_failure cd url c"
| "cache_step cd resolved c (CacheClear f clock now) = snd (cache_clear f clock now c)"

fun call_urls :: "cache_call \<Rightarrow> string set" where
  "call_urls (CachePut url payload sha byte_size kind mutable now fetched) = {url}"
| "call_urls (CacheRecordFailure url kind detail status permanent now) = {url}"
| "call_urls (CacheClearFailure url) = {url}"
| "call_urls (CacheClear f clock now) = {}"

definition keep_row :: "('r \<Rightarrow> bool) \<Rightarrow> 'r option \<Rightarrow> 'r option" where
  "keep_row P entry = (case entry of None \<Rightarrow> None | Some r \<Rightarrow> if P r then Some r else None)"

fun store_step :: "codec \<Rightarrow> ttl_table \<times> int \<Rightarrow> sql_cache \<Rightarrow> url_store \<Rightarrow> cache_call \<Rightarrow> url_store" where
  "store_step cd resolved cfg s (CachePut url payload sha byte_size kind mutable now fetched) =
     (case expires_at resolved url fetched (c_ttl_s cfg) mutable (c_surface_ttls cfg) (c_default_surface_ttl_s cfg) of
        Inl _ \<Rightarrow> s
      | Inr expires \<Rightarrow> s\<lparr>stored := (stored s)(url \<mapsto>
          \<lparr>rs_url_sha256 = sha256 cd url, rs_url = url, rs_payload = payload, rs_payload_sha256 = sha, rs_byte_size = byte_size,
           rs_content_kind = kind, rs_fetched_at = now, rs_expires_at = expires\<rparr>)\<rparr>)"
| "store_step cd resolved cfg s (CacheRecordFailure url kind detail status permanent now) =
     s\<lparr>ledger := (ledger s)(url \<mapsto> failed_again (sha256 cd url) url kind detail status permanent now (ledger s url))\<rparr>"
| "store_step cd resolved cfg s (CacheClearFailure url) = s\<lparr>ledger := (ledger s)(url := None)\<rparr>"
| "store_step cd resolved cfg s (CacheClear f clock now) =
     s\<lparr>stored := (\<lambda>u. keep_row (\<lambda>r. \<not> clear_matches f clock now r) (stored s u)),
       ledger := (\<lambda>u. if cf_clear_failures f then keep_row (\<lambda>r. \<not> url_conditions f (fr_url r)) (ledger s u) else ledger s u)\<rparr>"

definition store_get :: "string \<Rightarrow> int \<Rightarrow> url_store \<Rightarrow> bytes option" where
  "store_get url now s =
     (case stored s url of None \<Rightarrow> None | Some r \<Rightarrow> if is_expired (rs_expires_at r) now then None else Some (rs_payload r))"

definition unpack :: "codec \<Rightarrow> response_row \<Rightarrow> response_row" where
  "unpack cd r = r\<lparr>rs_payload := decompress_payload cd (rs_payload r)\<rparr>"

definition cache_inv :: "codec \<Rightarrow> sql_cache \<Rightarrow> bool" where
  "cache_inv cd c \<longleftrightarrow> tbl_inv rs_url_sha256 (url_responses c) \<and> tbl_inv fr_url_sha256 (url_failures c)"

definition refines_store :: "codec \<Rightarrow> string set \<Rightarrow> sql_cache \<Rightarrow> url_store \<Rightarrow> bool" where
  "refines_store cd U c s \<longleftrightarrow> (\<forall>u \<in> U.
     map_option (unpack cd) (tbl_lookup rs_url_sha256 (sha256 cd u) (url_responses c)) = stored s u
     \<and> cache_load_failure_entry cd u c = ledger s u)"

lemma failed_again_digest: "(\<And>row. entry = Some row \<Longrightarrow> fr_url_sha256 row = digest) \<Longrightarrow>
    fr_url_sha256 (failed_again digest url kind detail status permanent now entry) = digest"
  by (auto simp: failed_again_def split: option.splits)

lemma load_failure_digest: "cache_load_failure_entry cd url c = Some row \<Longrightarrow> fr_url_sha256 row = sha256 cd url"
  by (auto simp: cache_load_failure_entry_def dest: list_table.look_key)

lemma record_failure_digest:
  "fr_url_sha256 (failed_again (sha256 cd url) url kind detail status permanent now (cache_load_failure_entry cd url c)) = sha256 cd url"
  by (rule failed_again_digest) (rule load_failure_digest)

lemma load_failure_record:
  "cache_inv cd c \<Longrightarrow> cache_load_failure_entry cd v (cache_record_failure cd url kind detail status permanent now c) =
     (if sha256 cd v = sha256 cd url
      then Some (failed_again (sha256 cd url) url kind detail status permanent now (cache_load_failure_entry cd url c))
      else cache_load_failure_entry cd v c)"
  using record_failure_digest[of cd url kind detail status permanent now c]
  by (auto simp: cache_load_failure_entry_def cache_record_failure_def cache_inv_def list_table.look_put)

lemma load_failure_clear:
  "cache_inv cd c \<Longrightarrow> cache_load_failure_entry cd v (cache_clear_failure cd url c) =
     (if sha256 cd v = sha256 cd url then None else cache_load_failure_entry cd v c)"
  by (simp add: cache_load_failure_entry_def cache_clear_failure_def cache_inv_def list_table.look_del)

lemma cache_put_Inr:
  "cache_put cd resolved url payload sha byte_size kind mutable now fetched c = Inr c' \<longleftrightarrow>
     (\<exists>expires. expires_at resolved url fetched (c_ttl_s c) mutable (c_surface_ttls c) (c_default_surface_ttl_s c) = Inr expires
       \<and> c' = c\<lparr>url_responses := tbl_upsert rs_url_sha256
         \<lparr>rs_url_sha256 = sha256 cd url, rs_url = url, rs_payload = compress_payload cd payload, rs_payload_sha256 = sha,
          rs_byte_size = byte_size, rs_content_kind = kind, rs_fetched_at = now, rs_expires_at = expires\<rparr> (url_responses c)\<rparr>)"
  by (auto simp: cache_put_def bind_res_Inr_iff)

lemma cache_put_inv: "cache_inv cd c \<Longrightarrow> cache_put cd resolved url payload sha byte_size kind mutable now fetched c = Inr c' \<Longrightarrow> cache_inv cd c'"
  by (auto simp: cache_put_Inr cache_inv_def intro: list_table.inv_put)

lemma cache_inv_ops:
  assumes "cache_inv cd c"
  shows "cache_inv cd (cache_record_failure cd url kind detail status permanent now c)"
    and "cache_inv cd (cache_clear_failure cd url c)" and "cache_inv cd (snd (cache_clear f clock now c))"
  using assms by (auto simp: cache_inv_def cache_record_failure_def cache_clear_failure_def cache_clear_def tbl_inv_def
      intro: list_table.inv_put[unfolded tbl_inv_def] list_table.inv_del[unfolded tbl_inv_def] distinct_map_filter)

interpretation cache_machine: event_machine "cache_step cd resolved" "cache_inv cd" for cd resolved
proof
  fix c e
  assume "cache_inv cd c"
  then show "cache_inv cd (cache_step cd resolved c e)"
    by (cases e) (auto simp: cache_inv_ops split: sum.splits intro: cache_put_inv)
qed

lemma SqlCache_inv: "cache_inv cd (SqlCache ttl_s surface_ttls default_s)"
  by (simp add: cache_inv_def SqlCache_def tbl_inv_def)

lemma cache_step_config:
  "c_ttl_s (cache_step cd resolved c e) = c_ttl_s c" "c_surface_ttls (cache_step cd resolved c e) = c_surface_ttls c"
  "c_default_surface_ttl_s (cache_step cd resolved c e) = c_default_surface_ttl_s c"
  by (cases e; auto simp: cache_put_Inr cache_record_failure_def cache_clear_failure_def cache_clear_def split: sum.splits)+

lemma refines_reads:
  assumes "refines_store cd U c s" "u \<in> U"
  shows "cache_get cd u now c = store_get u now s" "cache_load_failure_entry cd u c = ledger s u"
proof -
  have row: "stored s u = map_option (unpack cd) (tbl_lookup rs_url_sha256 (sha256 cd u) (url_responses c))"
    and "cache_load_failure_entry cd u c = ledger s u" using assms by (auto simp: refines_store_def)
  then show "cache_load_failure_entry cd u c = ledger s u" by simp
  show "cache_get cd u now c = store_get u now s"
    by (simp add: cache_get_def store_get_def row unpack_def split: option.split)
qed

lemma keep_row_lookup:
  "tbl_inv key rows \<Longrightarrow> tbl_lookup key k (filter P rows) = keep_row P (tbl_lookup key k rows)"
  by (simp add: tbl_lookup_filter keep_row_def)

lemma keep_row_unpack:
  "map_option (unpack cd) (keep_row P e) = keep_row P (map_option (unpack cd) e)" if "\<And>r. P (unpack cd r) = P r"
  using that by (auto simp: keep_row_def split: option.splits)

lemma clear_matches_unpack: "clear_matches f clock now (unpack cd r) = clear_matches f clock now r"
  by (simp add: clear_matches_def unpack_def split: option.split)

lemma refines_step:
  assumes rt: "\<And>p. decompress_payload cd (compress_payload cd p) = p" and inj: "inj_on (sha256 cd) U"
    and inv: "cache_inv cd c" and ref: "refines_store cd U c s" and urls: "call_urls e \<subseteq> U"
    and cfg: "c_ttl_s cfg = c_ttl_s c" "c_surface_ttls cfg = c_surface_ttls c" "c_default_surface_ttl_s cfg = c_default_surface_ttl_s c"
  shows "refines_store cd U (cache_step cd resolved c e) (store_step cd resolved cfg s e)"
proof -
  have same: "sha256 cd u = sha256 cd v \<longleftrightarrow> u = v" if "u \<in> U" "v \<in> U" for u v
    using inj_on_eq_iff[OF inj that] .
  have row: "map_option (unpack cd) (tbl_lookup rs_url_sha256 (sha256 cd u) (url_responses c)) = stored s u"
    and fail: "cache_load_failure_entry cd u c = ledger s u" if "u \<in> U" for u
    using ref that by (auto simp: refines_store_def)
  have inv': "tbl_inv rs_url_sha256 (url_responses c)" "tbl_inv fr_url_sha256 (url_failures c)"
    using inv by (auto simp: cache_inv_def)
  show ?thesis
  proof (cases e)
    case (CachePut url payload sha byte_size kind mutable now fetched)
    show ?thesis
    proof (cases "cache_put cd resolved url payload sha byte_size kind mutable now fetched c")
      case (Inl err)
      then have "\<exists>err. expires_at resolved url fetched (c_ttl_s c) mutable (c_surface_ttls c) (c_default_surface_ttl_s c) = Inl err"
        by (auto simp: cache_put_def bind_res_Inl_iff)
      then show ?thesis using Inl CachePut ref cfg by auto
    next
      case (Inr c')
      then have step: "cache_step cd resolved c e = c'" using CachePut by simp
      show ?thesis unfolding step using Inr CachePut urls row fail rt same cfg inv'
        by (auto simp: cache_put_Inr refines_store_def unpack_def list_table.look_put cache_load_failure_entry_def)
    qed
  next
    case (CacheRecordFailure url kind detail status permanent now)
    then show ?thesis using urls row fail same inv
      by (auto simp: refines_store_def load_failure_record) (simp_all add: cache_record_failure_def)
  next
    case (CacheClearFailure url)
    then show ?thesis using urls row fail same inv
      by (auto simp: refines_store_def load_failure_clear) (simp_all add: cache_clear_failure_def)
  next
    case (CacheClear f clock now)
    have "map_option (unpack cd) (tbl_lookup rs_url_sha256 k (filter (\<lambda>r. \<not> clear_matches f clock now r) (url_responses c)))
        = keep_row (\<lambda>r. \<not> clear_matches f clock now r) (map_option (unpack cd) (tbl_lookup rs_url_sha256 k (url_responses c)))" for k
      using inv' by (simp add: keep_row_lookup keep_row_unpack clear_matches_unpack)
    then show ?thesis using CacheClear row fail inv'
      by (auto simp: refines_store_def cache_clear_def cache_load_failure_entry_def keep_row_lookup)
  qed
qed

text \<open>
  C24. The cache is a map from URLs to responses: after any sequence of puts, recorded and cleared failures and
  clearings on a new cache, a read returns exactly the payload last put for the URL and not cleared since, unless it
  has expired, and the failure entry is the one the abstract ledger holds, with one failure counted per recorded
  failure since the last success. Relied upon: decompression inverts compression, and the digests of the URLs in use
  differ.
\<close>

theorem cache_refines_store:
  assumes "\<And>p. decompress_payload cd (compress_payload cd p) = p" "inj_on (sha256 cd) U"
    and "\<Union> (call_urls ` set calls) \<subseteq> U" "url \<in> U" and new: "c = SqlCache ttl_s surface_ttls default_s"
  shows "cache_get cd url now (foldl (cache_step cd resolved) c calls)
      = store_get url now (foldl (store_step cd resolved c) \<lparr>stored = Map.empty, ledger = Map.empty\<rparr> calls)
    \<and> cache_load_failure_entry cd url (foldl (cache_step cd resolved) c calls)
      = ledger (foldl (store_step cd resolved c) \<lparr>stored = Map.empty, ledger = Map.empty\<rparr> calls) url"
proof -
  have "refines_store cd U (foldl (cache_step cd resolved) c0 calls) (foldl (store_step cd resolved c) s calls)"
    if "cache_inv cd c0" "refines_store cd U c0 s" "\<Union> (call_urls ` set calls) \<subseteq> U"
      "c_ttl_s c = c_ttl_s c0" "c_surface_ttls c = c_surface_ttls c0" "c_default_surface_ttl_s c = c_default_surface_ttl_s c0"
    for c0 s
    using that
  proof (induction calls arbitrary: c0 s)
    case Nil
    then show ?case by simp
  next
    case (Cons e es)
    have "refines_store cd U (cache_step cd resolved c0 e) (store_step cd resolved c s e)"
      using Cons.prems by (intro refines_step[OF assms(1,2)]) auto
    then show ?case
      using Cons.IH[OF cache_machine.inv_step[OF Cons.prems(1)]] Cons.prems by (simp add: cache_step_config)
  qed
  moreover have "refines_store cd U c \<lparr>stored = Map.empty, ledger = Map.empty\<rparr>"
    by (simp add: new refines_store_def SqlCache_def cache_load_failure_entry_def table_simps)
  ultimately have "refines_store cd U (foldl (cache_step cd resolved) c calls)
      (foldl (store_step cd resolved c) \<lparr>stored = Map.empty, ledger = Map.empty\<rparr> calls)"
    using assms(3) SqlCache_inv new by metis
  from refines_reads[OF this assms(4)] show ?thesis by simp
qed


definition plain_codec :: codec where
  "plain_codec = \<lparr>sha256 = id, compress_payload = (\<lambda>p. CHR ''z'' # p), decompress_payload = tl\<rparr>"

lemma plain_codec_laws: "decompress_payload plain_codec (compress_payload plain_codec p) = p" "inj_on (sha256 plain_codec) U"
  by (simp_all add: plain_codec_def)

definition demo_cache_calls :: "cache_call list" where
  "demo_cache_calls =
     [CacheRecordFailure ''u'' ''timeout'' ''slow'' None False 5, CacheRecordFailure ''u'' ''timeout'' ''slow'' None False 6,
      CachePut ''u'' ''one'' ''d'' 3 ''text'' False 7 7, CachePut ''v'' ''two'' ''d'' 3 ''text'' True 8 8]"

theorem cache_refines_store_witness:
  "cache_get plain_codec ''u'' 9 (foldl (cache_step plain_codec ([], 1)) (SqlCache 10 None None) demo_cache_calls) = Some ''one''
   \<and> cache_get plain_codec ''v'' 20 (foldl (cache_step plain_codec ([], 1)) (SqlCache 10 None None) demo_cache_calls) = None
   \<and> map_option fr_failed_runs (cache_load_failure_entry plain_codec ''u''
       (foldl (cache_step plain_codec ([], 1)) (SqlCache 10 None None) demo_cache_calls)) = Some 2"
proof -
  let ?s = "foldl (store_step plain_codec ([], 1) (SqlCache 10 None None)) \<lparr>stored = Map.empty, ledger = Map.empty\<rparr> demo_cache_calls"
  have calls: "\<Union> (call_urls ` set demo_cache_calls) \<subseteq> {''u'', ''v''}" by (simp add: demo_cache_calls_def)
  have run: "store_get ''u'' 9 ?s = Some ''one''" "store_get ''v'' 20 ?s = None" "map_option fr_failed_runs (ledger ?s ''u'') = Some 2"
    by code_simp+
  note refines = cache_refines_store[OF plain_codec_laws calls _ refl]
  show ?thesis using run refines[of "''u''"] refines[of "''v''"] by simp
qed


section \<open>Freshness\<close>

lemma cache_put_get:
  assumes "\<And>p. decompress_payload cd (compress_payload cd p) = p" "cache_inv cd c"
    and "cache_put cd resolved url payload sha byte_size kind mutable now fetched c = Inr c'"
    and "expires_at resolved url fetched (c_ttl_s c) mutable (c_surface_ttls c) (c_default_surface_ttl_s c) = Inr expires"
  shows "cache_get cd url t c' = (if is_expired expires t then None else Some payload)"
    and "sha256 cd v \<noteq> sha256 cd url \<Longrightarrow> cache_get cd v t c' = cache_get cd v t c"
    and "cache_load_failure_entry cd v c' = cache_load_failure_entry cd v c"
  using assms by (auto simp: cache_put_Inr cache_get_def list_table.look_put cache_inv_def cache_load_failure_entry_def)

lemma surface_expiry:
  assumes "0 < ttl_s" "classify_sec_surface url = Inr (Some surface)" "map_of SURFACE_POLICIES surface = Some policy"
  shows "expires_at (resolve_surface_policy raw) url fetched ttl_s mutable None None = Inr
    (case surface_ttl raw policy of
       Some ttl \<Rightarrow> Some (format_expiry fetched ttl)
     | None \<Rightarrow> if mutable then Some (format_expiry fetched (raw ''sec.ttl.default_s'')) else None)"
  using assms
  by (simp add: expires_at_def policy_in_force_def resolve_surface_policy_def map_of_map map_prod_def split: option.split)

lemma surface_policy_of:
  "map_of SURFACE_POLICIES ''submissions'' = Some (transient ''sec.ttl.submissions'')"
  "map_of SURFACE_POLICIES ''companyconcept'' = Some (transient ''sec.ttl.companyconcept'')"
  "map_of SURFACE_POLICIES ''archive_index_json'' = Some static"
  "map_of SURFACE_POLICIES ''full_submission_bundles'' = Some static"
  by code_simp+

definition served_until :: "codec \<Rightarrow> ttl_table \<times> int \<Rightarrow> string \<Rightarrow> bool \<Rightarrow> rat \<Rightarrow> int option \<Rightarrow> sql_cache \<Rightarrow> bool" where
  "served_until cd resolved url mutable fetched expires c \<longleftrightarrow>
     (\<forall>payload sha byte_size kind now. \<exists>c'. cache_put cd resolved url payload sha byte_size kind mutable now fetched c = Inr c'
        \<and> (\<forall>t. cache_get cd url t c' = (if is_expired expires t then None else Some payload)))"

lemma served_until_surface:
  assumes "\<And>p. decompress_payload cd (compress_payload cd p) = p" "cache_inv cd c"
    and "0 < c_ttl_s c" "c_surface_ttls c = None" "c_default_surface_ttl_s c = None"
    and "classify_sec_surface url = Inr (Some surface)" "map_of SURFACE_POLICIES surface = Some policy"
  shows "served_until cd (resolve_surface_policy raw) url mutable fetched
    (case surface_ttl raw policy of
       Some ttl \<Rightarrow> Some (format_expiry fetched ttl)
     | None \<Rightarrow> if mutable then Some (format_expiry fetched (raw ''sec.ttl.default_s'')) else None) c"
proof -
  let ?e = "case surface_ttl raw policy of
       Some ttl \<Rightarrow> Some (format_expiry fetched ttl)
     | None \<Rightarrow> if mutable then Some (format_expiry fetched (raw ''sec.ttl.default_s'')) else None"
  have e: "expires_at (resolve_surface_policy raw) url fetched (c_ttl_s c) mutable (c_surface_ttls c) (c_default_surface_ttl_s c) = Inr ?e"
    unfolding assms(4,5) by (rule surface_expiry[OF assms(3,6,7)])
  show ?thesis unfolding served_until_def
  proof (intro allI)
    fix payload sha byte_size kind now
    obtain c' where put: "cache_put cd (resolve_surface_policy raw) url payload sha byte_size kind mutable now fetched c = Inr c'"
      unfolding cache_put_def e by simp
    then show "\<exists>c'. cache_put cd (resolve_surface_policy raw) url payload sha byte_size kind mutable now fetched c = Inr c' \<and>
      (\<forall>t. cache_get cd url t c' = (if is_expired ?e t then None else Some payload))"
      using cache_put_get(1)[OF assms(1,2) put e] by blast
  qed
qed

text \<open>
  Freshness follows the surface, not the file suffix: under the settings' policy a cached submissions or
  companyconcept document is served until its configured time to live has passed and not a second longer, while a
  filing's \<^verbatim>\<open>index.json\<close> and full submission, once filed, are served for ever, or for the default time to live when the caller
  declares them mutable.
\<close>

theorem cache_freshness:
  assumes "\<And>p. decompress_payload cd (compress_payload cd p) = p" "cache_inv cd c"
    and "0 < c_ttl_s c" "c_surface_ttls c = None" "c_default_surface_ttl_s c = None"
    and "is_digits cik" "int_of_string cik = Inr n" "0 \<le> n" "is_hyphenated_accession acc"
    and "list_all plain_char taxonomy" "list_all plain_char tag"
    and "index_json_url_for acc cik SEC_ARCHIVE_BASE = Inr index_url" "full_submission_url_for cik acc = Inr txt_url"
  shows "served_until cd (resolve_surface_policy raw) (submissions_url cik) mutable fetched
        (Some (format_expiry fetched (raw ''sec.ttl.submissions''))) c
    \<and> served_until cd (resolve_surface_policy raw) (companyconcept_url cik taxonomy tag) mutable fetched
        (Some (format_expiry fetched (raw ''sec.ttl.companyconcept''))) c
    \<and> served_until cd (resolve_surface_policy raw) index_url False fetched None c
    \<and> served_until cd (resolve_surface_policy raw) txt_url False fetched None c
    \<and> served_until cd (resolve_surface_policy raw) index_url True fetched
        (Some (format_expiry fetched (raw ''sec.ttl.default_s''))) c"
proof -
  note surf = builder_surfaces[OF assms(6-11)]
  have cl: "classify_sec_surface (submissions_url cik) = Inr (Some ''submissions'')"
    "classify_sec_surface (companyconcept_url cik taxonomy tag) = Inr (Some ''companyconcept'')"
    "classify_sec_surface index_url = Inr (Some ''archive_index_json'')"
    "classify_sec_surface txt_url = Inr (Some ''full_submission_bundles'')"
    using surf assms(12,13) by auto
  note served = served_until_surface[OF assms(1-5)]
  show ?thesis
    using served[OF cl(1) surface_policy_of(1)] served[OF cl(2) surface_policy_of(2)]
      served[OF cl(3) surface_policy_of(3), of raw False] served[OF cl(4) surface_policy_of(4), of raw False]
      served[OF cl(3) surface_policy_of(3), of raw True]
    by (simp add: surface_ttl_def)
qed

theorem cache_freshness_witness:
  "\<exists>index_url. index_json_url_for ''0000000007-23-000106'' ''7'' SEC_ARCHIVE_BASE = Inr index_url
    \<and> served_until plain_codec (resolve_surface_policy (\<lambda>_. 60)) index_url False 100 None (SqlCache DEFAULT_CACHE_TTL_S None None)
    \<and> served_until plain_codec (resolve_surface_policy (\<lambda>_. 60)) (submissions_url ''7'') False 100
        (Some (format_expiry 100 60)) (SqlCache DEFAULT_CACHE_TTL_S None None)"
proof -
  have hyps: "is_digits ''7''" "int_of_string ''7'' = Inr 7" "is_hyphenated_accession ''0000000007-23-000106''"
    "list_all plain_char ''us-gaap''" "list_all plain_char ''Assets''" by code_simp+
  have urls: "index_json_url_for ''0000000007-23-000106'' ''7'' SEC_ARCHIVE_BASE
        = Inr ''https://www.sec.gov/Archives/edgar/data/7/000000000723000106/index.json''"
    "full_submission_url_for ''7'' ''0000000007-23-000106''
        = Inr ''https://www.sec.gov/Archives/edgar/data/7/000000000723000106/0000000007-23-000106.txt''"
    by code_simp+
  have conf: "0 < c_ttl_s (SqlCache DEFAULT_CACHE_TTL_S None None)" "c_surface_ttls (SqlCache DEFAULT_CACHE_TTL_S None None) = None"
    "c_default_surface_ttl_s (SqlCache DEFAULT_CACHE_TTL_S None None) = None"
    by (simp_all add: SqlCache_def DEFAULT_CACHE_TTL_S_def)
  from cache_freshness[OF plain_codec_laws(1) SqlCache_inv conf hyps(1,2) _ hyps(3-5) urls, of "\<lambda>_. 60" False 100] urls(1)
  show ?thesis by simp
qed


section \<open>Clearing by content kind\<close>

text \<open>
  The failure ledger has no content kind, age or expiry: a clearing that is restricted by those alone, with
  \<^verbatim>\<open>clear_failures\<close>, empties the ledger for every URL, also for those whose responses it keeps.
\<close>

theorem clear_by_kind_empties_ledger:
  "cf_clear_failures f \<Longrightarrow> cf_url f = None \<Longrightarrow> cf_url_pattern f = None \<Longrightarrow> cf_cik f = None \<Longrightarrow>
     url_failures (snd (cache_clear f clock now c)) = []"
  by (simp add: cache_clear_def url_conditions_def)

end
