(* ===== verification/HttpClient.thy ===== *)
theory HttpClient
  imports RetryMetrics HttpCache
begin

text \<open>
  The client of \<^verbatim>\<open>infra/sec_http/client.py\<close>: \<^verbatim>\<open>get_bytes\<close> with cache, failure ledger, pacing, retries and size limit.

  The session of \<^verbatim>\<open>requests\<close> is not part of the program. What one call of it returns, together with the clock readings and the
  jitter of the attempt, is an \<open>exchange\<close>, and an environment gives the exchange of each attempt; the theorems hold for every
  environment. The state of the client carries two logs of its effects: \<open>cl_sent\<close>, the requests handed to the session with
  the time they go out (a request here is one call of \<^verbatim>\<open>session.get\<close>; \<^verbatim>\<open>_send\<close> leaves redirects on, so the session may follow some
  inside one call, and its answer is the last response), and \<open>cl_slept\<close>, the seconds passed to \<^verbatim>\<open>time.sleep\<close>. Exceptions leave the state changes made before
  them in place, so every operation returns the client next to its result.
\<close>

section \<open>State and errors\<close>

datatype http_error =
    PermanentHttpError string string "int option"
  | ResponseTooLargeError string string "int option"
  | RetryExhausted string string "int option"
  | Raised py_error

definition status_text :: "int option \<Rightarrow> string" where
  "status_text status = (case status of None \<Rightarrow> ''None'' | Some s \<Rightarrow> int_dec s)"

definition permanent_text :: "string \<Rightarrow> string \<Rightarrow> int option \<Rightarrow> string" where
  "permanent_text url reason status =
     ''permanent error for '' @ url @ '': '' @ reason @ '' (status='' @ status_text status @ '')''"

record http_client =
  cl_headers :: "(string \<times> string) list"
  cl_limiter :: rate_limiter
  cl_policy :: retry_policy
  cl_metrics :: http_metrics
  cl_cache :: "sql_cache option"
  cl_max_failure_attempts :: int
  cl_ignore_failure_history :: bool
  cl_max_response_bytes :: "int option"
  cl_sent :: "(string \<times> rat) list"
  cl_slept :: "rat list"

definition DEFAULT_MAX_FAILURE_ATTEMPTS :: int where "DEFAULT_MAX_FAILURE_ATTEMPTS = 3"

definition default_headers :: "string \<Rightarrow> (py_error, (string \<times> string) list) result" where
  "default_headers user_agent =
     (if user_agent = [] \<or> CHR ''@'' \<notin> set user_agent then Inl ValueError
      else Inr [(''User-Agent'', strip user_agent), (''Accept-Encoding'', ''gzip, deflate'')])"

definition SecHttpClient ::
    "string \<Rightarrow> rate_limiter \<Rightarrow> retry_policy \<Rightarrow> sql_cache option \<Rightarrow> int \<Rightarrow> bool \<Rightarrow> int option \<Rightarrow> (py_error, http_client) result" where
  "SecHttpClient user_agent limiter policy cache max_failure_attempts ignore_failure_history max_response_bytes =
     bind_res (default_headers user_agent) (\<lambda>headers.
       Inr \<lparr>cl_headers = headers, cl_limiter = limiter, cl_policy = policy, cl_metrics = HttpMetrics, cl_cache = cache,
            cl_max_failure_attempts = max_failure_attempts, cl_ignore_failure_history = ignore_failure_history,
            cl_max_response_bytes = max_response_bytes, cl_sent = [], cl_slept = []\<rparr>)"

section \<open>Cache and ledger\<close>

definition client_cache_get :: "codec \<Rightarrow> string \<Rightarrow> int \<Rightarrow> http_client \<Rightarrow> bytes option" where
  "client_cache_get cd url now cl = Option.bind (cl_cache cl) (cache_get cd url now)"

definition cache_hit :: "http_client \<Rightarrow> http_client" where
  "cache_hit cl = cl\<lparr>cl_metrics := record_cache_hit (cl_metrics cl)\<rparr>"

definition peek_cache :: "codec \<Rightarrow> string \<Rightarrow> int \<Rightarrow> http_client \<Rightarrow> http_client \<times> bytes option" where
  "peek_cache cd url now cl =
     (case client_cache_get cd url now cl of None \<Rightarrow> (cl, None) | Some b \<Rightarrow> (cache_hit cl, Some b))"

definition client_load_failure_entry :: "codec \<Rightarrow> string \<Rightarrow> http_client \<Rightarrow> failure_row option" where
  "client_load_failure_entry cd url cl = Option.bind (cl_cache cl) (cache_load_failure_entry cd url)"

definition metric_failure :: "string \<Rightarrow> string \<Rightarrow> http_client \<Rightarrow> http_client" where
  "metric_failure kind detail cl = cl\<lparr>cl_metrics := record_failure kind detail (cl_metrics cl)\<rparr>"

definition ledger_failure :: "codec \<Rightarrow> string \<Rightarrow> string \<Rightarrow> string \<Rightarrow> int option \<Rightarrow> bool \<Rightarrow> int \<Rightarrow> http_client \<Rightarrow> http_client" where
  "ledger_failure cd url kind detail status permanent now cl =
     cl\<lparr>cl_cache := map_option (cache_record_failure cd url kind detail status permanent now) (cl_cache cl)\<rparr>"

definition client_clear_failure :: "codec \<Rightarrow> string \<Rightarrow> http_client \<Rightarrow> http_client" where
  "client_clear_failure cd url cl = cl\<lparr>cl_cache := map_option (cache_clear_failure cd url) (cl_cache cl)\<rparr>"

definition preflight_skip :: "codec \<Rightarrow> string \<Rightarrow> http_client \<Rightarrow> (string \<times> int option) option" where
  "preflight_skip cd url cl =
     (if cl_ignore_failure_history cl then None
      else case client_load_failure_entry cd url cl of
        None \<Rightarrow> None
      | Some entry \<Rightarrow>
          if fr_permanent entry
          then Some (''permanent failure on a previous run ('' @ fr_last_kind entry @ '': '' @ fr_last_detail entry @ '')'',
                     fr_last_status entry)
          else if 0 < cl_max_failure_attempts cl \<and> cl_max_failure_attempts cl \<le> fr_failed_runs entry
          then Some (''failed '' @ int_dec (fr_failed_runs entry) @ '' independent run(s), reaching budget of ''
                       @ int_dec (cl_max_failure_attempts cl) @ '': '' @ fr_last_detail entry, fr_last_status entry)
          else None)"

section \<open>One attempt\<close>

record http_response =
  r_status :: int
  r_retry_after :: "string option"
  r_content :: bytes

datatype outcome = Timeout string | RequestException string | Response http_response

record exchange =
  ex_now :: rat
  ex_outcome :: outcome
  ex_latency :: rat
  ex_signal_now :: rat
  ex_jitter :: rat
  ex_stamp :: int
  ex_fetched :: rat

datatype 'a attempt_result = Continue http_client | Finish http_client 'a

text \<open>Waiting for a slot of the limiter and handing the request to the session: one entry of \<open>cl_sent\<close> per call of the session.\<close>

definition send_paced :: "string \<Rightarrow> rat \<Rightarrow> http_client \<Rightarrow> http_client" where
  "send_paced url now cl =
     (let (delay, rl) = acquire (cl_limiter cl) now in
      cl\<lparr>cl_limiter := rl, cl_slept := cl_slept cl @ (if 0 < delay then [delay] else []),
         cl_metrics := record_attempt (cl_metrics cl), cl_sent := cl_sent cl @ [(url, now + delay)]\<rparr>)"

definition backoff :: "nat \<Rightarrow> rat option \<Rightarrow> rat \<Rightarrow> http_client \<Rightarrow> http_client" where
  "backoff attempt retry_after u cl =
     cl\<lparr>cl_metrics := record_retry (cl_metrics cl),
        cl_slept := cl_slept cl @ [retry_delay (cl_policy cl) attempt retry_after u]\<rparr>"

text \<open>Another attempt while the budget lasts; after that the ledger takes the failure and the call raises.\<close>

definition retry_or_fail ::
    "codec \<Rightarrow> string \<Rightarrow> nat \<Rightarrow> rat option \<Rightarrow> exchange \<Rightarrow> string \<Rightarrow> string \<Rightarrow> int option \<Rightarrow> string \<Rightarrow> http_client
       \<Rightarrow> (http_error, 'a) result attempt_result" where
  "retry_or_fail cd url attempt retry_after ex kind detail status reason cl =
     (if int attempt < max_retries (cl_policy cl) then Continue (backoff attempt retry_after (ex_jitter ex) cl)
      else Finish (ledger_failure cd url kind detail status False (ex_stamp ex) cl) (Inl (RetryExhausted url reason status)))"

definition network_failure ::
    "codec \<Rightarrow> string \<Rightarrow> nat \<Rightarrow> exchange \<Rightarrow> string \<Rightarrow> string \<Rightarrow> string \<Rightarrow> string \<Rightarrow> http_client
       \<Rightarrow> (http_error, 'a) result attempt_result" where
  "network_failure cd url attempt ex label kind detail reason cl =
     (let cl = metric_failure ''network'' (label @ '': '' @ url) cl in
      retry_or_fail cd url attempt None ex kind detail None reason
        (cl\<lparr>cl_limiter := signal_network_error (cl_limiter cl)\<rparr>))"

definition accept_content ::
    "codec \<Rightarrow> ttl_table \<times> int \<Rightarrow> string \<Rightarrow> string \<Rightarrow> bool \<Rightarrow> exchange \<Rightarrow> bytes \<Rightarrow> http_client
       \<Rightarrow> http_client \<times> (http_error, bytes) result" where
  "accept_content cd resolved url content_kind mutable ex content cl =
     (case cl_cache cl of
        None \<Rightarrow> (cl, Inr content)
      | Some c \<Rightarrow>
          (case cache_put cd resolved url content (sha256 cd content) (int (length content)) content_kind mutable
                  (ex_stamp ex) (ex_fetched ex) c of
             Inl e \<Rightarrow> (cl, Inl (Raised e))
           | Inr c' \<Rightarrow> (client_clear_failure cd url (cl\<lparr>cl_cache := Some c'\<rparr>), Inr content)))"

definition retry_after_header :: "string option \<Rightarrow> rat option" where
  "retry_after_header header =
     (case header of None \<Rightarrow> None | Some h \<Rightarrow> if is_digits h then Some (of_nat (digits_val h)) else None)"

definition handle_response ::
    "codec \<Rightarrow> ttl_table \<times> int \<Rightarrow> string \<Rightarrow> string \<Rightarrow> bool \<Rightarrow> nat \<Rightarrow> exchange \<Rightarrow> http_response \<Rightarrow> http_client
       \<Rightarrow> (http_error, bytes) result attempt_result" where
  "handle_response cd resolved url content_kind mutable attempt ex r cl =
     (let cl = cl\<lparr>cl_metrics := record_status (r_status r) (ex_latency ex) (int (length (r_content r))) (cl_metrics cl)\<rparr> in
      if r_status r = 200
      then (case cl_max_response_bytes cl of
              Some limit \<Rightarrow>
                if limit < int (length (r_content r))
                then Finish (ledger_failure cd url ''size_exceeded''
                        (''response size '' @ int_dec (int (length (r_content r))) @ '' > '' @ int_dec limit) (Some 200) True (ex_stamp ex) cl)
                      (Inl (ResponseTooLargeError url (''response exceeded '' @ int_dec limit @ '' bytes'') (Some 200)))
                else (case accept_content cd resolved url content_kind mutable ex (r_content r) cl of (cl, res) \<Rightarrow> Finish cl res)
            | None \<Rightarrow> (case accept_content cd resolved url content_kind mutable ex (r_content r) cl of (cl, res) \<Rightarrow> Finish cl res))
      else (case classify (r_status r) of
              Throttle \<Rightarrow>
                (let retry_after = retry_after_header (r_retry_after r); cl = metric_failure ''throttle'' (''429 throttled: '' @ url) cl in
                 retry_or_fail cd url attempt retry_after ex ''throttle'' ''HTTP 429 rate limit exceeded'' (Some 429)
                   ''rate limit 429 retries exhausted''
                   (cl\<lparr>cl_limiter := snd (signal_throttle (cl_limiter cl) (ex_signal_now ex) retry_after)\<rparr>))
            | Retry \<Rightarrow>
                retry_or_fail cd url attempt None ex ''retryable_http'' (''HTTP '' @ int_dec (r_status r)) (Some (r_status r))
                  (''server error '' @ int_dec (r_status r))
                  (metric_failure ''http_retry'' (''HTTP '' @ int_dec (r_status r) @ '': '' @ url) cl)
            | _ \<Rightarrow>
                Finish (ledger_failure cd url ''permanent'' (''HTTP '' @ int_dec (r_status r)) (Some (r_status r)) True (ex_stamp ex) cl)
                  (Inl (PermanentHttpError url (''HTTP '' @ int_dec (r_status r)) (Some (r_status r))))))"

definition fetch_attempt ::
    "codec \<Rightarrow> ttl_table \<times> int \<Rightarrow> string \<Rightarrow> string \<Rightarrow> bool \<Rightarrow> nat \<Rightarrow> exchange \<Rightarrow> http_client
       \<Rightarrow> (http_error, bytes) result attempt_result" where
  "fetch_attempt cd resolved url content_kind mutable attempt ex cl =
     (let cl = send_paced url (ex_now ex) cl in
      case ex_outcome ex of
        Timeout detail \<Rightarrow>
          network_failure cd url attempt ex ''timeout'' ''timeout'' detail
            (''timeout after '' @ int_dec (int attempt + 1) @ '' attempts'') cl
      | RequestException detail \<Rightarrow>
          network_failure cd url attempt ex ''connection_error'' ''network'' detail (''network error: '' @ detail) cl
      | Response r \<Rightarrow> handle_response cd resolved url content_kind mutable attempt ex r cl)"

section \<open>Fetching\<close>

fun fetch_loop ::
    "codec \<Rightarrow> ttl_table \<times> int \<Rightarrow> string \<Rightarrow> string \<Rightarrow> bool \<Rightarrow> (nat \<Rightarrow> exchange) \<Rightarrow> nat \<Rightarrow> nat \<Rightarrow> http_client
       \<Rightarrow> http_client \<times> (http_error, bytes) result" where
  "fetch_loop cd resolved url content_kind mutable env attempt 0 cl =
     (cl, Inl (RetryExhausted url ''exhausted all retry attempts'' None))"
| "fetch_loop cd resolved url content_kind mutable env attempt (Suc left) cl =
     (case fetch_attempt cd resolved url content_kind mutable attempt (env attempt) cl of
        Continue cl' \<Rightarrow> fetch_loop cd resolved url content_kind mutable env (Suc attempt) left cl'
      | Finish cl' res \<Rightarrow> (cl', res))"

definition get_bytes ::
    "codec \<Rightarrow> ttl_table \<times> int \<Rightarrow> string \<Rightarrow> string \<Rightarrow> bool \<Rightarrow> bool \<Rightarrow> int \<Rightarrow> (nat \<Rightarrow> exchange) \<Rightarrow> http_client
       \<Rightarrow> http_client \<times> (http_error, bytes) result" where
  "get_bytes cd resolved url content_kind force_refresh mutable now env cl =
     (case (if force_refresh then None else client_cache_get cd url now cl) of
        Some cached \<Rightarrow> (cache_hit cl, Inr cached)
      | None \<Rightarrow>
          (case preflight_skip cd url cl of
             Some (reason, status) \<Rightarrow>
               (metric_failure ''ledger_skip'' (permanent_text url reason status) cl, Inl (PermanentHttpError url reason status))
           | None \<Rightarrow> fetch_loop cd resolved url content_kind mutable env 0 (nat (max_retries (cl_policy cl) + 1)) cl))"

section \<open>What an attempt does\<close>

lemmas client_step_defs [step_simps] =
  send_paced_def backoff_def retry_or_fail_def network_failure_def metric_failure_def ledger_failure_def client_clear_failure_def
  cache_hit_def

definition same_config :: "http_client \<Rightarrow> http_client \<Rightarrow> bool" where
  "same_config cl cl' \<longleftrightarrow>
     cl_headers cl' = cl_headers cl \<and> cl_policy cl' = cl_policy cl \<and> cl_max_failure_attempts cl' = cl_max_failure_attempts cl
     \<and> cl_ignore_failure_history cl' = cl_ignore_failure_history cl \<and> cl_max_response_bytes cl' = cl_max_response_bytes cl"

lemma same_config_trans: "same_config a b \<Longrightarrow> same_config b c \<Longrightarrow> same_config a c"
  by (simp add: same_config_def)

fun permanent_error :: "http_error \<Rightarrow> bool" where
  "permanent_error (PermanentHttpError url reason status) = True"
| "permanent_error (ResponseTooLargeError url reason status) = True"
| "permanent_error (RetryExhausted url reason status) = False"
| "permanent_error (Raised e) = False"

definition within_limit :: "http_client \<Rightarrow> bytes \<Rightarrow> bool" where
  "within_limit cl content \<longleftrightarrow> (\<forall>limit. cl_max_response_bytes cl = Some limit \<longrightarrow> int (length content) \<le> limit)"

definition ok_exchange :: "exchange \<Rightarrow> bytes \<Rightarrow> bool" where
  "ok_exchange ex content \<longleftrightarrow> (\<exists>r. ex_outcome ex = Response r \<and> r_status r = 200 \<and> r_content r = content)"

text \<open>How the cache after the last attempt relates to the one before it.\<close>

definition accepted ::
    "codec \<Rightarrow> ttl_table \<times> int \<Rightarrow> string \<Rightarrow> string \<Rightarrow> bool \<Rightarrow> exchange \<Rightarrow> bytes \<Rightarrow> sql_cache option \<Rightarrow> sql_cache option \<Rightarrow> bool" where
  "accepted cd resolved url content_kind mutable ex content old new \<longleftrightarrow>
     (case old of
        None \<Rightarrow> new = None
      | Some c \<Rightarrow> \<exists>c'. cache_put cd resolved url content (sha256 cd content) (int (length content)) content_kind mutable
            (ex_stamp ex) (ex_fetched ex) c = Inr c' \<and> new = Some (cache_clear_failure cd url c'))"

definition attempt_outcome ::
    "codec \<Rightarrow> ttl_table \<times> int \<Rightarrow> string \<Rightarrow> string \<Rightarrow> bool \<Rightarrow> exchange \<Rightarrow> http_client \<Rightarrow> http_client \<Rightarrow> (http_error, bytes) result \<Rightarrow> bool" where
  "attempt_outcome cd resolved url content_kind mutable ex cl cl' res \<longleftrightarrow>
     (case res of
        Inr content \<Rightarrow> ok_exchange ex content \<and> within_limit cl content
          \<and> accepted cd resolved url content_kind mutable ex content (cl_cache cl) (cl_cache cl')
      | Inl (Raised e) \<Rightarrow> (\<exists>content. ok_exchange ex content) \<and> cl_cache cl' = cl_cache cl
      | Inl e \<Rightarrow> \<exists>kind detail status. cl_cache cl' =
          map_option (cache_record_failure cd url kind detail status (permanent_error e) (ex_stamp ex)) (cl_cache cl))"

lemma outcome_failed [intro]:
  "cl_cache cl' = map_option (cache_record_failure cd url kind detail status False (ex_stamp ex)) (cl_cache cl) \<Longrightarrow>
     attempt_outcome cd resolved url content_kind mutable ex cl cl' (Inl (RetryExhausted u reason code))"
  "cl_cache cl' = map_option (cache_record_failure cd url kind detail status True (ex_stamp ex)) (cl_cache cl) \<Longrightarrow>
     attempt_outcome cd resolved url content_kind mutable ex cl cl' (Inl (PermanentHttpError u reason code))"
  "cl_cache cl' = map_option (cache_record_failure cd url kind detail status True (ex_stamp ex)) (cl_cache cl) \<Longrightarrow>
     attempt_outcome cd resolved url content_kind mutable ex cl cl' (Inl (ResponseTooLargeError u reason code))"
  by (simp_all add: attempt_outcome_def) blast+

lemma attempt_outcome_cong:
  "cl_cache cl1 = cl_cache cl \<Longrightarrow> same_config cl cl1 \<Longrightarrow>
     attempt_outcome cd resolved url content_kind mutable ex cl1 cl' res = attempt_outcome cd resolved url content_kind mutable ex cl cl' res"
  by (simp add: attempt_outcome_def within_limit_def same_config_def split: sum.split http_error.split)

lemma send_paced_frame:
  "cl_cache (send_paced url now cl) = cl_cache cl" "same_config cl (send_paced url now cl)"
  "\<exists>t. cl_sent (send_paced url now cl) = cl_sent cl @ [(url, t)]"
  by (simp_all add: send_paced_def same_config_def split: prod.split)

lemma retry_or_fail_Continue:
  "retry_or_fail cd url attempt ra ex kind detail status reason cl = Continue cl' \<Longrightarrow>
     cl_cache cl' = cl_cache cl \<and> same_config cl cl' \<and> int attempt < max_retries (cl_policy cl) \<and> cl_sent cl' = cl_sent cl"
  by (auto simp: step_simps same_config_def split: if_splits)

lemma retry_or_fail_Finish:
  "retry_or_fail cd url attempt ra ex kind detail status reason cl = Finish cl' res \<Longrightarrow>
     cl_cache cl' = map_option (cache_record_failure cd url kind detail status False (ex_stamp ex)) (cl_cache cl)
     \<and> same_config cl cl' \<and> cl_sent cl' = cl_sent cl \<and> res = Inl (RetryExhausted url reason status)"
  by (auto simp: step_simps same_config_def split: if_splits)

lemma accept_content_frame:
  assumes "accept_content cd resolved url content_kind mutable ex content cl = (cl', res)"
  shows "same_config cl cl' \<and> cl_sent cl' = cl_sent cl
    \<and> (res = Inr content \<and> accepted cd resolved url content_kind mutable ex content (cl_cache cl) (cl_cache cl')
       \<or> (\<exists>e. res = Inl (Raised e)) \<and> cl_cache cl' = cl_cache cl)"
  using assms
  by (auto simp: accept_content_def accepted_def client_clear_failure_def same_config_def split: option.splits sum.splits)

lemma handle_response_Continue:
  assumes "handle_response cd resolved url content_kind mutable attempt ex r cl = Continue cl'"
  shows "cl_cache cl' = cl_cache cl \<and> same_config cl cl' \<and> int attempt < max_retries (cl_policy cl) \<and> cl_sent cl' = cl_sent cl
    \<and> r_status r \<noteq> 200"
  using assms
  by (auto simp: handle_response_def Let_def metric_failure_def same_config_def split: if_splits option.splits prod.splits status_kind.splits
      dest!: retry_or_fail_Continue)

lemma handle_response_Finish:
  assumes "handle_response cd resolved url content_kind mutable attempt ex r cl = Finish cl' res" and "ex_outcome ex = Response r"
  shows "attempt_outcome cd resolved url content_kind mutable ex cl cl' res \<and> same_config cl cl' \<and> cl_sent cl' = cl_sent cl"
proof (cases "r_status r = 200")
  case True
  show ?thesis
  proof (cases "within_limit cl (r_content r)")
    case fits: True
    obtain cl1 where acc: "accept_content cd resolved url content_kind mutable ex (r_content r) cl1 = (cl', res)"
      and frame: "cl_cache cl1 = cl_cache cl" "same_config cl cl1" "cl_sent cl1 = cl_sent cl"
      using assms(1) True fits
      by (auto simp: handle_response_def Let_def within_limit_def same_config_def split: if_splits option.splits prod.splits)
    have ok: "ok_exchange ex (r_content r)" using True assms(2) by (simp add: ok_exchange_def)
    then have "\<exists>content. ok_exchange ex content" ..
    then show ?thesis using accept_content_frame[OF acc] frame fits ok
      by (auto simp: attempt_outcome_def intro: same_config_trans)
  next
    case False
    then show ?thesis using assms(1) True
      by (auto simp: handle_response_def Let_def within_limit_def same_config_def ledger_failure_def
          split: if_splits option.splits prod.splits)
  qed
next
  case False
  then show ?thesis using assms(1)
    by (auto simp: handle_response_def Let_def metric_failure_def ledger_failure_def same_config_def
        split: if_splits status_kind.splits dest!: retry_or_fail_Finish)
qed

lemma fetch_attempt_Continue:
  assumes "fetch_attempt cd resolved url content_kind mutable attempt ex cl = Continue cl'"
  shows "cl_cache cl' = cl_cache cl \<and> same_config cl cl' \<and> int attempt < max_retries (cl_policy cl)
    \<and> (\<exists>t. cl_sent cl' = cl_sent cl @ [(url, t)]) \<and> \<not> ok_exchange ex content"
proof -
  let ?s = "send_paced url (ex_now ex) cl"
  have "cl_cache cl' = cl_cache ?s \<and> same_config ?s cl' \<and> int attempt < max_retries (cl_policy ?s) \<and> cl_sent cl' = cl_sent ?s
    \<and> \<not> ok_exchange ex content"
    using assms
    by (auto simp: fetch_attempt_def Let_def network_failure_def metric_failure_def same_config_def ok_exchange_def split: outcome.splits
        dest!: retry_or_fail_Continue handle_response_Continue)
  then show ?thesis using send_paced_frame[where url = url and now = "ex_now ex" and cl = cl] by (auto simp: same_config_def)
qed

lemma fetch_attempt_Finish:
  assumes "fetch_attempt cd resolved url content_kind mutable attempt ex cl = Finish cl' res"
  shows "attempt_outcome cd resolved url content_kind mutable ex cl cl' res \<and> same_config cl cl'
    \<and> (\<exists>t. cl_sent cl' = cl_sent cl @ [(url, t)])"
proof -
  let ?s = "send_paced url (ex_now ex) cl"
  have "attempt_outcome cd resolved url content_kind mutable ex ?s cl' res \<and> same_config ?s cl' \<and> cl_sent cl' = cl_sent ?s"
  proof (cases "ex_outcome ex")
    case (Response r)
    then show ?thesis using assms handle_response_Finish[of cd resolved url content_kind mutable attempt ex r ?s cl' res]
      by (simp add: fetch_attempt_def Let_def)
  qed (use assms in \<open>auto simp: fetch_attempt_def Let_def network_failure_def metric_failure_def same_config_def
         dest!: retry_or_fail_Finish\<close>)
  then show ?thesis
    using send_paced_frame[where url = url and now = "ex_now ex" and cl = cl]
      attempt_outcome_cong[OF send_paced_frame(1,2), of cd resolved url content_kind mutable ex]
    by (auto intro: same_config_trans)
qed


section \<open>What a fetch does\<close>

lemma fetch_loop_outcome:
  assumes "fetch_loop cd resolved url content_kind mutable env attempt left cl = (cl', res)"
    and "int attempt + int left = max_retries (cl_policy cl) + 1" "0 < left"
  shows "\<exists>i ts. attempt \<le> i \<and> i < attempt + left \<and> attempt_outcome cd resolved url content_kind mutable (env i) cl cl' res
    \<and> same_config cl cl' \<and> cl_sent cl' = cl_sent cl @ map (Pair url) ts \<and> length ts = Suc (i - attempt)
    \<and> (\<forall>j content. attempt \<le> j \<and> j < i \<longrightarrow> \<not> ok_exchange (env j) content)"
  using assms
proof (induction left arbitrary: attempt cl)
  case 0
  then show ?case by simp
next
  case (Suc left)
  show ?case
  proof (cases "fetch_attempt cd resolved url content_kind mutable attempt (env attempt) cl")
    case (Continue cl1)
    note step = fetch_attempt_Continue[OF Continue]
    then obtain t where sent: "cl_sent cl1 = cl_sent cl @ [(url, t)]" by blast
    have frame: "cl_cache cl1 = cl_cache cl" "same_config cl cl1" "int attempt < max_retries (cl_policy cl)"
      and no: "\<not> ok_exchange (env attempt) content" for content using step by auto
    have "0 < left" using Suc.prems(2) frame(3) by linarith
    moreover have "fetch_loop cd resolved url content_kind mutable env (Suc attempt) left cl1 = (cl', res)"
      using Suc.prems(1) Continue by simp
    moreover have "int (Suc attempt) + int left = max_retries (cl_policy cl1) + 1"
      using Suc.prems(2) frame(2) by (simp add: same_config_def)
    ultimately obtain i ts where i: "Suc attempt \<le> i" "i < Suc attempt + left"
      "attempt_outcome cd resolved url content_kind mutable (env i) cl1 cl' res" "same_config cl1 cl'"
      "cl_sent cl' = cl_sent cl1 @ map (Pair url) ts" "length ts = Suc (i - Suc attempt)"
      "\<forall>j content. Suc attempt \<le> j \<and> j < i \<longrightarrow> \<not> ok_exchange (env j) content"
      using Suc.IH by blast
    have "\<not> ok_exchange (env j) content" if "attempt \<le> j" "j < i" for j content
      using i(7) no that by (cases "j = attempt") auto
    moreover have "attempt_outcome cd resolved url content_kind mutable (env i) cl cl' res"
      using i(3) by (simp add: attempt_outcome_cong[OF frame(1,2)])
    moreover have "cl_sent cl' = cl_sent cl @ map (Pair url) (t # ts)" using i(5) sent by simp
    ultimately show ?thesis using i(1,2,4,6) frame(2)
      by (intro exI[of _ i] exI[of _ "t # ts"]) (auto intro: same_config_trans)
  next
    case (Finish cl1 res1)
    then have "cl1 = cl'" "res1 = res" using Suc.prems(1) by simp_all
    with fetch_attempt_Finish[OF Finish] obtain t where
      "attempt_outcome cd resolved url content_kind mutable (env attempt) cl cl' res" "same_config cl cl'"
      "cl_sent cl' = cl_sent cl @ [(url, t)]" by blast
    then show ?thesis by (intro exI[of _ attempt] exI[of _ "[t]"]) auto
  qed
qed

lemma get_bytes_cases:
  assumes "get_bytes cd resolved url content_kind force_refresh mutable now env cl = (cl', res)"
  obtains (hit) b where "\<not> force_refresh" "client_cache_get cd url now cl = Some b" "cl' = cache_hit cl" "res = Inr b"
  | (skip) reason status where "preflight_skip cd url cl = Some (reason, status)" "res = Inl (PermanentHttpError url reason status)"
      "cl' = metric_failure ''ledger_skip'' (permanent_text url reason status) cl"
  | (fetch) "preflight_skip cd url cl = None"
      "fetch_loop cd resolved url content_kind mutable env 0 (nat (max_retries (cl_policy cl) + 1)) cl = (cl', res)"
  using assms by (auto simp: get_bytes_def split: option.splits if_splits prod.splits)


definition failed_runs_of :: "failure_row option \<Rightarrow> int" where
  "failed_runs_of entry = (case entry of None \<Rightarrow> 0 | Some row \<Rightarrow> fr_failed_runs row)"

lemma failed_again_counts:
  "fr_failed_runs (failed_again digest url kind detail status permanent now entry) = failed_runs_of entry + 1"
  "fr_permanent (failed_again digest url kind detail status permanent now entry) = permanent"
  by (simp_all add: failed_again_def failed_runs_of_def split: option.split)

lemma clear_failure_get: "cache_get cd v t (cache_clear_failure cd url c) = cache_get cd v t c"
  by (simp add: cache_get_def cache_clear_failure_def)

lemma accepted_cache:
  assumes rt: "\<And>p. decompress_payload cd (compress_payload cd p) = p" and inv: "cache_inv cd c"
    and "accepted cd resolved url content_kind mutable ex content (Some c) new"
  shows "\<exists>c' expires. new = Some c' \<and> cache_inv cd c' \<and> cache_load_failure_entry cd url c' = None
    \<and> expires_at resolved url (ex_fetched ex) (c_ttl_s c) mutable (c_surface_ttls c) (c_default_surface_ttl_s c) = Inr expires
    \<and> (\<forall>t. cache_get cd url t c' = (if is_expired expires t then None else Some content))"
proof -
  obtain c' where put: "cache_put cd resolved url content (sha256 cd content) (int (length content)) content_kind mutable
      (ex_stamp ex) (ex_fetched ex) c = Inr c'" and new: "new = Some (cache_clear_failure cd url c')"
    using assms(3) by (auto simp: accepted_def)
  obtain expires where e: "expires_at resolved url (ex_fetched ex) (c_ttl_s c) mutable (c_surface_ttls c) (c_default_surface_ttl_s c) = Inr expires"
    using put unfolding cache_put_Inr by blast
  have inv': "cache_inv cd c'" by (rule cache_put_inv[OF inv put])
  show ?thesis
    using cache_put_get(1)[OF rt inv put e] e new cache_inv_ops(2)[OF inv'] load_failure_clear[OF inv', of url url]
    by (simp add: clear_failure_get)
qed

lemma recorded_cache:
  assumes "cache_inv cd c" and "new = map_option (cache_record_failure cd url kind detail status permanent now) (Some c)"
  shows "\<exists>c' row. new = Some c' \<and> cache_inv cd c' \<and> cache_load_failure_entry cd url c' = Some row \<and> fr_permanent row = permanent
    \<and> fr_failed_runs row = failed_runs_of (cache_load_failure_entry cd url c) + 1"
  using assms by (simp add: cache_inv_ops load_failure_record failed_again_counts)

text \<open>What the call leaves of the cache and the ledger when it returns or raises.\<close>

definition fetch_result ::
    "codec \<Rightarrow> ttl_table \<times> int \<Rightarrow> string \<Rightarrow> bool \<Rightarrow> exchange \<Rightarrow> sql_cache \<Rightarrow> sql_cache \<Rightarrow> (http_error, bytes) result \<Rightarrow> bool" where
  "fetch_result cd resolved url mutable ex c c' res \<longleftrightarrow>
     (case res of
        Inr b \<Rightarrow> ok_exchange ex b \<and> cache_load_failure_entry cd url c' = None
          \<and> (\<exists>expires. expires_at resolved url (ex_fetched ex) (c_ttl_s c) mutable (c_surface_ttls c) (c_default_surface_ttl_s c) = Inr expires
              \<and> (\<forall>t. cache_get cd url t c' = (if is_expired expires t then None else Some b)))
      | Inl (Raised e) \<Rightarrow> c' = c \<and> (\<exists>content. ok_exchange ex content)
      | Inl e \<Rightarrow> \<exists>row. cache_load_failure_entry cd url c' = Some row \<and> fr_permanent row = permanent_error e
          \<and> fr_failed_runs row = failed_runs_of (cache_load_failure_entry cd url c) + 1)"

lemma attempt_outcome_result:
  assumes rt: "\<And>p. decompress_payload cd (compress_payload cd p) = p" and inv: "cache_inv cd c" and c: "cl_cache cl = Some c"
    and out: "attempt_outcome cd resolved url content_kind mutable ex cl cl' res"
  shows "\<exists>c'. cl_cache cl' = Some c' \<and> cache_inv cd c' \<and> fetch_result cd resolved url mutable ex c c' res"
proof (cases res)
  case (Inr b)
  then have "accepted cd resolved url content_kind mutable ex b (Some c) (cl_cache cl')" "ok_exchange ex b"
    using out c by (auto simp: attempt_outcome_def)
  then show ?thesis using accepted_cache[OF rt inv] Inr by (fastforce simp: fetch_result_def)
next
  case (Inl e)
  show ?thesis
  proof (cases "\<exists>x. e = Raised x")
    case True
    then show ?thesis using Inl out c inv by (auto simp: attempt_outcome_def fetch_result_def)
  next
    case False
    then obtain kind detail status where
      "cl_cache cl' = map_option (cache_record_failure cd url kind detail status (permanent_error e) (ex_stamp ex)) (Some c)"
      using Inl out c by (cases e) (auto simp: attempt_outcome_def)
    from recorded_cache[OF inv this] show ?thesis using Inl False by (cases e) (auto simp: fetch_result_def)
  qed
qed

lemma get_bytes_result:
  assumes "\<And>p. decompress_payload cd (compress_payload cd p) = p" "cl_cache cl = Some c" "cache_inv cd c"
    and "0 \<le> max_retries (cl_policy cl)"
    and "get_bytes cd resolved url content_kind force_refresh mutable now env cl = (cl', res)"
  shows "\<exists>n c'. length (cl_sent cl') = length (cl_sent cl) + n \<and> int n \<le> max_retries (cl_policy cl) + 1
    \<and> cl_cache cl' = Some c' \<and> cache_inv cd c'
    \<and> (n = 0 \<longrightarrow> c' = c \<and> (\<exists>b. res = Inr b \<and> cache_get cd url now c = Some b \<or>
          (\<exists>reason status. res = Inl (PermanentHttpError url reason status) \<and> preflight_skip cd url cl = Some (reason, status))))
    \<and> (0 < n \<longrightarrow> fetch_result cd resolved url mutable (env (n - 1)) c c' res
          \<and> (\<forall>b. res = Inr b \<longrightarrow> within_limit cl b \<and> (\<forall>j < n - 1. \<not> ok_exchange (env j) b)))"
  using assms(5)
proof (cases rule: get_bytes_cases)
  case (hit b)
  then show ?thesis using assms(2-4) by (intro exI[of _ 0] exI[of _ c]) (simp add: cache_hit_def client_cache_get_def)
next
  case (skip reason status)
  then show ?thesis using assms(2-4) by (intro exI[of _ 0] exI[of _ c]) (simp add: metric_failure_def)
next
  case fetch
  then obtain i ts where i: "i < nat (max_retries (cl_policy cl) + 1)"
    and out: "attempt_outcome cd resolved url content_kind mutable (env i) cl cl' res"
    and sent: "cl_sent cl' = cl_sent cl @ map (Pair url) ts" "length ts = Suc i"
    and first: "\<forall>j content. j < i \<longrightarrow> \<not> ok_exchange (env j) content"
    using fetch_loop_outcome[OF fetch(2)] assms(4) by auto
  from attempt_outcome_result[OF assms(1,3,2) out] obtain c' where
    "cl_cache cl' = Some c'" "cache_inv cd c'" "fetch_result cd resolved url mutable (env i) c c' res" by blast
  moreover have "within_limit cl b" if "res = Inr b" for b using out that by (simp add: attempt_outcome_def)
  ultimately show ?thesis using i sent first by (intro exI[of _ "Suc i"] exI[of _ c']) auto
qed

text \<open>
  C25. Every outcome of \<^verbatim>\<open>get_bytes\<close> on a client with a cache, whatever the session answers: the call makes at most
  \<open>max_retries + 1\<close> requests (calls of the session). Without a request it returned a cached payload, or refused a URL by its failure history,
  and cache and ledger are as before. Otherwise a returned payload is the body of the first response with status 200,
  fits the size limit, is now in the cache until its expiry, and the failure entry is gone; a raised error has counted one
  more failed run in the ledger, marked permanent exactly for a permanent error; only a \<^verbatim>\<open>ValueError\<close> from storing the payload leaves the ledger as it was.
\<close>

theorem get_bytes_outcomes:
  assumes "\<And>p. decompress_payload cd (compress_payload cd p) = p" "cl_cache cl = Some c" "cache_inv cd c"
    and "0 \<le> max_retries (cl_policy cl)"
    and "get_bytes cd resolved url content_kind force_refresh mutable now env cl = (cl', res)"
  shows "\<exists>n c'. length (cl_sent cl') = length (cl_sent cl) + n \<and> int n \<le> max_retries (cl_policy cl) + 1
    \<and> cl_cache cl' = Some c' \<and> cache_inv cd c'
    \<and> (n = 0 \<longrightarrow> c' = c \<and> (\<exists>b. res = Inr b \<and> cache_get cd url now c = Some b \<or>
          (\<exists>reason status. res = Inl (PermanentHttpError url reason status) \<and> preflight_skip cd url cl = Some (reason, status))))
    \<and> (0 < n \<longrightarrow> fetch_result cd resolved url mutable (env (n - 1)) c c' res
          \<and> (\<forall>b. res = Inr b \<longrightarrow> within_limit cl b \<and> (\<forall>j < n - 1. \<not> ok_exchange (env j) b)))"
  by (rule get_bytes_result[OF assms])

definition plain_exchange :: "outcome \<Rightarrow> exchange" where
  "plain_exchange out = \<lparr>ex_now = 5, ex_outcome = out, ex_latency = 1, ex_signal_now = 6, ex_jitter = 0, ex_stamp = 7, ex_fetched = 7\<rparr>"

definition demo_limiter :: rate_limiter where
  "demo_limiter = \<lparr>min_interval = 1 / 8, max_interval = 60, interval = 1 / 8, next_slot = 5, cool_until = 0, last_throttle = 0\<rparr>"

definition demo_client :: http_client where
  "demo_client = \<lparr>cl_headers = [], cl_limiter = demo_limiter, cl_policy = RetryPolicy, cl_metrics = HttpMetrics,
     cl_cache = Some (SqlCache 10 None None), cl_max_failure_attempts = DEFAULT_MAX_FAILURE_ATTEMPTS,
     cl_ignore_failure_history = False, cl_max_response_bytes = Some 9, cl_sent = [], cl_slept = []\<rparr>"

text \<open>A timeout, then a body of two bytes.\<close>

definition demo_env :: "nat \<Rightarrow> exchange" where
  "demo_env i = plain_exchange (if i = 0 then Timeout ''slow'' else Response \<lparr>r_status = 200, r_retry_after = None, r_content = ''ok''\<rparr>)"

definition failing_env :: "nat \<Rightarrow> exchange" where
  "failing_env i = plain_exchange (if even i then Timeout ''slow'' else Response \<lparr>r_status = 503, r_retry_after = None, r_content = []\<rparr>)"

lemma demo_client_config:
  "cl_cache demo_client = Some (SqlCache 10 None None)" "cl_policy demo_client = RetryPolicy" "cl_max_failure_attempts demo_client = 3"
  "\<not> cl_ignore_failure_history demo_client" "cl_sent demo_client = []" "max_retries RetryPolicy = 3"
  by (simp_all add: demo_client_def RetryPolicy_def DEFAULT_MAX_RETRIES_def DEFAULT_MAX_FAILURE_ATTEMPTS_def)

theorem get_bytes_outcomes_witness:
  "snd (get_bytes plain_codec ([], 1) ''u'' ''text'' False False 7 demo_env demo_client) = Inr ''ok''
   \<and> length (cl_sent (fst (get_bytes plain_codec ([], 1) ''u'' ''text'' False False 7 demo_env demo_client))) = 2
   \<and> (\<exists>c'. cl_cache (fst (get_bytes plain_codec ([], 1) ''u'' ''text'' False False 7 demo_env demo_client)) = Some c'
        \<and> fetch_result plain_codec ([], 1) ''u'' False (demo_env 1) (SqlCache 10 None None) c' (Inr ''ok''))"
proof -
  let ?r = "get_bytes plain_codec ([], 1) ''u'' ''text'' False False 7 demo_env demo_client"
  have run: "snd ?r = Inr ''ok''" "length (cl_sent (fst ?r)) = 2" by code_simp+
  then have r: "?r = (fst ?r, Inr ''ok'')" by (metis prod.collapse)
  have mr: "0 \<le> max_retries (cl_policy demo_client)" by (simp add: demo_client_config)
  from get_bytes_outcomes[OF plain_codec_laws(1) demo_client_config(1) SqlCache_inv mr r] run
  show ?thesis by (auto simp: demo_client_config numeral_2_eq_2)
qed

section \<open>A URL that keeps failing\<close>

text \<open>Calls for one URL: content kind, the two flags, the clock of the cache look-up, and the environment.\<close>

type_synonym fetch_call = "string \<times> bool \<times> bool \<times> int \<times> (nat \<Rightarrow> exchange)"

fun get_all :: "codec \<Rightarrow> ttl_table \<times> int \<Rightarrow> string \<Rightarrow> fetch_call list \<Rightarrow> http_client \<Rightarrow> http_client" where
  "get_all cd resolved url [] cl = cl"
| "get_all cd resolved url ((content_kind, force_refresh, mutable, now, env) # calls) cl =
     get_all cd resolved url calls (fst (get_bytes cd resolved url content_kind force_refresh mutable now env cl))"

definition remaining_budget :: "codec \<Rightarrow> string \<Rightarrow> http_client \<Rightarrow> int" where
  "remaining_budget cd url cl =
     (case client_load_failure_entry cd url cl of
        None \<Rightarrow> cl_max_failure_attempts cl
      | Some row \<Rightarrow> if fr_permanent row then 0 else max 0 (cl_max_failure_attempts cl - fr_failed_runs row))"

lemma get_bytes_config:
  assumes "get_bytes cd resolved url content_kind force_refresh mutable now env cl = (cl', res)" "0 \<le> max_retries (cl_policy cl)"
  shows "same_config cl cl'"
  using assms(1)
proof (cases rule: get_bytes_cases)
  case fetch
  from fetch_loop_outcome[OF fetch(2)] assms(2) show ?thesis by auto
qed (simp_all add: cache_hit_def metric_failure_def same_config_def)

lemma failing_call_budget:
  assumes rt: "\<And>p. decompress_payload cd (compress_payload cd p) = p" and c: "cl_cache cl = Some c" "cache_inv cd c"
    and mr: "0 \<le> max_retries (cl_policy cl)" and budget: "0 < cl_max_failure_attempts cl" "\<not> cl_ignore_failure_history cl"
    and call: "get_bytes cd resolved url content_kind force_refresh mutable now env cl = (cl', res)"
    and fails: "\<And>i b. \<not> ok_exchange (env i) b"
  shows "\<exists>c'. cl_cache cl' = Some c' \<and> cache_inv cd c' \<and> int (length (cl_sent cl'))
    + (max_retries (cl_policy cl) + 1) * remaining_budget cd url cl'
    \<le> int (length (cl_sent cl)) + (max_retries (cl_policy cl) + 1) * remaining_budget cd url cl"
proof -
  from get_bytes_result[OF rt c mr call] obtain n c' where
    n: "length (cl_sent cl') = length (cl_sent cl) + n" "int n \<le> max_retries (cl_policy cl) + 1"
    and c': "cl_cache cl' = Some c'" "cache_inv cd c'" and n0: "n = 0 \<longrightarrow> c' = c"
    and pos: "0 < n \<longrightarrow> fetch_result cd resolved url mutable (env (n - 1)) c c' res" by blast
  have conf: "cl_max_failure_attempts cl' = cl_max_failure_attempts cl"
    using get_bytes_config[OF call mr] by (simp add: same_config_def)
  show ?thesis
  proof (cases "n = 0")
    case True
    then have "remaining_budget cd url cl' = remaining_budget cd url cl"
      using n0 c c' conf by (simp add: remaining_budget_def client_load_failure_entry_def split: option.split)
    then show ?thesis using n True c' by simp
  next
    case False
    have go: "preflight_skip cd url cl = None"
      using call
    proof (cases rule: get_bytes_cases)
      case (hit b)
      then show ?thesis using n(1) False by (simp add: cache_hit_def)
    next
      case (skip reason status)
      then show ?thesis using n(1) False by (simp add: metric_failure_def)
    qed simp
    from pos False fails obtain row where row: "cache_load_failure_entry cd url c' = Some row"
      "fr_failed_runs row = failed_runs_of (cache_load_failure_entry cd url c) + 1"
      by (cases res) (auto simp: fetch_result_def split: http_error.splits)
    have "remaining_budget cd url cl' + 1 \<le> remaining_budget cd url cl"
      using go row c c' conf budget
      by (auto simp: remaining_budget_def client_load_failure_entry_def preflight_skip_def failed_runs_of_def max_def
          split: option.splits if_splits)
    then have "(max_retries (cl_policy cl) + 1) * (remaining_budget cd url cl' + 1)
        \<le> (max_retries (cl_policy cl) + 1) * remaining_budget cd url cl"
      using mr by (intro mult_left_mono) auto
    then show ?thesis using n c' by (auto simp: algebra_simps)
  qed
qed

text \<open>
  C26. The failure ledger bounds what a dead URL costs, for a client with a cache and a positive failure budget (a budget of 0 switches the limit
  off): however often a URL without an entry is asked for, as long as it never answers with status 200 and its history is not ignored or
  cleared, the client sends at most \<open>max_failure_attempts * (max_retries + 1)\<close> requests for it (twelve with the default settings), over all
  calls together.
\<close>

theorem failing_url_budget:
  assumes "\<And>p. decompress_payload cd (compress_payload cd p) = p" "cl_cache cl = Some c" "cache_inv cd c"
    and "0 \<le> max_retries (cl_policy cl)" "0 < cl_max_failure_attempts cl" "\<not> cl_ignore_failure_history cl"
    and "cache_load_failure_entry cd url c = None"
    and "\<forall>(content_kind, force_refresh, mutable, now, env) \<in> set calls. \<forall>i b. \<not> ok_exchange (env i) b"
  shows "int (length (cl_sent (get_all cd resolved url calls cl)))
    \<le> int (length (cl_sent cl)) + cl_max_failure_attempts cl * (max_retries (cl_policy cl) + 1)"
proof -
  have "int (length (cl_sent (get_all cd resolved url calls cl)))
      \<le> int (length (cl_sent cl)) + (max_retries (cl_policy cl) + 1) * remaining_budget cd url cl"
    using assms(2-6,8)
  proof (induction calls arbitrary: cl c)
    case Nil
    then have "0 \<le> remaining_budget cd url cl" by (auto simp: remaining_budget_def split: option.split)
    with Nil show ?case by simp
  next
    case (Cons call calls)
    obtain content_kind force_refresh mutable now env where call: "call = (content_kind, force_refresh, mutable, now, env)"
      by (cases call) auto
    obtain cl' res where get: "get_bytes cd resolved url content_kind force_refresh mutable now env cl = (cl', res)" by fastforce
    have fails: "\<not> ok_exchange (env i) b" for i b using Cons.prems(6) call by auto
    from failing_call_budget[OF assms(1) Cons.prems(1-5) get fails] obtain c' where c': "cl_cache cl' = Some c'" "cache_inv cd c'"
      and le: "int (length (cl_sent cl')) + (max_retries (cl_policy cl) + 1) * remaining_budget cd url cl'
        \<le> int (length (cl_sent cl)) + (max_retries (cl_policy cl) + 1) * remaining_budget cd url cl" by blast
    have conf: "cl_policy cl' = cl_policy cl" "cl_max_failure_attempts cl' = cl_max_failure_attempts cl"
      "cl_ignore_failure_history cl' = cl_ignore_failure_history cl"
      using get_bytes_config[OF get Cons.prems(3)] by (auto simp: same_config_def)
    have "int (length (cl_sent (get_all cd resolved url calls cl')))
        \<le> int (length (cl_sent cl')) + (max_retries (cl_policy cl') + 1) * remaining_budget cd url cl'"
      using Cons.IH[OF c'] Cons.prems(3-6) conf by auto
    with le show ?case using conf by (simp add: call get)
  qed
  then show ?thesis using assms(2,7) by (simp add: remaining_budget_def client_load_failure_entry_def mult.commute)
qed

theorem failing_url_budget_witness:
  "length (cl_sent (get_all plain_codec ([], 1) ''u'' (replicate 9 (''text'', False, False, 7, failing_env)) demo_client)) \<le> 12"
proof -
  have entry: "cache_load_failure_entry plain_codec ''u'' (SqlCache 10 None None) = None" by code_simp
  have fails: "\<not> ok_exchange (failing_env i) b" for i b by (simp add: ok_exchange_def failing_env_def plain_exchange_def)
  have conf: "0 \<le> max_retries (cl_policy demo_client)" "0 < cl_max_failure_attempts demo_client"
    by (simp_all add: demo_client_config)
  have "\<forall>(content_kind, force_refresh, mutable, now, env) \<in> set (replicate 9 (''text'', False, False, 7, failing_env)).
      \<forall>i b. \<not> ok_exchange (env i) b" using fails by simp
  from failing_url_budget[OF plain_codec_laws(1) demo_client_config(1) SqlCache_inv conf demo_client_config(4) entry this, of "([], 1)"]
  show ?thesis by (simp add: demo_client_config)
qed

end
