(* ===== verification/HttpStream.thy ===== *)
theory HttpStream
  imports HttpClient
begin

text \<open>
  \<^verbatim>\<open>SecHttpClient.stream_to_file\<close> of \<^verbatim>\<open>infra/sec_http/client.py\<close> with the results of \<^verbatim>\<open>infra/sec_http/streaming.py\<close>: a bounded
  download into a temporary file beside the destination, with redirects followed one by one.

  As for \<^verbatim>\<open>get_bytes\<close>, the answers of the session are an environment, here indexed by the attempt and by the number of redirects
  followed in it. The caller's \<^verbatim>\<open>validate_redirect\<close>, the function \<^verbatim>\<open>urljoin\<close> and the redirect limit of \<^verbatim>\<open>requests\<close> are fields of the record
  \<open>stream_request\<close>; no theorem depends on what they are. A header \<^verbatim>\<open>Retry-After\<close> is the number \<^verbatim>\<open>float\<close> reads from it, if any. The files
  are a map from path names to contents, and the name that \<^verbatim>\<open>mkstemp\<close> picks is part of the environment.
\<close>

section \<open>Requests and results\<close>

datatype stream_failure_code =
  Http_not_found | Http_error | Timeout_code | Transport_error | Response_too_large | Unsafe_redirect | Empty_body

record streamed_response =
  st_status_code :: int
  st_requested_url :: string
  st_final_url :: string
  st_sha256 :: string
  st_byte_size :: int
  st_content_type :: "string option"
  st_content_encoding :: "string option"
  st_path :: string

record stream_failure =
  sf_code :: stream_failure_code
  sf_retryable :: bool
  sf_http_status :: "int option"
  sf_detail :: string

datatype stream_result = StreamedResponse streamed_response | StreamFailure stream_failure

type_synonym files = "string \<Rightarrow> bytes option"

record stream_request =
  sq_url :: string
  sq_destination :: string
  sq_max_response_bytes :: int
  sq_validate_redirect :: "string \<Rightarrow> string option"
  sq_urljoin :: "string \<Rightarrow> string \<Rightarrow> (py_error, string) result"
  sq_redirect_limit :: int

datatype transport_error = TimeoutRaised string | RequestRaised string

record stream_reply =
  sr_status :: int
  sr_url :: "string option"
  sr_location :: "string option"
  sr_retry_after :: "rat option"
  sr_content_length :: "string option"
  sr_chunks :: "bytes list"
  sr_body_error :: "transport_error option"
  sr_content_type :: "string option"
  sr_content_encoding :: "string option"

record stream_exchange =
  sx_now :: rat
  sx_outcome :: "transport_error + stream_reply"
  sx_latency :: rat
  sx_signal_now :: rat
  sx_jitter :: rat
  sx_stamp :: int
  sx_tmp :: string

text \<open>\<^verbatim>\<open>failure\<close>, the closure every error path ends with.\<close>

definition stream_failure_of ::
    "codec \<Rightarrow> stream_request \<Rightarrow> int \<Rightarrow> stream_failure_code \<Rightarrow> string \<Rightarrow> bool \<Rightarrow> int option \<Rightarrow> string \<Rightarrow> bool \<Rightarrow> string \<Rightarrow> http_client
       \<Rightarrow> http_client \<times> stream_result" where
  "stream_failure_of cd q stamp code detail retryable status kind permanent metric_kind cl =
     (ledger_failure cd (sq_url q) kind detail status permanent stamp (metric_failure metric_kind detail cl),
      StreamFailure \<lparr>sf_code = code, sf_retryable = retryable, sf_http_status = status, sf_detail = detail\<rparr>)"

section \<open>Following redirects\<close>

datatype follow_result =
    Followed http_client string stream_exchange stream_reply
  | FollowRaised http_client stream_exchange transport_error
  | FollowCrashed http_client py_error
  | FollowFailed http_client stream_result

definition nonempty_or :: "string option \<Rightarrow> string \<Rightarrow> string" where
  "nonempty_or s d = (case s of None \<Rightarrow> d | Some t \<Rightarrow> if t = [] then d else t)"

definition is_redirect :: "stream_reply \<Rightarrow> bool" where
  "is_redirect r \<longleftrightarrow> sr_status r \<in> {301, 302, 303, 307, 308} \<and> nonempty_or (sr_location r) [] \<noteq> []"

definition stream_status :: "stream_reply \<Rightarrow> stream_exchange \<Rightarrow> int \<Rightarrow> http_client \<Rightarrow> http_client" where
  "stream_status r sx byte_count cl = cl\<lparr>cl_metrics := record_status (sr_status r) (sx_latency sx) byte_count (cl_metrics cl)\<rparr>"

definition unsafe_redirect ::
    "codec \<Rightarrow> stream_request \<Rightarrow> stream_exchange \<Rightarrow> stream_reply \<Rightarrow> string \<Rightarrow> http_client \<Rightarrow> follow_result" where
  "unsafe_redirect cd q sx r detail cl =
     (case stream_failure_of cd q (sx_stamp sx) Unsafe_redirect detail False (Some (sr_status r)) ''unsafe_redirect'' True ''unsafe_redirect'' cl of
        (cl, res) \<Rightarrow> FollowFailed cl res)"

function follow :: "codec \<Rightarrow> stream_request \<Rightarrow> (nat \<Rightarrow> stream_exchange) \<Rightarrow> nat \<Rightarrow> string \<Rightarrow> http_client \<Rightarrow> follow_result" where
  "follow cd q env redirects current cl =
     (let sx = env redirects; cl = send_paced current (sx_now sx) cl in
      case sx_outcome sx of
        Inl e \<Rightarrow> FollowRaised cl sx e
      | Inr r \<Rightarrow>
          if \<not> is_redirect r then Followed cl current sx r
          else (let cl = stream_status r sx 0 cl in
            case sq_urljoin q (nonempty_or (sr_url r) current) (nonempty_or (sr_location r) []) of
              Inl e \<Rightarrow> FollowCrashed cl e
            | Inr redirect_url \<Rightarrow>
                (case sq_validate_redirect q redirect_url of
                   Some exc \<Rightarrow> unsafe_redirect cd q sx r (''redirect rejected: '' @ exc) cl
                 | None \<Rightarrow>
                     if sq_redirect_limit q \<le> int (Suc redirects)
                     then unsafe_redirect cd q sx r ''redirect limit exceeded'' cl
                     else follow cd q env (Suc redirects) redirect_url cl)))"
  by pat_completeness auto

termination
  by (relation "measure (\<lambda>(cd, q, env, redirects, current, cl). nat (sq_redirect_limit q) - redirects)") auto

declare follow.simps [simp del]

section \<open>One attempt\<close>

text \<open>The loop over the chunks: the bytes counted, the bytes written, and whether the bound was passed.\<close>

fun copy_chunks :: "int \<Rightarrow> int \<Rightarrow> bytes \<Rightarrow> bytes list \<Rightarrow> int \<times> bytes \<times> bool" where
  "copy_chunks limit byte_size written [] = (byte_size, written, False)"
| "copy_chunks limit byte_size written (chunk # chunks) =
     (if chunk = [] then copy_chunks limit byte_size written chunks
      else if limit < byte_size + int (length chunk) then (byte_size + int (length chunk), written, True)
      else copy_chunks limit (byte_size + int (length chunk)) (written @ chunk) chunks)"

datatype stream_step =
    StreamContinue http_client files
  | StreamFinish http_client files "(py_error, stream_result) result"

definition finish_failure :: "files \<Rightarrow> http_client \<times> stream_result \<Rightarrow> stream_step" where
  "finish_failure fs r = (case r of (cl, res) \<Rightarrow> StreamFinish cl fs (Inr res))"

definition stream_transport_error ::
    "codec \<Rightarrow> stream_request \<Rightarrow> nat \<Rightarrow> stream_exchange \<Rightarrow> transport_error \<Rightarrow> files \<Rightarrow> http_client \<Rightarrow> stream_step" where
  "stream_transport_error cd q attempt sx e fs cl =
     (let cl = cl\<lparr>cl_limiter := signal_network_error (cl_limiter cl)\<rparr>;
          (label, code, kind, detail) = (case e of
             TimeoutRaised d \<Rightarrow> (''timeout: '', Timeout_code, ''timeout'', d)
           | RequestRaised d \<Rightarrow> (''connection_error: '', Transport_error, ''network'', d)) in
      if int attempt < max_retries (cl_policy cl)
      then StreamContinue (backoff attempt None (sx_jitter sx) (metric_failure ''network'' (label @ sq_url q) cl)) fs
      else finish_failure fs (stream_failure_of cd q (sx_stamp sx) code detail True None kind False ''network'' cl))"

definition stream_bad_status ::
    "codec \<Rightarrow> stream_request \<Rightarrow> nat \<Rightarrow> stream_exchange \<Rightarrow> stream_reply \<Rightarrow> files \<Rightarrow> http_client \<Rightarrow> stream_step" where
  "stream_bad_status cd q attempt sx r fs cl =
     (let status = sr_status r; cl = stream_status r sx 0 cl; http = ''HTTP '' @ int_dec status in
      if status = 404
      then finish_failure fs (stream_failure_of cd q (sx_stamp sx) Http_not_found (''HTTP 404: '' @ sq_url q) False (Some 404)
             ''not_found'' True ''not_found'' cl)
      else if classify status \<in> {Throttle, Retry}
      then (let cl = (if classify status = Throttle
                      then cl\<lparr>cl_limiter := snd (signal_throttle (cl_limiter cl) (sx_signal_now sx) (sr_retry_after r))\<rparr> else cl);
                cl = metric_failure (if classify status = Throttle then ''throttle'' else ''http_retry'') (http @ '': '' @ sq_url q) cl in
            if int attempt < max_retries (cl_policy cl)
            then StreamContinue (backoff attempt (sr_retry_after r) (sx_jitter sx) cl) fs
            else finish_failure fs (stream_failure_of cd q (sx_stamp sx) Http_error (http @ '': retry budget exhausted'') True (Some status)
                   ''retryable_http'' False ''retryable_http'' cl))
      else finish_failure fs (stream_failure_of cd q (sx_stamp sx) Http_error (http @ '': '' @ sq_url q) False (Some status)
             ''permanent'' True ''permanent'' cl))"

definition declared_size :: "string option \<Rightarrow> int" where
  "declared_size header =
     (case header of None \<Rightarrow> 0 | Some h \<Rightarrow> if h = [] then 0 else case int_of_string h of Inl _ \<Rightarrow> 0 | Inr n \<Rightarrow> n)"

definition stream_body ::
    "codec \<Rightarrow> stream_request \<Rightarrow> nat \<Rightarrow> string \<Rightarrow> stream_exchange \<Rightarrow> stream_reply \<Rightarrow> files \<Rightarrow> http_client \<Rightarrow> stream_step" where
  "stream_body cd q attempt current sx r fs cl =
     (let limit = sq_max_response_bytes q in
      case copy_chunks limit 0 [] (sr_chunks r) of (byte_size, written, too_large) \<Rightarrow>
        let dropped = (fs(sx_tmp sx \<mapsto> written))(sx_tmp sx := None) in
        case (if too_large then None else sr_body_error r) of
          Some e \<Rightarrow> stream_transport_error cd q attempt sx e dropped cl
        | None \<Rightarrow>
            (let cl = stream_status r sx byte_size cl in
             if too_large
             then finish_failure dropped (stream_failure_of cd q (sx_stamp sx) Response_too_large
                    (''response exceeded '' @ int_dec limit @ '' bytes'') False (Some (sr_status r)) ''size_exceeded'' True ''size_exceeded'' cl)
             else if byte_size = 0
             then finish_failure dropped (stream_failure_of cd q (sx_stamp sx) Empty_body
                    ''successful response had an empty body'' False (Some (sr_status r)) ''empty_body'' True ''empty_body'' cl)
             else StreamFinish (client_clear_failure cd (sq_url q) cl) (dropped(sq_destination q \<mapsto> written))
                    (Inr (StreamedResponse \<lparr>st_status_code = sr_status r, st_requested_url = sq_url q,
                       st_final_url = nonempty_or (sr_url r) current, st_sha256 = sha256 cd written, st_byte_size = byte_size,
                       st_content_type = sr_content_type r, st_content_encoding = sr_content_encoding r, st_path = sq_destination q\<rparr>))))"

definition stream_attempt ::
    "codec \<Rightarrow> stream_request \<Rightarrow> (nat \<Rightarrow> stream_exchange) \<Rightarrow> nat \<Rightarrow> files \<Rightarrow> http_client \<Rightarrow> stream_step" where
  "stream_attempt cd q env attempt fs cl =
     (case follow cd q env 0 (sq_url q) cl of
        FollowRaised cl sx e \<Rightarrow> stream_transport_error cd q attempt sx e fs cl
      | FollowCrashed cl e \<Rightarrow> StreamFinish cl fs (Inl e)
      | FollowFailed cl res \<Rightarrow> StreamFinish cl fs (Inr res)
      | Followed cl current sx r \<Rightarrow>
          if sr_status r \<noteq> 200 then stream_bad_status cd q attempt sx r fs cl
          else if sq_max_response_bytes q < declared_size (sr_content_length r)
          then finish_failure fs (stream_failure_of cd q (sx_stamp sx) Response_too_large
                 (''declared response size '' @ int_dec (declared_size (sr_content_length r)) @ '' exceeds ''
                    @ int_dec (sq_max_response_bytes q) @ '' bytes'')
                 False (Some 200) ''size_exceeded'' True ''size_exceeded'' (stream_status r sx 0 cl))
          else stream_body cd q attempt current sx r fs cl)"

section \<open>Streaming\<close>

fun stream_loop ::
    "codec \<Rightarrow> stream_request \<Rightarrow> (nat \<Rightarrow> nat \<Rightarrow> stream_exchange) \<Rightarrow> nat \<Rightarrow> nat \<Rightarrow> files \<Rightarrow> http_client
       \<Rightarrow> http_client \<times> files \<times> (py_error, stream_result) result" where
  "stream_loop cd q env attempt 0 fs cl =
     (case stream_failure_of cd q (sx_stamp (env attempt 0)) Transport_error ''exhausted all retry attempts'' True None ''network'' False ''network'' cl of
        (cl, res) \<Rightarrow> (cl, fs, Inr res))"
| "stream_loop cd q env attempt (Suc left) fs cl =
     (case stream_attempt cd q (env attempt) attempt fs cl of
        StreamContinue cl fs \<Rightarrow> stream_loop cd q env (Suc attempt) left fs cl
      | StreamFinish cl fs res \<Rightarrow> (cl, fs, res))"

definition stream_to_file ::
    "codec \<Rightarrow> stream_request \<Rightarrow> (nat \<Rightarrow> nat \<Rightarrow> stream_exchange) \<Rightarrow> files \<Rightarrow> http_client
       \<Rightarrow> http_client \<times> files \<times> (py_error, stream_result) result" where
  "stream_to_file cd q env fs cl =
     (if sq_max_response_bytes q \<le> 0 then (cl, fs, Inl ValueError)
      else case preflight_skip cd (sq_url q) cl of
        Some (reason, status) \<Rightarrow>
          (cl, fs, Inr (StreamFailure \<lparr>sf_code = Http_error, sf_retryable = False, sf_http_status = status,
             sf_detail = permanent_text (sq_url q) reason status\<rparr>))
      | None \<Rightarrow> stream_loop cd q env 0 (nat (max_retries (cl_policy cl) + 1)) fs cl)"

section \<open>What streaming does\<close>

text \<open>At most \<open>k\<close> requests, each to a URL with \<open>P\<close>.\<close>

definition requests_ok :: "(string \<Rightarrow> bool) \<Rightarrow> nat \<Rightarrow> http_client \<Rightarrow> http_client \<Rightarrow> bool" where
  "requests_ok P k cl cl' \<longleftrightarrow> (\<exists>us. cl_sent cl' = cl_sent cl @ us \<and> length us \<le> k \<and> list_all (\<lambda>r. P (fst r)) us)"

lemma requests_ok_trans: "requests_ok P j a b \<Longrightarrow> requests_ok P k b c \<Longrightarrow> j + k \<le> n \<Longrightarrow> requests_ok P n a c"
  unfolding requests_ok_def by (elim exE, rename_tac us vs, rule_tac x = "us @ vs" in exI) auto

lemma requests_ok_same: "cl_sent b = cl_sent a \<Longrightarrow> requests_ok P k a b"
  by (simp add: requests_ok_def)

lemma requests_ok_send: "P url \<Longrightarrow> requests_ok P 1 cl (send_paced url now cl)"
  by (simp add: requests_ok_def send_paced_def split: prod.split)

definition stream_outcome ::
    "codec \<Rightarrow> stream_request \<Rightarrow> files \<Rightarrow> http_client \<Rightarrow> http_client \<Rightarrow> files \<Rightarrow> (py_error, stream_result) result \<Rightarrow> bool" where
  "stream_outcome cd q fs cl cl' fs' res \<longleftrightarrow>
     (case res of
        Inl e \<Rightarrow> fs' = fs \<and> cl_cache cl' = cl_cache cl
      | Inr (StreamFailure f) \<Rightarrow> fs' = fs \<and> (\<exists>kind stamp. cl_cache cl' = map_option (cache_record_failure cd (sq_url q) kind
          (sf_detail f) (sf_http_status f) (\<not> sf_retryable f) stamp) (cl_cache cl))
      | Inr (StreamedResponse s) \<Rightarrow> (\<exists>body. fs' = fs(sq_destination q \<mapsto> body) \<and> body \<noteq> []
          \<and> int (length body) \<le> sq_max_response_bytes q \<and> st_byte_size s = int (length body) \<and> st_sha256 s = sha256 cd body
          \<and> st_path s = sq_destination q \<and> st_requested_url s = sq_url q
          \<and> cl_cache cl' = map_option (cache_clear_failure cd (sq_url q)) (cl_cache cl)))"

text \<open>An attempt that follows its requests keeps the files until it succeeds.\<close>

definition step_ok :: "codec \<Rightarrow> stream_request \<Rightarrow> files \<Rightarrow> http_client \<Rightarrow> stream_step \<Rightarrow> bool" where
  "step_ok cd q fs cl step \<longleftrightarrow>
     (case step of
        StreamContinue cl' fs' \<Rightarrow> fs' = fs \<and> cl_cache cl' = cl_cache cl \<and> same_config cl cl' \<and> cl_sent cl' = cl_sent cl
      | StreamFinish cl' fs' res \<Rightarrow> stream_outcome cd q fs cl cl' fs' res \<and> same_config cl cl' \<and> cl_sent cl' = cl_sent cl)"

lemma finish_failure_ok:
  "cl_cache cl1 = cl_cache cl \<Longrightarrow> same_config cl cl1 \<Longrightarrow> cl_sent cl1 = cl_sent cl \<Longrightarrow> permanent = (\<not> retryable) \<Longrightarrow>
     step_ok cd q fs cl (finish_failure fs (stream_failure_of cd q stamp code detail retryable status kind permanent mk cl1))"
  by (auto simp: finish_failure_def stream_failure_of_def step_ok_def stream_outcome_def ledger_failure_def metric_failure_def same_config_def)

lemma continue_ok:
  "cl_cache cl1 = cl_cache cl \<Longrightarrow> same_config cl cl1 \<Longrightarrow> cl_sent cl1 = cl_sent cl \<Longrightarrow> step_ok cd q fs cl (StreamContinue cl1 fs)"
  by (simp add: step_ok_def)

lemma stream_transport_error_ok: "step_ok cd q fs cl (stream_transport_error cd q attempt sx e fs cl)"
  by (cases e)
    (auto simp: stream_transport_error_def Let_def same_config_def backoff_def metric_failure_def
      intro!: finish_failure_ok continue_ok)

lemma stream_bad_status_ok: "step_ok cd q fs cl (stream_bad_status cd q attempt sx r fs cl)"
  by (auto simp: stream_bad_status_def Let_def stream_status_def metric_failure_def backoff_def same_config_def
      intro!: finish_failure_ok continue_ok)

lemma copy_chunks_bound:
  "copy_chunks limit (int (length w)) w chunks = (n, w', False) \<Longrightarrow> int (length w) \<le> limit \<Longrightarrow> n = int (length w') \<and> n \<le> limit"
proof (induction chunks arbitrary: w)
  case (Cons chunk chunks)
  then show ?case using Cons.IH[of "w @ chunk"] by (auto split: if_splits)
qed auto

lemma stream_body_ok:
  assumes "fs (sx_tmp sx) = None" "0 < sq_max_response_bytes q"
  shows "step_ok cd q fs cl (stream_body cd q attempt current sx r fs cl)"
proof -
  obtain n w big where copy: "copy_chunks (sq_max_response_bytes q) 0 [] (sr_chunks r) = (n, w, big)" by (metis prod_cases3)
  have drop: "fs(sx_tmp sx := None) = fs" using assms(1) by auto
  have size: "n = int (length w) \<and> n \<le> sq_max_response_bytes q" if "\<not> big"
    using copy_chunks_bound[of "sq_max_response_bytes q" "[]"] copy that assms(2) by simp
  show ?thesis
  proof (cases "if big then None else sr_body_error r")
    case (Some e)
    then show ?thesis by (simp add: stream_body_def copy drop stream_transport_error_ok)
  next
    case None
    have frame: "cl_cache (stream_status r sx n cl) = cl_cache cl" "same_config cl (stream_status r sx n cl)"
      "cl_sent (stream_status r sx n cl) = cl_sent cl" by (simp_all add: stream_status_def same_config_def)
    show ?thesis using None frame size
      by (auto simp: stream_body_def copy drop Let_def intro!: finish_failure_ok)
        (auto simp: step_ok_def stream_outcome_def client_clear_failure_def same_config_def)
  qed
qed

definition follow_ok :: "codec \<Rightarrow> stream_request \<Rightarrow> (nat \<Rightarrow> stream_exchange) \<Rightarrow> (string \<Rightarrow> bool) \<Rightarrow> nat \<Rightarrow> files \<Rightarrow> http_client \<Rightarrow> follow_result \<Rightarrow> bool" where
  "follow_ok cd q env P k fs cl res \<longleftrightarrow>
     (case res of
        Followed cl' current sx r \<Rightarrow> requests_ok P k cl cl' \<and> same_config cl cl' \<and> cl_cache cl' = cl_cache cl \<and> sx \<in> range env
      | FollowRaised cl' sx e \<Rightarrow> requests_ok P k cl cl' \<and> same_config cl cl' \<and> cl_cache cl' = cl_cache cl
      | FollowCrashed cl' e \<Rightarrow> requests_ok P k cl cl' \<and> same_config cl cl' \<and> cl_cache cl' = cl_cache cl
      | FollowFailed cl' res \<Rightarrow> requests_ok P k cl cl' \<and> same_config cl cl' \<and> stream_outcome cd q fs cl cl' fs (Inr res))"

lemma follow_ok_trans:
  assumes "requests_ok P j cl cl1" "same_config cl cl1" "cl_cache cl1 = cl_cache cl" "follow_ok cd q env P k fs cl1 res" "j + k \<le> n"
  shows "follow_ok cd q env P n fs cl res"
  using assms
  by (auto simp: follow_ok_def stream_outcome_def split: follow_result.splits stream_result.splits
      intro: requests_ok_trans same_config_trans)

lemma unsafe_redirect_ok: "follow_ok cd q env P k fs cl (unsafe_redirect cd q sx r detail cl)"
  by (auto simp: unsafe_redirect_def stream_failure_of_def follow_ok_def stream_outcome_def ledger_failure_def metric_failure_def
      same_config_def intro!: requests_ok_same)

lemma follow_outcome:
  assumes "P current" "\<And>u. sq_validate_redirect q u = None \<Longrightarrow> P u"
  shows "follow_ok cd q env P (max 1 (nat (sq_redirect_limit q) - redirects)) fs cl (follow cd q env redirects current cl)"
  using assms
proof (induction cd q env redirects current cl rule: follow.induct)
  case (1 cd q env redirects current cl)
  let ?n = "max 1 (nat (sq_redirect_limit q) - redirects)"
  define sx where "sx = env redirects"
  define cl1 where "cl1 = send_paced current (sx_now sx) cl"
  have sent: "requests_ok P 1 cl cl1" "same_config cl cl1" "cl_cache cl1 = cl_cache cl"
    using requests_ok_send[of P current cl] 1(2) by (auto simp: cl1_def send_paced_frame)
  have unfold: "follow cd q env redirects current cl = (case sx_outcome sx of
      Inl e \<Rightarrow> FollowRaised cl1 sx e
    | Inr r \<Rightarrow> if \<not> is_redirect r then Followed cl1 current sx r
        else case sq_urljoin q (nonempty_or (sr_url r) current) (nonempty_or (sr_location r) []) of
            Inl e \<Rightarrow> FollowCrashed (stream_status r sx 0 cl1) e
          | Inr u \<Rightarrow> (case sq_validate_redirect q u of
              Some exc \<Rightarrow> unsafe_redirect cd q sx r (''redirect rejected: '' @ exc) (stream_status r sx 0 cl1)
            | None \<Rightarrow> if sq_redirect_limit q \<le> int (Suc redirects)
                then unsafe_redirect cd q sx r ''redirect limit exceeded'' (stream_status r sx 0 cl1)
                else follow cd q env (Suc redirects) u (stream_status r sx 0 cl1)))"
    unfolding sx_def cl1_def by (subst follow.simps) (unfold Let_def, rule refl)
  have leaf: ?case if "follow_ok cd q env P 0 fs cl1 (follow cd q env redirects current cl)"
    by (rule follow_ok_trans[OF sent that]) simp
  show ?case
  proof (cases "sx_outcome sx")
    case (Inl e)
    then show ?thesis by (intro leaf) (simp add: unfold follow_ok_def requests_ok_same same_config_def)
  next
    case (Inr r)
    define cl2 where "cl2 = stream_status r sx 0 cl1"
    have cl2: "requests_ok P 0 cl1 cl2" "same_config cl1 cl2" "cl_cache cl2 = cl_cache cl1"
      by (simp_all add: cl2_def stream_status_def requests_ok_same same_config_def)
    have sent2: "requests_ok P 1 cl cl2" "same_config cl cl2" "cl_cache cl2 = cl_cache cl"
      using requests_ok_trans[OF sent(1) cl2(1), of 1] same_config_trans[OF sent(2) cl2(2)] cl2(3) sent(3) by auto
    consider (reply) "\<not> is_redirect r"
      | (crash) e where "is_redirect r" "sq_urljoin q (nonempty_or (sr_url r) current) (nonempty_or (sr_location r) []) = Inl e"
      | (rejected) u exc where "is_redirect r" "sq_urljoin q (nonempty_or (sr_url r) current) (nonempty_or (sr_location r) []) = Inr u"
          "sq_validate_redirect q u = Some exc"
      | (limit) u where "is_redirect r" "sq_urljoin q (nonempty_or (sr_url r) current) (nonempty_or (sr_location r) []) = Inr u"
          "sq_validate_redirect q u = None" "sq_redirect_limit q \<le> int (Suc redirects)"
      | (go) u where "is_redirect r" "sq_urljoin q (nonempty_or (sr_url r) current) (nonempty_or (sr_location r) []) = Inr u"
          "sq_validate_redirect q u = None" "int (Suc redirects) < sq_redirect_limit q"
      by (metis not_le option.exhaust sum.exhaust)
    then show ?thesis
    proof cases
      case reply
      then show ?thesis using Inr by (intro leaf) (simp add: unfold follow_ok_def requests_ok_same same_config_def sx_def)
    next
      case crash
      then show ?thesis using Inr cl2 by (intro leaf) (simp add: unfold follow_ok_def cl2_def)
    next
      case rejected
      then show ?thesis using Inr follow_ok_trans[OF sent2 unsafe_redirect_ok[where k = 0]] by (simp add: unfold cl2_def)
    next
      case limit
      then show ?thesis using Inr follow_ok_trans[OF sent2 unsafe_redirect_ok[where k = 0]] by (simp add: unfold cl2_def)
    next
      case go
      have "follow_ok cd q env P (max 1 (nat (sq_redirect_limit q) - Suc redirects)) fs cl2 (follow cd q env (Suc redirects) u cl2)"
        using 1(1)[OF sx_def cl1_def Inr _ cl2_def go(2,3)] go 1(3) by simp
      moreover have "follow cd q env redirects current cl = follow cd q env (Suc redirects) u cl2"
        using Inr go by (simp add: unfold cl2_def)
      moreover have "1 + max 1 (nat (sq_redirect_limit q) - Suc redirects) \<le> ?n" using go(4) by linarith
      ultimately show ?thesis using follow_ok_trans[OF sent2] by metis
    qed
  qed
qed


definition stream_ok ::
    "codec \<Rightarrow> stream_request \<Rightarrow> (string \<Rightarrow> bool) \<Rightarrow> nat \<Rightarrow> files \<Rightarrow> http_client \<Rightarrow> http_client \<Rightarrow> files \<Rightarrow> (py_error, stream_result) result \<Rightarrow> bool" where
  "stream_ok cd q P k fs cl cl' fs' res \<longleftrightarrow> requests_ok P k cl cl' \<and> same_config cl cl' \<and> stream_outcome cd q fs cl cl' fs' res"

lemma stream_outcome_cong:
  "cl_cache cl1 = cl_cache cl \<Longrightarrow> stream_outcome cd q fs cl1 cl' fs' res = stream_outcome cd q fs cl cl' fs' res"
  by (simp add: stream_outcome_def split: sum.split stream_result.split)

lemma stream_ok_trans:
  assumes "requests_ok P j cl cl1" "same_config cl cl1" "cl_cache cl1 = cl_cache cl" "stream_ok cd q P k fs cl1 cl' fs' res" "j + k \<le> n"
  shows "stream_ok cd q P n fs cl cl' fs' res"
  using assms requests_ok_trans[of P j cl cl1 k cl' n] same_config_trans[of cl cl1 cl'] stream_outcome_cong[OF assms(3)]
  by (simp add: stream_ok_def)

lemma stream_attempt_ok:
  assumes fresh: "\<And>i. fs (sx_tmp (env i)) = None" and "0 < sq_max_response_bytes q"
    and "P (sq_url q)" "\<And>u. sq_validate_redirect q u = None \<Longrightarrow> P u"
  shows "case stream_attempt cd q env attempt fs cl of
      StreamContinue cl' fs' \<Rightarrow> requests_ok P (max 1 (nat (sq_redirect_limit q))) cl cl' \<and> same_config cl cl' \<and> cl_cache cl' = cl_cache cl \<and> fs' = fs
    | StreamFinish cl' fs' res \<Rightarrow> stream_ok cd q P (max 1 (nat (sq_redirect_limit q))) fs cl cl' fs' res"
proof -
  let ?k = "max 1 (nat (sq_redirect_limit q))"
  have fol: "follow_ok cd q env P ?k fs cl (follow cd q env 0 (sq_url q) cl)"
    using follow_outcome[of P "sq_url q" q, OF assms(3,4), where redirects = 0] by simp
  have after: "case step of
      StreamContinue cl' fs' \<Rightarrow> requests_ok P ?k cl cl' \<and> same_config cl cl' \<and> cl_cache cl' = cl_cache cl \<and> fs' = fs
    | StreamFinish cl' fs' res \<Rightarrow> stream_ok cd q P ?k fs cl cl' fs' res"
    if "requests_ok P ?k cl cl1" "same_config cl cl1" "cl_cache cl1 = cl_cache cl" "step_ok cd q fs cl1 step" for cl1 step
  proof (cases step)
    case (StreamContinue cl' fs')
    then show ?thesis using that requests_ok_trans[OF that(1) requests_ok_same[of cl' cl1 P 0], of ?k] same_config_trans[OF that(2)]
      by (simp add: step_ok_def)
  next
    case (StreamFinish cl' fs' res)
    then have "stream_ok cd q P 0 fs cl1 cl' fs' res" using that(4) by (simp add: step_ok_def stream_ok_def requests_ok_same)
    from stream_ok_trans[OF that(1-3) this] StreamFinish show ?thesis by simp
  qed
  show ?thesis
  proof (cases "follow cd q env 0 (sq_url q) cl")
    case (Followed cl1 current sx r)
    with fol have cl1: "requests_ok P ?k cl cl1" "same_config cl cl1" "cl_cache cl1 = cl_cache cl" and "sx \<in> range env"
      by (simp_all add: follow_ok_def)
    then have tmp: "fs (sx_tmp sx) = None" using fresh by auto
    have "step_ok cd q fs cl1 (stream_attempt cd q env attempt fs cl)"
      using stream_body_ok[of fs sx q, OF tmp assms(2)] stream_bad_status_ok
      by (auto simp: stream_attempt_def Followed stream_status_def same_config_def intro!: finish_failure_ok)
    from after[OF cl1 this] show ?thesis .
  next
    case (FollowRaised cl1 sx e)
    with fol have cl1: "requests_ok P ?k cl cl1" "same_config cl cl1" "cl_cache cl1 = cl_cache cl" by (simp_all add: follow_ok_def)
    from after[OF cl1 stream_transport_error_ok] FollowRaised show ?thesis by (simp add: stream_attempt_def)
  next
    case (FollowCrashed cl1 e)
    with fol show ?thesis by (simp add: follow_ok_def stream_attempt_def stream_ok_def stream_outcome_def)
  next
    case (FollowFailed cl1 res)
    with fol show ?thesis by (simp add: follow_ok_def stream_attempt_def stream_ok_def)
  qed
qed

lemma stream_loop_ok:
  assumes "\<And>a i. fs (sx_tmp (env a i)) = None" "0 < sq_max_response_bytes q" "P (sq_url q)" "\<And>u. sq_validate_redirect q u = None \<Longrightarrow> P u"
    and "stream_loop cd q env attempt left fs cl = (cl', fs', res)"
  shows "stream_ok cd q P (left * max 1 (nat (sq_redirect_limit q))) fs cl cl' fs' res"
  using assms(5)
proof (induction left arbitrary: attempt cl)
  case 0
  have "step_ok cd q fs cl (finish_failure fs (stream_failure_of cd q (sx_stamp (env attempt 0)) Transport_error
      ''exhausted all retry attempts'' True None ''network'' False ''network'' cl))"
    by (rule finish_failure_ok) (simp_all add: same_config_def)
  with 0 show ?case by (auto simp: step_ok_def finish_failure_def stream_ok_def requests_ok_same split: prod.splits)
next
  case (Suc left)
  note att = stream_attempt_ok[of fs "env attempt" q P, OF assms(1-4), where attempt = attempt and cl = cl and cd = cd]
  show ?case
  proof (cases "stream_attempt cd q (env attempt) attempt fs cl")
    case (StreamContinue cl1 fs1)
    with att have cl1: "requests_ok P (max 1 (nat (sq_redirect_limit q))) cl cl1" "same_config cl cl1" "cl_cache cl1 = cl_cache cl" "fs1 = fs"
      by simp_all
    have "stream_ok cd q P (left * max 1 (nat (sq_redirect_limit q))) fs cl1 cl' fs' res"
      using Suc StreamContinue cl1(4) by simp
    from stream_ok_trans[OF cl1(1-3) this] show ?thesis by simp
  next
    case (StreamFinish cl1 fs1 res1)
    have same: "requests_ok P 0 cl cl" "same_config cl cl" by (simp_all add: requests_ok_same same_config_def)
    from StreamFinish Suc.prems att have "stream_ok cd q P (max 1 (nat (sq_redirect_limit q))) fs cl cl' fs' res" by simp
    then show ?thesis by (rule stream_ok_trans[OF same refl]) simp
  qed
qed

text \<open>
  C27. Streaming is contained, whatever the server sends: every request goes to the caller's URL or to a redirect target that
  the caller's check accepted, at most \<open>max_retries + 1\<close> times the redirect limit of them; the file system changes only when a
  response is returned, and then only at the destination, which holds a non-empty body within the bound whose size and digest are
  those reported; a failure is marked permanent in the ledger exactly when it is reported as not retryable, and success clears
  the entry. Relied upon: \<^verbatim>\<open>mkstemp\<close> returns names of files that do not exist.
\<close>

theorem stream_to_file_contained:
  assumes "\<And>a i. fs (sx_tmp (env a i)) = None" "stream_to_file cd q env fs cl = (cl', fs', res)" "preflight_skip cd (sq_url q) cl = None"
  shows "requests_ok (\<lambda>u. u = sq_url q \<or> sq_validate_redirect q u = None)
      (nat (max_retries (cl_policy cl) + 1) * max 1 (nat (sq_redirect_limit q))) cl cl'
    \<and> stream_outcome cd q fs cl cl' fs' res"
proof (cases "sq_max_response_bytes q \<le> 0")
  case True
  then show ?thesis using assms(2) by (auto simp: stream_to_file_def stream_outcome_def intro: requests_ok_same)
next
  case False
  then have "stream_loop cd q env 0 (nat (max_retries (cl_policy cl) + 1)) fs cl = (cl', fs', res)"
    using assms(2,3) by (simp add: stream_to_file_def)
  from stream_loop_ok[of fs env q "\<lambda>u. u = sq_url q \<or> sq_validate_redirect q u = None", OF assms(1) _ _ _ this] False
  show ?thesis by (simp add: stream_ok_def)
qed

text \<open>One redirect to an accepted URL, then a body in two chunks.\<close>

definition demo_request :: stream_request where
  "demo_request = \<lparr>sq_url = ''a'', sq_destination = ''out'', sq_max_response_bytes = 9,
     sq_validate_redirect = (\<lambda>u. if u = ''b'' then None else Some ''refused''), sq_urljoin = (\<lambda>_ u. Inr u), sq_redirect_limit = 3\<rparr>"

definition demo_reply :: "nat \<Rightarrow> stream_reply" where
  "demo_reply i = \<lparr>sr_status = (if i = 0 then 302 else 200), sr_url = None, sr_location = (if i = 0 then Some ''b'' else None),
     sr_retry_after = None, sr_content_length = None, sr_chunks = [''xy'', [], ''z''], sr_body_error = None, sr_content_type = None,
     sr_content_encoding = None\<rparr>"

definition demo_stream_env :: "nat \<Rightarrow> nat \<Rightarrow> stream_exchange" where
  "demo_stream_env a i = \<lparr>sx_now = 5, sx_outcome = Inr (demo_reply i), sx_latency = 1, sx_signal_now = 5, sx_jitter = 0, sx_stamp = 7,
     sx_tmp = ''tmp''\<rparr>"

theorem stream_to_file_contained_witness:
  "case stream_to_file plain_codec demo_request demo_stream_env Map.empty demo_client of (cl', fs', res) \<Rightarrow>
     fs' ''out'' = Some ''xyz'' \<and> map fst (cl_sent cl') = [''a'', ''b'']
     \<and> stream_outcome plain_codec demo_request Map.empty demo_client cl' fs' res"
proof -
  obtain cl' fs' res where run: "stream_to_file plain_codec demo_request demo_stream_env Map.empty demo_client = (cl', fs', res)"
    by (metis prod_cases3)
  have eval: "(case stream_to_file plain_codec demo_request demo_stream_env Map.empty demo_client of (cl', fs', res) \<Rightarrow>
     (fs' ''out'', map fst (cl_sent cl'))) = (Some ''xyz'', [''a'', ''b''])" by code_simp
  have "preflight_skip plain_codec (sq_url demo_request) demo_client = None" by code_simp
  from stream_to_file_contained[OF _ run this] eval show ?thesis by (simp add: run)
qed


section \<open>A malformed redirect target\<close>

text \<open>
  \<^verbatim>\<open>urljoin\<close> stands outside the handlers: when it refuses the header \<^verbatim>\<open>Location\<close>, its \<^verbatim>\<open>ValueError\<close> leaves
  \<^verbatim>\<open>stream_to_file\<close> although every other server answer becomes a \<^verbatim>\<open>StreamFailure\<close>, and no failure is recorded.
\<close>

theorem malformed_location_raises:
  assumes "0 < sq_max_response_bytes q" "preflight_skip cd (sq_url q) cl = None" "0 \<le> max_retries (cl_policy cl)"
    and "sx_outcome (env 0 0) = Inr r" "is_redirect r"
    and "sq_urljoin q (nonempty_or (sr_url r) (sq_url q)) (nonempty_or (sr_location r) []) = Inl e"
  shows "\<exists>cl'. stream_to_file cd q env fs cl = (cl', fs, Inl e) \<and> cl_cache cl' = cl_cache cl"
proof -
  obtain n where n: "nat (max_retries (cl_policy cl) + 1) = Suc n" using assms(3) by (metis Suc_nat_eq_nat_zadd1 add.commute)
  have "follow cd q (env 0) 0 (sq_url q) cl = FollowCrashed (stream_status r (env 0 0) 0 (send_paced (sq_url q) (sx_now (env 0 0)) cl)) e"
    using assms(4-6) by (subst follow.simps) (simp add: Let_def)
  then show ?thesis using assms(1,2) n
    by (simp add: stream_to_file_def stream_attempt_def stream_status_def send_paced_frame)
qed

end
