(* ===== verification/ClientRuns.thy ===== *)
theory ClientRuns
  imports HttpStream
begin

text \<open>
  Runs of the SEC HTTP client: any sequence of its public calls, on one client with one limiter. The calls of several threads
  interleave only between the methods of limiter, metrics and cache; the pacing below is a property of the sequence of limiter
  calls, which is why it survives any order.
\<close>

definition clear_cache :: "clear_filter \<Rightarrow> rat \<Rightarrow> int \<Rightarrow> http_client \<Rightarrow> http_client \<times> nat" where
  "clear_cache f clock now cl =
     (case cl_cache cl of
        None \<Rightarrow> (cl, 0)
      | Some c \<Rightarrow> (case cache_clear f clock now c of (deleted, c') \<Rightarrow> (cl\<lparr>cl_cache := Some c'\<rparr>, deleted)))"

datatype client_call =
    GetBytes string string bool bool int "nat \<Rightarrow> exchange"
  | StreamToFile stream_request "nat \<Rightarrow> nat \<Rightarrow> stream_exchange"
  | PeekCache string int
  | ClearCache clear_filter rat int

fun client_step :: "codec \<Rightarrow> ttl_table \<times> int \<Rightarrow> http_client \<times> files \<Rightarrow> client_call \<Rightarrow> http_client \<times> files" where
  "client_step cd resolved (cl, fs) (GetBytes url kind force mutable now env) =
     (fst (get_bytes cd resolved url kind force mutable now env cl), fs)"
| "client_step cd resolved (cl, fs) (StreamToFile q env) =
     (case stream_to_file cd q env fs cl of (cl', fs', res) \<Rightarrow> (cl', fs'))"
| "client_step cd resolved (cl, fs) (PeekCache url now) = (fst (peek_cache cd url now cl), fs)"
| "client_step cd resolved (cl, fs) (ClearCache f clock now) = (fst (clear_cache f clock now cl), fs)"

section \<open>Pacing\<close>

definition paced :: "rat \<Rightarrow> http_client \<Rightarrow> bool" where
  "paced g cl \<longleftrightarrow> limiter_inv g (cl_limiter cl) \<and> sorted_wrt (\<lambda>a b. a + g \<le> b) (map snd (cl_sent cl))
     \<and> (\<forall>w \<in> snd ` set (cl_sent cl). w + g \<le> next_slot (cl_limiter cl))"

lemma paced_send: "paced g cl \<Longrightarrow> paced g (send_paced url now cl)"
proof -
  assume p: "paced g cl"
  then have inv: "limiter_inv g (cl_limiter cl)" by (simp add: paced_def)
  let ?w = "now + fst (acquire (cl_limiter cl) now)" and ?rl = "snd (acquire (cl_limiter cl) now)"
  have w: "send_time (cl_limiter cl) (Acquire now) = Some ?w" and rl: "limiter_step (cl_limiter cl) (Acquire now) = ?rl" by simp_all
  have "next_slot (cl_limiter cl) \<le> ?w" "?w + g \<le> next_slot ?rl" "limiter_inv g ?rl" "next_slot (cl_limiter cl) \<le> next_slot ?rl"
    using limiter.out_ge[OF inv w] limiter.out_push[OF inv w] limiter.inv_step[OF inv, of "Acquire now"]
      limiter.frontier_mono[OF inv, of "Acquire now"] rl by simp_all
  with p show ?thesis by (fastforce simp: paced_def send_paced_def sorted_wrt_append split: prod.split)
qed

lemma paced_same: "paced g a \<Longrightarrow> cl_sent b = cl_sent a \<Longrightarrow> cl_limiter b = cl_limiter a \<Longrightarrow> paced g b"
  by (simp add: paced_def)

lemma paced_throttle:
  "paced g a \<Longrightarrow> cl_sent b = cl_sent a \<Longrightarrow> cl_limiter b = snd (signal_throttle (cl_limiter a) t r) \<Longrightarrow> paced g b"
  using limiter.inv_step[of g "cl_limiter a" "SignalThrottle t r"] limiter.frontier_mono[of g "cl_limiter a" "SignalThrottle t r"]
  by (fastforce simp: paced_def)

fun attempt_client :: "'a attempt_result \<Rightarrow> http_client" where
  "attempt_client (Continue cl) = cl"
| "attempt_client (Finish cl r) = cl"

lemma retry_or_fail_paced: "paced g cl \<Longrightarrow> paced g (attempt_client (retry_or_fail cd url attempt ra ex kind detail status reason cl))"
  by (auto simp: retry_or_fail_def backoff_def ledger_failure_def intro: paced_same)

lemma accept_content_paced: "paced g cl \<Longrightarrow> paced g (fst (accept_content cd resolved url kind mutable ex content cl))"
  by (auto simp: accept_content_def client_clear_failure_def split: option.split sum.split intro: paced_same)

lemma handle_response_paced:
  assumes "paced g cl"
  shows "paced g (attempt_client (handle_response cd resolved url kind mutable attempt ex r cl))"
proof -
  define cl1 where "cl1 = cl\<lparr>cl_metrics := record_status (r_status r) (ex_latency ex) (int (length (r_content r))) (cl_metrics cl)\<rparr>"
  have p: "paced g cl1" by (rule paced_same[OF assms]) (simp_all add: cl1_def)
  have acc: "paced g (attempt_client (case accept_content cd resolved url kind mutable ex (r_content r) cl1 of (cl, res) \<Rightarrow> Finish cl res))"
    using accept_content_paced[OF p] by (simp add: split_beta)
  have fail: "paced g (ledger_failure cd url k d s perm now cl1)" for k d s perm now
    by (rule paced_same[OF p]) (simp_all add: ledger_failure_def)
  have thr: "paced g ((metric_failure k d cl1)\<lparr>cl_limiter := snd (signal_throttle (cl_limiter (metric_failure k d cl1)) t ra)\<rparr>)" for k d t ra
    by (rule paced_throttle[OF p, of _ t ra]) (simp_all add: metric_failure_def)
  have met: "paced g (metric_failure k d cl1)" for k d by (rule paced_same[OF p]) (simp_all add: metric_failure_def)
  show ?thesis unfolding handle_response_def cl1_def[symmetric] Let_def
    by (simp add: acc fail retry_or_fail_paced[OF thr] retry_or_fail_paced[OF met] split: option.split status_kind.split)
qed

lemma network_failure_paced: "paced g cl \<Longrightarrow> paced g (attempt_client (network_failure cd url attempt ex label kind detail reason cl))"
  unfolding network_failure_def Let_def
  by (rule retry_or_fail_paced) (auto simp: metric_failure_def signal_network_error_def intro: paced_same)

lemma fetch_attempt_paced: "paced g cl \<Longrightarrow> paced g (attempt_client (fetch_attempt cd resolved url kind mutable attempt ex cl))"
  by (auto simp: fetch_attempt_def Let_def paced_send intro: network_failure_paced handle_response_paced split: outcome.split)

lemma fetch_loop_paced: "paced g cl \<Longrightarrow> paced g (fst (fetch_loop cd resolved url kind mutable env attempt left cl))"
proof (induction left arbitrary: attempt cl)
  case (Suc left)
  from fetch_attempt_paced[OF Suc.prems, of cd resolved url kind mutable attempt "env attempt"] show ?case
    by (cases "fetch_attempt cd resolved url kind mutable attempt (env attempt) cl") (auto intro: Suc.IH)
qed simp

lemma get_bytes_paced:
  assumes "paced g cl"
  shows "paced g (fst (get_bytes cd resolved url kind force mutable now env cl))"
proof -
  obtain cl' res where call: "get_bytes cd resolved url kind force mutable now env cl = (cl', res)" by fastforce
  then have "paced g cl'"
  proof (cases rule: get_bytes_cases)
    case (hit b)
    then show ?thesis using assms by (auto simp: cache_hit_def intro: paced_same)
  next
    case (skip reason status)
    then show ?thesis using assms by (auto simp: metric_failure_def intro: paced_same)
  next
    case fetch
    then show ?thesis using fetch_loop_paced[OF assms] by (metis fst_conv)
  qed
  then show ?thesis by (simp add: call)
qed


lemma failure_paced:
  "paced g cl \<Longrightarrow> paced g (fst (stream_failure_of cd q stamp code detail retryable status kind permanent mk cl))"
  by (auto simp: stream_failure_of_def ledger_failure_def metric_failure_def intro: paced_same)

lemma metric_failure_paced: "paced g cl \<Longrightarrow> paced g (metric_failure k d cl)"
  by (auto simp: metric_failure_def intro: paced_same)

lemma backoff_paced: "paced g cl \<Longrightarrow> paced g (backoff attempt ra u cl)"
  by (auto simp: backoff_def intro: paced_same)

lemma stream_status_paced: "paced g cl \<Longrightarrow> paced g (stream_status r sx n cl)"
  by (auto simp: stream_status_def intro: paced_same)

lemma network_error_paced: "paced g cl \<Longrightarrow> paced g (cl\<lparr>cl_limiter := signal_network_error (cl_limiter cl)\<rparr>)"
  by (auto simp: signal_network_error_def intro: paced_same)

lemma throttled_paced: "paced g cl \<Longrightarrow> paced g (cl\<lparr>cl_limiter := snd (signal_throttle (cl_limiter cl) t r)\<rparr>)"
  by (rule paced_throttle[of g cl _ t r]) simp_all

lemma clear_failure_paced: "paced g cl \<Longrightarrow> paced g (client_clear_failure cd url cl)"
  by (auto simp: client_clear_failure_def intro: paced_same)

lemmas client_paced =
  failure_paced metric_failure_paced backoff_paced stream_status_paced network_error_paced throttled_paced clear_failure_paced

fun step_client :: "stream_step \<Rightarrow> http_client" where
  "step_client (StreamContinue cl fs) = cl"
| "step_client (StreamFinish cl fs r) = cl"

fun follow_client :: "follow_result \<Rightarrow> http_client" where
  "follow_client (Followed cl current sx r) = cl"
| "follow_client (FollowRaised cl sx e) = cl"
| "follow_client (FollowCrashed cl e) = cl"
| "follow_client (FollowFailed cl res) = cl"

lemma finish_failure_client: "step_client (finish_failure fs r) = fst r"
  by (simp add: finish_failure_def split: prod.split)

lemma stream_transport_error_paced: "paced g cl \<Longrightarrow> paced g (step_client (stream_transport_error cd q attempt sx e fs cl))"
  by (cases e) (simp_all add: stream_transport_error_def Let_def finish_failure_client client_paced)

lemma stream_bad_status_paced: "paced g cl \<Longrightarrow> paced g (step_client (stream_bad_status cd q attempt sx r fs cl))"
  by (simp add: stream_bad_status_def Let_def finish_failure_client client_paced)

lemma stream_body_paced: "paced g cl \<Longrightarrow> paced g (step_client (stream_body cd q attempt current sx r fs cl))"
  by (simp add: stream_body_def Let_def finish_failure_client client_paced stream_transport_error_paced split: prod.split option.split)

lemma unsafe_redirect_paced: "paced g cl \<Longrightarrow> paced g (follow_client (unsafe_redirect cd q sx r detail cl))"
  by (simp add: unsafe_redirect_def split_beta client_paced)

lemma follow_paced: "paced g cl \<Longrightarrow> paced g (follow_client (follow cd q env redirects current cl))"
proof (induction cd q env redirects current cl rule: follow.induct)
  case (1 cd q env redirects current cl)
  note sent = paced_send[OF 1(2), of current "sx_now (env redirects)"]
  note status = stream_status_paced[OF sent]
  show ?case
  proof (cases "sx_outcome (env redirects)")
    case (Inl e)
    then show ?thesis using sent by (subst follow.simps) (simp add: Let_def)
  next
    case (Inr r)
    note IH = 1(1)[OF refl refl Inr _ refl]
    show ?thesis
      by (subst follow.simps) (auto simp: Let_def Inr sent status unsafe_redirect_paced IH split: sum.split option.split)
  qed
qed

lemma stream_attempt_paced:
  assumes "paced g cl"
  shows "paced g (step_client (stream_attempt cd q env attempt fs cl))"
  using follow_paced[OF assms, of cd q env 0 "sq_url q"]
  by (auto simp: stream_attempt_def finish_failure_client client_paced split: follow_result.split
      intro: stream_transport_error_paced stream_bad_status_paced stream_body_paced)

lemma stream_loop_paced: "paced g cl \<Longrightarrow> paced g (fst (stream_loop cd q env attempt left fs cl))"
proof (induction left arbitrary: attempt fs cl)
  case 0
  then show ?case by (simp add: split_beta client_paced)
next
  case (Suc left)
  from stream_attempt_paced[OF Suc.prems, of cd q "env attempt" attempt fs] show ?case
    by (cases "stream_attempt cd q (env attempt) attempt fs cl") (auto intro: Suc.IH)
qed

lemma stream_to_file_paced: "paced g cl \<Longrightarrow> paced g (fst (stream_to_file cd q env fs cl))"
  by (auto simp: stream_to_file_def stream_loop_paced split: option.split)

interpretation client_machine: event_machine "client_step cd resolved" "\<lambda>s. paced g (fst s)" for cd resolved g
proof
  fix s :: "http_client \<times> files" and e
  assume "paced g (fst s)"
  then show "paced g (fst (client_step cd resolved s e))"
    by (cases s; cases e)
      (auto simp: get_bytes_paced peek_cache_def clear_cache_def cache_hit_def split_beta stream_to_file_paced
        split: option.split intro: paced_same)
qed

text \<open>
  C28. The client keeps the rate limit on its calls of the session: whatever fetches, streams, retries, throttles and cache calls a client
  makes with a limiter of minimum interval \<open>m\<close>, and whatever the server answers, no window of \<open>T\<close> seconds holds more than
  \<open>T / m + 1\<close> calls of \<^verbatim>\<open>session.get\<close>; no code path calls it without taking a slot. For a stream, which follows its redirects itself, a
  call is one HTTP request, so every hop has its own slot. For \<^verbatim>\<open>get_bytes\<close> a call is a request together with the redirects that
  \<^verbatim>\<open>requests\<close> follows on its own, which take no slot and are not counted.
\<close>

theorem client_rate_bound:
  assumes "RateLimiter m M t0 = Inr limiter" "SecHttpClient user_agent limiter policy cache max_fail ign limit = Inr cl" "0 \<le> T"
  shows "rat_of_nat (length (filter (\<lambda>w. a \<le> w \<and> w \<le> a + T)
      (map snd (cl_sent (fst (foldl (client_step cd resolved) (cl, fs) calls)))))) * m \<le> T + m"
proof (rule spaced_window_count)
  have cl: "cl_sent cl = []" "cl_limiter cl = limiter" using assms(2) by (auto simp: SecHttpClient_def bind_res_Inr_iff)
  then have "paced m (fst (cl, fs))" using RateLimiter_inv[OF assms(1)] by (simp add: paced_def)
  from client_machine.inv_run[OF this, of cd resolved calls]
  show "sorted_wrt (\<lambda>a b. a + m \<le> b) (map snd (cl_sent (fst (foldl (client_step cd resolved) (cl, fs) calls))))"
    by (simp add: paced_def)
  show "0 \<le> m" using assms(1) by (auto simp: RateLimiter_def split: if_splits)
qed (rule assms)

definition demo_calls :: "client_call list" where
  "demo_calls = [GetBytes ''u'' ''text'' False False 7 demo_env, StreamToFile demo_request demo_stream_env, PeekCache ''u'' 8]"

theorem client_rate_bound_witness:
  "\<exists>cl. SecHttpClient ''me@here'' demo_limiter RetryPolicy None 3 False None = Inr cl
    \<and> length (cl_sent (fst (foldl (client_step plain_codec ([], 1)) (cl, Map.empty) demo_calls))) = 4
    \<and> rat_of_nat (length (filter (\<lambda>w. 5 \<le> w \<and> w \<le> 5 + 1)
        (map snd (cl_sent (fst (foldl (client_step plain_codec ([], 1)) (cl, Map.empty) demo_calls)))))) * (1 / 8) \<le> 1 + 1 / 8"
proof -
  have new: "RateLimiter (1 / 8) 60 5 = Inr demo_limiter" by (simp add: RateLimiter_def demo_limiter_def)
  define cl where "cl = projr (SecHttpClient ''me@here'' demo_limiter RetryPolicy None 3 False None)"
  have made: "SecHttpClient ''me@here'' demo_limiter RetryPolicy None 3 False None = Inr cl"
    by (simp add: cl_def SecHttpClient_def default_headers_def)
  have "length (cl_sent (fst (foldl (client_step plain_codec ([], 1)) (cl, Map.empty) demo_calls))) = 4"
    unfolding cl_def by code_simp
  then show ?thesis using made client_rate_bound[OF new made, of 1 5] by auto
qed

end
