(* ===== verification/CohortFiles.thy ===== *)
theory CohortFiles
  imports DagPaths
begin

text \<open>
  A file tree with symbolic links, the operations on it that the cohort store runs, and the path rules of
  \<^verbatim>\<open>infra/storage/cohort/paths.py\<close>. A path is the list of its components from the file system's root; a tree
  lists the paths that exist with what stands there. \<open>rdir\<close> is \<^verbatim>\<open>CohortPaths.cohorts_root\<close>.
\<close>

section \<open>Trees\<close>

type_synonym bytes = string

text \<open>The target of a link is the absolute path it names.\<close>

datatype node = File bytes | Dir | Link path

type_synonym file_tree = "(path \<times> node) list"

text \<open>
  \<^verbatim>\<open>Path.resolve()\<close>: every link on the way is replaced by its target, what does not exist stays as it is. A
  loop of links never resolves: the library raises, here the value is \<open>None\<close>.
\<close>

partial_function (option) resolve_walk :: "file_tree \<Rightarrow> path \<Rightarrow> path \<Rightarrow> path option" where
  "resolve_walk t seen todo =
     (case todo of
        [] \<Rightarrow> Some seen
      | c # cs \<Rightarrow>
          if c = ''..'' then resolve_walk t (butlast seen) cs
          else (case map_of t (seen @ [c]) of
                  Some (Link target) \<Rightarrow> resolve_walk t [] (target @ cs)
                | _ \<Rightarrow> resolve_walk t (seen @ [c]) cs))"

definition resolve :: "file_tree \<Rightarrow> path \<Rightarrow> path option" where
  "resolve t p = resolve_walk t [] p"

text \<open>\<^verbatim>\<open>is_symlink\<close> does not follow the last component; \<^verbatim>\<open>exists\<close>, \<^verbatim>\<open>is_file\<close> and \<^verbatim>\<open>is_dir\<close> do.\<close>

definition stat :: "file_tree \<Rightarrow> path \<Rightarrow> node option" where
  "stat t p = (case resolve t p of None \<Rightarrow> None | Some q \<Rightarrow> map_of t q)"

definition exists_path :: "file_tree \<Rightarrow> path \<Rightarrow> bool" where
  "exists_path t p \<longleftrightarrow> stat t p \<noteq> None"

definition is_file :: "file_tree \<Rightarrow> path \<Rightarrow> bool" where
  "is_file t p \<longleftrightarrow> (case stat t p of Some (File _) \<Rightarrow> True | _ \<Rightarrow> False)"

definition is_dir :: "file_tree \<Rightarrow> path \<Rightarrow> bool" where
  "is_dir t p \<longleftrightarrow> stat t p = Some Dir"

definition lstat :: "file_tree \<Rightarrow> path \<Rightarrow> node option" where
  "lstat t p = (case p of [] \<Rightarrow> map_of t [] | _ \<Rightarrow>
     (case resolve t (butlast p) of None \<Rightarrow> None | Some q \<Rightarrow> map_of t (q @ [last p])))"

definition is_symlink :: "file_tree \<Rightarrow> path \<Rightarrow> bool" where
  "is_symlink t p \<longleftrightarrow> (case lstat t p of Some (Link _) \<Rightarrow> True | _ \<Rightarrow> False)"

definition file_bytes :: "file_tree \<Rightarrow> path \<Rightarrow> bytes option" where
  "file_bytes t p = (case stat t p of Some (File b) \<Rightarrow> Some b | _ \<Rightarrow> None)"

text \<open>\<^verbatim>\<open>iterdir()\<close>: the names in a directory.\<close>

definition real_dir :: "file_tree \<Rightarrow> path \<Rightarrow> path" where
  "real_dir t d = (case resolve t d of None \<Rightarrow> d | Some r \<Rightarrow> r)"

definition child_names :: "file_tree \<Rightarrow> path \<Rightarrow> string list" where
  "child_names t d = map last (filter (\<lambda>p. p \<noteq> [] \<and> butlast p = real_dir t d) (map fst t))"

text \<open>The operations that change a tree act below a path; the callers pass paths whose directory is resolved.\<close>

definition below :: "path \<Rightarrow> path \<Rightarrow> bool" where
  "below d p \<longleftrightarrow> take (length d) p = d"

definition rmtree :: "path \<Rightarrow> file_tree \<Rightarrow> file_tree" where
  "rmtree d t = filter (\<lambda>(p, n). \<not> below d p) t"

definition moved :: "path \<Rightarrow> path \<Rightarrow> path \<Rightarrow> path" where
  "moved src dst p = (if below src p then dst @ drop (length src) p else p)"

definition rename_tree :: "path \<Rightarrow> path \<Rightarrow> file_tree \<Rightarrow> file_tree" where
  "rename_tree src dst t = map (\<lambda>(p, n). (moved src dst p, n)) t"

definition touch_file :: "path \<Rightarrow> file_tree \<Rightarrow> file_tree" where
  "touch_file p t = (if p \<in> fst ` set t then t else t @ [(p, File [])])"

definition unlink_file :: "path \<Rightarrow> file_tree \<Rightarrow> file_tree" where
  "unlink_file p t = filter (\<lambda>(q, n). q \<noteq> p) t"

text \<open>A tree is well formed if it lists a path once.\<close>

definition tree_inv :: "file_tree \<Rightarrow> bool" where
  "tree_inv t \<longleftrightarrow> distinct (map fst t)"

definition link_free :: "file_tree \<Rightarrow> path \<Rightarrow> bool" where
  "link_free t p \<longleftrightarrow> list_all (\<lambda>k. case map_of t (take k p) of Some (Link _) \<Rightarrow> False | _ \<Rightarrow> True) [0..<Suc (length p)]
     \<and> ''..'' \<notin> set p"

lemma resolve_walk_link_free:
  assumes "link_free t (seen @ todo)"
  shows "resolve_walk t seen todo = Some (seen @ todo)"
  using assms
proof (induction todo arbitrary: seen)
  case Nil
  then show ?case by (simp add: resolve_walk.simps)
next
  case (Cons c cs)
  have "\<not> (\<exists>q. map_of t (seen @ [c]) = Some (Link q))"
  proof
    assume "\<exists>q. map_of t (seen @ [c]) = Some (Link q)"
    moreover have "take (Suc (length seen)) (seen @ c # cs) = seen @ [c]" by simp
    moreover have "Suc (length seen) \<in> set [0..<Suc (length (seen @ c # cs))]" by (simp del: upt_Suc)
    ultimately show False using Cons.prems unfolding link_free_def list_all_iff by fastforce
  qed
  moreover have "c \<noteq> ''..''" using Cons.prems by (auto simp: link_free_def)
  moreover have "resolve_walk t (seen @ [c]) cs = Some ((seen @ [c]) @ cs)"
    using Cons.IH[of "seen @ [c]"] Cons.prems by simp
  ultimately show ?case by (subst resolve_walk.simps) (auto split: option.split node.split)
qed

lemma resolve_link_free: "link_free t p \<Longrightarrow> resolve t p = Some p"
  using resolve_walk_link_free[of t "[]" p] by (simp add: resolve_def)

lemma below_append [simp]: "below d (d @ p)"
  by (simp add: below_def)

lemma below_iff: "below d p \<longleftrightarrow> (\<exists>q. p = d @ q)"
  by (metis append_eq_conv_conj append_take_drop_id below_def)

text \<open>A directory moved to a free name and back is where it was.\<close>

lemma moved_back:
  assumes "\<not> below dst p"
  shows "moved dst src (moved src dst p) = p"
  using assms by (auto simp: moved_def below_iff)

lemma rename_back:
  assumes "\<forall>p \<in> fst ` set t. \<not> below dst p"
  shows "rename_tree dst src (rename_tree src dst t) = t"
  using assms by (induction t) (auto simp: rename_tree_def moved_back)

section \<open>The layout of the cohort store\<close>

datatype cohort_error = CohortValueError | CohortRuntimeError | CohortFileExists | CohortFileNotFound
  | CohortOSError | CohortIntegrityError | CohortCollisionError | CohortPinnedError | CohortActiveSourceError
  | CohortInUseError | CohortIdentifierError | CatalogUnavailableError

definition COHORT_DATASET_FILE_NAME :: string where "COHORT_DATASET_FILE_NAME = ''ciks.parquet''"
definition FAMILY_INDEX_DIR_NAME :: string where "FAMILY_INDEX_DIR_NAME = ''family_index''"
definition FAMILY_INDEX_FILE_NAME :: string where "FAMILY_INDEX_FILE_NAME = ''company_family.parquet''"
definition STAGING_LEASE_NAME :: string where "STAGING_LEASE_NAME = ''.stage.lease''"
definition STAGING_QUARANTINE_PREFIX :: string where "STAGING_QUARANTINE_PREFIX = STAGING_PREFIX @ ''quarantine-''"
definition STAGING_QUARANTINE_EXPIRY_SECONDS :: int where "STAGING_QUARANTINE_EXPIRY_SECONDS = 86400"

definition lower_hex :: "char \<Rightarrow> bool" where
  "lower_hex c \<longleftrightarrow> c \<in> set ''0123456789abcdef''"

definition is_sha256_hex_digest :: "string \<Rightarrow> bool" where
  "is_sha256_hex_digest value \<longleftrightarrow> length value = 64 \<and> list_all lower_hex value"

definition safe_id :: "string \<Rightarrow> bool" where
  "safe_id s \<longleftrightarrow> 3 \<le> length s \<and> length s \<le> 64
     \<and> list_all (\<lambda>c. is_alpha_us c \<or> is_digit c \<or> c = CHR ''.'' \<or> c = CHR ''-'') s"

definition family_index_id_match :: "string \<Rightarrow> bool" where
  "family_index_id_match s \<longleftrightarrow> length s = 32 \<and> list_all lower_hex s"

definition has_dotdot :: "string \<Rightarrow> bool" where
  "has_dotdot s \<longleftrightarrow> list_ex (\<lambda>n. starts_with ''..'' (drop n s)) [0..<Suc (length s)]"

definition resolved :: "file_tree \<Rightarrow> path \<Rightarrow> (cohort_error, path) result" where
  "resolved t p = (case resolve t p of None \<Rightarrow> Inl CohortRuntimeError | Some q \<Rightarrow> Inr q)"

text \<open>\<^verbatim>\<open>path.parent == d and path.name == name\<close>\<close>

definition child_of :: "path \<Rightarrow> string \<Rightarrow> path \<Rightarrow> bool" where
  "child_of d name p \<longleftrightarrow> p \<noteq> [] \<and> butlast p = d \<and> last p = name"

definition family_index_dir :: "path \<Rightarrow> string \<Rightarrow> file_tree \<Rightarrow> (cohort_error, path) result" where
  "family_index_dir rdir family_index_id t =
     (if \<not> family_index_id_match family_index_id then Inl CohortValueError
      else bind_res (resolved t rdir) (\<lambda>cohorts_root.
        bind_res (resolved t (rdir @ [FAMILY_INDEX_DIR_NAME])) (\<lambda>family_root.
          if butlast family_root \<noteq> cohorts_root then Inl CohortValueError
          else bind_res (resolved t (family_root @ [family_index_id])) (\<lambda>target.
            if \<not> child_of family_root family_index_id target then Inl CohortValueError else Inr target))))"

definition family_index_file :: "path \<Rightarrow> string \<Rightarrow> file_tree \<Rightarrow> (cohort_error, path) result" where
  "family_index_file rdir family_index_id t =
     bind_res (family_index_dir rdir family_index_id t) (\<lambda>d. Inr (d @ [FAMILY_INDEX_FILE_NAME]))"

definition cohort_dir :: "path \<Rightarrow> string \<Rightarrow> file_tree \<Rightarrow> (cohort_error, path) result" where
  "cohort_dir rdir cohort_id t =
     (if \<not> safe_id cohort_id \<or> has_dotdot cohort_id then Inl CohortValueError
      else bind_res (resolved t rdir) (\<lambda>r. bind_res (resolved t (rdir @ [cohort_id])) (\<lambda>p.
        if \<not> child_of r cohort_id p then Inl CohortValueError else Inr p)))"

definition cohort_dataset_file :: "path \<Rightarrow> string \<Rightarrow> file_tree \<Rightarrow> (cohort_error, path) result" where
  "cohort_dataset_file rdir cohort_id t =
     bind_res (cohort_dir rdir cohort_id t) (\<lambda>d. Inr (d @ [COHORT_DATASET_FILE_NAME]))"

fun slash_join :: "path \<Rightarrow> string" where
  "slash_join [] = ''.''"
| "slash_join [p] = p"
| "slash_join (p # q # ps) = p @ ''/'' @ slash_join (q # ps)"

definition relative_path :: "path \<Rightarrow> path \<Rightarrow> file_tree \<Rightarrow> (cohort_error, string) result" where
  "relative_path rdir p t =
     bind_res (resolved t rdir) (\<lambda>r. bind_res (resolved t p) (\<lambda>target.
       if \<not> is_relative_to target r then Inl CohortValueError
       else if target = r then Inl CohortValueError
       else Inr (slash_join (drop (length r) target))))"

definition resolve_relative_path :: "path \<Rightarrow> string \<Rightarrow> file_tree \<Rightarrow> (cohort_error, path) result" where
  "resolve_relative_path rdir raw t =
     (let parts = path_parts raw in
      if raw = [] \<or> char_of (92::nat) \<in> set raw \<or> CHR '':'' \<in> set raw \<or> is_absolute raw
         \<or> slash_join parts \<noteq> raw \<or> (\<exists>part \<in> set parts. part \<in> {[], ''.'', ''..''})
      then Inl CohortValueError
      else bind_res (resolved t rdir) (\<lambda>r. bind_res (resolved t (r @ parts)) (\<lambda>p.
        if \<not> is_relative_to p r then Inl CohortValueError else Inr p)))"

definition staging_path :: "path \<Rightarrow> path \<Rightarrow> file_tree \<Rightarrow> (cohort_error, path) result" where
  "staging_path rdir candidate t =
     (if is_symlink t candidate then Inl CohortValueError
      else bind_res (resolved t candidate) (\<lambda>stage. bind_res (resolved t rdir) (\<lambda>r.
        if stage = [] \<or> butlast stage \<noteq> r \<or> \<not> starts_with STAGING_PREFIX (last stage)
        then Inl CohortValueError else Inr stage)))"

definition publish_staging_dir :: "path \<Rightarrow> string \<Rightarrow> path \<Rightarrow> file_tree \<Rightarrow> (cohort_error, file_tree \<times> path) result" where
  "publish_staging_dir rdir cohort_id candidate t =
     bind_res (cohort_dir rdir cohort_id t) (\<lambda>_.
     bind_res (staging_path rdir candidate t) (\<lambda>stage.
     bind_res (resolved t rdir) (\<lambda>r.
       if butlast stage \<noteq> r \<or> \<not> starts_with (STAGING_PREFIX @ cohort_id @ ''-'') (last stage) then Inl CohortValueError
       else bind_res (cohort_dir rdir cohort_id t) (\<lambda>target.
         if exists_path t target then Inl CohortFileExists
         else if stage \<notin> fst ` set t then Inl CohortFileNotFound
         else Inr (rename_tree stage target (unlink_file (stage @ [STAGING_LEASE_NAME]) t), target)))))"

definition cohort_staging_dirs :: "path \<Rightarrow> file_tree \<Rightarrow> path list" where
  "cohort_staging_dirs rdir t =
     (if \<not> is_dir t rdir then []
      else map (\<lambda>name. rdir @ [name])
        (sort (filter (\<lambda>name. \<not> is_symlink t (rdir @ [name]) \<and> is_dir t (rdir @ [name])
                 \<and> starts_with STAGING_PREFIX name) (child_names t rdir))))"

definition remove_staging_dir :: "path \<Rightarrow> path \<Rightarrow> file_tree \<Rightarrow> (cohort_error, file_tree) result" where
  "remove_staging_dir rdir candidate t =
     bind_res (staging_path rdir candidate t) (\<lambda>stage.
       Inr (if is_dir t stage then rmtree stage t else t))"

text \<open>
  What the rules promise: the directory of a cohort is an immediate child of the resolved root under its own
  name, and a recorded path resolves inside it, whatever links the tree holds.
\<close>

lemma cohort_dir_child:
  "cohort_dir rdir cohort_id t = Inr p \<Longrightarrow> \<exists>r. resolve t rdir = Some r \<and> p = r @ [cohort_id]"
  unfolding cohort_dir_def resolved_def child_of_def
  by (auto simp: bind_res_Inr_iff split: if_splits option.splits)

lemma resolve_relative_path_inside:
  "resolve_relative_path rdir raw t = Inr p \<Longrightarrow> \<exists>r. resolve t rdir = Some r \<and> is_relative_to p r"
  unfolding resolve_relative_path_def resolved_def Let_def
  by (auto simp: bind_res_Inr_iff split: if_splits option.splits)


lemma rename_rmtree:
  assumes "\<forall>p \<in> fst ` set t. \<not> below dst p"
  shows "rmtree dst (rename_tree src dst t) = rmtree src t"
  using assms by (induction t) (auto simp: rename_tree_def rmtree_def moved_def)

lemma unlink_touch: "p \<notin> fst ` set t \<Longrightarrow> unlink_file p (touch_file p t) = t"
proof -
  assume p: "p \<notin> fst ` set t"
  then have "filter (\<lambda>(q, n). q \<noteq> p) t = t" by (force simp: filter_id_conv)
  then show ?thesis using p by (simp add: unlink_file_def touch_file_def)
qed

lemma link_free_prefix: "link_free t (p @ q) \<Longrightarrow> link_free t p"
  unfolding link_free_def list_all_iff by (auto simp del: upt_Suc) (metis (no_types, lifting) atLeastLessThan_iff less_Suc_eq_le take_append trans_le_add1 take_all_iff append_Nil2 diff_is_0_eq' le0 take0)

lemma stat_link_free: "link_free t p \<Longrightarrow> stat t p = map_of t p"
  by (simp add: stat_def resolve_link_free)

text \<open>Paths without links, from their parents.\<close>

lemma link_free_cong:
  assumes "link_free t d" "\<And>k. map_of t' (take k d) = map_of t (take k d)"
  shows "link_free t' d"
  using assms(1) unfolding link_free_def assms(2) .

lemma link_free_iff:
  "link_free t p \<longleftrightarrow> (\<forall>k \<le> length p. \<forall>q. map_of t (take k p) \<noteq> Some (Link q)) \<and> ''..'' \<notin> set p"
proof -
  have "(case x of Some (Link _) \<Rightarrow> False | _ \<Rightarrow> True) \<longleftrightarrow> (\<forall>q. x \<noteq> Some (Link q))" for x :: "node option"
    by (auto split: option.split node.split)
  moreover have "set [0..<Suc (length p)] = {..length p}" by auto
  ultimately show ?thesis unfolding link_free_def list_all_iff by (simp only: atMost_iff Ball_def)
qed

lemma link_free_child:
  assumes "link_free t d" "x \<noteq> ''..''" "\<And>q. map_of t (d @ [x]) \<noteq> Some (Link q)"
  shows "link_free t (d @ [x])"
proof -
  have "map_of t (take k (d @ [x])) \<noteq> Some (Link q)" for k q
    using assms(1,3) unfolding link_free_iff by (cases "k \<le> length d") simp_all
  then show ?thesis using assms(1,2) by (simp add: link_free_iff)
qed

lemma lstat_child: "lstat t (d @ [x]) = (case resolve t d of None \<Rightarrow> None | Some q \<Rightarrow> map_of t (q @ [x]))"
proof (cases "d @ [x]")
  case (Cons y ys)
  then have "butlast (y # ys) = d" "last (y # ys) = x" by (metis butlast_snoc, metis last_snoc)
  then show ?thesis unfolding lstat_def Cons by (simp only: list.case)
qed simp

lemma is_symlink_child:
  "link_free t d \<Longrightarrow> is_symlink t (d @ [x]) \<longleftrightarrow> (\<exists>q. map_of t (d @ [x]) = Some (Link q))"
  by (simp add: is_symlink_def lstat_child resolve_link_free split: option.split node.split)

lemma real_dir_link_free: "link_free t d \<Longrightarrow> real_dir t d = d"
  by (simp add: real_dir_def resolve_link_free)

end
