(* ===== verification/ObjectStore.thy ===== *)
theory ObjectStore
  imports PyText
begin

text \<open>
  The store of immutable objects and session aliases, \<^verbatim>\<open>infra/storage/object_store\<close>: its four tables as
  \<^verbatim>\<open>schema.py\<close> declares them and every method of \<^verbatim>\<open>store.py\<close>. A method runs in one connection whose context
  commits when the body returns and rolls back when it raises, so a method either gives new tables with its
  value or raises and leaves the tables as they were. \<^verbatim>\<open>CURRENT_TIMESTAMP\<close> is whole seconds; a method takes the
  seconds its statements see as arguments, one for each statement that stamps a row. The alias table has no
  foreign key on its target: a target is checked by \<^verbatim>\<open>_target_exists\<close>, which also accepts the cohorts of a
  catalog that shares the database file; \<open>cohorts\<close> is that table's key column, \<open>None\<close> when there is no such
  table.
\<close>

section \<open>Tables\<close>

record stored_object =
  so_object_id :: string
  so_schema_name :: string
  so_parent_object_id :: "string option"
  so_data :: string
  so_created_at :: int

record workspace_session =
  sn_session_id :: string
  sn_description :: string
  sn_created_at :: int
  sn_updated_at :: int

record session_alias =
  al_session_id :: string
  al_alias_name :: string
  al_target_id :: string
  al_created_at :: int
  al_updated_at :: int

text \<open>\<^verbatim>\<open>active_workspace_session\<close> has at most the row with \<^verbatim>\<open>id = 1\<close>: a session and when it was switched to.\<close>

record object_tables =
  ot_sessions :: "workspace_session list"
  ot_active :: "(string \<times> int) option"
  ot_objects :: "stored_object list"
  ot_aliases :: "session_alias list"

definition empty_object_tables :: object_tables where
  "empty_object_tables = \<lparr>ot_sessions = [], ot_active = None, ot_objects = [], ot_aliases = []\<rparr>"

datatype store_error = IntegrityError | StoreValueError | StoreRuntimeError

abbreviation alias_key :: "session_alias \<Rightarrow> string \<times> string" where
  "alias_key a \<equiv> (al_session_id a, al_alias_name a)"

abbreviation session_ids :: "object_tables \<Rightarrow> string set" where
  "session_ids ob \<equiv> sn_session_id ` set (ot_sessions ob)"

abbreviation object_ids :: "object_tables \<Rightarrow> string set" where
  "object_ids ob \<equiv> so_object_id ` set (ot_objects ob)"

section \<open>Sessions\<close>

text \<open>\<^verbatim>\<open>touch_session\<close> replaces the description, also by its default, the empty one.\<close>

definition touch_session :: "string \<Rightarrow> string \<Rightarrow> int \<Rightarrow> object_tables \<Rightarrow> object_tables" where
  "touch_session session_id description now ob = ob\<lparr>ot_sessions :=
     (case tbl_lookup sn_session_id session_id (ot_sessions ob) of
        None \<Rightarrow> ot_sessions ob @ [\<lparr>sn_session_id = session_id, sn_description = description,
                  sn_created_at = now, sn_updated_at = now\<rparr>]
      | Some s \<Rightarrow> tbl_upsert sn_session_id (s\<lparr>sn_description := description, sn_updated_at := now\<rparr>) (ot_sessions ob))\<rparr>"

definition touch_session_row :: "string \<Rightarrow> int \<Rightarrow> object_tables \<Rightarrow> object_tables" where
  "touch_session_row session_id now ob = ob\<lparr>ot_sessions :=
     (case tbl_lookup sn_session_id session_id (ot_sessions ob) of
        None \<Rightarrow> ot_sessions ob @ [\<lparr>sn_session_id = session_id, sn_description = [],
                  sn_created_at = now, sn_updated_at = now\<rparr>]
      | Some s \<Rightarrow> tbl_upsert sn_session_id (s\<lparr>sn_updated_at := now\<rparr>) (ot_sessions ob))\<rparr>"

text \<open>
  \<^verbatim>\<open>DELETE FROM workspace_sessions\<close>: the two tables that reference a session are declared
  \<^verbatim>\<open>ON DELETE CASCADE\<close>.
\<close>

definition delete_sessions :: "(workspace_session \<Rightarrow> bool) \<Rightarrow> object_tables \<Rightarrow> object_tables" where
  "delete_sessions gone ob =
     (let kept = filter (\<lambda>s. \<not> gone s) (ot_sessions ob); ids = map sn_session_id (filter gone (ot_sessions ob)) in
      ob\<lparr>ot_sessions := kept,
         ot_active := (case ot_active ob of None \<Rightarrow> None | Some a \<Rightarrow> if fst a \<in> set ids then None else Some a),
         ot_aliases := filter (\<lambda>a. al_session_id a \<notin> set ids) (ot_aliases ob)\<rparr>)"

definition clear_session :: "string \<Rightarrow> object_tables \<Rightarrow> object_tables" where
  "clear_session session_id = delete_sessions (\<lambda>s. sn_session_id s = session_id)"

text \<open>
  The bound is the modifier \<^verbatim>\<open>-N seconds\<close> of SQLite's \<^verbatim>\<open>datetime\<close>. With a negative number it reads \<^verbatim>\<open>--N seconds\<close>,
  which is no modifier: the bound is \<^verbatim>\<open>NULL\<close> and no row is below it.
\<close>

definition session_expired :: "int \<Rightarrow> int \<Rightarrow> workspace_session \<Rightarrow> bool" where
  "session_expired max_age_seconds now s \<longleftrightarrow> 0 \<le> max_age_seconds \<and> sn_updated_at s < now - max_age_seconds"

definition clean_expired_sessions :: "int \<Rightarrow> int \<Rightarrow> object_tables \<Rightarrow> object_tables \<times> nat" where
  "clean_expired_sessions max_age_seconds now ob =
     (delete_sessions (session_expired max_age_seconds now) ob,
      length (filter (session_expired max_age_seconds now) (ot_sessions ob)))"

definition set_active_session :: "string \<Rightarrow> int \<Rightarrow> int \<Rightarrow> object_tables \<Rightarrow> object_tables" where
  "set_active_session session_id now now' ob =
     (touch_session_row session_id now ob)\<lparr>ot_active := Some (session_id, now')\<rparr>"

definition get_active_session :: "int \<Rightarrow> object_tables \<Rightarrow> object_tables \<times> string" where
  "get_active_session now ob =
     (case ot_active ob of
        Some (sid, _) \<Rightarrow>
          (case tbl_lookup sn_session_id sid (ot_sessions ob) of
             Some s \<Rightarrow> (touch_session_row (sn_session_id s) now ob, sn_session_id s)
           | None \<Rightarrow> (touch_session_row ''default'' now ob, ''default''))
      | None \<Rightarrow> (touch_session_row ''default'' now ob, ''default''))"

definition list_sessions :: "object_tables \<Rightarrow> string list" where
  "list_sessions ob = sort (map sn_session_id (ot_sessions ob))"

section \<open>Objects\<close>

text \<open>
  An insert that finds the key does nothing. A row that is inserted must name a stored parent, itself
  included: the foreign key is checked at the end of the statement.
\<close>

definition insert_object :: "stored_object \<Rightarrow> object_tables \<Rightarrow> (store_error, object_tables) result" where
  "insert_object row ob =
     (if so_object_id row \<in> object_ids ob then Inr ob
      else case so_parent_object_id row of
        Some p \<Rightarrow> if p \<in> insert (so_object_id row) (object_ids ob)
          then Inr (ob\<lparr>ot_objects := ot_objects ob @ [row]\<rparr>) else Inl IntegrityError
      | None \<Rightarrow> Inr (ob\<lparr>ot_objects := ot_objects ob @ [row]\<rparr>))"

definition get_object :: "string \<Rightarrow> object_tables \<Rightarrow> stored_object option" where
  "get_object object_id ob = tbl_lookup so_object_id object_id (ot_objects ob)"

definition upsert_object ::
  "string \<Rightarrow> string \<Rightarrow> string \<Rightarrow> string option \<Rightarrow> int \<Rightarrow> object_tables \<Rightarrow> (store_error, object_tables \<times> stored_object) result" where
  "upsert_object object_id schema_name data parent_object_id now ob =
     bind_res (insert_object \<lparr>so_object_id = object_id, so_schema_name = schema_name,
         so_parent_object_id = parent_object_id, so_data = data, so_created_at = now\<rparr> ob) (\<lambda>ob'.
       case tbl_lookup so_object_id object_id (ot_objects ob') of
         None \<Rightarrow> Inl StoreRuntimeError
       | Some stored \<Rightarrow>
           if so_schema_name stored \<noteq> schema_name \<or> so_data stored \<noteq> data
              \<or> so_parent_object_id stored \<noteq> parent_object_id then Inl StoreValueError
           else Inr (ob', stored))"

section \<open>Aliases\<close>

definition target_exists :: "string list option \<Rightarrow> string \<Rightarrow> object_tables \<Rightarrow> bool" where
  "target_exists cohorts target_id ob \<longleftrightarrow>
     (if target_id \<in> object_ids ob then True
      else case cohorts of None \<Rightarrow> False | Some ids \<Rightarrow> target_id \<in> set ids)"

definition upsert_alias ::
  "string list option \<Rightarrow> string \<Rightarrow> string \<Rightarrow> string \<Rightarrow> int \<Rightarrow> int \<Rightarrow> object_tables
   \<Rightarrow> (store_error, object_tables \<times> session_alias) result" where
  "upsert_alias cohorts session_id alias_name target_id now now' ob =
     (let ob1 = touch_session_row session_id now ob in
      if \<not> target_exists cohorts target_id ob1 then Inl StoreValueError
      else let created = (case tbl_lookup alias_key (session_id, alias_name) (ot_aliases ob1) of
                            None \<Rightarrow> now' | Some a \<Rightarrow> al_created_at a);
               row = \<lparr>al_session_id = session_id, al_alias_name = alias_name, al_target_id = target_id,
                      al_created_at = created, al_updated_at = now'\<rparr>;
               ob2 = ob1\<lparr>ot_aliases := tbl_upsert alias_key row (ot_aliases ob1)\<rparr>
           in case tbl_lookup alias_key (session_id, alias_name) (ot_aliases ob2) of
                None \<Rightarrow> Inl StoreRuntimeError
              | Some a \<Rightarrow> Inr (ob2, a))"

definition get_alias_target :: "string \<Rightarrow> string \<Rightarrow> int \<Rightarrow> object_tables \<Rightarrow> object_tables \<times> string option" where
  "get_alias_target session_id alias_name now ob =
     (let ob1 = touch_session_row session_id now ob in
      (ob1, map_option al_target_id (tbl_lookup alias_key (session_id, alias_name) (ot_aliases ob1))))"

definition list_aliases :: "string \<Rightarrow> int \<Rightarrow> object_tables \<Rightarrow> object_tables \<times> (string \<times> string) list" where
  "list_aliases session_id now ob =
     (let ob1 = touch_session_row session_id now ob in
      (ob1, map (\<lambda>a. (al_alias_name a, al_target_id a))
              (sort_key al_alias_name (filter (\<lambda>a. al_session_id a = session_id) (ot_aliases ob1)))))"

definition drop_alias :: "string \<Rightarrow> string \<Rightarrow> int \<Rightarrow> object_tables \<Rightarrow> object_tables \<times> bool" where
  "drop_alias session_id alias_name now ob =
     (let ob1 = touch_session_row session_id now ob in
      (ob1\<lparr>ot_aliases := tbl_delete alias_key (session_id, alias_name) (ot_aliases ob1)\<rparr>,
       (session_id, alias_name) \<in> alias_key ` set (ot_aliases ob1)))"

section \<open>The store as a machine\<close>

datatype store_call =
    TouchSession string string int
  | UpsertObject string string string "string option" int
  | UpsertAlias string string string int int
  | GetAliasTarget string string int
  | ListAliases string int
  | DropAlias string string int
  | ClearSession string
  | CleanExpired int int
  | SetActive string int int
  | GetActive int

definition object_step :: "string list option \<Rightarrow> object_tables \<Rightarrow> store_call \<Rightarrow> object_tables" where
  "object_step cohorts ob c = (case c of
     TouchSession s d now \<Rightarrow> touch_session s d now ob
   | UpsertObject i sch d p now \<Rightarrow> (case upsert_object i sch d p now ob of Inl _ \<Rightarrow> ob | Inr r \<Rightarrow> fst r)
   | UpsertAlias s a t now now' \<Rightarrow> (case upsert_alias cohorts s a t now now' ob of Inl _ \<Rightarrow> ob | Inr r \<Rightarrow> fst r)
   | GetAliasTarget s a now \<Rightarrow> fst (get_alias_target s a now ob)
   | ListAliases s now \<Rightarrow> fst (list_aliases s now ob)
   | DropAlias s a now \<Rightarrow> fst (drop_alias s a now ob)
   | ClearSession s \<Rightarrow> clear_session s ob
   | CleanExpired age now \<Rightarrow> fst (clean_expired_sessions age now ob)
   | SetActive s now now' \<Rightarrow> set_active_session s now now' ob
   | GetActive now \<Rightarrow> fst (get_active_session now ob))"

text \<open>
  What the schema promises: the primary keys are unique, the active session and the session of every alias
  are rows, and so is the parent of every object.
\<close>

definition object_inv :: "object_tables \<Rightarrow> bool" where
  "object_inv ob \<longleftrightarrow>
     tbl_inv sn_session_id (ot_sessions ob) \<and> tbl_inv so_object_id (ot_objects ob) \<and> tbl_inv alias_key (ot_aliases ob)
     \<and> (\<forall>s w. ot_active ob = Some (s, w) \<longrightarrow> s \<in> session_ids ob)
     \<and> al_session_id ` set (ot_aliases ob) \<subseteq> session_ids ob
     \<and> (\<forall>r \<in> set (ot_objects ob). \<forall>p. so_parent_object_id r = Some p \<longrightarrow> p \<in> object_ids ob)"

lemma tbl_upsert_keys: "key ` set (tbl_upsert key r t) = insert (key r) (key ` set t)"
  by (auto simp: tbl_upsert_def image_iff)

lemma tbl_upsert_subset: "set (tbl_upsert key r t) \<subseteq> insert r (set t)"
  by (auto simp: tbl_upsert_def)

lemma tbl_lookup_upsert_self: "tbl_lookup key (key r) (tbl_upsert key r t) = Some r"
proof (cases "key r \<in> key ` set t")
  case True
  then show ?thesis by (simp add: tbl_upsert_def tbl_lookup_map_replace)
next
  case False
  then have "tbl_lookup key (key r) t = None" by (simp add: tbl_lookup_None_iff)
  with False show ?thesis by (simp add: tbl_upsert_def tbl_lookup_append tbl_lookup_Cons)
qed

lemma tbl_delete_subset: "set (tbl_delete key k t) \<subseteq> set t"
  by (auto simp: tbl_delete_def)

lemma tbl_inv_filter: "tbl_inv key t \<Longrightarrow> tbl_inv key (filter P t)"
  by (simp add: tbl_inv_def distinct_map_filter)

lemma tbl_inv_new_row: "tbl_inv key t \<Longrightarrow> key r \<notin> key ` set t \<Longrightarrow> tbl_inv key (t @ [r])"
  by (simp add: tbl_inv_def)

lemma touch_row_simps [simp]:
  "ot_active (touch_session_row s now ob) = ot_active ob"
  "ot_objects (touch_session_row s now ob) = ot_objects ob"
  "ot_aliases (touch_session_row s now ob) = ot_aliases ob"
  "ot_active (touch_session s d now ob) = ot_active ob"
  "ot_objects (touch_session s d now ob) = ot_objects ob"
  "ot_aliases (touch_session s d now ob) = ot_aliases ob"
  by (simp_all add: touch_session_row_def touch_session_def)

lemma touch_ids [simp]:
  "session_ids (touch_session_row s now ob) = insert s (session_ids ob)"
  "session_ids (touch_session s d now ob) = insert s (session_ids ob)"
  by (auto simp: touch_session_row_def touch_session_def tbl_upsert_keys split: option.splits
      dest: tbl_lookup_SomeD)

lemma touch_keys:
  assumes "tbl_inv sn_session_id (ot_sessions ob)"
  shows "tbl_inv sn_session_id (ot_sessions (touch_session_row s now ob))"
    and "tbl_inv sn_session_id (ot_sessions (touch_session s d now ob))"
  using assms list_table.inv_put
  by (auto simp: touch_session_row_def touch_session_def tbl_lookup_None_iff intro: tbl_inv_new_row split: option.split)

lemma object_inv_touch:
  assumes "object_inv ob"
  shows "object_inv (touch_session_row s now ob)" "object_inv (touch_session s d now ob)"
  using assms by (auto simp: object_inv_def touch_keys)

lemma object_inv_delete_sessions:
  assumes "object_inv ob"
  shows "object_inv (delete_sessions gone ob)"
proof -
  have kept: "s \<in> session_ids (delete_sessions gone ob)"
    if "s \<in> session_ids ob" "s \<notin> sn_session_id ` set (filter gone (ot_sessions ob))" for s
    using that by (auto simp: delete_sessions_def Let_def)
  show ?thesis
    using assms kept by (auto simp: object_inv_def delete_sessions_def Let_def tbl_inv_filter split: option.splits if_splits)
qed

lemma insert_object_cases:
  assumes "insert_object row ob = Inr ob'"
  obtains "ob' = ob" "so_object_id row \<in> object_ids ob"
  | "ob' = ob\<lparr>ot_objects := ot_objects ob @ [row]\<rparr>" "so_object_id row \<notin> object_ids ob"
    "\<And>p. so_parent_object_id row = Some p \<Longrightarrow> p \<in> insert (so_object_id row) (object_ids ob)"
  using assms by (auto simp: insert_object_def split: if_splits option.splits)

lemma object_inv_insert:
  assumes "object_inv ob" "insert_object row ob = Inr ob'"
  shows "object_inv ob'"
  using assms(2)
proof (cases rule: insert_object_cases)
  case 1
  then show ?thesis using assms(1) by simp
next
  case 2
  then show ?thesis using assms(1) by (auto simp: object_inv_def intro: tbl_inv_new_row)
qed

lemma object_inv_upsert_object:
  "object_inv ob \<Longrightarrow> upsert_object i sch d p now ob = Inr (ob', r) \<Longrightarrow> object_inv ob'"
  unfolding upsert_object_def
  by (auto simp: bind_res_Inr_iff intro: object_inv_insert split: option.splits if_splits)

lemma upsert_alias_Inr:
  assumes "upsert_alias cohorts s a t now now' ob = Inr (ob', r)"
  shows "target_exists cohorts t ob"
    and "ob' = (touch_session_row s now ob)\<lparr>ot_aliases := tbl_upsert alias_key r (ot_aliases ob)\<rparr>"
    and "alias_key r = (s, a)" "al_target_id r = t"
proof -
  define row where "row = \<lparr>al_session_id = s, al_alias_name = a, al_target_id = t,
    al_created_at = (case tbl_lookup alias_key (s, a) (ot_aliases ob) of None \<Rightarrow> now' | Some a \<Rightarrow> al_created_at a),
    al_updated_at = now'\<rparr>"
  have key: "alias_key row = (s, a)" by (simp add: row_def)
  have "target_exists cohorts t (touch_session_row s now ob)"
    and look: "tbl_lookup alias_key (s, a) (tbl_upsert alias_key row (ot_aliases ob)) = Some r"
    and ob': "ob' = (touch_session_row s now ob)\<lparr>ot_aliases := tbl_upsert alias_key row (ot_aliases ob)\<rparr>"
    using assms unfolding upsert_alias_def row_def by (auto simp: Let_def split: if_splits option.splits)
  then show "target_exists cohorts t ob" by (simp add: target_exists_def)
  have "r = row" using look tbl_lookup_upsert_self[of alias_key row "ot_aliases ob"] key by simp
  then show "ob' = (touch_session_row s now ob)\<lparr>ot_aliases := tbl_upsert alias_key r (ot_aliases ob)\<rparr>"
    "alias_key r = (s, a)" "al_target_id r = t"
    using ob' by (simp_all add: row_def)
qed

lemma upsert_alias_tables:
  assumes "upsert_alias cohorts s a t now now' ob = Inr (ob', r)"
  shows "ot_objects ob' = ot_objects ob" "set (ot_aliases ob') \<subseteq> insert r (set (ot_aliases ob))"
  using upsert_alias_Inr(2)[OF assms] tbl_upsert_subset[of alias_key r "ot_aliases ob"] by simp_all

lemma object_inv_aliases:
  assumes "object_inv ob" "tbl_inv alias_key as" "al_session_id ` set as \<subseteq> session_ids ob"
  shows "object_inv (ob\<lparr>ot_aliases := as\<rparr>)"
  using assms by (simp add: object_inv_def)

lemma object_inv_upsert_alias:
  assumes "object_inv ob" "upsert_alias cohorts s a t now now' ob = Inr (ob', r)"
  shows "object_inv ob'"
proof -
  have inv: "tbl_inv alias_key (ot_aliases ob)" "al_session_id ` set (ot_aliases ob) \<subseteq> session_ids ob"
    using assms(1) by (simp_all add: object_inv_def)
  have "al_session_id r = s" using upsert_alias_Inr(3)[OF assms(2)] by simp
  then have "al_session_id ` set (tbl_upsert alias_key r (ot_aliases ob)) \<subseteq> insert s (session_ids ob)"
    using image_mono[OF tbl_upsert_subset[of alias_key r "ot_aliases ob"], of al_session_id] inv(2) by auto
  moreover have "tbl_inv alias_key (tbl_upsert alias_key r (ot_aliases ob))"
    by (rule list_table.inv_put[OF inv(1)])
  ultimately show ?thesis
    unfolding upsert_alias_Inr(2)[OF assms(2)]
    by (intro object_inv_aliases object_inv_touch assms(1)) simp_all
qed

lemma object_inv_drop:
  assumes "object_inv ob"
  shows "object_inv (fst (drop_alias s a now ob))"
  unfolding drop_alias_def Let_def fst_conv
proof (intro object_inv_aliases object_inv_touch assms)
  have inv: "tbl_inv alias_key (ot_aliases ob)" "al_session_id ` set (ot_aliases ob) \<subseteq> session_ids ob"
    using assms by (simp_all add: object_inv_def)
  show "tbl_inv alias_key (tbl_delete alias_key (s, a) (ot_aliases (touch_session_row s now ob)))"
    using list_table.inv_del[OF inv(1)] by simp
  show "al_session_id ` set (tbl_delete alias_key (s, a) (ot_aliases (touch_session_row s now ob)))
      \<subseteq> session_ids (touch_session_row s now ob)"
    using image_mono[OF tbl_delete_subset[of alias_key "(s, a)" "ot_aliases ob"], of al_session_id] inv(2) by auto
qed

lemma object_inv_active: "object_inv ob \<Longrightarrow> object_inv (set_active_session s now now' ob)"
  using object_inv_touch(1)[of ob s now] touch_ids(1)[of s now ob]
  unfolding object_inv_def set_active_session_def by simp

lemma get_active_touches: "\<exists>s. fst (get_active_session now ob) = touch_session_row s now ob"
  by (auto simp: get_active_session_def split: option.splits prod.splits)

lemma object_inv_step: "object_inv ob \<Longrightarrow> object_inv (object_step cohorts ob c)"
proof (cases c)
  case (GetActive now)
  assume "object_inv ob"
  then show ?thesis using GetActive get_active_touches[of now ob] object_inv_touch by (auto simp: object_step_def)
qed (auto simp: object_step_def get_alias_target_def list_aliases_def clear_session_def clean_expired_sessions_def Let_def
      intro: object_inv_touch object_inv_delete_sessions object_inv_drop object_inv_active
      object_inv_upsert_object object_inv_upsert_alias split: sum.splits)

interpretation store_machine: event_machine "object_step cohorts" object_inv for cohorts
  by unfold_locales (rule object_inv_step)

section \<open>What the store keeps\<close>

lemma insert_object_keeps:
  "insert_object row ob = Inr ob' \<Longrightarrow> get_object i ob = Some r \<Longrightarrow> get_object i ob' = Some r"
  by (erule insert_object_cases) (simp_all add: get_object_def tbl_lookup_append)

lemma upsert_object_keeps:
  "upsert_object j sch d p now ob = Inr (ob', q) \<Longrightarrow> get_object i ob = Some r \<Longrightarrow> get_object i ob' = Some r"
  unfolding upsert_object_def
  by (auto simp: bind_res_Inr_iff intro: insert_object_keeps split: option.splits if_splits)

lemma insert_object_aliases: "insert_object row ob = Inr ob' \<Longrightarrow> ot_aliases ob' = ot_aliases ob"
  by (erule insert_object_cases) simp_all

lemma upsert_object_aliases: "upsert_object i sch d p now ob = Inr (ob', r) \<Longrightarrow> ot_aliases ob' = ot_aliases ob"
  unfolding upsert_object_def
  by (auto simp: bind_res_Inr_iff dest: insert_object_aliases split: option.splits if_splits)

lemma delete_sessions_objects [simp]: "ot_objects (delete_sessions gone ob) = ot_objects ob"
  by (simp add: delete_sessions_def Let_def)

lemma object_step_keeps_object:
  assumes "get_object i ob = Some r"
  shows "get_object i (object_step cohorts ob c) = Some r"
proof -
  have same: "get_object i ob' = Some r" if "ot_objects ob' = ot_objects ob" for ob'
    using that assms by (simp add: get_object_def)
  show ?thesis
  proof (cases c)
    case (UpsertObject i sch d p now)
    then show ?thesis using assms by (auto simp: object_step_def intro: upsert_object_keeps split: sum.split)
  next
    case (UpsertAlias s a t now now')
    then show ?thesis using assms
      by (auto simp: object_step_def intro: same upsert_alias_tables(1) split: sum.split)
  next
    case (GetActive now)
    then show ?thesis using get_active_touches[of now ob] same by (auto simp: object_step_def)
  qed (rule same, simp add: object_step_def get_alias_target_def list_aliases_def drop_alias_def clear_session_def
      clean_expired_sessions_def set_active_session_def Let_def)+
qed

lemma store_run_keeps_object:
  "get_object i ob = Some r \<Longrightarrow> get_object i (foldl (object_step cohorts) ob calls) = Some r"
  by (induction calls arbitrary: ob) (auto intro: object_step_keeps_object)

lemma upsert_existing:
  assumes "get_object i ob = Some r"
  shows "upsert_object i sch d p now ob =
    (if so_schema_name r = sch \<and> so_data r = d \<and> so_parent_object_id r = p then Inr (ob, r) else Inl StoreValueError)"
proof -
  have "i \<in> object_ids ob" using assms tbl_lookup_None_iff[of so_object_id i "ot_objects ob"] by (simp add: get_object_def)
  then show ?thesis using assms by (auto simp: upsert_object_def insert_object_def get_object_def)
qed

text \<open>
  An object, once stored, never changes: whatever calls follow, reading its identifier gives the row
  first stored, with its creation time; storing it again with the same schema, data and parent returns
  that row and changes nothing, and storing anything else under the identifier raises.
\<close>

theorem stored_objects_immutable:
  assumes "upsert_object i sch d p now ob = Inr (ob1, r)" and "ob2 = foldl (object_step cohorts) ob1 calls"
  shows "get_object i ob2 = Some r
    \<and> upsert_object i sch d p now' ob2 = Inr (ob2, r)
    \<and> ((sch', d', p') \<noteq> (sch, d, p) \<longrightarrow> upsert_object i sch' d' p' now' ob2 = Inl StoreValueError)"
proof -
  have r: "get_object i ob1 = Some r" "so_schema_name r = sch" "so_data r = d" "so_parent_object_id r = p"
    using assms(1) unfolding upsert_object_def
    by (auto simp: bind_res_Inr_iff get_object_def split: option.splits if_splits)
  then have "get_object i ob2 = Some r" unfolding assms(2) by (intro store_run_keeps_object)
  then show ?thesis using r(2-4) by (auto simp: upsert_existing)
qed

definition demo_store_calls :: "store_call list" where
  "demo_store_calls =
     [TouchSession ''s'' ''work'' 5, UpsertObject ''o'' ''ast'' ''other'' None 6,
      UpsertObject ''p'' ''ast'' ''leaf'' (Some ''o'') 7, UpsertAlias ''s'' ''a'' ''p'' 8 8, CleanExpired 1 20]"

theorem stored_objects_immutable_witness:
  "\<exists>ob1 r. upsert_object ''o'' ''ast'' ''data'' None 3 empty_object_tables = Inr (ob1, r)
    \<and> get_object ''o'' (foldl (object_step None) ob1 demo_store_calls) = Some r
    \<and> upsert_object ''o'' ''ast'' ''tampered'' None 9 (foldl (object_step None) ob1 demo_store_calls) = Inl StoreValueError"
proof -
  define r where "r = \<lparr>so_object_id = ''o'', so_schema_name = ''ast'', so_parent_object_id = None,
    so_data = ''data'', so_created_at = 3\<rparr>"
  have "upsert_object ''o'' ''ast'' ''data'' None 3 empty_object_tables =
      Inr (empty_object_tables\<lparr>ot_objects := [r]\<rparr>, r)"
    by (simp add: upsert_object_def insert_object_def empty_object_tables_def r_def tbl_lookup_Cons)
  from stored_objects_immutable[OF this refl, of None demo_store_calls 9 "''ast''" "''tampered''" None] this
  show ?thesis by auto
qed

text \<open>The alias just bound is the one read; a session in use within the age limit keeps its aliases.\<close>

lemma alias_roundtrip:
  assumes "upsert_alias cohorts s a t now now' ob = Inr (ob', r)"
  shows "snd (get_alias_target s a now'' ob') = Some t"
  using upsert_alias_Inr(2-4)[OF assms] tbl_lookup_upsert_self[of alias_key r "ot_aliases ob"]
  by (simp add: get_alias_target_def)

lemma fresh_aliases_kept:
  assumes "object_inv ob" "r \<in> set (ot_aliases ob)" "x \<in> set (ot_sessions ob)" "sn_session_id x = al_session_id r"
    "now - age \<le> sn_updated_at x"
  shows "r \<in> set (ot_aliases (fst (clean_expired_sessions age now ob)))"
proof -
  have "\<not> session_expired age now y" if "y \<in> set (ot_sessions ob)" "sn_session_id y = al_session_id r" for y
  proof -
    have "inj_on sn_session_id (set (ot_sessions ob))"
      using assms(1) by (simp add: object_inv_def tbl_inv_def distinct_map)
    then have "y = x" using assms(3,4) that by (metis inj_onD)
    then show ?thesis using assms(5) by (simp add: session_expired_def)
  qed
  then have "al_session_id r \<notin> set (map sn_session_id (filter (session_expired age now) (ot_sessions ob)))" by auto
  then show ?thesis using assms(2) by (simp add: clean_expired_sessions_def delete_sessions_def Let_def)
qed

text \<open>Which aliases a call leaves: older ones, and ones whose target was found.\<close>

lemma object_step_aliases:
  assumes "r \<in> set (ot_aliases (object_step cohorts ob c))"
  shows "r \<in> set (ot_aliases ob) \<or> target_exists cohorts (al_target_id r) ob"
proof (cases c)
  case (UpsertObject i sch d p now)
  then show ?thesis using assms
    by (auto simp: object_step_def upsert_object_aliases split: sum.splits)
next
  case (UpsertAlias s a t now now')
  show ?thesis
  proof (cases "upsert_alias cohorts s a t now now' ob")
    case (Inl e)
    then show ?thesis using assms UpsertAlias by (simp add: object_step_def)
  next
    case (Inr v)
    then obtain ob' q where v: "upsert_alias cohorts s a t now now' ob = Inr (ob', q)" by (cases v) simp
    then have "r = q \<or> r \<in> set (ot_aliases ob)"
      using assms UpsertAlias upsert_alias_tables(2)[OF v] by (auto simp: object_step_def)
    then show ?thesis using upsert_alias_Inr(1,4)[OF v] by auto
  qed
next
  case (GetActive now)
  then show ?thesis using assms get_active_touches[of now ob] by (auto simp: object_step_def)
qed (use assms in \<open>auto simp: object_step_def get_alias_target_def list_aliases_def drop_alias_def clear_session_def
      clean_expired_sessions_def set_active_session_def delete_sessions_def tbl_delete_def Let_def\<close>)

end
