(* ===== verification/CohortCatalog.thy ===== *)
theory CohortCatalog
  imports CohortFiles ObjectStore
begin

text \<open>
  The cohort catalog, \<^verbatim>\<open>infra/storage/cohort/catalog.py\<close>: its five tables, every method of \<^verbatim>\<open>CohortCatalog\<close>, and the
  file operations a deletion runs. The tables live in the database file of the object store, whose aliases a
  deletion reads and removes; a workspace is the tables of both with the files below the cohorts root.

  The column \<^verbatim>\<open>origin_json\<close> holds the canonical JSON text of a dictionary and is only ever read back with
  \<^verbatim>\<open>json.loads\<close>; here it is the dictionary. A time stamp is the ISO text the call's clock gives, an argument. \<open>sha\<close> is
  the digest of \<^verbatim>\<open>hashlib\<close>, a parameter. Python's \<^verbatim>\<open>sqlite3\<close> opens the transaction of a connection at its first
  change; a method that raises leaves the tables as they were.
\<close>

section \<open>Tables\<close>

record cohort_row =
  co_cohort_id :: string
  co_name :: "string option"
  co_description :: string
  co_manifest_schema_ver :: string
  co_origin_kind :: string
  co_origin :: "json dict"
  co_roster_id :: string
  co_row_count :: int
  co_distinct_cik_count :: int
  co_dataset_sha256 :: string
  co_dataset_path :: string
  co_pinned :: bool
  co_created_at :: string
  co_updated_at :: string

record cohort_tag =
  tg_cohort_id :: string
  tg_tag :: string
  tg_created_at :: string

record source_pointer =
  pt_source_name :: string
  pt_active_snapshot_id :: string
  pt_pinned_at :: string

record family_index_record =
  fi_universe_cohort_id :: string
  fi_family_index_id :: string
  fi_rules_fingerprint :: string
  fi_dataset_path :: string
  fi_dataset_sha256 :: string
  fi_pinned_at :: string

record detached_dataset =
  dt_cohort_id :: string
  dt_dataset_path :: string
  dt_dataset_sha256 :: string
  dt_detached_at :: string

record cohort_tables =
  ct_cohorts :: "cohort_row list"
  ct_tags :: "cohort_tag list"
  ct_pointers :: "source_pointer list"
  ct_families :: "family_index_record list"
  ct_detached :: "detached_dataset list"

record workspace =
  wk_objects :: object_tables
  wk_cohorts :: cohort_tables
  wk_tree :: file_tree

text \<open>A \<^verbatim>\<open>CohortRecord\<close> is a row with its tags, in order.\<close>

type_synonym cohort_record = "cohort_row \<times> string list"

definition empty_cohort_tables :: cohort_tables where
  "empty_cohort_tables = \<lparr>ct_cohorts = [], ct_tags = [], ct_pointers = [], ct_families = [], ct_detached = []\<rparr>"

definition MANIFEST_SCHEMA_VERSION :: string where "MANIFEST_SCHEMA_VERSION = ''2.0.0''"

definition OFFICIAL_SOURCE_NAMES :: "string list" where
  "OFFICIAL_SOURCE_NAMES =
     [''cik_lookup'', ''company_tickers'', ''company_tickers_exchange'', ''company_tickers_mf'', ''ticker_txt'']"

definition OFFICIAL_SOURCE_ALIASES :: "(string \<times> string) list" where
  "OFFICIAL_SOURCE_ALIASES =
     [(''universe'', ''cik_lookup''), (''tickers'', ''company_tickers''), (''exchange'', ''company_tickers_exchange''),
      (''funds'', ''company_tickers_mf''), (''ticker-file'', ''ticker_txt'')]"

abbreviation cohort_ids :: "cohort_tables \<Rightarrow> string set" where
  "cohort_ids ct \<equiv> co_cohort_id ` set (ct_cohorts ct)"

definition find_cohort :: "string \<Rightarrow> cohort_tables \<Rightarrow> cohort_row option" where
  "find_cohort cohort_id ct = tbl_lookup co_cohort_id cohort_id (ct_cohorts ct)"

definition find_name :: "string \<Rightarrow> cohort_tables \<Rightarrow> cohort_row option" where
  "find_name name ct = find (\<lambda>r. co_name r = Some name) (ct_cohorts ct)"

definition tags_of :: "string \<Rightarrow> cohort_tables \<Rightarrow> string list" where
  "tags_of cohort_id ct = sort (map tg_tag (filter (\<lambda>t. tg_cohort_id t = cohort_id) (ct_tags ct)))"

definition record_of :: "cohort_tables \<Rightarrow> cohort_row \<Rightarrow> cohort_record" where
  "record_of ct row = (row, tags_of (co_cohort_id row) ct)"

definition get_cohort :: "string \<Rightarrow> cohort_tables \<Rightarrow> cohort_record option" where
  "get_cohort id_or_name ct =
     map_option (record_of ct)
       (case find_name id_or_name ct of None \<Rightarrow> find_cohort id_or_name ct | Some r \<Rightarrow> Some r)"

section \<open>Registration\<close>

record registration =
  rg_cohort_id :: string
  rg_name :: "string option"
  rg_description :: string
  rg_origin_kind :: string
  rg_origin_details :: "json dict"
  rg_roster_id :: string
  rg_row_count :: int
  rg_distinct_cik_count :: int
  rg_dataset_sha256 :: string
  rg_dataset_path :: string
  rg_pinned :: bool
  rg_tags :: "string list"

text \<open>
  The digest a cohort's identifier is taken from: that of the roster, or of the snapshot of an official source.
\<close>

definition identity_digest :: "registration \<Rightarrow> (cohort_error, string) result" where
  "identity_digest g =
     (if rg_origin_kind g = ''official_source''
      then case map_of (rg_origin_details g) ''source_snapshot_id'' of
             Some (JStr d) \<Rightarrow> if is_sha256_hex_digest d then Inr d else Inl CohortValueError
           | _ \<Rightarrow> Inl CohortValueError
      else Inr (rg_roster_id g))"

text \<open>The checks before the database is opened; they give the dataset's path relative to the cohorts root.\<close>

definition check_registration ::
  "(bytes \<Rightarrow> string) \<Rightarrow> path \<Rightarrow> registration \<Rightarrow> file_tree \<Rightarrow> (cohort_error, string) result" where
  "check_registration sha rdir g t =
     (if \<not> is_sha256_hex_digest (rg_roster_id g) then Inl CohortValueError
      else bind_res (identity_digest g) (\<lambda>digest.
        if rg_cohort_id g \<noteq> ''c-'' @ take 16 digest then Inl CohortValueError
        else if \<not> is_sha256_hex_digest (rg_dataset_sha256 g) then Inl CohortValueError
        else if rg_row_count g < 0 \<or> rg_distinct_cik_count g < 0 \<or> rg_row_count g < rg_distinct_cik_count g
        then Inl CohortValueError
        else bind_res (resolve_relative_path rdir (rg_dataset_path g) t) (\<lambda>p.
          bind_res (relative_path rdir p t) (\<lambda>relative_dataset.
          bind_res (cohort_dataset_file rdir (rg_cohort_id g) t) (\<lambda>e.
          bind_res (relative_path rdir e t) (\<lambda>expected_dataset.
            if relative_dataset \<noteq> expected_dataset then Inl CohortValueError
            else bind_res (resolve_relative_path rdir relative_dataset t) (\<lambda>dataset_file.
              if map_option sha (file_bytes t dataset_file) \<noteq> Some (rg_dataset_sha256 g) then Inl CohortValueError
              else if [] \<in> set (rg_tags g) then Inl CohortValueError
              else Inr relative_dataset)))))))"

definition row_of_registration :: "registration \<Rightarrow> string \<Rightarrow> string \<Rightarrow> cohort_row" where
  "row_of_registration g relative_dataset now =
     \<lparr>co_cohort_id = rg_cohort_id g, co_name = rg_name g, co_description = rg_description g,
      co_manifest_schema_ver = MANIFEST_SCHEMA_VERSION, co_origin_kind = rg_origin_kind g,
      co_origin = rg_origin_details g, co_roster_id = rg_roster_id g, co_row_count = rg_row_count g,
      co_distinct_cik_count = rg_distinct_cik_count g, co_dataset_sha256 = rg_dataset_sha256 g,
      co_dataset_path = relative_dataset, co_pinned = rg_pinned g, co_created_at = now, co_updated_at = now\<rparr>"

text \<open>\<^verbatim>\<open>sorted(set(tags))\<close>\<close>

definition normalized_tags :: "string list \<Rightarrow> string list" where
  "normalized_tags tags = sort (remdups tags)"

definition insert_cohort :: "registration \<Rightarrow> string \<Rightarrow> string \<Rightarrow> cohort_tables \<Rightarrow> cohort_tables" where
  "insert_cohort g relative_dataset now ct =
     ct\<lparr>ct_cohorts := ct_cohorts ct @ [row_of_registration g relative_dataset now],
        ct_tags := ct_tags ct @ map (\<lambda>tag. \<lparr>tg_cohort_id = rg_cohort_id g, tg_tag = tag, tg_created_at = now\<rparr>)
                     (normalized_tags (rg_tags g))\<rparr>"

text \<open>
  A name that another cohort has violates \<^verbatim>\<open>UNIQUE\<close>; tags left under the new key, which the cascade makes
  impossible, would violate the key of the tag table. When the insert fails, the directory of the cohort is
  removed, unless \<^verbatim>\<open>get_cohort\<close> finds something under the identifier.
\<close>

definition register_cohort ::
  "(bytes \<Rightarrow> string) \<Rightarrow> path \<Rightarrow> registration \<Rightarrow> string \<Rightarrow> workspace
   \<Rightarrow> workspace \<times> (cohort_error, cohort_record) result" where
  "register_cohort sha rdir g now w =
     (case check_registration sha rdir g (wk_tree w) of
        Inl e \<Rightarrow> (w, Inl e)
      | Inr relative_dataset \<Rightarrow>
          (case cohort_dir rdir (rg_cohort_id g) (wk_tree w) of
             Inl e \<Rightarrow> (w, Inl e)
           | Inr final_dir \<Rightarrow>
               (case find_cohort (rg_cohort_id g) (wk_cohorts w) of
                  Some existing \<Rightarrow>
                    if co_roster_id existing \<noteq> rg_roster_id g then (w, Inl CohortCollisionError)
                    else if co_dataset_sha256 existing \<noteq> rg_dataset_sha256 g \<or> co_dataset_path existing \<noteq> relative_dataset
                    then (w, Inl CohortValueError)
                    else (w, Inr (record_of (wk_cohorts w) existing))
                | None \<Rightarrow>
                    if (rg_name g \<noteq> None \<and> rg_name g \<in> co_name ` set (ct_cohorts (wk_cohorts w)))
                       \<or> (\<exists>t \<in> set (ct_tags (wk_cohorts w)). tg_cohort_id t = rg_cohort_id g \<and> tg_tag t \<in> set (rg_tags g))
                    then (if exists_path (wk_tree w) final_dir \<and> get_cohort (rg_cohort_id g) (wk_cohorts w) = None
                          then w\<lparr>wk_tree := rmtree final_dir (wk_tree w)\<rparr> else w, Inl CohortIntegrityError)
                    else let ct = insert_cohort g relative_dataset now (wk_cohorts w) in
                      (w\<lparr>wk_cohorts := ct\<rparr>, Inr (record_of ct (row_of_registration g relative_dataset now))))))"

section \<open>Family indices and listings\<close>

definition set_active_family_index ::
  "(bytes \<Rightarrow> string) \<Rightarrow> path \<Rightarrow> string \<Rightarrow> string \<Rightarrow> string \<Rightarrow> string \<Rightarrow> string \<Rightarrow> file_tree \<Rightarrow> cohort_tables
   \<Rightarrow> (cohort_error, cohort_tables) result" where
  "set_active_family_index sha rdir universe_cohort_id family_index_id rules_fingerprint dataset_sha256 pinned_at t ct =
     (if \<not> family_index_id_match family_index_id then Inl CohortValueError
      else if \<not> is_sha256_hex_digest rules_fingerprint then Inl CohortValueError
      else if \<not> is_sha256_hex_digest dataset_sha256 then Inl CohortValueError
      else bind_res (family_index_file rdir family_index_id t) (\<lambda>dataset_file.
        bind_res (relative_path rdir dataset_file t) (\<lambda>relative_dataset.
          if relative_dataset \<noteq> ''family_index/'' @ family_index_id @ ''/company_family.parquet'' then Inl CohortValueError
          else if \<not> is_file t dataset_file then Inl CohortValueError
          else if map_option sha (file_bytes t dataset_file) \<noteq> Some dataset_sha256 then Inl CohortValueError
          else if universe_cohort_id \<notin> cohort_ids ct then Inl CohortIdentifierError
          else Inr (ct\<lparr>ct_families := tbl_upsert fi_universe_cohort_id
                 \<lparr>fi_universe_cohort_id = universe_cohort_id, fi_family_index_id = family_index_id,
                  fi_rules_fingerprint = rules_fingerprint, fi_dataset_path = relative_dataset,
                  fi_dataset_sha256 = dataset_sha256, fi_pinned_at = pinned_at\<rparr> (ct_families ct)\<rparr>))))"

definition get_active_family_index :: "string \<Rightarrow> cohort_tables \<Rightarrow> family_index_record option" where
  "get_active_family_index universe_cohort_id ct = tbl_lookup fi_universe_cohort_id universe_cohort_id (ct_families ct)"

text \<open>\<^verbatim>\<open>ORDER BY key DESC\<close>, stable, and \<^verbatim>\<open>LIMIT ? OFFSET ?\<close>\<close>

definition order_desc :: "('a \<Rightarrow> string) \<Rightarrow> 'a list \<Rightarrow> 'a list" where
  "order_desc key rows = rev (sort_key key (rev rows))"

definition page :: "int \<Rightarrow> int \<Rightarrow> 'a list \<Rightarrow> 'a list" where
  "page limit offset rows = take (nat limit) (drop (nat offset) rows)"

definition list_cohorts ::
  "string option \<Rightarrow> bool \<Rightarrow> string option \<Rightarrow> int \<Rightarrow> int \<Rightarrow> cohort_tables \<Rightarrow> (cohort_error, cohort_record list) result" where
  "list_cohorts tag pinned_only search limit offset ct =
     (if limit < 0 \<or> offset < 0 then Inl CohortValueError
      else let keep = (\<lambda>c.
             (case tag of None \<Rightarrow> True | Some v \<Rightarrow> \<exists>t \<in> set (ct_tags ct). tg_cohort_id t = co_cohort_id c \<and> tg_tag t = v)
             \<and> (pinned_only \<longrightarrow> co_pinned c)
             \<and> (case search of None \<Rightarrow> True | Some s \<Rightarrow>
                  let pattern = ''%'' @ s @ ''%'' in
                  sql_like pattern (co_cohort_id c)
                  \<or> (case co_name c of None \<Rightarrow> False | Some n \<Rightarrow> sql_like pattern n)
                  \<or> sql_like pattern (co_description c)))
        in Inr (map (record_of ct)
             (page limit offset (order_desc co_created_at (sort_key co_cohort_id (filter keep (ct_cohorts ct)))))))"

definition cohort_count :: "cohort_tables \<Rightarrow> nat" where
  "cohort_count ct = length (ct_cohorts ct)"

definition list_family_indices :: "string option \<Rightarrow> int \<Rightarrow> int \<Rightarrow> cohort_tables \<Rightarrow> (cohort_error, family_index_record list) result" where
  "list_family_indices universe_cohort_id limit offset ct =
     (if limit < 0 \<or> offset < 0 then Inl CohortValueError
      else Inr (page limit offset (order_desc fi_pinned_at
        (case universe_cohort_id of None \<Rightarrow> ct_families ct
         | Some u \<Rightarrow> filter (\<lambda>f. fi_universe_cohort_id f = u) (ct_families ct)))))"

section \<open>Names and tags\<close>

definition update_cohort :: "string \<Rightarrow> (cohort_row \<Rightarrow> cohort_row) \<Rightarrow> cohort_tables \<Rightarrow> cohort_tables" where
  "update_cohort cohort_id f ct =
     ct\<lparr>ct_cohorts := map (\<lambda>r. if co_cohort_id r = cohort_id then f r else r) (ct_cohorts ct)\<rparr>"

definition rename_cohort :: "string \<Rightarrow> string \<Rightarrow> string \<Rightarrow> cohort_tables \<Rightarrow> (cohort_error, cohort_tables) result" where
  "rename_cohort cohort_id new_name now ct =
     (if new_name = [] then Inl CohortValueError
      else if cohort_id \<notin> cohort_ids ct then Inl CohortIdentifierError
      else if \<exists>r \<in> set (ct_cohorts ct). co_cohort_id r \<noteq> cohort_id \<and> co_name r = Some new_name then Inl CohortIntegrityError
      else Inr (update_cohort cohort_id (\<lambda>r. r\<lparr>co_name := Some new_name, co_updated_at := now\<rparr>) ct))"

definition add_tags :: "string \<Rightarrow> string list \<Rightarrow> string \<Rightarrow> cohort_tables \<Rightarrow> (cohort_error, cohort_tables) result" where
  "add_tags cohort_id tags now ct =
     (if [] \<in> set tags then Inl CohortValueError
      else if cohort_id \<notin> cohort_ids ct then Inl CohortIdentifierError
      else let fresh = filter (\<lambda>tag. (cohort_id, tag) \<notin> (\<lambda>t. (tg_cohort_id t, tg_tag t)) ` set (ct_tags ct)) (remdups tags) in
        Inr (update_cohort cohort_id (\<lambda>r. r\<lparr>co_updated_at := now\<rparr>)
          (ct\<lparr>ct_tags := ct_tags ct @ map (\<lambda>tag. \<lparr>tg_cohort_id = cohort_id, tg_tag = tag, tg_created_at = now\<rparr>) fresh\<rparr>)))"

definition remove_tags :: "string \<Rightarrow> string list \<Rightarrow> string \<Rightarrow> cohort_tables \<Rightarrow> (cohort_error, cohort_tables) result" where
  "remove_tags cohort_id tags now ct =
     (if [] \<in> set tags then Inl CohortValueError
      else if cohort_id \<notin> cohort_ids ct then Inl CohortIdentifierError
      else Inr (update_cohort cohort_id (\<lambda>r. r\<lparr>co_updated_at := now\<rparr>)
        (ct\<lparr>ct_tags := filter (\<lambda>t. \<not> (tg_cohort_id t = cohort_id \<and> tg_tag t \<in> set tags)) (ct_tags ct)\<rparr>)))"

section \<open>Source pointers and identifiers\<close>

text \<open>An official pinned cohort of a source: what a pointer must name.\<close>

definition official_for :: "string \<Rightarrow> cohort_row \<Rightarrow> bool" where
  "official_for source_name r \<longleftrightarrow> co_origin_kind r = ''official_source'' \<and> co_pinned r
     \<and> map_of (co_origin r) ''source_name'' = Some (JStr source_name)"

definition set_active_source_pointer ::
  "string \<Rightarrow> string \<Rightarrow> string \<Rightarrow> cohort_tables \<Rightarrow> (cohort_error, cohort_tables) result" where
  "set_active_source_pointer source_name active_snapshot_id now ct =
     (if source_name \<notin> set OFFICIAL_SOURCE_NAMES then Inl CohortIdentifierError
      else case find_cohort active_snapshot_id ct of
        None \<Rightarrow> Inl CohortIdentifierError
      | Some cohort \<Rightarrow>
          if co_origin_kind cohort \<noteq> ''official_source'' \<or> \<not> co_pinned cohort then Inl CohortIdentifierError
          else if map_of (co_origin cohort) ''source_name'' \<noteq> Some (JStr source_name) then Inl CohortIdentifierError
          else Inr (ct\<lparr>ct_pointers := tbl_upsert pt_source_name
                 \<lparr>pt_source_name = source_name, pt_active_snapshot_id = active_snapshot_id, pt_pinned_at = now\<rparr>
                 (ct_pointers ct)\<rparr>))"

definition get_active_source_pointer :: "string \<Rightarrow> cohort_tables \<Rightarrow> string option" where
  "get_active_source_pointer source_name ct =
     map_option pt_active_snapshot_id (tbl_lookup pt_source_name source_name (ct_pointers ct))"

definition hex_either_case :: "char \<Rightarrow> bool" where
  "hex_either_case c \<longleftrightarrow> lower_hex (lower_char c)"

definition resolve_cohort_identifier ::
  "string \<Rightarrow> int \<Rightarrow> cohort_tables \<Rightarrow> (cohort_error, cohort_record) result" where
  "resolve_cohort_identifier id_or_name min_prefix_len ct =
     (if min_prefix_len < 1 then Inl CohortValueError
      else case map_of OFFICIAL_SOURCE_ALIASES id_or_name of
        Some source_name \<Rightarrow>
          (case get_active_source_pointer source_name ct of
             None \<Rightarrow> Inl CohortIdentifierError
           | Some pointer \<Rightarrow>
               (case find_cohort pointer ct of
                  None \<Rightarrow> Inl CohortIdentifierError
                | Some row \<Rightarrow>
                    if co_origin_kind row \<noteq> ''official_source'' \<or> \<not> co_pinned row then Inl CohortIdentifierError
                    else if map_of (co_origin row) ''source_name'' \<noteq> Some (JStr source_name) then Inl CohortIdentifierError
                    else Inr (record_of ct row)))
      | None \<Rightarrow>
          (case (case find_name id_or_name ct of None \<Rightarrow> find_cohort id_or_name ct | Some r \<Rightarrow> Some r) of
             Some row \<Rightarrow> Inr (record_of ct row)
           | None \<Rightarrow>
               let prefix = (if starts_with ''c-'' id_or_name then drop 2 id_or_name else id_or_name) in
               if int (length prefix) < min_prefix_len then Inl CohortIdentifierError
               else if prefix = [] \<or> \<not> list_all hex_either_case prefix then Inl CohortIdentifierError
               else (case sort_key co_cohort_id (filter (\<lambda>r. sql_like (''c-'' @ prefix @ ''%'') (co_cohort_id r)
                            \<or> sql_like (prefix @ ''%'') (co_cohort_id r)) (ct_cohorts ct)) of
                       [row] \<Rightarrow> Inr (record_of ct row)
                     | _ \<Rightarrow> Inl CohortIdentifierError)))"

section \<open>Deletion\<close>

text \<open>
  What a deletion does outside its checks is a sequence of effects: a directory moved, the marker of a kept
  dataset created or removed, the transaction committed, the quarantined directory discarded. Between any two
  of them the process may stop for good.
\<close>

datatype delete_effect =
    MoveDir path path
  | CreateMarker path
  | RemoveMarker path
  | CommitTables cohort_tables object_tables
  | DiscardDir path
  | DiscardPartly path "path list"

text \<open>A removal that fails leaves the directory, some of what it held and the directories that holds.\<close>

definition rmtree_partly :: "path \<Rightarrow> path list \<Rightarrow> file_tree \<Rightarrow> file_tree" where
  "rmtree_partly d left t = filter (\<lambda>(p, n). below d p \<longrightarrow> list_ex (below p) (d # left)) t"

definition apply_effect :: "workspace \<Rightarrow> delete_effect \<Rightarrow> workspace" where
  "apply_effect w e = (case e of
     MoveDir src dst \<Rightarrow> w\<lparr>wk_tree := rename_tree src dst (wk_tree w)\<rparr>
   | CreateMarker p \<Rightarrow> w\<lparr>wk_tree := touch_file p (wk_tree w)\<rparr>
   | RemoveMarker p \<Rightarrow> w\<lparr>wk_tree := unlink_file p (wk_tree w)\<rparr>
   | CommitTables ct ob \<Rightarrow> w\<lparr>wk_cohorts := ct, wk_objects := ob\<rparr>
   | DiscardDir p \<Rightarrow> w\<lparr>wk_tree := rmtree p (wk_tree w)\<rparr>
   | DiscardPartly p left \<Rightarrow> w\<lparr>wk_tree := rmtree_partly p left (wk_tree w)\<rparr>)"

text \<open>
  What the environment may refuse: the file operation before the statements; a statement or the commit; that
  and then also the file operation that should undo the first; or, after the commit, the removal of the
  quarantined directory, which leaves the listed paths.
\<close>

datatype delete_fault = FileFault | SqlFault | UndoFault | RemovalFault "path list"

fun discard_failing :: "path list \<Rightarrow> delete_effect \<Rightarrow> delete_effect" where
  "discard_failing left (DiscardDir p) = DiscardPartly p left"
| "discard_failing left e = e"

definition delete_guard :: "string \<Rightarrow> bool \<Rightarrow> workspace \<Rightarrow> (cohort_error, cohort_row option) result" where
  "delete_guard cohort_id force w =
     (case find_cohort cohort_id (wk_cohorts w) of
        None \<Rightarrow> Inr None
      | Some row \<Rightarrow>
          if co_pinned row then Inl CohortPinnedError
          else if cohort_id \<in> pt_active_snapshot_id ` set (ct_pointers (wk_cohorts w)) then Inl CohortActiveSourceError
          else if cohort_id \<in> al_target_id ` set (ot_aliases (wk_objects w)) \<and> \<not> force then Inl CohortInUseError
          else Inr (Some row))"

text \<open>\<^verbatim>\<open>DELETE FROM cohorts\<close>: tags go with their cohort, a family index holds its universe back.\<close>

definition delete_cohort_row :: "string \<Rightarrow> cohort_tables \<Rightarrow> (cohort_error, cohort_tables) result" where
  "delete_cohort_row cohort_id ct =
     (if cohort_id \<in> fi_universe_cohort_id ` set (ct_families ct) \<and> cohort_id \<in> cohort_ids ct then Inl CohortIntegrityError
      else Inr (ct\<lparr>ct_cohorts := tbl_delete co_cohort_id cohort_id (ct_cohorts ct),
                   ct_tags := filter (\<lambda>t. tg_cohort_id t \<noteq> cohort_id) (ct_tags ct)\<rparr>))"

definition delete_statements ::
  "string \<Rightarrow> bool \<Rightarrow> bool \<Rightarrow> string \<Rightarrow> cohort_row \<Rightarrow> workspace \<Rightarrow> (cohort_error, cohort_tables \<times> object_tables) result" where
  "delete_statements cohort_id purge_dataset force now row w =
     (let ct = wk_cohorts w; ob = wk_objects w;
          ct1 = (if purge_dataset then ct else ct\<lparr>ct_detached := tbl_upsert dt_cohort_id
                   \<lparr>dt_cohort_id = cohort_id, dt_dataset_path = co_dataset_path row,
                    dt_dataset_sha256 = co_dataset_sha256 row, dt_detached_at = now\<rparr> (ct_detached ct)\<rparr>);
          ob1 = (if force then ob\<lparr>ot_aliases := filter (\<lambda>a. al_target_id a \<noteq> cohort_id) (ot_aliases ob)\<rparr> else ob)
      in bind_res (delete_cohort_row cohort_id ct1) (\<lambda>ct2. Inr (ct2, ob1)))"

definition purge_name :: "string \<Rightarrow> string \<Rightarrow> string" where
  "purge_name cohort_id uuid = STAGING_PREFIX @ ''purge-'' @ cohort_id @ ''-'' @ uuid"

text \<open>The checks on a dataset that is to be kept; they give the marker's path.\<close>

definition keep_dataset_marker :: "path \<Rightarrow> string \<Rightarrow> cohort_row \<Rightarrow> path \<Rightarrow> file_tree \<Rightarrow> (cohort_error, path) result" where
  "keep_dataset_marker rdir cohort_id row final_dir t =
     (if is_symlink t final_dir \<or> \<not> is_dir t final_dir then Inl CohortFileNotFound
      else bind_res (cohort_dataset_file rdir cohort_id t) (\<lambda>dataset_file.
        bind_res (resolve_relative_path rdir (co_dataset_path row) t) (\<lambda>dataset_recorded.
          if dataset_recorded \<noteq> dataset_file \<or> is_symlink t dataset_file \<or> \<not> is_file t dataset_file then Inl CohortFileNotFound
          else if is_symlink t (final_dir @ [''.detached'']) then Inl CohortValueError
          else Inr (final_dir @ [''.detached'']))))"

text \<open>
  The effects of a deletion, in order, and its outcome. \<open>first\<close> and \<open>undo\<close> are the file operation that precedes the
  statements and its inverse, \<open>finish\<close> what follows the commit.
\<close>

definition delete_finish ::
  "delete_effect list \<Rightarrow> delete_effect list \<Rightarrow> delete_effect list \<Rightarrow> delete_fault option
   \<Rightarrow> (cohort_error, cohort_tables \<times> object_tables) result \<Rightarrow> delete_effect list \<times> (cohort_error, bool) result" where
  "delete_finish first undo finish fault statements =
     (if fault = Some FileFault \<and> first \<noteq> [] then ([], Inl CohortOSError)
      else if fault = Some SqlFault then (first @ undo, Inl CohortOSError)
      else if fault = Some UndoFault then (first, Inl CohortOSError)
      else case statements of
        Inl e \<Rightarrow> (first @ undo, Inl e)
      | Inr (ct, ob) \<Rightarrow>
          (case (fault, finish) of
             (Some (RemovalFault left), _ # _) \<Rightarrow>
               (first @ [CommitTables ct ob] @ map (discard_failing left) finish, Inl CohortOSError)
           | _ \<Rightarrow> (first @ [CommitTables ct ob] @ finish, Inr True)))"

definition delete_effects ::
  "path \<Rightarrow> string \<Rightarrow> bool \<Rightarrow> bool \<Rightarrow> string \<Rightarrow> string \<Rightarrow> delete_fault option \<Rightarrow> workspace
   \<Rightarrow> delete_effect list \<times> (cohort_error, bool) result" where
  "delete_effects rdir cohort_id purge_dataset force uuid now fault w =
     (case cohort_dir rdir cohort_id (wk_tree w) of
        Inl e \<Rightarrow> ([], Inl e)
      | Inr final_dir \<Rightarrow>
          (case delete_guard cohort_id force w of
             Inl e \<Rightarrow> ([], Inl e)
           | Inr None \<Rightarrow> ([], Inr False)
           | Inr (Some row) \<Rightarrow>
               let statements = delete_statements cohort_id purge_dataset force now row w in
               if purge_dataset \<and> exists_path (wk_tree w) final_dir
               then (case bind_res (resolved (wk_tree w) rdir) (\<lambda>resolved_root.
                             bind_res (resolved (wk_tree w) final_dir) (\<lambda>target.
                               if butlast target \<noteq> resolved_root then Inl CohortValueError
                               else Inr (resolved_root @ [purge_name cohort_id uuid]))) of
                       Inl e \<Rightarrow> ([], Inl e)
                     | Inr quarantined \<Rightarrow>
                         delete_finish [MoveDir final_dir quarantined] [MoveDir quarantined final_dir]
                           [DiscardDir quarantined] fault statements)
               else if purge_dataset then delete_finish [] [] [] fault statements
               else (case keep_dataset_marker rdir cohort_id row final_dir (wk_tree w) of
                       Inl e \<Rightarrow> ([], Inl e)
                     | Inr marker \<Rightarrow>
                         if exists_path (wk_tree w) marker then delete_finish [] [] [] fault statements
                         else delete_finish [CreateMarker marker] [RemoveMarker marker] [] fault statements)))"

definition delete_cohort ::
  "path \<Rightarrow> string \<Rightarrow> bool \<Rightarrow> bool \<Rightarrow> string \<Rightarrow> string \<Rightarrow> delete_fault option \<Rightarrow> workspace
   \<Rightarrow> workspace \<times> (cohort_error, bool) result" where
  "delete_cohort rdir cohort_id purge_dataset force uuid now fault w =
     (let (effects, outcome) = delete_effects rdir cohort_id purge_dataset force uuid now fault w
      in (foldl apply_effect w effects, outcome))"

section \<open>Invariant of the catalog\<close>

text \<open>
  The keys are unique, no two cohorts share a name, tags and family indices belong to stored cohorts, an
  identifier is that of the digest it was registered with, and a source pointer names an official pinned cohort
  of its source.
\<close>

definition identity_ok :: "cohort_row \<Rightarrow> bool" where
  "identity_ok r \<longleftrightarrow> is_sha256_hex_digest (co_roster_id r) \<and> is_sha256_hex_digest (co_dataset_sha256 r)
     \<and> (if co_origin_kind r = ''official_source''
        then \<exists>d. map_of (co_origin r) ''source_snapshot_id'' = Some (JStr d) \<and> is_sha256_hex_digest d
              \<and> co_cohort_id r = ''c-'' @ take 16 d
        else co_cohort_id r = ''c-'' @ take 16 (co_roster_id r))"

abbreviation tag_key :: "cohort_tag \<Rightarrow> string \<times> string" where
  "tag_key t \<equiv> (tg_cohort_id t, tg_tag t)"

definition names_unique :: "cohort_row list \<Rightarrow> bool" where
  "names_unique rows \<longleftrightarrow>
     (\<forall>r \<in> set rows. \<forall>r' \<in> set rows. co_name r = co_name r' \<and> co_name r \<noteq> None \<longrightarrow> co_cohort_id r = co_cohort_id r')"

lemma names_uniqueD:
  "names_unique rows \<Longrightarrow> r \<in> set rows \<Longrightarrow> r' \<in> set rows \<Longrightarrow> co_name r = Some n \<Longrightarrow> co_name r' = Some n
   \<Longrightarrow> co_cohort_id r = co_cohort_id r'"
  unfolding names_unique_def by (metis option.distinct(1))

lemma names_uniqueI:
  assumes "\<And>r r' n. r \<in> set rows \<Longrightarrow> r' \<in> set rows \<Longrightarrow> co_name r = Some n \<Longrightarrow> co_name r' = Some n
    \<Longrightarrow> co_cohort_id r = co_cohort_id r'"
  shows "names_unique rows"
  unfolding names_unique_def
proof (intro ballI impI, elim conjE)
  fix r r' assume r: "r \<in> set rows" "r' \<in> set rows" and eq: "co_name r = co_name r'" and "co_name r \<noteq> None"
  from \<open>co_name r \<noteq> None\<close> obtain n where n: "co_name r = Some n" by blast
  show "co_cohort_id r = co_cohort_id r'" by (rule assms[OF r n n[unfolded eq]])
qed

definition pointer_ok :: "cohort_tables \<Rightarrow> source_pointer \<Rightarrow> bool" where
  "pointer_ok ct p \<longleftrightarrow> (\<exists>r \<in> set (ct_cohorts ct). co_cohort_id r = pt_active_snapshot_id p \<and> official_for (pt_source_name p) r)"

definition cohort_inv :: "cohort_tables \<Rightarrow> bool" where
  "cohort_inv ct \<longleftrightarrow>
     tbl_inv co_cohort_id (ct_cohorts ct) \<and> tbl_inv tag_key (ct_tags ct) \<and> tbl_inv pt_source_name (ct_pointers ct)
     \<and> tbl_inv fi_universe_cohort_id (ct_families ct) \<and> tbl_inv dt_cohort_id (ct_detached ct)
     \<and> names_unique (ct_cohorts ct) \<and> (\<forall>r \<in> set (ct_cohorts ct). identity_ok r)
     \<and> tg_cohort_id ` set (ct_tags ct) \<subseteq> cohort_ids ct \<and> fi_universe_cohort_id ` set (ct_families ct) \<subseteq> cohort_ids ct
     \<and> (\<forall>p \<in> set (ct_pointers ct). pointer_ok ct p)"

text \<open>The columns that no statement updates.\<close>

definition frozen :: "cohort_row \<Rightarrow> cohort_row" where
  "frozen r = r\<lparr>co_name := None, co_updated_at := []\<rparr>"

lemma frozen_update:
  "frozen (r\<lparr>co_name := n\<rparr>) = frozen r" "frozen (r\<lparr>co_updated_at := u\<rparr>) = frozen r"
  by (simp_all add: frozen_def)

lemma frozen_columns:
  "co_cohort_id (frozen r) = co_cohort_id r" "identity_ok (frozen r) = identity_ok r"
  "official_for s (frozen r) = official_for s r"
  by (simp_all add: frozen_def identity_ok_def official_for_def)

lemma frozen_eqD:
  assumes "frozen r = frozen r'"
  shows "co_cohort_id r = co_cohort_id r'" "identity_ok r = identity_ok r'" "official_for s r = official_for s r'"
  using assms frozen_columns by metis+

text \<open>A change of rows that keeps the frozen columns keeps everything but the uniqueness of names.\<close>

lemma cohort_inv_frozen:
  assumes "cohort_inv ct" and f: "\<And>r. frozen (f r) = frozen r"
    and ct': "ct' = ct\<lparr>ct_cohorts := map f (ct_cohorts ct), ct_tags := tags\<rparr>"
    and tags: "tbl_inv tag_key tags" "tg_cohort_id ` set tags \<subseteq> cohort_ids ct"
    and names: "names_unique (map f (ct_cohorts ct))"
  shows "cohort_inv ct'"
proof -
  have ids: "co_cohort_id (f r) = co_cohort_id r" for r using frozen_eqD(1)[OF f] .
  then have map: "co_cohort_id \<circ> f = co_cohort_id" by auto
  have same: "cohort_ids ct' = cohort_ids ct" using ids by (simp add: ct' image_image)
  have "pointer_ok ct' p" if "pointer_ok ct p" for p
    using that ids frozen_eqD(3)[OF f] unfolding pointer_ok_def ct' by auto
  then show ?thesis
    using assms same frozen_eqD(2)[OF f] unfolding cohort_inv_def tbl_inv_def ct' by (auto simp: map)
qed


lemma update_cohort_id_keeps_names:
  assumes "names_unique rows" "\<And>r. co_name (f r) = co_name r" "\<And>r. co_cohort_id (f r) = co_cohort_id r"
  shows "names_unique (map (\<lambda>r. if co_cohort_id r = i then f r else r) rows)"
proof -
  let ?g = "\<lambda>r. if co_cohort_id r = i then f r else r"
  have "co_name (?g r) = co_name r" "co_cohort_id (?g r) = co_cohort_id r" for r by (simp_all add: assms)
  then show ?thesis using assms(1) unfolding names_unique_def set_map ball_simps by (simp only:)
qed

lemma cohort_inv_touch_row:
  assumes "cohort_inv ct" "tbl_inv tag_key tags" "tg_cohort_id ` set tags \<subseteq> cohort_ids ct"
  shows "cohort_inv (update_cohort i (\<lambda>r. r\<lparr>co_updated_at := now\<rparr>) (ct\<lparr>ct_tags := tags\<rparr>))"
proof (rule cohort_inv_frozen[OF assms(1) _ _ assms(2,3)])
  show "names_unique (map (\<lambda>r. if co_cohort_id r = i then r\<lparr>co_updated_at := now\<rparr> else r) (ct_cohorts ct))"
    using assms(1) by (intro update_cohort_id_keeps_names) (simp_all add: cohort_inv_def)
qed (simp_all add: frozen_update update_cohort_def)

lemma cohort_inv_rename:
  assumes "cohort_inv ct" "rename_cohort i n now ct = Inr ct'"
  shows "cohort_inv ct'"
proof (rule cohort_inv_frozen[OF assms(1)])
  let ?f = "\<lambda>r. if co_cohort_id r = i then r\<lparr>co_name := Some n, co_updated_at := now\<rparr> else r"
  have free: "\<forall>r \<in> set (ct_cohorts ct). co_cohort_id r \<noteq> i \<longrightarrow> co_name r \<noteq> Some n"
    and ct': "ct' = update_cohort i (\<lambda>r. r\<lparr>co_name := Some n, co_updated_at := now\<rparr>) ct"
    using assms(2) by (auto simp: rename_cohort_def split: if_splits)
  show "frozen (?f r) = frozen r" for r by (simp add: frozen_update)
  show "ct' = ct\<lparr>ct_cohorts := map ?f (ct_cohorts ct), ct_tags := ct_tags ct\<rparr>" by (simp add: ct' update_cohort_def)
  show "tbl_inv tag_key (ct_tags ct)" "tg_cohort_id ` set (ct_tags ct) \<subseteq> cohort_ids ct"
    using assms(1) by (simp_all add: cohort_inv_def)
  have names: "names_unique (ct_cohorts ct)" using assms(1) by (simp add: cohort_inv_def)
  show "names_unique (map ?f (ct_cohorts ct))"
  proof (rule names_uniqueI)
    fix a b m
    assume ab: "a \<in> set (map ?f (ct_cohorts ct))" "b \<in> set (map ?f (ct_cohorts ct))" "co_name a = Some m" "co_name b = Some m"
    then obtain r r' where r: "r \<in> set (ct_cohorts ct)" "a = ?f r" "r' \<in> set (ct_cohorts ct)" "b = ?f r'" by auto
    show "co_cohort_id a = co_cohort_id b"
    proof (cases "co_cohort_id r = i"; cases "co_cohort_id r' = i")
      assume "co_cohort_id r = i" "co_cohort_id r' \<noteq> i"
      then show ?thesis using ab(3,4) r free by simp
    next
      assume "co_cohort_id r \<noteq> i" "co_cohort_id r' = i"
      then show ?thesis using ab(3,4) r free by simp
    next
      assume "co_cohort_id r \<noteq> i" "co_cohort_id r' \<noteq> i"
      then show ?thesis using ab(3,4) r names_uniqueD[OF names r(1,3), of m] by simp
    qed (simp add: r)
  qed
qed

lemma tag_rows_inv:
  assumes "tbl_inv tag_key ts" "distinct tags" "\<forall>x \<in> set tags. (i, x) \<notin> tag_key ` set ts"
  shows "tbl_inv tag_key (ts @ map (\<lambda>x. \<lparr>tg_cohort_id = i, tg_tag = x, tg_created_at = now\<rparr>) tags)"
  using assms by (auto simp: tbl_inv_def distinct_map inj_on_def)

lemma cohort_inv_add_tags:
  assumes "cohort_inv ct" "add_tags i tags now ct = Inr ct'"
  shows "cohort_inv ct'"
proof -
  define fresh where "fresh = filter (\<lambda>x. (i, x) \<notin> tag_key ` set (ct_tags ct)) (remdups tags)"
  have i: "i \<in> cohort_ids ct" and ct': "ct' = update_cohort i (\<lambda>r. r\<lparr>co_updated_at := now\<rparr>)
      (ct\<lparr>ct_tags := ct_tags ct @ map (\<lambda>tag. \<lparr>tg_cohort_id = i, tg_tag = tag, tg_created_at = now\<rparr>) fresh\<rparr>)"
    using assms(2) by (auto simp: add_tags_def Let_def fresh_def split: if_splits)
  show ?thesis unfolding ct'
    using assms(1) i by (intro cohort_inv_touch_row tag_rows_inv) (auto simp: cohort_inv_def fresh_def)
qed

lemma cohort_inv_remove_tags:
  assumes "cohort_inv ct" "remove_tags i tags now ct = Inr ct'"
  shows "cohort_inv ct'"
proof -
  have ct': "ct' = update_cohort i (\<lambda>r. r\<lparr>co_updated_at := now\<rparr>)
      (ct\<lparr>ct_tags := filter (\<lambda>t. \<not> (tg_cohort_id t = i \<and> tg_tag t \<in> set tags)) (ct_tags ct)\<rparr>)"
    using assms(2) by (auto simp: remove_tags_def split: if_splits)
  show ?thesis unfolding ct'
    using assms(1) by (intro cohort_inv_touch_row tbl_inv_filter) (auto simp: cohort_inv_def)
qed

lemma cohort_inv_pointer:
  assumes "cohort_inv ct" "set_active_source_pointer s i now ct = Inr ct'"
  shows "cohort_inv ct'"
proof -
  define p where "p = \<lparr>pt_source_name = s, pt_active_snapshot_id = i, pt_pinned_at = now\<rparr>"
  obtain r where r: "find_cohort i ct = Some r" "official_for s r"
    and ct': "ct' = ct\<lparr>ct_pointers := tbl_upsert pt_source_name p (ct_pointers ct)\<rparr>"
    using assms(2) by (auto simp: set_active_source_pointer_def official_for_def p_def split: if_splits option.splits)
  have "r \<in> set (ct_cohorts ct)" "co_cohort_id r = i"
    using tbl_lookup_SomeD r(1) unfolding find_cohort_def by fast+
  then have "pointer_ok ct p" using r(2) by (auto simp: pointer_ok_def p_def)
  then have "\<forall>q \<in> set (tbl_upsert pt_source_name p (ct_pointers ct)). pointer_ok ct q"
    using tbl_upsert_subset[of pt_source_name p "ct_pointers ct"] assms(1) by (auto simp: cohort_inv_def)
  then show ?thesis
    using assms(1) list_table.inv_put[of pt_source_name "ct_pointers ct" p]
    unfolding ct' by (simp add: cohort_inv_def pointer_ok_def)
qed

lemma cohort_inv_family:
  assumes "cohort_inv ct" "set_active_family_index sha rdir u i f d now t ct = Inr ct'"
  shows "cohort_inv ct'"
proof -
  define row where "row = \<lparr>fi_universe_cohort_id = u, fi_family_index_id = i, fi_rules_fingerprint = f,
    fi_dataset_path = ''family_index/'' @ i @ ''/company_family.parquet'', fi_dataset_sha256 = d, fi_pinned_at = now\<rparr>"
  have "u \<in> cohort_ids ct" and "ct' = ct\<lparr>ct_families := tbl_upsert fi_universe_cohort_id row (ct_families ct)\<rparr>"
    using assms(2) unfolding set_active_family_index_def row_def by (auto simp: bind_res_Inr_iff split: if_splits)
  moreover have "fi_universe_cohort_id row = u" by (simp add: row_def)
  ultimately show ?thesis
    using assms(1) list_table.inv_put[of fi_universe_cohort_id "ct_families ct" row]
    by (simp add: cohort_inv_def pointer_ok_def tbl_upsert_keys)
qed


lemma check_registration_identity:
  assumes "check_registration sha rdir g t = Inr d"
  shows "identity_ok (row_of_registration g d now)"
  using assms unfolding check_registration_def identity_digest_def identity_ok_def row_of_registration_def
  by (auto simp: bind_res_Inr_iff split: if_splits option.splits json.splits)

lemma cohort_inv_insert:
  assumes "cohort_inv ct" "identity_ok (row_of_registration g d now)" "find_cohort (rg_cohort_id g) ct = None"
    "rg_name g = None \<or> rg_name g \<notin> co_name ` set (ct_cohorts ct)"
  shows "cohort_inv (insert_cohort g d now ct)"
proof -
  define row where "row = row_of_registration g d now"
  have row: "co_cohort_id row = rg_cohort_id g" "co_name row = rg_name g" by (simp_all add: row_def row_of_registration_def)
  have new: "rg_cohort_id g \<notin> cohort_ids ct" using assms(3) by (simp add: find_cohort_def tbl_lookup_None_iff)
  have inv: "names_unique (ct_cohorts ct)" "tg_cohort_id ` set (ct_tags ct) \<subseteq> cohort_ids ct" "tbl_inv tag_key (ct_tags ct)"
    using assms(1) by (simp_all add: cohort_inv_def)
  have "names_unique (ct_cohorts ct @ [row])"
  proof (rule names_uniqueI)
    fix r r' n
    assume "r \<in> set (ct_cohorts ct @ [row])" "r' \<in> set (ct_cohorts ct @ [row])" and n: "co_name r = Some n" "co_name r' = Some n"
    then consider "r = row" "r' = row" | "r \<in> set (ct_cohorts ct)" "r' = row" | "r = row" "r' \<in> set (ct_cohorts ct)"
      | "r \<in> set (ct_cohorts ct)" "r' \<in> set (ct_cohorts ct)" by auto
    then show "co_cohort_id r = co_cohort_id r'"
    proof cases
      case 2
      then show ?thesis using n row(2) assms(4) imageI[of r "set (ct_cohorts ct)" co_name] by simp
    next
      case 3
      then show ?thesis using n row(2) assms(4) imageI[of r' "set (ct_cohorts ct)" co_name] by simp
    next
      case 4
      then show ?thesis by (rule names_uniqueD[OF inv(1) _ _ n])
    qed simp
  qed
  moreover have "tbl_inv tag_key (ct_tags (insert_cohort g d now ct))"
    unfolding insert_cohort_def using new inv(2,3) by (auto simp: normalized_tags_def intro!: tag_rows_inv)
  moreover have "pointer_ok (insert_cohort g d now ct) p" if "pointer_ok ct p" for p
    using that by (auto simp: pointer_ok_def insert_cohort_def)
  moreover have "tbl_inv co_cohort_id (ct_cohorts ct @ [row])"
    using assms(1) new row(1) by (intro tbl_inv_new_row) (simp_all add: cohort_inv_def)
  ultimately show ?thesis
    using assms(1,2) row unfolding cohort_inv_def
    by (auto simp: insert_cohort_def row_def[symmetric])
qed

lemma register_cohort_tables:
  assumes "register_cohort sha rdir g now w = (w', res)"
  shows "wk_objects w' = wk_objects w"
    and "wk_cohorts w' = wk_cohorts w
      \<or> (\<exists>d. wk_cohorts w' = insert_cohort g d now (wk_cohorts w) \<and> identity_ok (row_of_registration g d now)
            \<and> find_cohort (rg_cohort_id g) (wk_cohorts w) = None
            \<and> (rg_name g = None \<or> rg_name g \<notin> co_name ` set (ct_cohorts (wk_cohorts w))))"
  using assms check_registration_identity[of sha rdir g "wk_tree w"] unfolding register_cohort_def
  by (auto simp: Let_def split: sum.splits option.splits if_splits)

lemma cohort_inv_register:
  "cohort_inv (wk_cohorts w) \<Longrightarrow> register_cohort sha rdir g now w = (w', res) \<Longrightarrow> cohort_inv (wk_cohorts w')"
  using register_cohort_tables(2) cohort_inv_insert by metis

text \<open>Removing cohorts that are neither a pointer's nor a universe's, with their tags.\<close>

definition remove_cohorts :: "string set \<Rightarrow> cohort_tables \<Rightarrow> cohort_tables" where
  "remove_cohorts ids ct = ct\<lparr>ct_cohorts := filter (\<lambda>r. co_cohort_id r \<notin> ids) (ct_cohorts ct),
     ct_tags := filter (\<lambda>t. tg_cohort_id t \<notin> ids) (ct_tags ct)\<rparr>"

lemma delete_cohort_row_eq:
  "delete_cohort_row i ct = (if i \<in> fi_universe_cohort_id ` set (ct_families ct) \<and> i \<in> cohort_ids ct
     then Inl CohortIntegrityError else Inr (remove_cohorts {i} ct))"
  by (simp add: delete_cohort_row_def remove_cohorts_def tbl_delete_def)

lemma cohort_inv_remove:
  assumes "cohort_inv ct" "\<forall>p \<in> set (ct_pointers ct). pt_active_snapshot_id p \<notin> ids"
    "\<forall>f \<in> set (ct_families ct). fi_universe_cohort_id f \<notin> ids"
  shows "cohort_inv (remove_cohorts ids ct)"
proof -
  have names: "names_unique (filter P (ct_cohorts ct))" for P
  proof (rule names_uniqueI)
    have inv: "names_unique (ct_cohorts ct)" using assms(1) by (simp add: cohort_inv_def)
    fix r r' n assume "r \<in> set (filter P (ct_cohorts ct))" "r' \<in> set (filter P (ct_cohorts ct))"
      "co_name r = Some n" "co_name r' = Some n"
    then show "co_cohort_id r = co_cohort_id r'" using names_uniqueD[OF inv, of r r' n] by simp
  qed
  have kept: "cohort_ids (remove_cohorts ids ct) = cohort_ids ct - ids"
    "tg_cohort_id ` set (ct_tags (remove_cohorts ids ct)) = tg_cohort_id ` set (ct_tags ct) - ids"
    by (auto simp: remove_cohorts_def)
  have "tg_cohort_id ` set (ct_tags ct) \<subseteq> cohort_ids ct" "fi_universe_cohort_id ` set (ct_families ct) \<subseteq> cohort_ids ct"
    using assms(1) by (simp_all add: cohort_inv_def)
  then have "tg_cohort_id ` set (ct_tags (remove_cohorts ids ct)) \<subseteq> cohort_ids (remove_cohorts ids ct)"
    "fi_universe_cohort_id ` set (ct_families ct) \<subseteq> cohort_ids (remove_cohorts ids ct)"
    using assms(3) unfolding kept by blast+
  moreover have "\<forall>p \<in> set (ct_pointers ct). pointer_ok (remove_cohorts ids ct) p"
    using assms(1,2) unfolding cohort_inv_def pointer_ok_def remove_cohorts_def by fastforce
  ultimately show ?thesis
    using assms(1) names unfolding cohort_inv_def by (simp add: remove_cohorts_def tbl_inv_filter)
qed


section \<open>What a deletion leaves\<close>

definition delete_stopped ::
  "nat \<Rightarrow> path \<Rightarrow> string \<Rightarrow> bool \<Rightarrow> bool \<Rightarrow> string \<Rightarrow> string \<Rightarrow> delete_fault option \<Rightarrow> workspace \<Rightarrow> workspace" where
  "delete_stopped k rdir cohort_id purge_dataset force uuid now fault w =
     foldl apply_effect w (take k (fst (delete_effects rdir cohort_id purge_dataset force uuid now fault w)))"

lemma delete_cohort_stopped:
  assumes "delete_cohort rdir i purge force uuid now fault w = (w', res)"
  shows "\<exists>k. w' = delete_stopped k rdir i purge force uuid now fault w"
proof -
  have "w' = delete_stopped (length (fst (delete_effects rdir i purge force uuid now fault w))) rdir i purge force uuid now fault w"
    using assms by (simp add: delete_stopped_def delete_cohort_def split: prod.splits)
  then show ?thesis by blast
qed

lemma effects_tables:
  "(wk_cohorts (foldl apply_effect w es) = wk_cohorts w \<and> wk_objects (foldl apply_effect w es) = wk_objects w)
   \<or> CommitTables (wk_cohorts (foldl apply_effect w es)) (wk_objects (foldl apply_effect w es)) \<in> set es"
proof (induction es arbitrary: w)
  case (Cons e es)
  show ?case using Cons.IH[of "apply_effect w e"] by (cases e) (auto simp: apply_effect_def)
qed simp

lemma delete_finish_commit:
  assumes "CommitTables ct ob \<in> set (fst (delete_finish first undo finish fault statements))"
    "CommitTables ct ob \<notin> set first" "CommitTables ct ob \<notin> set undo" "CommitTables ct ob \<notin> set finish"
  shows "statements = Inr (ct, ob)"
proof -
  have "CommitTables ct ob = discard_failing left e \<longleftrightarrow> e = CommitTables ct ob" for left e
    by (cases e) auto
  then have "CommitTables ct ob \<notin> discard_failing left ` set finish" for left
    using assms(4) by (auto simp: image_iff)
  then show ?thesis
    using assms by (auto simp: delete_finish_def split: if_splits sum.splits option.splits delete_fault.splits list.splits)
qed

lemma delete_effects_commit:
  assumes "CommitTables ct ob \<in> set (fst (delete_effects rdir i purge force uuid now fault w))"
  shows "\<exists>row. delete_guard i force w = Inr (Some row) \<and> delete_statements i purge force now row w = Inr (ct, ob)"
proof -
  obtain final_dir row where row: "cohort_dir rdir i (wk_tree w) = Inr final_dir" "delete_guard i force w = Inr (Some row)"
    using assms by (auto simp: delete_effects_def split: sum.splits option.splits)
  have "delete_statements i purge force now row w = Inr (ct, ob)"
    using assms unfolding delete_effects_def row Let_def
    by (auto split: if_splits sum.splits dest: delete_finish_commit)
  then show ?thesis using row(2) by blast
qed

lemma delete_stopped_tables:
  assumes "w' = delete_stopped k rdir i purge force uuid now fault w"
  shows "wk_cohorts w' = wk_cohorts w \<and> wk_objects w' = wk_objects w
    \<or> (\<exists>row. delete_guard i force w = Inr (Some row)
          \<and> delete_statements i purge force now row w = Inr (wk_cohorts w', wk_objects w'))"
  using effects_tables[of w "take k (fst (delete_effects rdir i purge force uuid now fault w))"]
    delete_effects_commit[of _ _ rdir i purge force uuid now fault w] in_set_takeD
  unfolding assms delete_stopped_def by metis

lemma delete_guardD:
  assumes "delete_guard i force w = Inr (Some row)"
  shows "find_cohort i (wk_cohorts w) = Some row" "\<not> co_pinned row"
    "\<forall>p \<in> set (ct_pointers (wk_cohorts w)). pt_active_snapshot_id p \<noteq> i"
    "\<not> force \<Longrightarrow> \<forall>a \<in> set (ot_aliases (wk_objects w)). al_target_id a \<noteq> i"
  using assms by (auto simp: delete_guard_def split: option.splits if_splits)

lemma delete_statementsD:
  assumes "delete_statements i purge force now row w = Inr (ct, ob)"
  shows "ob = (if force then (wk_objects w)\<lparr>ot_aliases := filter (\<lambda>a. al_target_id a \<noteq> i) (ot_aliases (wk_objects w))\<rparr>
            else wk_objects w)"
    and "\<exists>ds. ct = remove_cohorts {i} ((wk_cohorts w)\<lparr>ct_detached := ds\<rparr>)
          \<and> (tbl_inv dt_cohort_id (ct_detached (wk_cohorts w)) \<longrightarrow> tbl_inv dt_cohort_id ds)"
    and "i \<in> cohort_ids (wk_cohorts w) \<Longrightarrow> i \<notin> fi_universe_cohort_id ` set (ct_families (wk_cohorts w))"
proof -
  let ?row = "\<lparr>dt_cohort_id = i, dt_dataset_path = co_dataset_path row,
    dt_dataset_sha256 = co_dataset_sha256 row, dt_detached_at = now\<rparr>"
  let ?ds = "if purge then ct_detached (wk_cohorts w) else tbl_upsert dt_cohort_id ?row (ct_detached (wk_cohorts w))"
  have "ct = remove_cohorts {i} ((wk_cohorts w)\<lparr>ct_detached := ?ds\<rparr>)"
    using assms by (auto simp: delete_statements_def delete_cohort_row_eq Let_def bind_res_Inr_iff split: if_splits)
  moreover have "tbl_inv dt_cohort_id (ct_detached (wk_cohorts w)) \<longrightarrow> tbl_inv dt_cohort_id ?ds"
    using list_table.inv_put[of dt_cohort_id "ct_detached (wk_cohorts w)" ?row] by simp
  ultimately show "\<exists>ds. ct = remove_cohorts {i} ((wk_cohorts w)\<lparr>ct_detached := ds\<rparr>)
      \<and> (tbl_inv dt_cohort_id (ct_detached (wk_cohorts w)) \<longrightarrow> tbl_inv dt_cohort_id ds)" by blast
  show "ob = (if force then (wk_objects w)\<lparr>ot_aliases := filter (\<lambda>a. al_target_id a \<noteq> i) (ot_aliases (wk_objects w))\<rparr>
      else wk_objects w)"
    using assms by (auto simp: delete_statements_def Let_def bind_res_Inr_iff)
  assume "i \<in> cohort_ids (wk_cohorts w)"
  then show "i \<notin> fi_universe_cohort_id ` set (ct_families (wk_cohorts w))"
    using assms by (auto simp: delete_statements_def delete_cohort_row_eq Let_def bind_res_Inr_iff split: if_splits)
qed

lemma find_cohort_in: "find_cohort i ct = Some r \<Longrightarrow> r \<in> set (ct_cohorts ct) \<and> co_cohort_id r = i"
  unfolding find_cohort_def by (rule tbl_lookup_SomeD)

lemma inv_delete_stopped:
  assumes inv: "cohort_inv (wk_cohorts w)" "object_inv (wk_objects w)"
    and w': "w' = delete_stopped k rdir i purge force uuid now fault w"
  shows "cohort_inv (wk_cohorts w')" "object_inv (wk_objects w')"
proof -
  have "cohort_inv (wk_cohorts w') \<and> object_inv (wk_objects w')"
  proof (cases "wk_cohorts w' = wk_cohorts w \<and> wk_objects w' = wk_objects w")
    case False
    then obtain row where g: "delete_guard i force w = Inr (Some row)"
      and st: "delete_statements i purge force now row w = Inr (wk_cohorts w', wk_objects w')"
      using delete_stopped_tables[OF w'] by blast
    have i: "i \<in> cohort_ids (wk_cohorts w)" using find_cohort_in[OF delete_guardD(1)[OF g]] by auto
    obtain ds where ds: "wk_cohorts w' = remove_cohorts {i} ((wk_cohorts w)\<lparr>ct_detached := ds\<rparr>)"
      "tbl_inv dt_cohort_id (ct_detached (wk_cohorts w)) \<longrightarrow> tbl_inv dt_cohort_id ds"
      using delete_statementsD(2)[OF st] by blast
    have "cohort_inv ((wk_cohorts w)\<lparr>ct_detached := ds\<rparr>)"
      using inv(1) ds(2) by (simp add: cohort_inv_def pointer_ok_def)
    then have "cohort_inv (wk_cohorts w')"
      unfolding ds(1) using delete_guardD(3)[OF g] delete_statementsD(3)[OF st i] by (intro cohort_inv_remove) auto
    moreover have "object_inv (wk_objects w')"
      unfolding delete_statementsD(1)[OF st]
      using inv(2) by (auto simp: object_inv_def tbl_inv_filter)
    ultimately show ?thesis ..
  qed (simp add: inv)
  then show "cohort_inv (wk_cohorts w')" "object_inv (wk_objects w')" by simp_all
qed


section \<open>Deletion is all or nothing\<close>

text \<open>
  The directory of the cohort and the cohorts root are not reached through links, and nothing stands below the
  quarantine name, which holds a fresh UUID.
\<close>

definition plain_store :: "path \<Rightarrow> string \<Rightarrow> string \<Rightarrow> file_tree \<Rightarrow> bool" where
  "plain_store rdir i uuid t \<longleftrightarrow> link_free t (rdir @ [i, ''.detached''])
     \<and> (\<forall>p \<in> fst ` set t. \<not> below (rdir @ [purge_name i uuid]) p)"

lemma plain_storeD:
  assumes "plain_store rdir i uuid t"
  shows "link_free t rdir" "link_free t (rdir @ [i])" "link_free t (rdir @ [i, ''.detached''])"
    "\<forall>p \<in> fst ` set t. \<not> below (rdir @ [purge_name i uuid]) p"
  using assms link_free_prefix[of t rdir "[i, ''.detached'']"] link_free_prefix[of t "rdir @ [i]" "[''.detached'']"]
  by (auto simp: plain_store_def)

lemma cohort_dir_plain:
  assumes "plain_store rdir i uuid t" "cohort_dir rdir i t = Inr d"
  shows "d = rdir @ [i]"
  using cohort_dir_child[OF assms(2)] resolve_link_free[OF plain_storeD(1)[OF assms(1)]] by auto

text \<open>The sequences of effects a deletion may have.\<close>

definition delete_shape :: "path \<Rightarrow> string \<Rightarrow> bool \<Rightarrow> string \<Rightarrow> workspace \<Rightarrow> delete_effect list \<times> delete_effect list \<times> delete_effect list" where
  "delete_shape rdir i purge uuid w =
     (if purge \<and> exists_path (wk_tree w) (rdir @ [i])
      then ([MoveDir (rdir @ [i]) (rdir @ [purge_name i uuid])], [MoveDir (rdir @ [purge_name i uuid]) (rdir @ [i])],
            [DiscardDir (rdir @ [purge_name i uuid])])
      else if purge \<or> exists_path (wk_tree w) (rdir @ [i, ''.detached'']) then ([], [], [])
      else ([CreateMarker (rdir @ [i, ''.detached''])], [RemoveMarker (rdir @ [i, ''.detached''])], []))"

lemma delete_effects_shape_all:
  assumes plain: "plain_store rdir i uuid (wk_tree w)"
    and shape: "delete_shape rdir i purge uuid w = (first, undo, finish)"
  shows "(\<exists>res. res \<noteq> Inr True \<and> (\<forall>fault. delete_effects rdir i purge force uuid now fault w = ([], res)))
    \<or> (\<exists>row. delete_guard i force w = Inr (Some row) \<and> (\<forall>fault. delete_effects rdir i purge force uuid now fault w
          = delete_finish first undo finish fault (delete_statements i purge force now row w)))"
proof -
  note free = plain_storeD[OF plain]
  have r: "resolved (wk_tree w) rdir = Inr rdir" "resolved (wk_tree w) (rdir @ [i]) = Inr (rdir @ [i])"
    using free(1,2) by (simp_all add: resolved_def resolve_link_free)
  have marker: "m = rdir @ [i, ''.detached'']" if "keep_dataset_marker rdir i row (rdir @ [i]) t = Inr m" for m row t
    using that by (auto simp: keep_dataset_marker_def bind_res_Inr_iff split: if_splits)
  show ?thesis
  proof (cases "cohort_dir rdir i (wk_tree w)")
    case (Inl e)
    then show ?thesis by (simp add: delete_effects_def)
  next
    case (Inr d)
    then have d: "cohort_dir rdir i (wk_tree w) = Inr (rdir @ [i])" using cohort_dir_plain[OF plain Inr] by simp
    show ?thesis
    proof (cases "\<exists>row. delete_guard i force w = Inr (Some row)")
      case True
      then obtain row where g: "delete_guard i force w = Inr (Some row)" by blast
      then show ?thesis
        using shape by (auto simp: delete_effects_def d r delete_shape_def Let_def dest: marker split: if_splits sum.splits)
    next
      case False
      then show ?thesis by (cases "delete_guard i force w") (auto simp: delete_effects_def d split: option.splits)
    qed
  qed
qed

lemma delete_effects_shape:
  assumes "plain_store rdir i uuid (wk_tree w)" "delete_shape rdir i purge uuid w = (first, undo, finish)"
  shows "(\<exists>res. res \<noteq> Inr True \<and> delete_effects rdir i purge force uuid now fault w = ([], res))
    \<or> (\<exists>row. delete_guard i force w = Inr (Some row) \<and> delete_effects rdir i purge force uuid now fault w
          = delete_finish first undo finish fault (delete_statements i purge force now row w))"
  using delete_effects_shape_all[OF assms, of force now] by blast

lemma shape_undoes:
  assumes plain: "plain_store rdir i uuid (wk_tree w)"
    and shape: "delete_shape rdir i purge uuid w = (first, undo, finish)"
  shows "foldl apply_effect w (first @ undo) = w"
proof -
  note free = plain_storeD[OF plain]
  have "rdir @ [i, ''.detached''] \<notin> fst ` set (wk_tree w)" if "\<not> exists_path (wk_tree w) (rdir @ [i, ''.detached''])"
    using that by (simp add: exists_path_def stat_link_free[OF free(3)] map_of_eq_None_iff)
  then show ?thesis
    using shape rename_back[OF free(4)] unlink_touch
    by (auto simp: delete_shape_def apply_effect_def split: if_splits)
qed

lemma rename_rmtree_partly:
  assumes "\<forall>p \<in> fst ` set t. \<not> below q p"
  shows "rmtree_partly q left (rename_tree d q t) =
    rename_tree d q (filter (\<lambda>(p, n). below d p \<longrightarrow> list_ex (below (moved d q p)) (q # left)) t)"
proof -
  have "below q (moved d q p) \<longleftrightarrow> below d p" if "p \<in> fst ` set t" for p
    using assms that by (auto simp: moved_def below_def)
  then have "filter (\<lambda>x. below q (moved d q (fst x)) \<longrightarrow> list_ex (below (moved d q (fst x))) (q # left)) t =
      filter (\<lambda>x. below d (fst x) \<longrightarrow> list_ex (below (moved d q (fst x))) (q # left)) t"
    by (intro filter_cong refl) (metis image_eqI)
  then show ?thesis by (simp add: rmtree_partly_def rename_tree_def filter_map comp_def case_prod_unfold)
qed

text \<open>The ways a deletion can end without returning \<^verbatim>\<open>True\<close>.\<close>

lemma delete_finish_failure:
  assumes "delete_finish first undo finish fault st = (es, res)" "res \<noteq> Inr True"
  shows "es = [] \<or> es = first @ undo
    \<or> (fault = Some UndoFault \<and> res = Inl CohortOSError \<and> es = first)
    \<or> (\<exists>left ct ob. fault = Some (RemovalFault left) \<and> res = Inl CohortOSError \<and> st = Inr (ct, ob)
         \<and> finish \<noteq> [] \<and> es = first @ [CommitTables ct ob] @ map (discard_failing left) finish)"
  using assms unfolding delete_finish_def
  by (cases st; cases fault) (auto split: if_splits prod.splits list.splits delete_fault.splits)

lemma delete_failure:
  assumes plain: "plain_store rdir i uuid (wk_tree w)"
    and del: "delete_cohort rdir i purge force uuid now fault w = (w', res)" and res: "res \<noteq> Inr True"
  defines "d \<equiv> rdir @ [i]" and "q \<equiv> rdir @ [purge_name i uuid]" and "mk \<equiv> rdir @ [i, ''.detached'']"
  shows "w' = w
    \<or> (fault = Some UndoFault \<and> res = Inl CohortOSError \<and> wk_cohorts w' = wk_cohorts w \<and> wk_objects w' = wk_objects w
       \<and> wk_tree w' = (if purge then rename_tree d q (wk_tree w) else touch_file mk (wk_tree w)))
    \<or> (\<exists>left row. fault = Some (RemovalFault left) \<and> res = Inl CohortOSError \<and> purge
       \<and> delete_guard i force w = Inr (Some row)
       \<and> delete_statements i purge force now row w = Inr (wk_cohorts w', wk_objects w')
       \<and> wk_tree w' = rmtree_partly q left (rename_tree d q (wk_tree w)))"
proof -
  obtain first undo finish where shape: "delete_shape rdir i purge uuid w = (first, undo, finish)"
    using prod_cases3 by blast
  have undo: "foldl apply_effect w (first @ undo) = w" by (rule shape_undoes[OF plain shape])
  have eff: "delete_effects rdir i purge force uuid now fault w = (fst (delete_effects rdir i purge force uuid now fault w), res)"
    and w': "w' = foldl apply_effect w (fst (delete_effects rdir i purge force uuid now fault w))"
    using del by (auto simp: delete_cohort_def split: prod.splits)
  consider "fst (delete_effects rdir i purge force uuid now fault w) = []"
    | row where "delete_guard i force w = Inr (Some row)" "delete_finish first undo finish fault (delete_statements i purge force now row w)
        = (fst (delete_effects rdir i purge force uuid now fault w), res)"
    using delete_effects_shape[OF plain shape, of force now fault] eff by (metis fst_conv)
  then show ?thesis
  proof cases
    case 1
    then show ?thesis using w' by simp
  next
    case (2 row)
    from delete_finish_failure[OF 2(2) res] show ?thesis
    proof (elim disjE exE conjE)
      assume u: "fault = Some UndoFault" "res = Inl CohortOSError"
        "fst (delete_effects rdir i purge force uuid now fault w) = first"
      have at: "w' = foldl apply_effect w first" using w' u(3) by simp
      show ?thesis
        using shape u(1,2) by (auto simp: delete_shape_def d_def q_def mk_def at apply_effect_def split: if_splits)
    next
      fix left ct ob
      assume r: "fault = Some (RemovalFault left)" "res = Inl CohortOSError" "finish \<noteq> []"
        "delete_statements i purge force now row w = Inr (ct, ob)"
        "fst (delete_effects rdir i purge force uuid now fault w) = first @ [CommitTables ct ob] @ map (discard_failing left) finish"
      from shape r(3) have "purge" "first = [MoveDir d q]" "finish = [DiscardDir q]"
        by (auto simp: delete_shape_def d_def q_def split: if_splits)
      then have "w' = (w\<lparr>wk_cohorts := ct, wk_objects := ob,
          wk_tree := rmtree_partly q left (rename_tree d q (wk_tree w))\<rparr>)"
        using w' r(5) by (simp add: apply_effect_def)
      then show ?thesis using r(1,2,4) 2(1) \<open>purge\<close> by simp
    qed (use undo w' in simp_all)
  qed
qed

lemma find_remove_cohorts:
  assumes "tbl_inv co_cohort_id (ct_cohorts ct)"
  shows "find_cohort j (remove_cohorts ids ct) = (if j \<in> ids then None else find_cohort j ct)"
  using assms unfolding find_cohort_def remove_cohorts_def
  by (auto simp: tbl_lookup_filter split: option.split dest: tbl_lookup_SomeD)

lemma tags_remove_cohorts: "j \<notin> ids \<Longrightarrow> tags_of j (remove_cohorts ids ct) = tags_of j ct"
  unfolding tags_of_def remove_cohorts_def
  by simp (metis (mono_tags, lifting) filter_cong)

lemma delete_success:
  assumes plain: "plain_store rdir i uuid (wk_tree w)"
    and del: "delete_cohort rdir i purge force uuid now fault w = (w', Inr True)"
  shows "\<exists>row. delete_guard i force w = Inr (Some row)
    \<and> delete_statements i purge force now row w = Inr (wk_cohorts w', wk_objects w')
    \<and> wk_tree w' = (if purge then (if exists_path (wk_tree w) (rdir @ [i]) then rmtree (rdir @ [i]) (wk_tree w) else wk_tree w)
                    else touch_file (rdir @ [i, ''.detached'']) (wk_tree w))"
proof -
  note free = plain_storeD[OF plain]
  obtain first undo finish where shape: "delete_shape rdir i purge uuid w = (first, undo, finish)"
    using prod_cases3 by blast
  have eff: "delete_effects rdir i purge force uuid now fault w = (fst (delete_effects rdir i purge force uuid now fault w), Inr True)"
    and w': "w' = foldl apply_effect w (fst (delete_effects rdir i purge force uuid now fault w))"
    using del by (auto simp: delete_cohort_def split: prod.splits)
  obtain row where g: "delete_guard i force w = Inr (Some row)"
    and fin: "delete_effects rdir i purge force uuid now fault w
      = delete_finish first undo finish fault (delete_statements i purge force now row w)"
    using delete_effects_shape[OF plain shape, of force now fault] eff by (metis snd_conv)
  then obtain ct ob where st: "delete_statements i purge force now row w = Inr (ct, ob)"
    and es: "fst (delete_effects rdir i purge force uuid now fault w) = first @ [CommitTables ct ob] @ finish"
    using eff by (auto simp: delete_finish_def split: if_splits sum.splits prod.splits option.splits delete_fault.splits list.splits)
  have touch: "touch_file (rdir @ [i, ''.detached'']) (wk_tree w) = wk_tree w"
    if "exists_path (wk_tree w) (rdir @ [i, ''.detached''])"
    using that domIff[of "rdir @ [i, ''.detached'']" "map_of (wk_tree w)"]
    by (auto simp: exists_path_def stat_link_free[OF free(3)] touch_file_def dom_map_of_conv_image_fst)
  have "wk_cohorts w' = ct" "wk_objects w' = ob"
    "wk_tree w' = (if purge then (if exists_path (wk_tree w) (rdir @ [i]) then rmtree (rdir @ [i]) (wk_tree w) else wk_tree w)
                    else touch_file (rdir @ [i, ''.detached'']) (wk_tree w))"
    using shape touch rename_rmtree[OF free(4), of "rdir @ [i]"] unfolding w' es
    by (auto simp: delete_shape_def apply_effect_def split: if_splits)
  then show ?thesis using g st by blast
qed

text \<open>What a deletion that was committed has done to the tables.\<close>

definition cohort_removed :: "string \<Rightarrow> bool \<Rightarrow> workspace \<Rightarrow> workspace \<Rightarrow> bool" where
  "cohort_removed i purge w w' \<longleftrightarrow>
     (\<exists>row. find_cohort i (wk_cohorts w) = Some row \<and> \<not> co_pinned row
        \<and> (\<not> purge \<longrightarrow> map_option dt_dataset_path (tbl_lookup dt_cohort_id i (ct_detached (wk_cohorts w'))) = Some (co_dataset_path row)))
     \<and> i \<notin> pt_active_snapshot_id ` set (ct_pointers (wk_cohorts w))
     \<and> find_cohort i (wk_cohorts w') = None \<and> (\<forall>a \<in> set (ot_aliases (wk_objects w')). al_target_id a \<noteq> i)
     \<and> (\<forall>j. j \<noteq> i \<longrightarrow> find_cohort j (wk_cohorts w') = find_cohort j (wk_cohorts w)
                     \<and> tags_of j (wk_cohorts w') = tags_of j (wk_cohorts w))"

lemma delete_statements_removed:
  assumes "cohort_inv (wk_cohorts w)" and g: "delete_guard i force w = Inr (Some row)"
    and st: "delete_statements i purge force now row w = Inr (wk_cohorts w', wk_objects w')"
  shows "cohort_removed i purge w w'"
proof -
  obtain ds where ds: "wk_cohorts w' = remove_cohorts {i} ((wk_cohorts w)\<lparr>ct_detached := ds\<rparr>)"
    using delete_statementsD(2)[OF st] by blast
  have det: "map_option dt_dataset_path (tbl_lookup dt_cohort_id i (ct_detached (wk_cohorts w'))) = Some (co_dataset_path row)"
    if "\<not> purge"
  proof -
    let ?row = "\<lparr>dt_cohort_id = i, dt_dataset_path = co_dataset_path row,
      dt_dataset_sha256 = co_dataset_sha256 row, dt_detached_at = now\<rparr>"
    have "remove_cohorts {i} ((wk_cohorts w)\<lparr>ct_detached := tbl_upsert dt_cohort_id ?row (ct_detached (wk_cohorts w))\<rparr>) = wk_cohorts w'"
      using st that by (auto simp: delete_statements_def delete_cohort_row_eq Let_def bind_res_Inr_iff split: if_splits)
    from arg_cong[OF this, of ct_detached]
    have "ct_detached (wk_cohorts w') = tbl_upsert dt_cohort_id ?row (ct_detached (wk_cohorts w))"
      by (simp add: remove_cohorts_def)
    then show ?thesis using tbl_lookup_upsert_self[of dt_cohort_id ?row "ct_detached (wk_cohorts w)"] by simp
  qed
  have inv: "tbl_inv co_cohort_id (ct_cohorts ((wk_cohorts w)\<lparr>ct_detached := ds\<rparr>))"
    using assms(1) by (simp add: cohort_inv_def)
  have rest: "find_cohort j (wk_cohorts w') = (if j = i then None else find_cohort j (wk_cohorts w))"
    "j \<noteq> i \<Longrightarrow> tags_of j (wk_cohorts w') = tags_of j (wk_cohorts w)" for j
    unfolding ds using find_remove_cohorts[OF inv, of j "{i}"] tags_remove_cohorts[of j "{i}" "(wk_cohorts w)\<lparr>ct_detached := ds\<rparr>"]
    by (simp_all add: find_cohort_def tags_of_def)
  have "\<forall>a \<in> set (ot_aliases (wk_objects w')). al_target_id a \<noteq> i"
    using delete_statementsD(1)[OF st] delete_guardD(4)[OF g] by auto
  then show ?thesis using delete_guardD(1-3)[OF g] det rest by (auto simp: cohort_removed_def)
qed



section \<open>An example\<close>

text \<open>A store with one official pinned cohort, active for its source, and one imported cohort.\<close>

definition demo_digest :: "char \<Rightarrow> string" where "demo_digest c = replicate 64 c"

definition demo_sha :: "bytes \<Rightarrow> string" where
  "demo_sha b = demo_digest (case b of [] \<Rightarrow> CHR ''0'' | c # _ \<Rightarrow> c)"

definition demo_id :: "char \<Rightarrow> string" where "demo_id c = ''c-'' @ replicate 16 c"

definition demo_registration :: "char \<Rightarrow> bool \<Rightarrow> registration" where
  "demo_registration c official =
     \<lparr>rg_cohort_id = demo_id c, rg_name = (if official then None else Some ''mine''), rg_description = [],
      rg_origin_kind = (if official then ''official_source'' else ''import''),
      rg_origin_details = (if official then [(''source_snapshot_id'', JStr (demo_digest c)), (''source_name'', JStr ''cik_lookup'')] else []),
      rg_roster_id = demo_digest c, rg_row_count = 3, rg_distinct_cik_count = 3, rg_dataset_sha256 = demo_digest c,
      rg_dataset_path = demo_id c @ ''/ciks.parquet'', rg_pinned = official, rg_tags = [''t'']\<rparr>"

definition demo_row :: "char \<Rightarrow> bool \<Rightarrow> cohort_row" where
  "demo_row c official = row_of_registration (demo_registration c official) (demo_id c @ ''/ciks.parquet'') ''now''"

definition demo_tree :: file_tree where
  "demo_tree = [([], Dir), ([''r''], Dir), ([''r'', ''cohorts.sqlite''], File ''db''),
     ([''r'', demo_id CHR ''a''], Dir), ([''r'', demo_id CHR ''a'', ''ciks.parquet''], File ''a''),
     ([''r'', demo_id CHR ''b''], Dir), ([''r'', demo_id CHR ''b'', ''ciks.parquet''], File ''b'')]"

definition demo_cohorts :: cohort_tables where
  "demo_cohorts = \<lparr>ct_cohorts = [demo_row CHR ''a'' True, demo_row CHR ''b'' False],
     ct_tags = [\<lparr>tg_cohort_id = demo_id CHR ''a'', tg_tag = ''t'', tg_created_at = ''now''\<rparr>,
                \<lparr>tg_cohort_id = demo_id CHR ''b'', tg_tag = ''t'', tg_created_at = ''now''\<rparr>],
     ct_pointers = [\<lparr>pt_source_name = ''cik_lookup'', pt_active_snapshot_id = demo_id CHR ''a'', pt_pinned_at = ''now''\<rparr>],
     ct_families = [], ct_detached = []\<rparr>"

definition demo_workspace :: workspace where
  "demo_workspace = \<lparr>wk_objects = empty_object_tables, wk_cohorts = demo_cohorts, wk_tree = demo_tree\<rparr>"

lemma demo_ids:
  "demo_id CHR ''a'' = ''c-aaaaaaaaaaaaaaaa''" "demo_id CHR ''b'' = ''c-bbbbbbbbbbbbbbbb''"
  by (simp_all add: demo_id_def numeral_eq_Suc)

lemma demo_digest_ok: "lower_hex c \<Longrightarrow> is_sha256_hex_digest (demo_digest c)"
  by (simp add: is_sha256_hex_digest_def demo_digest_def list_all_iff)

lemma demo_row_columns:
  "co_cohort_id (demo_row c official) = demo_id c" "co_pinned (demo_row c official) = official"
  "co_name (demo_row c official) = (if official then None else Some ''mine'')"
  "co_dataset_path (demo_row c official) = demo_id c @ ''/ciks.parquet''"
  by (simp_all add: demo_row_def row_of_registration_def demo_registration_def)

lemma demo_row_ok: "lower_hex c \<Longrightarrow> identity_ok (demo_row c official)"
  by (simp add: identity_ok_def demo_row_def row_of_registration_def demo_registration_def demo_digest_ok)
    (simp add: demo_digest_def demo_id_def)

lemma demo_cohorts_inv: "cohort_inv demo_cohorts"
proof -
  have "identity_ok (demo_row CHR ''a'' True)" "identity_ok (demo_row CHR ''b'' False)"
    by (rule demo_row_ok, simp add: lower_hex_def)+
  moreover have "official_for ''cik_lookup'' (demo_row CHR ''a'' True)"
    by (simp add: official_for_def demo_row_def row_of_registration_def demo_registration_def)
  ultimately show ?thesis
    by (simp add: cohort_inv_def demo_cohorts_def tbl_inv_def names_unique_def pointer_ok_def demo_row_columns demo_ids)
qed

lemma demo_plain: "plain_store [''r''] (demo_id CHR ''b'') ''u'' demo_tree"
  unfolding demo_ids demo_tree_def plain_store_def by code_simp

lemma demo_files:
  "cohort_dir [''r''] (demo_id CHR ''b'') demo_tree = Inr [''r'', demo_id CHR ''b'']"
  "resolved demo_tree [''r''] = Inr [''r'']" "resolved demo_tree [''r'', demo_id CHR ''b''] = Inr [''r'', demo_id CHR ''b'']"
  "exists_path demo_tree [''r'', demo_id CHR ''b'']"
proof -
  have free: "link_free demo_tree [''r'']" "link_free demo_tree [''r'', demo_id CHR ''b'']"
    using plain_storeD(1,2)[OF demo_plain] by simp_all
  have "safe_id (demo_id CHR ''b'')" "\<not> has_dotdot (demo_id CHR ''b'')" unfolding demo_ids by code_simp+
  then show "cohort_dir [''r''] (demo_id CHR ''b'') demo_tree = Inr [''r'', demo_id CHR ''b'']"
    by (simp add: cohort_dir_def resolved_def resolve_link_free free child_of_def)
  show "resolved demo_tree [''r''] = Inr [''r'']" "resolved demo_tree [''r'', demo_id CHR ''b''] = Inr [''r'', demo_id CHR ''b'']"
    by (simp_all add: resolved_def resolve_link_free free)
  show "exists_path demo_tree [''r'', demo_id CHR ''b'']"
    by (simp add: exists_path_def stat_link_free free) (simp add: demo_tree_def demo_ids)
qed

lemma demo_delete:
  "snd (delete_cohort [''r''] (demo_id CHR ''b'') True False ''u'' ''then'' None demo_workspace) = Inr True"
proof -
  have g: "delete_guard (demo_id CHR ''b'') False demo_workspace = Inr (Some (demo_row CHR ''b'' False))"
    by (simp add: delete_guard_def demo_workspace_def find_cohort_def demo_cohorts_def tbl_lookup_Cons demo_row_columns
        demo_ids empty_object_tables_def)
  have st: "\<exists>x. delete_statements (demo_id CHR ''b'') True False ''then'' (demo_row CHR ''b'' False) demo_workspace = Inr x"
    by (simp add: delete_statements_def delete_cohort_row_def demo_workspace_def demo_cohorts_def)
  have tree: "wk_tree demo_workspace = demo_tree" by (simp add: demo_workspace_def)
  show ?thesis
    using st by (auto simp: delete_cohort_def delete_effects_def g tree demo_files delete_finish_def Let_def split: prod.splits)
qed



section \<open>Registration and look-up\<close>

lemma check_registration_dataset:
  assumes "check_registration sha rdir g t = Inr d"
  shows "\<exists>p b. resolve_relative_path rdir d t = Inr p \<and> file_bytes t p = Some b \<and> sha b = rg_dataset_sha256 g"
  using assms unfolding check_registration_def
  by (auto simp: bind_res_Inr_iff split: if_splits)

lemma register_Inr_cases:
  assumes "register_cohort sha rdir g now w = (w', Inr rec)"
  obtains (old) d final_dir row where "check_registration sha rdir g (wk_tree w) = Inr d"
      "cohort_dir rdir (rg_cohort_id g) (wk_tree w) = Inr final_dir" "w' = w" "rec = record_of (wk_cohorts w) row"
      "find_cohort (rg_cohort_id g) (wk_cohorts w) = Some row" "co_roster_id row = rg_roster_id g"
      "co_dataset_sha256 row = rg_dataset_sha256 g" "co_dataset_path row = d"
  | (new) d final_dir where "check_registration sha rdir g (wk_tree w) = Inr d"
      "cohort_dir rdir (rg_cohort_id g) (wk_tree w) = Inr final_dir"
      "w' = w\<lparr>wk_cohorts := insert_cohort g d now (wk_cohorts w)\<rparr>"
      "rec = record_of (wk_cohorts w') (row_of_registration g d now)"
      "find_cohort (rg_cohort_id g) (wk_cohorts w) = None"
  using assms unfolding register_cohort_def
  by (auto simp: Let_def split: sum.splits option.splits if_splits)

lemma find_insert_cohort:
  assumes "find_cohort (rg_cohort_id g) ct = None"
  shows "find_cohort j (insert_cohort g d now ct) =
    (if j = rg_cohort_id g then Some (row_of_registration g d now) else find_cohort j ct)"
  using assms by (auto simp: find_cohort_def insert_cohort_def tbl_lookup_append tbl_lookup_Cons row_of_registration_def
      split: option.split)


lemma demo_dataset:
  "resolve_relative_path [''r''] (demo_id CHR ''b'' @ ''/ciks.parquet'') demo_tree = Inr [''r'', demo_id CHR ''b'', ''ciks.parquet'']"
  "relative_path [''r''] [''r'', demo_id CHR ''b'', ''ciks.parquet''] demo_tree = Inr (demo_id CHR ''b'' @ ''/ciks.parquet'')"
  "file_bytes demo_tree [''r'', demo_id CHR ''b'', ''ciks.parquet''] = Some ''b''"
proof -
  let ?raw = "''c-bbbbbbbbbbbbbbbb/ciks.parquet''"
  have raw: "''c-bbbbbbbbbbbbbbbb'' @ ''/ciks.parquet'' = ?raw" by simp
  have parts: "path_parts ?raw = [''c-bbbbbbbbbbbbbbbb'', ''ciks.parquet'']" by code_simp
  have join: "slash_join [''c-bbbbbbbbbbbbbbbb'', ''ciks.parquet''] = ?raw" by simp
  have raw_ok: "\<not> is_absolute ?raw" "char_of (92::nat) \<notin> set ?raw" "CHR '':'' \<notin> set ?raw" by code_simp+
  have plain: "\<not> (\<exists>part \<in> set [''c-bbbbbbbbbbbbbbbb'', ''ciks.parquet'']. part \<in> {[], ''.'', ''..''})" by simp
  have free: "link_free demo_tree [''r'', ''c-bbbbbbbbbbbbbbbb'', ''ciks.parquet'']" "link_free demo_tree [''r'']"
    unfolding demo_ids demo_tree_def by code_simp+
  show "resolve_relative_path [''r''] (demo_id CHR ''b'' @ ''/ciks.parquet'') demo_tree = Inr [''r'', demo_id CHR ''b'', ''ciks.parquet'']"
    unfolding demo_ids raw resolve_relative_path_def Let_def parts
    using raw_ok join plain by (simp add: resolved_def resolve_link_free free is_relative_to_def del: set_simps)
  show "relative_path [''r''] [''r'', demo_id CHR ''b'', ''ciks.parquet''] demo_tree = Inr (demo_id CHR ''b'' @ ''/ciks.parquet'')"
    unfolding demo_ids by (simp add: relative_path_def resolved_def resolve_link_free free is_relative_to_def)
  show "file_bytes demo_tree [''r'', demo_id CHR ''b'', ''ciks.parquet''] = Some ''b''"
    unfolding demo_ids by (simp add: file_bytes_def stat_link_free free) (simp add: demo_tree_def demo_ids)
qed

lemma demo_register:
  "\<exists>w' rec. register_cohort demo_sha [''r''] (demo_registration CHR ''b'' False) ''now''
     \<lparr>wk_objects = empty_object_tables, wk_cohorts = empty_cohort_tables, wk_tree = demo_tree\<rparr> = (w', Inr rec)"
proof -
  let ?g = "demo_registration CHR ''b'' False"
  have g: "rg_cohort_id ?g = demo_id CHR ''b''" "rg_dataset_path ?g = demo_id CHR ''b'' @ ''/ciks.parquet''"
    "rg_dataset_sha256 ?g = demo_digest CHR ''b''" "rg_roster_id ?g = demo_digest CHR ''b''" "rg_tags ?g = [''t'']"
    "rg_row_count ?g = 3" "rg_distinct_cik_count ?g = 3" "rg_origin_kind ?g = ''import''"
    by (simp_all add: demo_registration_def)
  have digest: "is_sha256_hex_digest (demo_digest CHR ''b'')" "demo_id CHR ''b'' = ''c-'' @ take 16 (demo_digest CHR ''b'')"
    by (rule demo_digest_ok, simp add: lower_hex_def) (simp add: demo_id_def demo_digest_def)
  have "check_registration demo_sha [''r''] ?g demo_tree = Inr (demo_id CHR ''b'' @ ''/ciks.parquet'')"
    using demo_dataset demo_files(1) digest
    by (simp add: check_registration_def g identity_digest_def cohort_dataset_file_def COHORT_DATASET_FILE_NAME_def demo_sha_def)
  then show ?thesis
    using demo_files(1)
    by (simp add: register_cohort_def g empty_cohort_tables_def find_cohort_def tbl_lookup_Cons Let_def)
qed


text \<open>
  A name takes precedence over an identifier: after another cohort is renamed to an identifier, that identifier
  finds the other cohort.
\<close>

lemma name_shadows_identifier:
  assumes "cohort_inv ct" "rename_cohort j i now ct = Inr ct'"
  shows "\<exists>row. get_cohort i ct' = Some (record_of ct' row) \<and> co_cohort_id row = j"
proof -
  have ct': "ct' = update_cohort j (\<lambda>r. r\<lparr>co_name := Some i, co_updated_at := now\<rparr>) ct" and j: "j \<in> cohort_ids ct"
    using assms(2) by (auto simp: rename_cohort_def split: if_splits)
  from j obtain s where s: "s \<in> set (ct_cohorts ct)" "co_cohort_id s = j" by auto
  define r where "r = s\<lparr>co_name := Some i, co_updated_at := now\<rparr>"
  have r: "r \<in> set (ct_cohorts ct')" "co_cohort_id r = j" "co_name r = Some i"
    using s by (auto simp: ct' update_cohort_def r_def image_iff intro!: bexI[of _ s])
  then obtain row where row: "find_name i ct' = Some row"
    by (cases "find_name i ct'") (auto simp: find_name_def find_None_iff)
  then have "row \<in> set (ct_cohorts ct')" "co_name row = Some i"
    by (auto simp: find_name_def find_Some_iff)
  moreover have "names_unique (ct_cohorts ct')" using cohort_inv_rename[OF assms] by (simp add: cohort_inv_def)
  ultimately have "co_cohort_id row = j" using names_uniqueD r by metis
  then show ?thesis using row by (auto simp: get_cohort_def)
qed

end
