(* ===== verification/CohortMaintenance.thy ===== *)
theory CohortMaintenance
  imports CohortCatalog
begin

text \<open>
  The maintenance of the cohort store, \<^verbatim>\<open>infra/storage/cohort/maintenance.py\<close>, with the staging leases of \<^verbatim>\<open>paths.py\<close>:
  the five clean-ups and \<^verbatim>\<open>maintain_cohort_store\<close>, which runs the selected ones under the publication lock. A clean-up
  that raises leaves what it has already removed removed, so each returns the files with its outcome. What the
  host knows (its name, its processes, the clock, the modification times and the lease texts of the staging
  directories) is the record \<open>stage_env\<close>, a parameter.
\<close>

section \<open>Staging leases\<close>

text \<open>
  \<open>se_lease\<close> is the parsed lease file, \<open>None\<close> when it cannot be read or parsed; \<open>se_fromiso\<close> is
  \<^verbatim>\<open>datetime.fromisoformat\<close>, the instant in seconds and whether it has a time zone; \<open>se_uuid\<close> is the fresh part of the
  quarantine name given to a directory.
\<close>

record stage_env =
  se_hostname :: string
  se_pid_exists :: "int \<Rightarrow> bool"
  se_lease :: "path \<Rightarrow> json option"
  se_fromiso :: "string \<Rightarrow> (rat \<times> bool) option"
  se_mtime :: "path \<Rightarrow> rat"
  se_now :: rat
  se_uuid :: "path \<Rightarrow> string"

definition MAX_STAGING_LEASE_SECONDS :: rat where "MAX_STAGING_LEASE_SECONDS = 7200"

definition lease_state :: "stage_env \<Rightarrow> json dict \<Rightarrow> bool option" where
  "lease_state env lease =
     (case map_of lease ''host'' of
        Some (JStr host) \<Rightarrow>
          if host = [] then None
          else (case map_of lease ''pid'' of
             Some (JInt pid) \<Rightarrow>
               if pid \<le> 0 then None
               else if host = se_hostname env then Some (se_pid_exists env pid)
               else (case (map_of lease ''created_at'', map_of lease ''heartbeat'') of
                  (Some (JStr c), Some (JStr h)) \<Rightarrow>
                    (case (se_fromiso env c, se_fromiso env h) of
                       (Some (_, c_tz), Some (heartbeat, h_tz)) \<Rightarrow>
                         if \<not> c_tz \<or> \<not> h_tz then None
                         else Some (se_now env - heartbeat \<le> MAX_STAGING_LEASE_SECONDS)
                     | _ \<Rightarrow> None)
                | _ \<Rightarrow> None)
           | _ \<Rightarrow> None)
      | _ \<Rightarrow> None)"

definition staging_lease_is_unexpired ::
  "stage_env \<Rightarrow> path \<Rightarrow> path \<Rightarrow> file_tree \<Rightarrow> (cohort_error, bool option) result" where
  "staging_lease_is_unexpired env rdir candidate t =
     bind_res (staging_path rdir candidate t) (\<lambda>stage.
       Inr (if is_symlink t (stage @ [STAGING_LEASE_NAME]) then None
            else case se_lease env stage of Some (JObj lease) \<Rightarrow> lease_state env lease | _ \<Rightarrow> None))"

section \<open>The clean-ups\<close>

definition cohort_dir_match :: "string \<Rightarrow> bool" where
  "cohort_dir_match s \<longleftrightarrow> length s = 18 \<and> starts_with ''c-'' s \<and> list_all lower_hex (drop 2 s)"

definition resolved_dataset :: "path \<Rightarrow> string \<Rightarrow> file_tree \<Rightarrow> (cohort_error, path) result" where
  "resolved_dataset rdir dataset_path t =
     bind_res (resolve_relative_path rdir dataset_path t) (\<lambda>target.
       let parts = path_parts dataset_path in
       if list_ex (\<lambda>k. is_symlink t (rdir @ take k parts)) [0..<length parts] then Inl CohortValueError
       else if is_symlink t (rdir @ parts) then Inl CohortValueError
       else Inr target)"

definition safe_remove_cohort_dir :: "path \<Rightarrow> string \<Rightarrow> file_tree \<Rightarrow> file_tree \<times> bool" where
  "safe_remove_cohort_dir rdir name t =
     (if is_symlink t (rdir @ [name]) \<or> \<not> cohort_dir_match name then (t, False)
      else if resolve t rdir = None then (t, False)
      else (rmtree (real_dir t rdir @ [name]) t, True))"

text \<open>\<^verbatim>\<open>s.rsplit("-", 1)[0]\<close>\<close>

definition rsplit_head :: "string \<Rightarrow> string" where
  "rsplit_head s = (if CHR ''-'' \<in> set s then rev (tl (dropWhile (\<lambda>c. c \<noteq> CHR ''-'') (rev s))) else s)"

type_synonym 'a cleaned = "file_tree \<times> (cohort_error, 'a) result"

definition removed_stage :: "path \<Rightarrow> path \<Rightarrow> file_tree \<Rightarrow> nat cleaned" where
  "removed_stage rdir stage t =
     (case remove_staging_dir rdir stage t of Inl e \<Rightarrow> (t, Inl e) | Inr t' \<Rightarrow> (t', Inr 1))"

definition clean_stage :: "stage_env \<Rightarrow> path \<Rightarrow> string set \<Rightarrow> bool \<Rightarrow> string \<Rightarrow> file_tree \<Rightarrow> nat cleaned" where
  "clean_stage env rdir known_ids force name t =
     (let stage = rdir @ [name]; age = se_now env - se_mtime env stage;
          expired = (force \<or> of_int STAGING_QUARANTINE_EXPIRY_SECONDS < age) in
      if starts_with STAGING_QUARANTINE_PREFIX name then (if expired then removed_stage rdir stage t else (t, Inr 0))
      else if starts_with (STAGING_PREFIX @ ''purge-'') name then
        (let cohort_id = rsplit_head (drop (length (STAGING_PREFIX @ ''purge-'')) name) in
         if \<not> cohort_dir_match cohort_id then (t, Inr 0)
         else case cohort_dir rdir cohort_id t of
           Inl e \<Rightarrow> (t, Inl e)
         | Inr final_dir \<Rightarrow>
             if cohort_id \<in> known_ids \<and> \<not> exists_path t final_dir then (rename_tree (real_dir t rdir @ [name]) final_dir t, Inr 0)
             else removed_stage rdir stage t)
      else (case staging_lease_is_unexpired env rdir stage t of
          Inl e \<Rightarrow> (t, Inl e)
        | Inr (Some True) \<Rightarrow> (t, Inr 0)
        | Inr (Some False) \<Rightarrow> removed_stage rdir stage t
        | Inr None \<Rightarrow>
            (let quarantine = STAGING_QUARANTINE_PREFIX @ se_uuid env stage @ ''-'' @ name;
                 t' = rename_tree (real_dir t rdir @ [name]) (real_dir t rdir @ [quarantine]) t in
             if expired then removed_stage rdir (rdir @ [quarantine]) t' else (t', Inr 0))))"

text \<open>A loop that adds up what its body removes and stops at the first error.\<close>

fun clean_each :: "('a \<Rightarrow> file_tree \<Rightarrow> nat cleaned) \<Rightarrow> 'a list \<Rightarrow> file_tree \<Rightarrow> nat cleaned" where
  "clean_each f [] t = (t, Inr 0)"
| "clean_each f (x # xs) t =
     (case f x t of
        (t1, Inl e) \<Rightarrow> (t1, Inl e)
      | (t1, Inr n) \<Rightarrow> (case clean_each f xs t1 of (t2, Inl e) \<Rightarrow> (t2, Inl e) | (t2, Inr m) \<Rightarrow> (t2, Inr (n + m))))"

definition clean_staging :: "stage_env \<Rightarrow> path \<Rightarrow> bool \<Rightarrow> cohort_tables \<Rightarrow> file_tree \<Rightarrow> nat cleaned" where
  "clean_staging env rdir force ct t =
     clean_each (clean_stage env rdir (cohort_ids ct) force) (map last (cohort_staging_dirs rdir t)) t"

definition marked_detached :: "path \<Rightarrow> string \<Rightarrow> file_tree \<Rightarrow> bool" where
  "marked_detached rdir name t \<longleftrightarrow> is_file t (rdir @ [name, ''.detached''])"

definition clean_orphan :: "path \<Rightarrow> cohort_tables \<Rightarrow> string \<Rightarrow> file_tree \<Rightarrow> nat cleaned" where
  "clean_orphan rdir ct name t =
     (if \<not> cohort_dir_match name \<or> is_symlink t (rdir @ [name]) \<or> \<not> is_dir t (rdir @ [name])
         \<or> name \<in> cohort_ids ct \<or> name \<in> dt_cohort_id ` set (ct_detached ct) \<or> marked_detached rdir name t
      then (t, Inr 0)
      else (case safe_remove_cohort_dir rdir name t of (t', removed) \<Rightarrow> (t', Inr (if removed then 1 else 0))))"

definition clean_orphans :: "path \<Rightarrow> cohort_tables \<Rightarrow> file_tree \<Rightarrow> nat cleaned" where
  "clean_orphans rdir ct t = clean_each (clean_orphan rdir ct) (child_names t rdir) t"

text \<open>The cohorts whose dataset is gone and that nothing protects; the rest of them is left with a warning.\<close>

definition clean_missing :: "path \<Rightarrow> cohort_tables \<Rightarrow> file_tree \<Rightarrow> string list" where
  "clean_missing rdir ct t =
     map co_cohort_id (filter (\<lambda>row.
         co_cohort_id row \<notin> dt_cohort_id ` set (ct_detached ct)
         \<and> (case resolved_dataset rdir (co_dataset_path row) t of Inl _ \<Rightarrow> False | Inr dataset \<Rightarrow> \<not> exists_path t dataset)
         \<and> \<not> co_pinned row
         \<and> co_cohort_id row \<notin> pt_active_snapshot_id ` set (ct_pointers ct)
         \<and> co_cohort_id row \<notin> fi_universe_cohort_id ` set (ct_families ct))
       (sort_key co_cohort_id (ct_cohorts ct)))"

text \<open>One detached dataset: the files afterwards and whether its record is to be deleted.\<close>

definition clean_detached_one :: "path \<Rightarrow> cohort_tables \<Rightarrow> string \<Rightarrow> file_tree \<Rightarrow> file_tree \<times> nat \<times> bool" where
  "clean_detached_one rdir ct cohort_id t =
     (let path_ok = (case tbl_lookup dt_cohort_id cohort_id (ct_detached ct) of
            None \<Rightarrow> True
          | Some d \<Rightarrow> (case (resolved_dataset rdir (dt_dataset_path d) t, cohort_dataset_file rdir cohort_id t) of
               (Inr recorded, Inr expected) \<Rightarrow> recorded = expected | _ \<Rightarrow> False)) in
      if \<not> cohort_dir_match cohort_id \<or> cohort_id \<in> cohort_ids ct \<or> \<not> path_ok then (t, 0, False)
      else if exists_path t (rdir @ [cohort_id]) then
        (if is_symlink t (rdir @ [cohort_id, ''.detached'']) \<or> \<not> marked_detached rdir cohort_id t then (t, 0, False)
         else case safe_remove_cohort_dir rdir cohort_id t of (t', removed) \<Rightarrow> (t', if removed then 1 else 0, removed))
      else (t, 0, True))"

definition detached_targets :: "path \<Rightarrow> cohort_tables \<Rightarrow> file_tree \<Rightarrow> string list" where
  "detached_targets rdir ct t =
     sort (remdups (map dt_cohort_id (ct_detached ct)
       @ (if is_dir t rdir then filter (\<lambda>name. cohort_dir_match name \<and> \<not> is_symlink t (rdir @ [name]) \<and> is_dir t (rdir @ [name])
              \<and> marked_detached rdir name t \<and> \<not> is_symlink t (rdir @ [name, ''.detached''])) (child_names t rdir) else [])))"

fun clean_detached_each :: "path \<Rightarrow> cohort_tables \<Rightarrow> string list \<Rightarrow> file_tree \<Rightarrow> file_tree \<times> nat \<times> string list" where
  "clean_detached_each rdir ct [] t = (t, 0, [])"
| "clean_detached_each rdir ct (i # is) t =
     (case clean_detached_one rdir ct i t of (t1, n, forget) \<Rightarrow>
        (case clean_detached_each rdir ct is t1 of (t2, m, ids) \<Rightarrow> (t2, n + m, (if forget then i # ids else ids))))"

definition clean_detached :: "path \<Rightarrow> cohort_tables \<Rightarrow> file_tree \<Rightarrow> file_tree \<times> nat \<times> string list" where
  "clean_detached rdir ct t = clean_detached_each rdir ct (detached_targets rdir ct t) t"

definition clean_raw_snapshots :: "path \<Rightarrow> file_tree \<Rightarrow> nat cleaned" where
  "clean_raw_snapshots rdir t =
     (let snapshots = rdir @ [''source_snapshots''] in
      if is_symlink t snapshots \<or> \<not> is_dir t snapshots then (t, Inr 0)
      else case (resolve t rdir, resolve t snapshots) of
        (Some r, Some s) \<Rightarrow> if butlast s \<noteq> r then (t, Inl CohortValueError) else (rmtree s t, Inr 1)
      | _ \<Rightarrow> (t, Inl CohortRuntimeError))"

section \<open>Maintenance\<close>

record maintenance_options =
  mo_clean_stale_staging :: bool
  mo_clean_orphans :: bool
  mo_clean_missing :: bool
  mo_clean_detached :: bool
  mo_clean_raw_snapshots :: bool
  mo_all :: bool
  mo_force :: bool

type_synonym step_report = "(cohort_error, (string \<times> nat) list) result"

definition on_tree :: "string \<Rightarrow> (file_tree \<Rightarrow> nat cleaned) \<Rightarrow> workspace \<Rightarrow> workspace \<times> step_report" where
  "on_tree name clean w =
     (case clean (wk_tree w) of
        (t, Inl e) \<Rightarrow> (w\<lparr>wk_tree := t\<rparr>, Inl e) | (t, Inr n) \<Rightarrow> (w\<lparr>wk_tree := t\<rparr>, Inr [(name, n)]))"

definition maintain_staging :: "stage_env \<Rightarrow> path \<Rightarrow> bool \<Rightarrow> workspace \<Rightarrow> workspace \<times> step_report" where
  "maintain_staging env rdir force w = on_tree ''staging'' (clean_staging env rdir force (wk_cohorts w)) w"

text \<open>No cohort that is removed is a universe, so no foreign key holds the statement back; tags cascade.\<close>

definition maintain_missing :: "path \<Rightarrow> workspace \<Rightarrow> workspace \<times> step_report" where
  "maintain_missing rdir w =
     (let missing_ids = clean_missing rdir (wk_cohorts w) (wk_tree w) in
      (w\<lparr>wk_cohorts := remove_cohorts (set missing_ids) (wk_cohorts w)\<rparr>, Inr [(''missing'', length missing_ids)]))"

definition maintain_orphans :: "path \<Rightarrow> workspace \<Rightarrow> workspace \<times> step_report" where
  "maintain_orphans rdir w = on_tree ''orphans'' (clean_orphans rdir (wk_cohorts w)) w"

definition maintain_detached :: "path \<Rightarrow> workspace \<Rightarrow> workspace \<times> step_report" where
  "maintain_detached rdir w =
     (case clean_detached rdir (wk_cohorts w) (wk_tree w) of
        (t, n, ids) \<Rightarrow>
          (w\<lparr>wk_tree := t, wk_cohorts := (wk_cohorts w)\<lparr>ct_detached :=
               filter (\<lambda>d. dt_cohort_id d \<notin> set ids) (ct_detached (wk_cohorts w))\<rparr>\<rparr>, Inr [(''detached'', n)]))"

definition maintain_raw_snapshots :: "path \<Rightarrow> workspace \<Rightarrow> workspace \<times> step_report" where
  "maintain_raw_snapshots rdir w = on_tree ''raw_snapshots'' (clean_raw_snapshots rdir) w"

fun run_steps :: "(workspace \<Rightarrow> workspace \<times> step_report) list \<Rightarrow> workspace \<Rightarrow> workspace \<times> step_report" where
  "run_steps [] w = (w, Inr [])"
| "run_steps (s # ss) w =
     (case s w of
        (w1, Inl e) \<Rightarrow> (w1, Inl e)
      | (w1, Inr r) \<Rightarrow> (case run_steps ss w1 of (w2, Inl e) \<Rightarrow> (w2, Inl e) | (w2, Inr rs) \<Rightarrow> (w2, Inr (r @ rs))))"

definition maintenance_steps :: "stage_env \<Rightarrow> path \<Rightarrow> maintenance_options \<Rightarrow> (workspace \<Rightarrow> workspace \<times> step_report) list" where
  "maintenance_steps env rdir opts =
     (if mo_clean_stale_staging opts \<or> mo_all opts then [maintain_staging env rdir (mo_force opts)] else [])
     @ (if mo_clean_missing opts \<or> mo_all opts then [maintain_missing rdir] else [])
     @ (if mo_clean_orphans opts \<or> mo_all opts then [maintain_orphans rdir] else [])
     @ (if mo_clean_detached opts then [maintain_detached rdir] else [])
     @ (if mo_clean_raw_snapshots opts then [maintain_raw_snapshots rdir] else [])"

definition CATALOG_FILE_NAME :: string where "CATALOG_FILE_NAME = ''cohorts.sqlite''"

text \<open>
  \<open>sound\<close> is that \<^verbatim>\<open>_check_catalog\<close> (SQLite's integrity check, the schema and the foreign keys) reports nothing. Every
  error from then on is reported as an unavailable catalog, with what was already done left done.
\<close>

definition maintain_cohort_store ::
  "stage_env \<Rightarrow> path \<Rightarrow> bool \<Rightarrow> maintenance_options \<Rightarrow> workspace \<Rightarrow> workspace \<times> step_report" where
  "maintain_cohort_store env rdir sound opts w =
     (if \<not> (mo_clean_stale_staging opts \<or> mo_clean_orphans opts \<or> mo_clean_missing opts \<or> mo_clean_detached opts
            \<or> mo_clean_raw_snapshots opts \<or> mo_all opts) then (w, Inl CohortValueError)
      else if mo_force opts \<and> \<not> (mo_clean_stale_staging opts \<or> mo_all opts) then (w, Inl CohortValueError)
      else if is_symlink (wk_tree w) (rdir @ [CATALOG_FILE_NAME]) \<or> \<not> is_file (wk_tree w) (rdir @ [CATALOG_FILE_NAME])
        \<or> \<not> sound then (w, Inl CatalogUnavailableError)
      else (case run_steps (maintenance_steps env rdir opts) w of
          (w', Inl e) \<Rightarrow> (w', Inl CatalogUnavailableError)
        | (w', Inr removed) \<Rightarrow> (w', Inr (sort_key fst removed))))"

section \<open>The tables after maintenance\<close>

lemma run_steps_rel:
  assumes "\<And>s w. s \<in> set ss \<Longrightarrow> P w \<Longrightarrow> P (fst (s w)) \<and> R w (fst (s w))"
    and "\<And>w. R w w" "\<And>u v w. R u v \<Longrightarrow> R v w \<Longrightarrow> R u w" and "P w"
  shows "P (fst (run_steps ss w)) \<and> R w (fst (run_steps ss w))"
  using assms(1,4)
proof (induction ss arbitrary: w)
  case Nil
  then show ?case using assms(2) by simp
next
  case (Cons s ss)
  obtain w1 r1 where s: "s w = (w1, r1)" by (cases "s w")
  have one: "P w1 \<and> R w w1" using Cons.prems(1)[of s w] Cons.prems(2) s by simp
  obtain w2 r2 where rest: "run_steps ss w1 = (w2, r2)" by (cases "run_steps ss w1")
  have two: "P w2 \<and> R w1 w2" using Cons.IH[of w1] Cons.prems(1) one rest by simp
  have "fst (run_steps (s # ss) w) \<in> {w1, w2}" by (simp add: s rest split: sum.split)
  then show ?case using one two assms(3) by blast
qed

lemma maintain_cases:
  "fst (maintain_cohort_store env rdir sound opts w) = w
   \<or> fst (maintain_cohort_store env rdir sound opts w) = fst (run_steps (maintenance_steps env rdir opts) w)"
  by (auto simp: maintain_cohort_store_def split: prod.splits sum.splits)

lemma on_tree_fst: "fst (on_tree name clean w) = w\<lparr>wk_tree := fst (clean (wk_tree w))\<rparr>"
  by (simp add: on_tree_def split: prod.splits sum.splits)

lemma maintenance_step_one:
  "s \<in> set (maintenance_steps env rdir opts) \<Longrightarrow>
   s = maintain_staging env rdir (mo_force opts) \<or> s = maintain_missing rdir \<or> s = maintain_orphans rdir
   \<or> s = maintain_detached rdir \<or> s = maintain_raw_snapshots rdir"
  by (auto simp: maintenance_steps_def split: if_splits)

lemma maintenance_step_tables:
  assumes "s \<in> set (maintenance_steps env rdir opts)" "cohort_inv (wk_cohorts w)"
  shows "cohort_inv (wk_cohorts (fst (s w)))" and "wk_objects (fst (s w)) = wk_objects w"
    and "\<exists>ids ds. wk_cohorts (fst (s w)) = remove_cohorts ids ((wk_cohorts w)\<lparr>ct_detached := ds\<rparr>)
      \<and> (\<forall>r \<in> set (ct_cohorts (wk_cohorts w)). co_cohort_id r \<in> ids \<longrightarrow> \<not> co_pinned r)
      \<and> ids \<inter> (pt_active_snapshot_id ` set (ct_pointers (wk_cohorts w)) \<union> fi_universe_cohort_id ` set (ct_families (wk_cohorts w))) = {}"
proof -
  have unique: "inj_on co_cohort_id (set (ct_cohorts (wk_cohorts w)))"
    using assms(2) by (simp add: cohort_inv_def tbl_inv_def distinct_map)
  have none: "wk_cohorts w = remove_cohorts {} ((wk_cohorts w)\<lparr>ct_detached := ct_detached (wk_cohorts w)\<rparr>)"
    by (simp add: remove_cohorts_def)
  have "wk_objects (fst (s w)) = wk_objects w \<and>
    (\<exists>ids ds. wk_cohorts (fst (s w)) = remove_cohorts ids ((wk_cohorts w)\<lparr>ct_detached := ds\<rparr>)
      \<and> tbl_inv dt_cohort_id ds
      \<and> (\<forall>r \<in> set (ct_cohorts (wk_cohorts w)). co_cohort_id r \<in> ids \<longrightarrow> \<not> co_pinned r)
      \<and> ids \<inter> (pt_active_snapshot_id ` set (ct_pointers (wk_cohorts w)) \<union> fi_universe_cohort_id ` set (ct_families (wk_cohorts w))) = {})"
    (is "_ \<and> ?Q (wk_cohorts (fst (s w)))")
  proof -
    have det: "tbl_inv dt_cohort_id (ct_detached (wk_cohorts w))" using assms(2) by (simp add: cohort_inv_def)
    then have same: "?Q (wk_cohorts w)" using none by (intro exI[of _ "{}"] exI[of _ "ct_detached (wk_cohorts w)"]) simp
    from assms(1) consider "\<exists>name c. s w = on_tree name c w" | "s = maintain_missing rdir" | "s = maintain_detached rdir"
      using maintenance_step_one[OF assms(1)] maintain_staging_def maintain_orphans_def maintain_raw_snapshots_def by metis
    then show ?thesis
    proof cases
      case 1
      then have eq: "wk_cohorts (fst (s w)) = wk_cohorts w" "wk_objects (fst (s w)) = wk_objects w"
        by (auto simp: on_tree_fst)
      show ?thesis unfolding eq using same by blast
    next
      case 2
      let ?ids = "set (clean_missing rdir (wk_cohorts w) (wk_tree w))"
      have "\<forall>r \<in> set (ct_cohorts (wk_cohorts w)). co_cohort_id r \<in> ?ids \<longrightarrow> \<not> co_pinned r"
        using unique by (auto simp: clean_missing_def dest: inj_onD)
      moreover have "?ids \<inter> (pt_active_snapshot_id ` set (ct_pointers (wk_cohorts w)) \<union> fi_universe_cohort_id ` set (ct_families (wk_cohorts w))) = {}"
        unfolding clean_missing_def set_map set_filter by blast
      moreover have "wk_objects (fst (s w)) = wk_objects w"
        "wk_cohorts (fst (s w)) = remove_cohorts ?ids ((wk_cohorts w)\<lparr>ct_detached := ct_detached (wk_cohorts w)\<rparr>)"
        using 2 by (simp_all add: maintain_missing_def Let_def)
      ultimately show ?thesis using det by blast
    next
      case 3
      then show ?thesis using det
        by (auto simp: maintain_detached_def remove_cohorts_def tbl_inv_filter split: prod.splits intro!: exI[of _ "{}"])
    qed
  qed
  moreover have "cohort_inv ((wk_cohorts w)\<lparr>ct_detached := ds\<rparr>)" if "tbl_inv dt_cohort_id ds" for ds
    using assms(2) that by (simp add: cohort_inv_def pointer_ok_def)
  ultimately show "cohort_inv (wk_cohorts (fst (s w)))" "wk_objects (fst (s w)) = wk_objects w"
    "\<exists>ids ds. wk_cohorts (fst (s w)) = remove_cohorts ids ((wk_cohorts w)\<lparr>ct_detached := ds\<rparr>)
      \<and> (\<forall>r \<in> set (ct_cohorts (wk_cohorts w)). co_cohort_id r \<in> ids \<longrightarrow> \<not> co_pinned r)
      \<and> ids \<inter> (pt_active_snapshot_id ` set (ct_pointers (wk_cohorts w)) \<union> fi_universe_cohort_id ` set (ct_families (wk_cohorts w))) = {}"
    by (auto intro!: cohort_inv_remove) blast+
qed

end
