(* ===== verification/CohortWorkspace.thy ===== *)
theory CohortWorkspace
  imports CohortMaintenance
begin

text \<open>
  The object store, the cohort catalog and the maintenance working on one database file and one cohorts root:
  what holds of the workspace after any sequence of their calls. A deletion may stop for good after any of its
  effects, and anything else may change the files at any time.
\<close>

section \<open>The workspace as a machine\<close>

datatype workspace_call =
    StoreCall store_call
  | RegisterCohort registration string
  | SetFamilyIndex string string string string string
  | RenameCohort string string string
  | AddTags string "string list" string
  | RemoveTags string "string list" string
  | SetSourcePointer string string string
  | DeleteCohort nat string bool bool string string "delete_fault option"
  | Maintain stage_env bool maintenance_options
  | FilesChange file_tree

definition on_catalog :: "(cohort_tables \<Rightarrow> (cohort_error, cohort_tables) result) \<Rightarrow> workspace \<Rightarrow> workspace" where
  "on_catalog f w = (case f (wk_cohorts w) of Inl _ \<Rightarrow> w | Inr ct \<Rightarrow> w\<lparr>wk_cohorts := ct\<rparr>)"

definition workspace_step :: "(bytes \<Rightarrow> string) \<Rightarrow> path \<Rightarrow> workspace \<Rightarrow> workspace_call \<Rightarrow> workspace" where
  "workspace_step sha rdir w c = (case c of
     StoreCall sc \<Rightarrow> w\<lparr>wk_objects := object_step (Some (map co_cohort_id (ct_cohorts (wk_cohorts w)))) (wk_objects w) sc\<rparr>
   | RegisterCohort g now \<Rightarrow> fst (register_cohort sha rdir g now w)
   | SetFamilyIndex u i f d now \<Rightarrow> on_catalog (set_active_family_index sha rdir u i f d now (wk_tree w)) w
   | RenameCohort i n now \<Rightarrow> on_catalog (rename_cohort i n now) w
   | AddTags i tags now \<Rightarrow> on_catalog (add_tags i tags now) w
   | RemoveTags i tags now \<Rightarrow> on_catalog (remove_tags i tags now) w
   | SetSourcePointer s i now \<Rightarrow> on_catalog (set_active_source_pointer s i now) w
   | DeleteCohort k i purge force uuid now fault \<Rightarrow> delete_stopped k rdir i purge force uuid now fault w
   | Maintain env sound opts \<Rightarrow> fst (maintain_cohort_store env rdir sound opts w)
   | FilesChange t \<Rightarrow> w\<lparr>wk_tree := t\<rparr>)"

definition workspace_inv :: "workspace \<Rightarrow> bool" where
  "workspace_inv w \<longleftrightarrow> object_inv (wk_objects w) \<and> cohort_inv (wk_cohorts w)"

definition empty_workspace :: "file_tree \<Rightarrow> workspace" where
  "empty_workspace t = \<lparr>wk_objects = empty_object_tables, wk_cohorts = empty_cohort_tables, wk_tree = t\<rparr>"

lemma empty_workspace_inv: "workspace_inv (empty_workspace t)"
  by (simp add: workspace_inv_def empty_workspace_def object_inv_def cohort_inv_def empty_object_tables_def
      empty_cohort_tables_def tbl_inv_def names_unique_def)

text \<open>How a call may change the catalog: what the lemmas on the operations say, once for all of them.\<close>

definition catalog_kept :: "cohort_tables \<Rightarrow> cohort_tables \<Rightarrow> bool" where
  "catalog_kept ct ct' \<longleftrightarrow>
     (\<forall>r \<in> set (ct_cohorts ct). co_pinned r \<longrightarrow> (\<exists>r' \<in> set (ct_cohorts ct'). frozen r' = frozen r))
     \<and> pt_source_name ` set (ct_pointers ct) \<subseteq> pt_source_name ` set (ct_pointers ct')"

lemma frozen_pinned: "frozen r = frozen r' \<Longrightarrow> co_pinned r = co_pinned r'"
proof -
  assume "frozen r = frozen r'"
  then have "co_pinned (frozen r) = co_pinned (frozen r')" by simp
  then show ?thesis by (simp add: frozen_def)
qed

lemma catalog_kept_refl: "catalog_kept ct ct"
  by (auto simp: catalog_kept_def)

lemma catalog_kept_trans:
  assumes "catalog_kept a b" "catalog_kept b c"
  shows "catalog_kept a c"
proof -
  have "\<exists>r'' \<in> set (ct_cohorts c). frozen r'' = frozen r" if "r \<in> set (ct_cohorts a)" "co_pinned r" for r
  proof -
    obtain r' where r': "r' \<in> set (ct_cohorts b)" "frozen r' = frozen r" using assms(1) \<open>r \<in> _\<close> \<open>co_pinned r\<close> by (auto simp: catalog_kept_def)
    then have "co_pinned r'" using frozen_pinned that(2) by blast
    then obtain r'' where "r'' \<in> set (ct_cohorts c)" "frozen r'' = frozen r'" using assms(2) r'(1) by (auto simp: catalog_kept_def)
    then show ?thesis using r'(2) by auto
  qed
  moreover have "pt_source_name ` set (ct_pointers a) \<subseteq> pt_source_name ` set (ct_pointers c)"
    using assms unfolding catalog_kept_def by blast
  ultimately show ?thesis by (simp add: catalog_kept_def)
qed

lemma catalog_kept_update:
  "(\<And>r. frozen (f r) = frozen r) \<Longrightarrow> catalog_kept ct (update_cohort i f (ct\<lparr>ct_tags := tags\<rparr>))"
  by (auto simp: catalog_kept_def update_cohort_def)

lemma catalog_kept_remove:
  assumes "\<forall>r \<in> set (ct_cohorts ct). co_cohort_id r \<in> ids \<longrightarrow> \<not> co_pinned r"
  shows "catalog_kept ct (remove_cohorts ids (ct\<lparr>ct_detached := ds\<rparr>))"
  using assms by (auto simp: catalog_kept_def remove_cohorts_def)

lemma update_cohort_no_tags: "update_cohort i f ct = update_cohort i f (ct\<lparr>ct_tags := ct_tags ct\<rparr>)"
  by (simp add: update_cohort_def)

lemma on_catalog_step:
  assumes "workspace_inv w" "\<And>ct. f (wk_cohorts w) = Inr ct \<Longrightarrow> cohort_inv ct \<and> catalog_kept (wk_cohorts w) ct"
  shows "workspace_inv (on_catalog f w) \<and> catalog_kept (wk_cohorts w) (wk_cohorts (on_catalog f w))"
  using assms catalog_kept_refl by (auto simp: on_catalog_def workspace_inv_def split: sum.split)

lemma catalog_kept_pointers:
  "set_active_source_pointer s i now ct = Inr ct' \<Longrightarrow> catalog_kept ct ct'"
  by (auto simp: set_active_source_pointer_def catalog_kept_def tbl_upsert_keys split: if_splits option.splits)

lemma catalog_kept_family:
  "set_active_family_index sha rdir u i f d now t ct = Inr ct' \<Longrightarrow> catalog_kept ct ct'"
  by (auto simp: set_active_family_index_def catalog_kept_def bind_res_Inr_iff split: if_splits)

lemma catalog_kept_rows:
  "rename_cohort i n now ct = Inr ct' \<Longrightarrow> catalog_kept ct ct'"
  "add_tags i tags now ct = Inr ct' \<Longrightarrow> catalog_kept ct ct'"
  "remove_tags i tags now ct = Inr ct' \<Longrightarrow> catalog_kept ct ct'"
  unfolding rename_cohort_def add_tags_def remove_tags_def Let_def
  using catalog_kept_update[of "\<lambda>r. r\<lparr>co_name := Some n, co_updated_at := now\<rparr>" ct i "ct_tags ct"]
    catalog_kept_update[of "\<lambda>r. r\<lparr>co_updated_at := now\<rparr>" ct i]
  by (auto simp: frozen_update update_cohort_no_tags[symmetric] split: if_splits)

lemma catalog_kept_delete:
  assumes "workspace_inv w" "w' = delete_stopped k rdir i purge force uuid now fault w"
  shows "catalog_kept (wk_cohorts w) (wk_cohorts w')"
proof (cases "wk_cohorts w' = wk_cohorts w")
  case True
  then show ?thesis by (simp add: catalog_kept_refl)
next
  case False
  then obtain row where g: "delete_guard i force w = Inr (Some row)"
    and st: "delete_statements i purge force now row w = Inr (wk_cohorts w', wk_objects w')"
    using delete_stopped_tables[OF assms(2)] by blast
  obtain ds where "wk_cohorts w' = remove_cohorts {i} ((wk_cohorts w)\<lparr>ct_detached := ds\<rparr>)"
    using delete_statementsD(2)[OF st] by blast
  moreover have "\<not> co_pinned r" if "r \<in> set (ct_cohorts (wk_cohorts w))" "co_cohort_id r \<in> {i}" for r
  proof -
    have "inj_on co_cohort_id (set (ct_cohorts (wk_cohorts w)))"
      using assms(1) by (simp add: workspace_inv_def cohort_inv_def tbl_inv_def distinct_map)
    then have "r = row" using find_cohort_in[OF delete_guardD(1)[OF g]] that by (auto dest: inj_onD)
    then show ?thesis using delete_guardD(2)[OF g] by simp
  qed
  ultimately show ?thesis by (simp add: catalog_kept_remove)
qed

lemma maintain_step:
  assumes "workspace_inv w"
  shows "workspace_inv (fst (maintain_cohort_store env rdir sound opts w))
    \<and> catalog_kept (wk_cohorts w) (wk_cohorts (fst (maintain_cohort_store env rdir sound opts w)))"
proof -
  have one: "workspace_inv (fst (s v)) \<and> catalog_kept (wk_cohorts v) (wk_cohorts (fst (s v)))"
    if s: "s \<in> set (maintenance_steps env rdir opts)" and wv: "workspace_inv v" for s v
  proof -
    have v: "cohort_inv (wk_cohorts v)" using wv by (simp add: workspace_inv_def)
    obtain ids ds where "wk_cohorts (fst (s v)) = remove_cohorts ids ((wk_cohorts v)\<lparr>ct_detached := ds\<rparr>)"
      "\<forall>r \<in> set (ct_cohorts (wk_cohorts v)). co_cohort_id r \<in> ids \<longrightarrow> \<not> co_pinned r"
      using maintenance_step_tables(3)[OF s v] by blast
    then have "catalog_kept (wk_cohorts v) (wk_cohorts (fst (s v)))" by (simp add: catalog_kept_remove)
    then show ?thesis using maintenance_step_tables(1,2)[OF s v] wv by (simp add: workspace_inv_def)
  qed
  have "workspace_inv (fst (run_steps (maintenance_steps env rdir opts) w))
      \<and> catalog_kept (wk_cohorts w) (wk_cohorts (fst (run_steps (maintenance_steps env rdir opts) w)))"
  proof (rule run_steps_rel[where P = workspace_inv and R = "\<lambda>u v. catalog_kept (wk_cohorts u) (wk_cohorts v)"])
    show "workspace_inv (fst (s v)) \<and> catalog_kept (wk_cohorts v) (wk_cohorts (fst (s v)))"
      if "s \<in> set (maintenance_steps env rdir opts)" "workspace_inv v" for s v using one[OF that] .
  qed (use assms catalog_kept_refl catalog_kept_trans in blast)+
  then show ?thesis
    using maintain_cases[of env rdir sound opts w] assms catalog_kept_refl by metis
qed

lemma workspace_step_kept:
  assumes w: "workspace_inv w"
  shows "workspace_inv (workspace_step sha rdir w c) \<and> catalog_kept (wk_cohorts w) (wk_cohorts (workspace_step sha rdir w c))"
proof -
  have inv: "cohort_inv (wk_cohorts w)" using w by (simp add: workspace_inv_def)
  show ?thesis
  proof (cases c)
    case (RegisterCohort g now)
    obtain w' res where reg: "register_cohort sha rdir g now w = (w', res)" by (cases "register_cohort sha rdir g now w")
    have "catalog_kept (wk_cohorts w) (insert_cohort g d now (wk_cohorts w))" for d
      by (auto simp: catalog_kept_def insert_cohort_def)
    then have "catalog_kept (wk_cohorts w) (wk_cohorts w')"
      using register_cohort_tables(2)[OF reg] catalog_kept_refl by auto
    then show ?thesis
      using RegisterCohort reg cohort_inv_register[OF _ reg] register_cohort_tables(1)[OF reg] w
      by (simp add: workspace_step_def workspace_inv_def)
  next
    case (DeleteCohort k i purge force uuid now fault)
    then show ?thesis
      using inv_delete_stopped[OF _ _ refl] catalog_kept_delete[OF w refl] w
      by (simp add: workspace_step_def workspace_inv_def)
  next
    case (Maintain env sound opts)
    then show ?thesis using maintain_step[OF w] by (simp add: workspace_step_def)
  next
    case (StoreCall sc)
    then show ?thesis using w object_inv_step catalog_kept_refl by (simp add: workspace_step_def workspace_inv_def)
  next
    case (FilesChange t)
    then show ?thesis using w catalog_kept_refl by (simp add: workspace_step_def workspace_inv_def)
  next
    case (SetFamilyIndex u i f d now)
    then show ?thesis using on_catalog_step[OF w, of "set_active_family_index sha rdir u i f d now (wk_tree w)"]
        cohort_inv_family[OF inv] catalog_kept_family by (auto simp: workspace_step_def)
  next
    case (RenameCohort i n now)
    then show ?thesis using on_catalog_step[OF w, of "rename_cohort i n now"]
        cohort_inv_rename[OF inv] catalog_kept_rows(1) by (auto simp: workspace_step_def)
  next
    case (AddTags i tags now)
    then show ?thesis using on_catalog_step[OF w, of "add_tags i tags now"]
        cohort_inv_add_tags[OF inv] catalog_kept_rows(2) by (auto simp: workspace_step_def)
  next
    case (RemoveTags i tags now)
    then show ?thesis using on_catalog_step[OF w, of "remove_tags i tags now"]
        cohort_inv_remove_tags[OF inv] catalog_kept_rows(3) by (auto simp: workspace_step_def)
  next
    case (SetSourcePointer s i now)
    then show ?thesis using on_catalog_step[OF w, of "set_active_source_pointer s i now"]
        cohort_inv_pointer[OF inv] catalog_kept_pointers by (auto simp: workspace_step_def)
  qed
qed

interpretation workspace_machine: event_machine "workspace_step sha rdir" workspace_inv for sha rdir
  by unfold_locales (simp add: workspace_step_kept)


section \<open>What every run keeps\<close>

lemma workspace_run:
  assumes "workspace_inv w" "w' = foldl (workspace_step sha rdir) w calls"
  shows "workspace_inv w'" "catalog_kept (wk_cohorts w) (wk_cohorts w')"
proof -
  show "workspace_inv w'" using workspace_machine.inv_run[OF assms(1)] assms(2) by simp
  have "catalog_kept (wk_cohorts w) (wk_cohorts (foldl (workspace_step sha rdir) w calls))"
  proof (rule workspace_machine.rel_run[where R = "\<lambda>u v. catalog_kept (wk_cohorts u) (wk_cohorts v)", OF assms(1)])
    show "catalog_kept (wk_cohorts v) (wk_cohorts (workspace_step sha rdir v c))" if "workspace_inv v" for v c
      using workspace_step_kept[OF that] by blast
  qed (use catalog_kept_refl catalog_kept_trans in blast)+
  then show "catalog_kept (wk_cohorts w) (wk_cohorts w')" using assms(2) by simp
qed

lemma find_cohort_Some:
  assumes "cohort_inv ct" "r \<in> set (ct_cohorts ct)"
  shows "find_cohort (co_cohort_id r) ct = Some r"
  using assms tbl_lookup_Some_iff unfolding cohort_inv_def find_cohort_def by fast

lemma resolve_source_alias:
  assumes inv: "cohort_inv ct" and nick: "map_of OFFICIAL_SOURCE_ALIASES nm = Some src" and m: "1 \<le> m"
  shows "(case get_active_source_pointer src ct of
      None \<Rightarrow> resolve_cohort_identifier nm m ct = Inl CohortIdentifierError
    | Some i \<Rightarrow> \<exists>row. find_cohort i ct = Some row \<and> official_for src row
        \<and> resolve_cohort_identifier nm m ct = Inr (record_of ct row))"
proof (cases "get_active_source_pointer src ct")
  case None
  then show ?thesis using nick m by (simp add: resolve_cohort_identifier_def)
next
  case (Some i)
  then obtain p where p: "p \<in> set (ct_pointers ct)" "pt_source_name p = src" "pt_active_snapshot_id p = i"
    using tbl_lookup_SomeD by (fastforce simp: get_active_source_pointer_def)
  then obtain row where row: "row \<in> set (ct_cohorts ct)" "co_cohort_id row = i" "official_for src row"
    using inv by (auto simp: cohort_inv_def pointer_ok_def)
  then have "find_cohort i ct = Some row" using find_cohort_Some[OF inv] by blast
  then show ?thesis using nick m Some row(3) by (auto simp: resolve_cohort_identifier_def official_for_def)
qed

text \<open>
  C31. The reserved names of the official sources always resolve. After any calls to the object store, the catalog
  and the maintenance, with deletions stopped anywhere and files changed at will: a reserved name is refused only
  while no snapshot of its source was ever made active; once one was, the name resolves, to a stored, pinned
  official cohort of that very source.
\<close>

theorem official_sources_resolve:
  assumes "workspace_inv w" and "w' = foldl (workspace_step sha rdir) w calls"
    and "map_of OFFICIAL_SOURCE_ALIASES nm = Some src" and "1 \<le> m"
  shows "(resolve_cohort_identifier nm m (wk_cohorts w') = Inl CohortIdentifierError
            \<and> get_active_source_pointer src (wk_cohorts w') = None \<and> get_active_source_pointer src (wk_cohorts w) = None)
    \<or> (\<exists>row. resolve_cohort_identifier nm m (wk_cohorts w') = Inr (record_of (wk_cohorts w') row)
            \<and> get_active_source_pointer src (wk_cohorts w') = Some (co_cohort_id row)
            \<and> find_cohort (co_cohort_id row) (wk_cohorts w') = Some row
            \<and> co_pinned row \<and> co_origin_kind row = ''official_source''
            \<and> map_of (co_origin row) ''source_name'' = Some (JStr src))"
proof -
  have inv: "cohort_inv (wk_cohorts w')" using workspace_run(1)[OF assms(1,2)] by (simp add: workspace_inv_def)
  show ?thesis
  proof (cases "get_active_source_pointer src (wk_cohorts w')")
    case None
    then have "src \<notin> pt_source_name ` set (ct_pointers (wk_cohorts w'))"
      by (simp add: get_active_source_pointer_def tbl_lookup_None_iff)
    then have "src \<notin> pt_source_name ` set (ct_pointers (wk_cohorts w))"
      using workspace_run(2)[OF assms(1,2)] by (auto simp: catalog_kept_def)
    then have "get_active_source_pointer src (wk_cohorts w) = None"
      by (simp add: get_active_source_pointer_def tbl_lookup_None_iff)
    then show ?thesis using resolve_source_alias[OF inv assms(3,4)] None by simp
  next
    case (Some i)
    then obtain row where row: "find_cohort i (wk_cohorts w') = Some row" "official_for src row"
      "resolve_cohort_identifier nm m (wk_cohorts w') = Inr (record_of (wk_cohorts w') row)"
      using resolve_source_alias[OF inv assms(3,4)] by auto
    then show ?thesis using Some find_cohort_in[OF row(1)] by (auto simp: official_for_def)
  qed
qed

text \<open>
  C32. A pinned cohort is permanent: whatever calls follow, its row is still found under its identifier, and only its
  name and its update stamp may differ.
\<close>

theorem pinned_cohorts_permanent:
  assumes "workspace_inv w" and "find_cohort i (wk_cohorts w) = Some r" and "co_pinned r"
    and "w' = foldl (workspace_step sha rdir) w calls"
  shows "\<exists>r'. find_cohort i (wk_cohorts w') = Some r'
    \<and> r' = r\<lparr>co_name := co_name r', co_updated_at := co_updated_at r'\<rparr>"
proof -
  obtain r' where r': "r' \<in> set (ct_cohorts (wk_cohorts w'))" "frozen r' = frozen r"
    using workspace_run(2)[OF assms(1,4)] find_cohort_in[OF assms(2)] assms(3) by (auto simp: catalog_kept_def)
  have "cohort_inv (wk_cohorts w')" using workspace_run(1)[OF assms(1,4)] by (simp add: workspace_inv_def)
  then have "find_cohort i (wk_cohorts w') = Some r'"
    using find_cohort_Some r'(1) frozen_eqD(1)[OF r'(2)] find_cohort_in[OF assms(2)] by metis
  moreover have "r' = r\<lparr>co_name := co_name r', co_updated_at := co_updated_at r'\<rparr>"
    using r'(2) by (cases r; cases r') (simp add: frozen_def)
  ultimately show ?thesis by blast
qed


section \<open>Aliases and their targets\<close>

definition alias_targets_ok :: "workspace \<Rightarrow> bool" where
  "alias_targets_ok w \<longleftrightarrow>
     (\<forall>a \<in> set (ot_aliases (wk_objects w)). al_target_id a \<in> object_ids (wk_objects w) \<union> cohort_ids (wk_cohorts w))"

text \<open>Only the maintenance of missing datasets removes cohorts without looking at the aliases.\<close>

definition cleans_missing :: "workspace_call \<Rightarrow> bool" where
  "cleans_missing c \<longleftrightarrow> (case c of Maintain env sound opts \<Rightarrow> mo_clean_missing opts \<or> mo_all opts | _ \<Rightarrow> False)"

lemma alias_targets_grow:
  assumes "alias_targets_ok w" "set (ot_aliases (wk_objects w')) \<subseteq> set (ot_aliases (wk_objects w))"
    "object_ids (wk_objects w) \<subseteq> object_ids (wk_objects w')" "cohort_ids (wk_cohorts w) \<subseteq> cohort_ids (wk_cohorts w')"
  shows "alias_targets_ok w'"
  using assms unfolding alias_targets_ok_def by blast

lemma alias_targets_on_catalog:
  assumes "alias_targets_ok w" "\<And>ct. f (wk_cohorts w) = Inr ct \<Longrightarrow> cohort_ids (wk_cohorts w) \<subseteq> cohort_ids ct"
  shows "alias_targets_ok (on_catalog f w)"
proof (cases "f (wk_cohorts w)")
  case (Inr ct)
  then show ?thesis using alias_targets_grow[OF assms(1), of "on_catalog f w"] assms(2) by (simp add: on_catalog_def)
qed (use assms(1) in \<open>simp add: on_catalog_def\<close>)

lemma update_cohort_ids: "(\<And>r. co_cohort_id (f r) = co_cohort_id r) \<Longrightarrow> cohort_ids (update_cohort i f ct) = cohort_ids ct"
proof -
  assume "\<And>r. co_cohort_id (f r) = co_cohort_id r"
  then have "map co_cohort_id (ct_cohorts (update_cohort i f ct)) = map co_cohort_id (ct_cohorts ct)"
    by (simp add: update_cohort_def)
  then show ?thesis unfolding set_map[symmetric] by (rule arg_cong)
qed

lemma catalog_ids:
  "rename_cohort i n now ct = Inr ct' \<Longrightarrow> cohort_ids ct \<subseteq> cohort_ids ct'"
  "add_tags i tags now ct = Inr ct' \<Longrightarrow> cohort_ids ct \<subseteq> cohort_ids ct'"
  "remove_tags i tags now ct = Inr ct' \<Longrightarrow> cohort_ids ct \<subseteq> cohort_ids ct'"
  "set_active_source_pointer s i now ct = Inr ct' \<Longrightarrow> cohort_ids ct \<subseteq> cohort_ids ct'"
  "set_active_family_index sha rdir u i f d now t ct = Inr ct' \<Longrightarrow> cohort_ids ct \<subseteq> cohort_ids ct'"
  by (auto simp: rename_cohort_def add_tags_def remove_tags_def set_active_source_pointer_def set_active_family_index_def
      Let_def bind_res_Inr_iff update_cohort_ids split: if_splits option.splits)

lemma object_ids_step: "object_ids ob \<subseteq> object_ids (object_step cohorts ob sc)"
proof
  fix i assume "i \<in> object_ids ob"
  then obtain r where "get_object i ob = Some r"
    using tbl_lookup_None_iff[of so_object_id i "ot_objects ob"] by (cases "get_object i ob") (auto simp: get_object_def)
  then have "get_object i (object_step cohorts ob sc) = Some r" by (rule object_step_keeps_object)
  then show "i \<in> object_ids (object_step cohorts ob sc)" using tbl_lookup_SomeD by (fastforce simp: get_object_def)
qed

lemma alias_targets_store:
  assumes "alias_targets_ok w"
  shows "alias_targets_ok (workspace_step sha rdir w (StoreCall sc))"
proof -
  let ?cs = "Some (map co_cohort_id (ct_cohorts (wk_cohorts w)))"
  have "al_target_id a \<in> object_ids (wk_objects w) \<union> cohort_ids (wk_cohorts w)"
    if "a \<in> set (ot_aliases (object_step ?cs (wk_objects w) sc))" for a
    using object_step_aliases[OF that] assms by (auto simp: alias_targets_ok_def target_exists_def split: if_splits)
  then show ?thesis
    using object_ids_step[of "wk_objects w" ?cs sc] unfolding alias_targets_ok_def workspace_step_def by fastforce
qed

lemma alias_targets_delete:
  assumes ok: "alias_targets_ok w" and w': "w' = delete_stopped k rdir i purge force uuid now fault w"
  shows "alias_targets_ok w'"
proof (cases "wk_cohorts w' = wk_cohorts w \<and> wk_objects w' = wk_objects w")
  case True
  then show ?thesis using ok by (simp add: alias_targets_ok_def)
next
  case False
  then obtain row where g: "delete_guard i force w = Inr (Some row)"
    and st: "delete_statements i purge force now row w = Inr (wk_cohorts w', wk_objects w')"
    using delete_stopped_tables[OF w'] by blast
  obtain ds where ds: "wk_cohorts w' = remove_cohorts {i} ((wk_cohorts w)\<lparr>ct_detached := ds\<rparr>)"
    using delete_statementsD(2)[OF st] by blast
  have "\<forall>a \<in> set (ot_aliases (wk_objects w')). a \<in> set (ot_aliases (wk_objects w)) \<and> al_target_id a \<noteq> i"
    and "ot_objects (wk_objects w') = ot_objects (wk_objects w)"
    using delete_statementsD(1)[OF st] delete_guardD(4)[OF g] by auto
  moreover have "cohort_ids (wk_cohorts w') = cohort_ids (wk_cohorts w) - {i}"
    by (auto simp: ds remove_cohorts_def)
  ultimately show ?thesis using ok by (auto simp: alias_targets_ok_def)
qed

lemma alias_targets_maintain:
  assumes ok: "alias_targets_ok w" and "\<not> (mo_clean_missing opts \<or> mo_all opts)"
  shows "alias_targets_ok (fst (maintain_cohort_store env rdir sound opts w))"
proof -
  let ?R = "\<lambda>u v. ct_cohorts (wk_cohorts v) = ct_cohorts (wk_cohorts u) \<and> wk_objects v = wk_objects u"
  have one: "?R v (fst (s v))" if "s \<in> set (maintenance_steps env rdir opts)" for s v
    using that assms(2)
    by (auto simp: maintenance_steps_def maintain_staging_def maintain_orphans_def maintain_raw_snapshots_def
        maintain_detached_def on_tree_fst split: if_splits prod.splits)
  have "True \<and> ?R w (fst (run_steps (maintenance_steps env rdir opts) w))"
    by (rule run_steps_rel[where P = "\<lambda>_. True" and R = ?R]) (use one in auto)
  then have "?R w (fst (maintain_cohort_store env rdir sound opts w))"
    using maintain_cases[of env rdir sound opts w] by auto
  then show ?thesis using ok by (simp add: alias_targets_ok_def)
qed

lemma alias_targets_step:
  assumes ok: "alias_targets_ok w" and c: "\<not> cleans_missing c"
  shows "alias_targets_ok (workspace_step sha rdir w c)"
proof (cases c)
  case (RegisterCohort g now)
  obtain w' res where reg: "register_cohort sha rdir g now w = (w', res)" by (cases "register_cohort sha rdir g now w")
  have "cohort_ids ct \<subseteq> cohort_ids (insert_cohort g d now ct)" for d ct by (auto simp: insert_cohort_def)
  then show ?thesis
    using alias_targets_grow[OF ok, of w'] register_cohort_tables[OF reg] RegisterCohort reg by (auto simp: workspace_step_def)
next
  case (Maintain env sound opts)
  then show ?thesis using alias_targets_maintain[OF ok] c by (simp add: workspace_step_def cleans_missing_def)
next
  case (StoreCall sc)
  then show ?thesis using alias_targets_store[OF ok] by simp
next
  case (DeleteCohort k i purge force uuid now fault)
  then show ?thesis using alias_targets_delete[OF ok refl] by (simp add: workspace_step_def)
next
  case (FilesChange t)
  then show ?thesis using ok by (simp add: workspace_step_def alias_targets_ok_def)
qed (simp add: workspace_step_def alias_targets_on_catalog[OF ok] catalog_ids)+

text \<open>
  C33. No alias dangles: as long as no maintenance for missing datasets runs, after any calls, with deletions
  forced or not and stopped anywhere, every alias of every session names an object that can be read or a cohort
  that is catalogued.
\<close>

theorem aliases_never_dangle:
  assumes "alias_targets_ok w" and "w' = foldl (workspace_step sha rdir) w calls" and "\<forall>c \<in> set calls. \<not> cleans_missing c"
    and "a \<in> set (ot_aliases (wk_objects w'))"
  shows "(\<exists>r. get_object (al_target_id a) (wk_objects w') = Some r)
    \<or> (\<exists>r. find_cohort (al_target_id a) (wk_cohorts w') = Some r)"
proof -
  have "alias_targets_ok (foldl (workspace_step sha rdir) w calls)"
    using assms(1,3) by (induction calls arbitrary: w) (simp_all add: alias_targets_step)
  then have "al_target_id a \<in> object_ids (wk_objects w') \<union> cohort_ids (wk_cohorts w')"
    using assms(2,4) by (simp add: alias_targets_ok_def)
  then show ?thesis
    using tbl_lookup_None_iff[of so_object_id "al_target_id a" "ot_objects (wk_objects w')"]
      tbl_lookup_None_iff[of co_cohort_id "al_target_id a" "ct_cohorts (wk_cohorts w')"]
    by (auto simp: get_object_def find_cohort_def)
qed


section \<open>Two divergences\<close>

text \<open>
  \<^verbatim>\<open>delete_cohort\<close> reads the aliases before its transaction opens, and binding an alias does not take the publication
  lock: an alias bound between the check and the first statement is left without its target.
\<close>

definition racing_alias :: session_alias where
  "racing_alias = \<lparr>al_session_id = ''s'', al_alias_name = ''v'', al_target_id = demo_id CHR ''b'', al_created_at = 1, al_updated_at = 1\<rparr>"

lemma alias_bound_during_delete:
  "\<exists>row ob ct ob'. delete_guard (demo_id CHR ''b'') False demo_workspace = Inr (Some row)
    \<and> upsert_alias (Some (map co_cohort_id (ct_cohorts demo_cohorts))) ''s'' ''v'' (demo_id CHR ''b'') 1 1 empty_object_tables
        = Inr (ob, racing_alias)
    \<and> delete_statements (demo_id CHR ''b'') True False ''then'' row (demo_workspace\<lparr>wk_objects := ob\<rparr>) = Inr (ct, ob')
    \<and> racing_alias \<in> set (ot_aliases ob') \<and> demo_id CHR ''b'' \<notin> object_ids ob' \<union> cohort_ids ct"
proof -
  have "delete_guard (demo_id CHR ''b'') False demo_workspace = Inr (Some (demo_row CHR ''b'' False))"
    by (simp add: delete_guard_def demo_workspace_def find_cohort_def demo_cohorts_def tbl_lookup_Cons demo_row_columns
        demo_ids empty_object_tables_def)
  moreover have "\<exists>ob. upsert_alias (Some (map co_cohort_id (ct_cohorts demo_cohorts))) ''s'' ''v'' (demo_id CHR ''b'') 1 1 empty_object_tables
      = Inr (ob, racing_alias)"
    by (simp add: upsert_alias_def Let_def target_exists_def empty_object_tables_def demo_cohorts_def demo_row_columns
        touch_session_row_def tbl_lookup_Cons tbl_upsert_def racing_alias_def)
  then obtain ob where ob: "upsert_alias (Some (map co_cohort_id (ct_cohorts demo_cohorts))) ''s'' ''v'' (demo_id CHR ''b'') 1 1 empty_object_tables
      = Inr (ob, racing_alias)" ..
  moreover have "delete_statements (demo_id CHR ''b'') True False ''then'' (demo_row CHR ''b'' False) (demo_workspace\<lparr>wk_objects := ob\<rparr>)
      = Inr (remove_cohorts {demo_id CHR ''b''} demo_cohorts, ob)"
    by (simp add: delete_statements_def delete_cohort_row_eq demo_workspace_def) (simp add: demo_cohorts_def)
  moreover have "racing_alias \<in> set (ot_aliases ob)" "object_ids ob = {}"
    using upsert_alias_Inr(2)[OF ob] upsert_alias_tables(1)[OF ob] tbl_upsert_keys
    by (simp_all add: empty_object_tables_def tbl_upsert_def)
  moreover have "demo_id CHR ''b'' \<notin> cohort_ids (remove_cohorts {demo_id CHR ''b''} demo_cohorts)"
    by (auto simp: remove_cohorts_def)
  ultimately have "delete_guard (demo_id CHR ''b'') False demo_workspace = Inr (Some (demo_row CHR ''b'' False))
    \<and> upsert_alias (Some (map co_cohort_id (ct_cohorts demo_cohorts))) ''s'' ''v'' (demo_id CHR ''b'') 1 1 empty_object_tables
        = Inr (ob, racing_alias)
    \<and> delete_statements (demo_id CHR ''b'') True False ''then'' (demo_row CHR ''b'' False) (demo_workspace\<lparr>wk_objects := ob\<rparr>)
        = Inr (remove_cohorts {demo_id CHR ''b''} demo_cohorts, ob)
    \<and> racing_alias \<in> set (ot_aliases ob) \<and> demo_id CHR ''b'' \<notin> object_ids ob \<union> cohort_ids (remove_cohorts {demo_id CHR ''b''} demo_cohorts)"
    by (simp only: Un_iff empty_iff simp_thms)
  then show ?thesis by (intro exI)
qed

text \<open>
  A cohort whose dataset was kept by an earlier deletion and that is registered again keeps its record as
  detached; purging it then leaves that record, with the directory gone.
\<close>

lemma detached_record_outlives_dataset:
  assumes "register_cohort sha rdir g now w = (w1, Inr rec)" and "plain_store rdir (rg_cohort_id g) uuid (wk_tree w1)"
    and "delete_cohort rdir (rg_cohort_id g) True force uuid now' None w1 = (w2, Inr True)"
  shows "ct_detached (wk_cohorts w2) = ct_detached (wk_cohorts w)"
proof -
  have "ct_detached (wk_cohorts w1) = ct_detached (wk_cohorts w)"
    using register_cohort_tables(2)[OF assms(1)] by (auto simp: insert_cohort_def)
  moreover obtain row where "delete_statements (rg_cohort_id g) True force now' row w1 = Inr (wk_cohorts w2, wk_objects w2)"
    using delete_success[OF assms(2,3)] by blast
  then have "remove_cohorts {rg_cohort_id g} (wk_cohorts w1) = wk_cohorts w2"
    by (auto simp: delete_statements_def delete_cohort_row_eq Let_def bind_res_Inr_iff split: if_splits)
  from arg_cong[OF this, of ct_detached] have "ct_detached (wk_cohorts w2) = ct_detached (wk_cohorts w1)"
    by (simp add: remove_cohorts_def)
  ultimately show ?thesis by simp
qed

section \<open>Witnesses\<close>

definition demo_source_calls :: "workspace_call list" where
  "demo_source_calls = [RenameCohort (demo_id CHR ''a'') ''new name'' ''later'', DeleteCohort 3 (demo_id CHR ''a'') True True ''u'' ''later'' None]"

lemma demo_workspace_inv: "workspace_inv demo_workspace"
  using demo_cohorts_inv empty_workspace_inv[of "[]"] by (simp add: workspace_inv_def demo_workspace_def empty_workspace_def)

theorem official_sources_resolve_witness:
  "\<exists>row. resolve_cohort_identifier ''universe'' 7 (wk_cohorts (foldl (workspace_step demo_sha [''r'']) demo_workspace demo_source_calls))
     = Inr (record_of (wk_cohorts (foldl (workspace_step demo_sha [''r'']) demo_workspace demo_source_calls)) row) \<and> co_pinned row"
proof -
  have "map_of OFFICIAL_SOURCE_ALIASES ''universe'' = Some ''cik_lookup''" by (simp add: OFFICIAL_SOURCE_ALIASES_def)
  moreover have "get_active_source_pointer ''cik_lookup'' (wk_cohorts demo_workspace) \<noteq> None"
    by (simp add: get_active_source_pointer_def demo_workspace_def demo_cohorts_def tbl_lookup_Cons)
  ultimately show ?thesis
    using official_sources_resolve[OF demo_workspace_inv refl, of "''universe''" "''cik_lookup''" 7] by fastforce
qed

theorem pinned_cohorts_permanent_witness:
  "\<exists>r'. find_cohort (demo_id CHR ''a'') (wk_cohorts (foldl (workspace_step demo_sha [''r'']) demo_workspace demo_source_calls)) = Some r'
     \<and> r' = (demo_row CHR ''a'' True)\<lparr>co_name := co_name r', co_updated_at := co_updated_at r'\<rparr>"
proof (rule pinned_cohorts_permanent[OF demo_workspace_inv _ _ refl])
  show "find_cohort (demo_id CHR ''a'') (wk_cohorts demo_workspace) = Some (demo_row CHR ''a'' True)"
    by (simp add: demo_workspace_def find_cohort_def demo_cohorts_def tbl_lookup_Cons demo_row_columns)
qed (simp add: demo_row_columns)

definition alias_calls :: "workspace_call list" where
  "alias_calls = [StoreCall (UpsertAlias ''s'' ''v'' (demo_id CHR ''b'') 1 1), DeleteCohort 3 (demo_id CHR ''b'') True False ''u'' ''later'' None]"

lemma alias_calls_result:
  "racing_alias \<in> set (ot_aliases (wk_objects (foldl (workspace_step demo_sha [''r'']) demo_workspace alias_calls)))"
proof -
  define w where "w = workspace_step demo_sha [''r''] demo_workspace (StoreCall (UpsertAlias ''s'' ''v'' (demo_id CHR ''b'') 1 1))"
  have a: "racing_alias \<in> set (ot_aliases (wk_objects w))"
    by (simp add: w_def workspace_step_def object_step_def upsert_alias_def Let_def target_exists_def empty_object_tables_def
        demo_workspace_def demo_cohorts_def demo_row_columns touch_session_row_def tbl_lookup_Cons tbl_upsert_def racing_alias_def)
  then have "demo_id CHR ''b'' \<in> al_target_id ` set (ot_aliases (wk_objects w))"
    by (force simp: racing_alias_def image_iff)
  then have "\<exists>e. delete_guard (demo_id CHR ''b'') False w = Inl e \<or> delete_guard (demo_id CHR ''b'') False w = Inr None"
    by (auto simp: delete_guard_def split: option.split)
  then have "fst (delete_effects [''r''] (demo_id CHR ''b'') True False ''u'' ''later'' None w) = []"
    by (auto simp: delete_effects_def split: sum.split)
  then have "workspace_step demo_sha [''r''] w (DeleteCohort 3 (demo_id CHR ''b'') True False ''u'' ''later'' None) = w"
    by (simp add: workspace_step_def delete_stopped_def)
  then show ?thesis using a by (simp add: alias_calls_def w_def[symmetric])
qed

theorem aliases_never_dangle_witness:
  "racing_alias \<in> set (ot_aliases (wk_objects (foldl (workspace_step demo_sha [''r'']) demo_workspace alias_calls)))
   \<and> ((\<exists>r. get_object (al_target_id racing_alias) (wk_objects (foldl (workspace_step demo_sha [''r'']) demo_workspace alias_calls)) = Some r)
      \<or> (\<exists>r. find_cohort (al_target_id racing_alias) (wk_cohorts (foldl (workspace_step demo_sha [''r'']) demo_workspace alias_calls)) = Some r))"
proof -
  have "alias_targets_ok demo_workspace" by (simp add: alias_targets_ok_def demo_workspace_def empty_object_tables_def)
  moreover have "\<forall>c \<in> set alias_calls. \<not> cleans_missing c" by (simp add: alias_calls_def cleans_missing_def)
  ultimately show ?thesis using aliases_never_dangle[OF _ refl] alias_calls_result by blast
qed

end
