(* ===== verification/CohortRecovery.thy ===== *)
theory CohortRecovery
  imports CohortMaintenance
begin

text \<open>
  What maintenance does to files: it leaves the directories of catalogued cohorts alone, and it completes or undoes
  a deletion whose process stopped between its effects.
\<close>

section \<open>Trees after a move or a removal\<close>

lemma map_of_rmtree: "map_of (rmtree d t) p = (if below d p then None else map_of t p)"
  by (induction t) (auto simp: rmtree_def)

lemma moved_eq: "\<not> below dst p \<Longrightarrow> \<not> below src p \<Longrightarrow> moved src dst q = p \<longleftrightarrow> q = p"
  by (auto simp: moved_def)

lemma map_of_rename:
  assumes "\<And>q. q \<in> fst ` set t \<Longrightarrow> moved src dst q = p \<longleftrightarrow> q = p'"
  shows "map_of (rename_tree src dst t) p = map_of t p'"
  using assms
proof (induction t)
  case (Cons e t)
  obtain q n where e: "e = (q, n)" by (cases e)
  have "map_of (rename_tree src dst t) p = map_of t p'" using Cons by simp
  moreover have "moved src dst q = p \<longleftrightarrow> q = p'" using Cons.prems[of q] e by simp
  ultimately show ?case unfolding e rename_tree_def by (cases "q = p'") simp_all
qed (simp add: rename_tree_def)

lemma map_of_rename_other:
  "\<not> below src p \<Longrightarrow> \<not> below dst p \<Longrightarrow> map_of (rename_tree src dst t) p = map_of t p"
  by (rule map_of_rename) (rule moved_eq)

lemma map_of_rename_src:
  assumes "\<not> below dst src" "\<not> below src dst"
  shows "map_of (rename_tree src dst t) src = None"
proof -
  have "src \<noteq> moved src dst q" for q
    using assms by (auto simp: moved_def below_iff)
  then have "src \<notin> set (map fst (rename_tree src dst t))" by (auto simp: rename_tree_def)
  then show ?thesis by (simp add: map_of_eq_None_iff)
qed

lemma map_of_rename_dst:
  assumes "\<forall>p \<in> fst ` set t. \<not> below dst p"
  shows "map_of (rename_tree src dst t) dst = map_of t src"
proof (rule map_of_rename)
  fix q assume "q \<in> fst ` set t"
  then have "\<not> below dst q" using assms by blast
  then show "moved src dst q = dst \<longleftrightarrow> q = src"
    by (auto simp: moved_def below_iff)
qed

lemma below_child: "below (d @ [x]) (d @ [y]) \<longleftrightarrow> x = y"
  by (auto simp: below_def)

lemma not_below_root: "\<not> below (d @ [x]) (take k d)"
  by (auto simp: below_iff dest: arg_cong[of _ _ length])

lemma link_free_rmtree: "link_free t d \<Longrightarrow> link_free (rmtree (d @ [x]) t) d"
  by (erule link_free_cong) (simp add: map_of_rmtree not_below_root)

lemma link_free_rename: "link_free t d \<Longrightarrow> link_free (rename_tree (d @ [x]) (d @ [y]) t) d"
  by (erule link_free_cong) (simp add: map_of_rename_other not_below_root)

section \<open>Maintenance leaves catalogued directories alone\<close>

definition kept_below :: "path \<Rightarrow> file_tree \<Rightarrow> file_tree \<Rightarrow> bool" where
  "kept_below d t t' \<longleftrightarrow> (\<forall>p n. (p, n) \<in> set t \<longrightarrow> below d p \<longrightarrow> (p, n) \<in> set t')"

definition dirs_kept :: "path \<Rightarrow> string set \<Rightarrow> file_tree \<Rightarrow> file_tree \<Rightarrow> bool" where
  "dirs_kept rdir js t t' \<longleftrightarrow> link_free t' rdir \<and> (\<forall>j \<in> js. kept_below (rdir @ [j]) t t')"

lemma dirs_kept_refl: "link_free t rdir \<Longrightarrow> dirs_kept rdir js t t"
  by (simp add: dirs_kept_def kept_below_def)

lemma dirs_kept_trans: "dirs_kept rdir js t u \<Longrightarrow> dirs_kept rdir js u v \<Longrightarrow> dirs_kept rdir js t v"
  unfolding dirs_kept_def kept_below_def by blast

lemma below_two: "below (d @ [x]) p \<Longrightarrow> below (d @ [y]) p \<Longrightarrow> x = y"
  by (auto simp: below_iff)

lemma dirs_kept_rmtree:
  assumes "link_free t rdir" "x \<notin> js"
  shows "dirs_kept rdir js t (rmtree (rdir @ [x]) t)"
proof -
  have "(p, n) \<in> set (rmtree (rdir @ [x]) t)" if "j \<in> js" "(p, n) \<in> set t" "below (rdir @ [j]) p" for j p n
    using below_two[OF that(3), of x] that(1,2) assms(2) by (auto simp: rmtree_def)
  then show ?thesis using link_free_rmtree[OF assms(1)] by (simp add: dirs_kept_def kept_below_def)
qed

lemma dirs_kept_rename:
  assumes "link_free t rdir" "x \<notin> js"
  shows "dirs_kept rdir js t (rename_tree (rdir @ [x]) (rdir @ [y]) t)"
proof -
  have "(p, n) \<in> set (rename_tree (rdir @ [x]) (rdir @ [y]) t)"
    if "j \<in> js" "(p, n) \<in> set t" "below (rdir @ [j]) p" for j p n
  proof -
    have "\<not> below (rdir @ [x]) p" using below_two[OF that(3)] that(1) assms(2) by blast
    then have "moved (rdir @ [x]) (rdir @ [y]) p = p" by (simp add: moved_def)
    then show ?thesis using that(2) unfolding rename_tree_def set_map by (intro image_eqI[of _ _ "(p, n)"]) simp_all
  qed
  then show ?thesis using link_free_rename[OF assms(1)] by (simp add: dirs_kept_def kept_below_def)
qed

text \<open>Names of staging directories are not names of cohorts.\<close>

definition cohort_names :: "string set \<Rightarrow> bool" where
  "cohort_names js \<longleftrightarrow> (\<forall>j \<in> js. starts_with ''c-'' j)"

lemma staging_not_cohort: "cohort_names js \<Longrightarrow> starts_with STAGING_PREFIX x \<Longrightarrow> x \<notin> js"
  by (cases x) (auto simp: cohort_names_def starts_with_def STAGING_PREFIX_def)

lemma staging_not_dotdot: "starts_with STAGING_PREFIX x \<Longrightarrow> x \<noteq> ''..''"
  by (auto simp: starts_with_def STAGING_PREFIX_def)

lemma removed_stage_tree:
  assumes "link_free t rdir" "starts_with STAGING_PREFIX x"
  shows "fst (removed_stage rdir (rdir @ [x]) t) \<in> {t, rmtree (rdir @ [x]) t}"
proof (cases "is_symlink t (rdir @ [x])")
  case True
  then show ?thesis by (simp add: removed_stage_def remove_staging_dir_def staging_path_def)
next
  case False
  then have "link_free t (rdir @ [x])"
    using assms is_symlink_child[OF assms(1)] staging_not_dotdot by (intro link_free_child) auto
  then show ?thesis
    using False assms
    by (auto simp: removed_stage_def remove_staging_dir_def staging_path_def resolved_def resolve_link_free)
qed

lemma dirs_kept_removed:
  assumes "link_free t rdir" "starts_with STAGING_PREFIX x" "cohort_names js"
  shows "dirs_kept rdir js t (fst (removed_stage rdir (rdir @ [x]) t))"
  using removed_stage_tree[OF assms(1,2)] dirs_kept_refl[OF assms(1)]
    dirs_kept_rmtree[OF assms(1) staging_not_cohort[OF assms(3,2)]] by auto

lemma cohort_dir_link_free: "link_free t rdir \<Longrightarrow> cohort_dir rdir i t = Inr d \<Longrightarrow> d = rdir @ [i]"
  using cohort_dir_child[of rdir i t d] by (auto simp: resolve_link_free)

lemma quarantine_is_staging: "starts_with STAGING_PREFIX (STAGING_QUARANTINE_PREFIX @ s)"
  by (simp add: starts_with_def STAGING_QUARANTINE_PREFIX_def)

lemma dirs_kept_stage:
  assumes t: "link_free t rdir" and x: "starts_with STAGING_PREFIX x" and js: "cohort_names js"
  shows "dirs_kept rdir js t (fst (clean_stage env rdir known force x t))"
proof -
  let ?q = "STAGING_QUARANTINE_PREFIX @ se_uuid env (rdir @ [x]) @ ''-'' @ x"
  note refl = dirs_kept_refl[OF t] and removed = dirs_kept_removed[OF t x js]
    and real = real_dir_link_free[OF t] and moved = dirs_kept_rename[OF t staging_not_cohort[OF js x]]
  have quarantined: "dirs_kept rdir js t (fst (removed_stage rdir (rdir @ [?q]) (rename_tree (rdir @ [x]) (rdir @ [?q]) t)))"
    using dirs_kept_trans[OF moved dirs_kept_removed[OF _ quarantine_is_staging js]] link_free_rename[OF t] by blast
  show ?thesis
    unfolding clean_stage_def Let_def real
    using refl removed moved quarantined cohort_dir_link_free[OF t]
    by (auto split: sum.split option.split bool.split)
qed

lemma dirs_kept_each:
  assumes "\<And>x t. x \<in> set xs \<Longrightarrow> link_free t rdir \<Longrightarrow> dirs_kept rdir js t (fst (f x t))" "link_free t rdir"
  shows "dirs_kept rdir js t (fst (clean_each f xs t))"
  using assms
proof (induction xs arbitrary: t)
  case Nil
  then show ?case by (simp add: dirs_kept_refl)
next
  case (Cons x xs)
  obtain t1 r1 where x: "f x t = (t1, r1)" by (cases "f x t")
  have one: "dirs_kept rdir js t t1" using Cons.prems(1)[of x t] Cons.prems(2) x by simp
  have "dirs_kept rdir js t1 (fst (clean_each f xs t1))"
    using Cons.IH[of t1] Cons.prems(1) one by (simp add: dirs_kept_def)
  then have "dirs_kept rdir js t (fst (clean_each f xs t1))" using dirs_kept_trans[OF one] by blast
  then show ?case using one x by (auto split: sum.splits prod.splits)
qed


lemma cohort_match_not_dotdot: "cohort_dir_match x \<Longrightarrow> x \<noteq> ''..''"
  by (auto simp: cohort_dir_match_def)

lemma dirs_kept_safe_remove:
  assumes "link_free t rdir" "x \<notin> js"
  shows "dirs_kept rdir js t (fst (safe_remove_cohort_dir rdir x t))"
  using dirs_kept_refl[OF assms(1)] dirs_kept_rmtree[OF assms]
  by (simp add: safe_remove_cohort_dir_def real_dir_link_free[OF assms(1)])

lemma dirs_kept_orphan:
  assumes "link_free t rdir" "js \<subseteq> cohort_ids ct"
  shows "dirs_kept rdir js t (fst (clean_orphan rdir ct x t))"
proof (cases "x \<in> cohort_ids ct")
  case True
  then show ?thesis using dirs_kept_refl[OF assms(1)] by (simp add: clean_orphan_def)
next
  case False
  then have "dirs_kept rdir js t (fst (safe_remove_cohort_dir rdir x t))"
    using assms by (intro dirs_kept_safe_remove) auto
  then show ?thesis using dirs_kept_refl[OF assms(1)] by (auto simp: clean_orphan_def split: prod.split)
qed

lemma dirs_kept_detached_one:
  assumes "link_free t rdir" "js \<subseteq> cohort_ids ct"
  shows "dirs_kept rdir js t (fst (clean_detached_one rdir ct x t))"
proof (cases "x \<in> cohort_ids ct")
  case True
  then show ?thesis using dirs_kept_refl[OF assms(1)] by (simp add: clean_detached_one_def Let_def)
next
  case False
  then have "dirs_kept rdir js t (fst (safe_remove_cohort_dir rdir x t))"
    using assms by (intro dirs_kept_safe_remove) auto
  then show ?thesis using dirs_kept_refl[OF assms(1)] unfolding clean_detached_one_def Let_def
    by (auto split: prod.split)
qed

lemma dirs_kept_detached_each:
  assumes "js \<subseteq> cohort_ids ct" "link_free t rdir"
  shows "dirs_kept rdir js t (fst (clean_detached_each rdir ct xs t))"
  using assms(2)
proof (induction xs arbitrary: t)
  case Nil
  then show ?case by (simp add: dirs_kept_refl)
next
  case (Cons x xs)
  obtain t1 n f where x: "clean_detached_one rdir ct x t = (t1, n, f)" by (cases "clean_detached_one rdir ct x t")
  have one: "dirs_kept rdir js t t1" using dirs_kept_detached_one[OF Cons.prems assms(1), of x] x by simp
  then have "dirs_kept rdir js t1 (fst (clean_detached_each rdir ct xs t1))"
    using Cons.IH by (simp add: dirs_kept_def)
  from dirs_kept_trans[OF one this] show ?case by (auto simp: x split: prod.split)
qed

lemma dirs_kept_raw:
  assumes "link_free t rdir" "cohort_names js"
  shows "dirs_kept rdir js t (fst (clean_raw_snapshots rdir t))"
proof (cases "is_symlink t (rdir @ [''source_snapshots''])")
  case True
  then show ?thesis using dirs_kept_refl[OF assms(1)] by (simp add: clean_raw_snapshots_def)
next
  case False
  then have "link_free t (rdir @ [''source_snapshots''])"
    using is_symlink_child[OF assms(1)] by (intro link_free_child[OF assms(1)]) auto
  moreover have "''source_snapshots'' \<notin> js" using assms(2) by (auto simp: cohort_names_def starts_with_def)
  ultimately show ?thesis
    using False dirs_kept_refl[OF assms(1)] dirs_kept_rmtree[OF assms(1)]
    by (simp add: clean_raw_snapshots_def Let_def resolve_link_free[OF assms(1)] resolve_link_free)
qed

lemma staging_names_listed:
  "x \<in> set (map last (cohort_staging_dirs rdir t)) \<Longrightarrow> starts_with STAGING_PREFIX x"
  by (auto simp: cohort_staging_dirs_def split: if_splits)

lemma dirs_kept_step:
  assumes s: "s \<in> set (maintenance_steps env rdir opts)" and t: "link_free (wk_tree w) rdir"
    and names: "cohort_names (cohort_ids (wk_cohorts w))"
  shows "dirs_kept rdir (cohort_ids (wk_cohorts (fst (s w)))) (wk_tree w) (wk_tree (fst (s w)))"
    and "cohort_ids (wk_cohorts (fst (s w))) \<subseteq> cohort_ids (wk_cohorts w)"
proof -
  have "dirs_kept rdir (cohort_ids (wk_cohorts w)) (wk_tree w) (wk_tree (fst (s w)))
      \<and> cohort_ids (wk_cohorts (fst (s w))) \<subseteq> cohort_ids (wk_cohorts w)"
    using maintenance_step_one[OF s]
  proof (elim disjE)
    assume s: "s = maintain_staging env rdir (mo_force opts)"
    have "dirs_kept rdir (cohort_ids (wk_cohorts w)) (wk_tree w)
        (fst (clean_staging env rdir (mo_force opts) (wk_cohorts w) (wk_tree w)))"
      unfolding clean_staging_def
      by (intro dirs_kept_each t dirs_kept_stage names) (assumption | rule staging_names_listed)+
    then show ?thesis by (simp add: s maintain_staging_def on_tree_fst)
  next
    assume s: "s = maintain_missing rdir"
    show ?thesis using dirs_kept_refl[OF t] by (auto simp: s maintain_missing_def Let_def remove_cohorts_def)
  next
    assume s: "s = maintain_orphans rdir"
    have "dirs_kept rdir (cohort_ids (wk_cohorts w)) (wk_tree w) (fst (clean_orphans rdir (wk_cohorts w) (wk_tree w)))"
      unfolding clean_orphans_def by (intro dirs_kept_each t dirs_kept_orphan) auto
    then show ?thesis by (simp add: s maintain_orphans_def on_tree_fst)
  next
    assume s: "s = maintain_detached rdir"
    have "dirs_kept rdir (cohort_ids (wk_cohorts w)) (wk_tree w) (fst (clean_detached rdir (wk_cohorts w) (wk_tree w)))"
      unfolding clean_detached_def by (rule dirs_kept_detached_each[OF _ t]) simp
    then show ?thesis by (auto simp: s maintain_detached_def split: prod.split)
  next
    assume s: "s = maintain_raw_snapshots rdir"
    show ?thesis using dirs_kept_raw[OF t names] by (simp add: s maintain_raw_snapshots_def on_tree_fst)
  qed
  then show "dirs_kept rdir (cohort_ids (wk_cohorts (fst (s w)))) (wk_tree w) (wk_tree (fst (s w)))"
    "cohort_ids (wk_cohorts (fst (s w))) \<subseteq> cohort_ids (wk_cohorts w)"
    unfolding dirs_kept_def by blast+
qed

lemma identity_name: "identity_ok r \<Longrightarrow> starts_with ''c-'' (co_cohort_id r)"
  by (auto simp: identity_ok_def starts_with_def split: if_splits)

definition store_kept :: "path \<Rightarrow> workspace \<Rightarrow> workspace \<Rightarrow> bool" where
  "store_kept rdir w w' \<longleftrightarrow> dirs_kept rdir (cohort_ids (wk_cohorts w')) (wk_tree w) (wk_tree w')
     \<and> cohort_ids (wk_cohorts w') \<subseteq> cohort_ids (wk_cohorts w)"

lemma store_kept_trans: "store_kept rdir u v \<Longrightarrow> store_kept rdir v w \<Longrightarrow> store_kept rdir u w"
  unfolding store_kept_def dirs_kept_def kept_below_def by blast

lemma maintain_keeps_store:
  assumes "link_free (wk_tree w) rdir" "cohort_inv (wk_cohorts w)"
  shows "store_kept rdir w (fst (maintain_cohort_store env rdir sound opts w))"
proof -
  let ?P = "\<lambda>w. link_free (wk_tree w) rdir \<and> cohort_inv (wk_cohorts w)"
  let ?R = "\<lambda>u v. ?P u \<longrightarrow> store_kept rdir u v \<and> ?P v"
  have one: "?P (fst (s v)) \<and> ?R v (fst (s v))"
    if s: "s \<in> set (maintenance_steps env rdir opts)" and v: "?P v" for s v
  proof -
    have "cohort_names (cohort_ids (wk_cohorts v))"
      using v identity_name by (auto simp: cohort_inv_def cohort_names_def)
    then have "store_kept rdir v (fst (s v))"
      using dirs_kept_step[OF s] v unfolding store_kept_def by blast
    moreover have "cohort_inv (wk_cohorts (fst (s v)))" using maintenance_step_tables(1)[OF s] v by blast
    ultimately show ?thesis by (simp add: store_kept_def dirs_kept_def)
  qed
  have refl: "store_kept rdir v v" if "?P v" for v
    using that by (simp add: store_kept_def dirs_kept_refl)
  have "?P (fst (run_steps (maintenance_steps env rdir opts) w)) \<and> ?R w (fst (run_steps (maintenance_steps env rdir opts) w))"
  proof (rule run_steps_rel[where P = ?P and R = ?R])
    show "?P (fst (s v)) \<and> ?R v (fst (s v))" if "s \<in> set (maintenance_steps env rdir opts)" "?P v" for s v
      using one[OF that] .
  qed (use assms refl store_kept_trans in blast)+
  then show ?thesis using maintain_cases[of env rdir sound opts w] refl assms by metis
qed


text \<open>What the clean-ups do to the tables: cohorts nothing protects may go, the pointers and families stay.\<close>

definition protected_by :: "cohort_tables \<Rightarrow> string \<Rightarrow> bool" where
  "protected_by ct j \<longleftrightarrow> j \<in> pt_active_snapshot_id ` set (ct_pointers ct) \<union> fi_universe_cohort_id ` set (ct_families ct)"

definition cohorts_shrunk :: "cohort_tables \<Rightarrow> cohort_tables \<Rightarrow> bool" where
  "cohorts_shrunk ct ct' \<longleftrightarrow> protected_by ct' = protected_by ct
     \<and> (\<forall>j. find_cohort j ct' = find_cohort j ct
          \<or> find_cohort j ct' = None \<and> (\<forall>r. find_cohort j ct = Some r \<longrightarrow> \<not> co_pinned r \<and> \<not> protected_by ct j))"

lemma cohorts_shrunk_trans: "cohorts_shrunk a b \<Longrightarrow> cohorts_shrunk b c \<Longrightarrow> cohorts_shrunk a c"
  unfolding cohorts_shrunk_def by metis

lemma cohorts_shrunk_step:
  assumes "s \<in> set (maintenance_steps env rdir opts)" "cohort_inv (wk_cohorts w)"
  shows "cohorts_shrunk (wk_cohorts w) (wk_cohorts (fst (s w)))"
proof -
  obtain ids ds where new: "wk_cohorts (fst (s w)) = remove_cohorts ids ((wk_cohorts w)\<lparr>ct_detached := ds\<rparr>)"
    and unpinned: "\<forall>r \<in> set (ct_cohorts (wk_cohorts w)). co_cohort_id r \<in> ids \<longrightarrow> \<not> co_pinned r"
    and free: "ids \<inter> (pt_active_snapshot_id ` set (ct_pointers (wk_cohorts w)) \<union> fi_universe_cohort_id ` set (ct_families (wk_cohorts w))) = {}"
    using maintenance_step_tables(3)[OF assms] by blast
  have "protected_by (wk_cohorts (fst (s w))) = protected_by (wk_cohorts w)"
    by (rule ext) (simp add: new protected_by_def remove_cohorts_def)
  moreover have "find_cohort j (wk_cohorts (fst (s w))) = (if j \<in> ids then None else find_cohort j (wk_cohorts w))" for j
    using find_remove_cohorts[of "(wk_cohorts w)\<lparr>ct_detached := ds\<rparr>" j ids] assms(2)
    unfolding new by (simp add: find_cohort_def cohort_inv_def)
  moreover have "\<not> co_pinned r \<and> \<not> protected_by (wk_cohorts w) j" if "j \<in> ids" "find_cohort j (wk_cohorts w) = Some r" for j r
    using that unpinned free find_cohort_in[OF that(2)] by (auto simp: protected_by_def)
  ultimately show ?thesis unfolding cohorts_shrunk_def by simp
qed

lemma maintain_shrinks:
  assumes "cohort_inv (wk_cohorts w)"
  shows "cohorts_shrunk (wk_cohorts w) (wk_cohorts (fst (maintain_cohort_store env rdir sound opts w)))"
proof -
  let ?ss = "maintenance_steps env rdir opts"
  let ?P = "\<lambda>w. cohort_inv (wk_cohorts w)"
  let ?R = "\<lambda>u v. cohorts_shrunk (wk_cohorts u) (wk_cohorts v)"
  have refl: "?R v v" for v by (simp add: cohorts_shrunk_def)
  have "?P (fst (run_steps ?ss w)) \<and> ?R w (fst (run_steps ?ss w))"
  proof (rule run_steps_rel[where P = ?P and R = ?R])
    show "?P (fst (s v)) \<and> ?R v (fst (s v))" if "s \<in> set ?ss" "?P v" for s v
      using maintenance_step_tables(1)[OF that] cohorts_shrunk_step[OF that] by simp
  qed (use assms refl cohorts_shrunk_trans in blast)+
  then show ?thesis using maintain_cases[of env rdir sound opts w] refl by metis
qed

text \<open>
  C40. Maintenance never touches the data of a catalogued cohort. Whatever clean-ups run, whether they finish or
  fail half way, a cohort that is still catalogued keeps every file of its directory; and a cohort that is
  gone from the catalogue was not pinned, not the active snapshot of a source and not the universe of an active
  family index.
\<close>

theorem maintenance_keeps_datasets:
  assumes "link_free (wk_tree w) rdir" and "cohort_inv (wk_cohorts w)"
    and "maintain_cohort_store env rdir sound opts w = (w', res)"
  shows "(j \<in> cohort_ids (wk_cohorts w') \<and> (p, n) \<in> set (wk_tree w) \<and> below (rdir @ [j]) p \<longrightarrow> (p, n) \<in> set (wk_tree w'))
    \<and> (find_cohort j (wk_cohorts w) = Some r \<and> find_cohort j (wk_cohorts w') = None \<longrightarrow>
          \<not> co_pinned r \<and> j \<notin> pt_active_snapshot_id ` set (ct_pointers (wk_cohorts w))
          \<and> j \<notin> fi_universe_cohort_id ` set (ct_families (wk_cohorts w)))"
proof -
  have "store_kept rdir w w'" "cohorts_shrunk (wk_cohorts w) (wk_cohorts w')"
    using maintain_keeps_store[OF assms(1,2), of env sound opts] maintain_shrinks[OF assms(2), of env rdir sound opts]
    unfolding assms(3) by simp_all
  then have kept: "kept_below (rdir @ [j]) (wk_tree w) (wk_tree w')" if "j \<in> cohort_ids (wk_cohorts w')"
    using that unfolding store_kept_def dirs_kept_def by blast
  have gone: "\<not> co_pinned r \<and> \<not> protected_by (wk_cohorts w) j"
    if "find_cohort j (wk_cohorts w) = Some r" "find_cohort j (wk_cohorts w') = None"
    using \<open>cohorts_shrunk (wk_cohorts w) (wk_cohorts w')\<close> that unfolding cohorts_shrunk_def
    by (metis option.distinct(1))
  show ?thesis using kept gone unfolding kept_below_def protected_by_def by blast
qed

section \<open>A deletion that stopped half way\<close>

text \<open>
  What the recovery theorem asks of the files before the deletion: the root and the cohort's directory are
  plain directories listed once, nothing stands at the quarantine name, and no staging directory is left over.
\<close>

definition quiet_store :: "path \<Rightarrow> string \<Rightarrow> string \<Rightarrow> file_tree \<Rightarrow> bool" where
  "quiet_store rdir i uuid t \<longleftrightarrow> plain_store rdir i uuid t \<and> tree_inv t
     \<and> map_of t rdir = Some Dir \<and> map_of t (rdir @ [i]) = Some Dir
     \<and> list_all (\<lambda>x. \<not> starts_with STAGING_PREFIX x) (child_names t rdir)
     \<and> cohort_dir_match i \<and> CHR ''-'' \<notin> set uuid"

lemma no_staging_dirs:
  assumes "list_all (\<lambda>x. \<not> starts_with STAGING_PREFIX x) (child_names t rdir)"
  shows "clean_staging env rdir force ct t = (t, Inr 0)"
proof -
  have "filter (\<lambda>x. \<not> is_symlink t (rdir @ [x]) \<and> is_dir t (rdir @ [x]) \<and> starts_with STAGING_PREFIX x) (child_names t rdir) = []"
    using assms by (auto simp: filter_empty_conv list_all_iff)
  then show ?thesis by (simp add: clean_staging_def cohort_staging_dirs_def)
qed

lemma rsplit_head_append: "CHR ''-'' \<notin> set u \<Longrightarrow> rsplit_head (i @ ''-'' @ u) = i"
proof -
  assume "CHR ''-'' \<notin> set u"
  then have "dropWhile (\<lambda>c. c \<noteq> CHR ''-'') (rev u @ CHR ''-'' # rev i) = CHR ''-'' # rev i"
    by (subst dropWhile_append2) auto
  then show ?thesis by (simp add: rsplit_head_def)
qed

lemma child_moved:
  "(moved (d @ [i]) (d @ [q]) p \<noteq> [] \<and> butlast (moved (d @ [i]) (d @ [q]) p) = d) \<longleftrightarrow> (p \<noteq> [] \<and> butlast p = d)"
proof (cases "below (d @ [i]) p")
  case True
  then obtain r where "p = d @ [i] @ r" by (auto simp: below_iff)
  then show ?thesis by (cases r rule: rev_cases) (simp_all add: moved_def butlast_append)
qed (simp add: moved_def)

lemma last_moved:
  assumes "p \<noteq> []" "butlast p = d"
  shows "last (moved (d @ [i]) (d @ [q]) p) = (if last p = i then q else last p)"
proof -
  have p: "p = d @ [last p]" using assms by (metis append_butlast_last_id)
  then have "below (d @ [i]) p \<longleftrightarrow> last p = i" by (metis below_child)
  then show ?thesis using p by (metis append_Nil2 drop_eq_Nil last_snoc length_append_singleton moved_def order_refl)
qed

lemma child_names_moved:
  assumes "link_free t d"
  shows "child_names (rename_tree (d @ [i]) (d @ [q]) t) d = map (\<lambda>x. if x = i then q else x) (child_names t d)"
proof -
  let ?m = "moved (d @ [i]) (d @ [q])"
  have real: "real_dir (rename_tree (d @ [i]) (d @ [q]) t) d = d" "real_dir t d = d"
    using real_dir_link_free assms link_free_rename by blast+
  have "map fst (rename_tree (d @ [i]) (d @ [q]) t) = map ?m (map fst t)"
    by (simp add: rename_tree_def case_prod_beta comp_def)
  then show ?thesis
    unfolding child_names_def real
    by (simp add: filter_map comp_def child_moved last_moved cong: map_cong filter_cong)
qed

lemma child_names_distinct:
  assumes "tree_inv t"
  shows "distinct (child_names t d)"
proof -
  have "inj_on last {p. p \<noteq> [] \<and> butlast p = real_dir t d}"
    by (rule inj_onI) (metis (mono_tags) append_butlast_last_id mem_Collect_eq)
  then show ?thesis
    using assms unfolding child_names_def tree_inv_def
    by (auto simp: distinct_map intro: inj_on_subset)
qed

lemma child_names_iff:
  assumes "link_free t d"
  shows "x \<in> set (child_names t d) \<longleftrightarrow> map_of t (d @ [x]) \<noteq> None"
  unfolding child_names_def real_dir_link_free[OF assms]
  by (force simp: map_of_eq_None_iff image_iff dest: append_butlast_last_id)

lemma filter_one_mapped:
  assumes "distinct xs" "i \<in> set xs" "\<And>x. x \<in> set xs \<Longrightarrow> P (f x) \<longleftrightarrow> x = i"
  shows "filter P (map f xs) = [f i]"
  using assms
proof (induction xs)
  case (Cons x xs)
  show ?case
  proof (cases "x = i")
    case True
    then have "filter P (map f xs) = []" using Cons.prems by (auto simp: filter_empty_conv)
    then show ?thesis using True Cons.prems(3) by simp
  next
    case False
    then show ?thesis using Cons by simp
  qed
qed simp

lemma cohort_match_safe: "cohort_dir_match i \<Longrightarrow> safe_id i \<and> \<not> has_dotdot i"
proof
  assume m: "cohort_dir_match i"
  then have hex: "list_all lower_hex (drop 2 i)" and head: "take 2 i = ''c-''" and len: "length i = 18"
    by (simp_all add: cohort_dir_match_def starts_with_def numeral_2_eq_2)
  have i: "i = ''c-'' @ drop 2 i" using append_take_drop_id[of 2 i] unfolding head by simp
  have digits: "is_alpha_us c \<or> is_digit c" "c \<noteq> CHR ''.''" if "lower_hex c" for c
    using that by (auto simp: lower_hex_def is_alpha_us_def is_digit_def)
  have no_dot: "CHR ''.'' \<notin> set i"
    using hex digits(2) by (subst i) (auto simp: list_all_iff)
  have "list_all (\<lambda>c. is_alpha_us c \<or> is_digit c \<or> c = CHR ''.'' \<or> c = CHR ''-'') i"
    using hex digits(1) by (subst i) (auto simp: list_all_iff is_alpha_us_def)
  then show "safe_id i" using len by (simp add: safe_id_def)
  have "\<not> starts_with ''..'' (drop n i)" for n
  proof
    assume "starts_with ''..'' (drop n i)"
    then have "CHR ''.'' \<in> set (drop n i)"
      by (metis append_take_drop_id in_set_takeD list.set_intros(1) starts_with_def)
    then show False using no_dot in_set_dropD by fast
  qed
  then show "\<not> has_dotdot i" by (simp add: has_dotdot_def list_ex_iff)
qed

lemma purge_name_facts:
  "starts_with STAGING_PREFIX (purge_name i u)" "\<not> starts_with STAGING_QUARANTINE_PREFIX (purge_name i u)"
  "starts_with (STAGING_PREFIX @ ''purge-'') (purge_name i u)"
  "drop (length (STAGING_PREFIX @ ''purge-'')) (purge_name i u) = i @ ''-'' @ u"
  by (simp_all add: starts_with_def purge_name_def STAGING_QUARANTINE_PREFIX_def)

text \<open>The files between the move of the directory and the end of the deletion, as the clean-up finds them.\<close>

lemma stopped_tree:
  assumes "quiet_store rdir i uuid t"
  defines "q \<equiv> purge_name i uuid" and "t' \<equiv> rename_tree (rdir @ [i]) (rdir @ [purge_name i uuid]) t"
  shows "link_free t' rdir" "link_free t' (rdir @ [q])" "stat t' (rdir @ [q]) = Some Dir"
    "cohort_dir rdir i t' = Inr (rdir @ [i])" "\<not> exists_path t' (rdir @ [i])" "stat t' rdir = Some Dir"
proof -
  have plain: "plain_store rdir i uuid t" and dirs: "map_of t rdir = Some Dir" "map_of t (rdir @ [i]) = Some Dir"
    and match: "cohort_dir_match i"
    using assms(1) by (simp_all add: quiet_store_def)
  note free = plain_storeD[OF plain]
  have iq: "i \<noteq> q"
    using match purge_name_facts(1)[of i uuid]
    by (auto simp: cohort_dir_match_def starts_with_def q_def purge_name_def STAGING_PREFIX_def)
  show r: "link_free t' rdir" unfolding t'_def by (rule link_free_rename[OF free(1)])
  have at_q: "map_of t' (rdir @ [q]) = Some Dir"
    using map_of_rename_dst[OF free(4), of "rdir @ [i]"] dirs(2) by (simp add: t'_def q_def)
  have at_i: "map_of t' (rdir @ [i]) = None"
    unfolding t'_def using map_of_rename_src[of "rdir @ [q]" "rdir @ [i]"] iq by (simp add: q_def below_child)
  show q: "link_free t' (rdir @ [q])"
    using r at_q purge_name_facts(1)[of i uuid, THEN staging_not_dotdot] by (intro link_free_child) (auto simp: q_def)
  have i: "link_free t' (rdir @ [i])"
    using r at_i cohort_match_not_dotdot[OF match] by (intro link_free_child) auto
  show "stat t' (rdir @ [q]) = Some Dir" using at_q stat_link_free[OF q] by simp
  show "\<not> exists_path t' (rdir @ [i])" using at_i stat_link_free[OF i] by (simp add: exists_path_def)
  show "cohort_dir rdir i t' = Inr (rdir @ [i])"
    using cohort_match_safe[OF match] by (simp add: cohort_dir_def resolved_def resolve_link_free r i child_of_def)
  have "map_of t' rdir = map_of t rdir"
    unfolding t'_def by (rule map_of_rename_other) (simp_all add: below_def)
  then show "stat t' rdir = Some Dir" using dirs(1) stat_link_free[OF r] by simp
qed

lemma stopped_staging_dirs:
  assumes "quiet_store rdir i uuid t"
  shows "map last (cohort_staging_dirs rdir (rename_tree (rdir @ [i]) (rdir @ [purge_name i uuid]) t)) = [purge_name i uuid]"
proof -
  let ?q = "purge_name i uuid" and ?t = "rename_tree (rdir @ [i]) (rdir @ [purge_name i uuid]) t"
  let ?P = "\<lambda>x. \<not> is_symlink ?t (rdir @ [x]) \<and> is_dir ?t (rdir @ [x]) \<and> starts_with STAGING_PREFIX x"
  note s = stopped_tree[OF assms]
  have free: "link_free t rdir" and inv: "tree_inv t" and i: "map_of t (rdir @ [i]) = Some Dir"
    and none: "list_all (\<lambda>x. \<not> starts_with STAGING_PREFIX x) (child_names t rdir)"
    using assms plain_storeD(1) by (auto simp: quiet_store_def)
  have q: "?P ?q"
    using s(2,3) is_symlink_child[OF s(1), of ?q] purge_name_facts(1)[of i uuid] stat_link_free[OF s(2)] by (auto simp: is_dir_def)
  have "filter ?P (map (\<lambda>x. if x = i then ?q else x) (child_names t rdir)) = [?q]"
    using filter_one_mapped[OF child_names_distinct[OF inv, of rdir], of i ?P "\<lambda>x. if x = i then ?q else x"]
      none q i child_names_iff[OF free, of i]
    by (auto simp: list_all_iff)
  then show ?thesis
    unfolding cohort_staging_dirs_def child_names_moved[OF free] using s(6) by (simp add: is_dir_def)
qed

lemma clean_stopped:
  assumes "quiet_store rdir i uuid t"
  shows "\<exists>m. clean_staging env rdir force ct (rename_tree (rdir @ [i]) (rdir @ [purge_name i uuid]) t)
    = (if i \<in> cohort_ids ct then t else rmtree (rdir @ [i]) t, Inr m)"
proof -
  let ?q = "purge_name i uuid" and ?t = "rename_tree (rdir @ [i]) (rdir @ [purge_name i uuid]) t"
  note s = stopped_tree[OF assms]
  have quiet: "\<forall>p \<in> fst ` set t. \<not> below (rdir @ [?q]) p" and match: "cohort_dir_match i" and u: "CHR ''-'' \<notin> set uuid"
    using assms plain_storeD(4)[of rdir i uuid t] by (simp_all add: quiet_store_def)
  have no_link: "\<not> is_symlink ?t (rdir @ [?q])"
    using is_symlink_child[OF s(1), of ?q] s(3) stat_link_free[OF s(2)] by auto
  have removed: "removed_stage rdir (rdir @ [?q]) ?t = (rmtree (rdir @ [i]) t, Inr 1)"
    using no_link s(1,2,3) purge_name_facts(1)[of i uuid] rename_rmtree[OF quiet, of "rdir @ [i]"]
    by (simp add: removed_stage_def remove_staging_dir_def staging_path_def resolved_def resolve_link_free is_dir_def)
  have "clean_stage env rdir (cohort_ids ct) force ?q ?t
      = (if i \<in> cohort_ids ct then (t, Inr 0) else (rmtree (rdir @ [i]) t, Inr 1))"
    unfolding clean_stage_def Let_def purge_name_facts(4) rsplit_head_append[OF u] real_dir_link_free[OF s(1)]
    using match s(4,5) removed rename_back[OF quiet, of "rdir @ [i]"] purge_name_facts(2,3)[of i uuid] by simp
  then show ?thesis by (simp add: clean_staging_def stopped_staging_dirs[OF assms])
qed

lemma take_cases3: "take k [a, b, c] \<in> {[], [a], [a, b], [a, b, c]}"
proof -
  consider "k = 0" | "k = 1" | "k = 2" | "3 \<le> k" by linarith
  then show ?thesis by cases (simp_all add: numeral_eq_Suc)
qed

lemma take_cases1: "take k [a] \<in> {[], [a]}"
  by (cases k) simp_all

lemma take_cases2: "take k [a, b] \<in> {[], [a], [a, b]}"
proof -
  consider "k = 0" | "k = 1" | "2 \<le> k" by linarith
  then show ?thesis by cases (simp_all add: numeral_eq_Suc)
qed

text \<open>A removal that failed half way leaves what the move of a smaller directory would have left.\<close>

lemma stat_filter:
  assumes "distinct (map fst t)"
  shows "map_of (filter P t) p = (case map_of t p of None \<Rightarrow> None | Some n \<Rightarrow> if P (p, n) then Some n else None)"
  using assms by (induction t) (auto simp: map_of_eq_None_iff split: option.splits)

lemma quiet_store_smaller:
  assumes "quiet_store rdir i uuid t" and P: "\<And>p n. \<not> below (rdir @ [i]) p \<Longrightarrow> P (p, n)" "P (rdir @ [i], Dir)"
  shows "quiet_store rdir i uuid (filter P t)"
proof -
  have inv: "distinct (map fst t)" and dirs: "map_of t rdir = Some Dir" "map_of t (rdir @ [i]) = Some Dir"
    and plain: "plain_store rdir i uuid t"
    and names: "list_all (\<lambda>x. \<not> starts_with STAGING_PREFIX x) (child_names t rdir)"
    using assms(1) by (simp_all add: quiet_store_def tree_inv_def)
  have "link_free (filter P t) p" if "link_free t p" for p
    using that by (auto simp: link_free_def list_all_iff stat_filter[OF inv] split: option.splits)
  then have free: "link_free (filter P t) (rdir @ [i, ''.detached''])" "link_free (filter P t) rdir"
    using plain_storeD(1,3)[OF plain] by blast+
  have "plain_store rdir i uuid (filter P t)"
    using plain_storeD(4)[OF plain] free(1) by (auto simp: plain_store_def)
  moreover have "distinct (map fst (filter P t))" using inv by (rule distinct_map_filter)
  moreover have "map_of (filter P t) rdir = Some Dir" "map_of (filter P t) (rdir @ [i]) = Some Dir"
    using P dirs by (simp_all add: stat_filter[OF inv] below_def)
  moreover have "set (child_names (filter P t) rdir) \<subseteq> set (child_names t rdir)"
    using plain_storeD(1)[OF plain] free(2) by (auto simp: child_names_def real_dir_link_free)
  ultimately show ?thesis
    using assms(1) names by (auto simp: quiet_store_def tree_inv_def list_all_iff)
qed

text \<open>
  The states a purge may stop in. In the third the tables are committed and what is left of the directory
  stands under the quarantine name.
\<close>

definition settled :: "delete_fault option \<Rightarrow> delete_fault option" where
  "settled fault = (case fault of
     Some UndoFault \<Rightarrow> Some SqlFault | Some (RemovalFault left) \<Rightarrow> None | _ \<Rightarrow> fault)"

lemma purge_effects:
  fixes d q fault
  defines "run \<equiv> \<lambda>fault st. fst (delete_finish [MoveDir d q] [MoveDir q d] [DiscardDir q] fault st)"
  shows "run fault st = [] \<or> run fault st = [MoveDir d q, MoveDir q d] \<or> run fault st = [MoveDir d q]
    \<or> (\<exists>ct ob e. st = Inr (ct, ob) \<and> run fault st = [MoveDir d q, CommitTables ct ob, e]
         \<and> run (settled fault) st = [MoveDir d q, CommitTables ct ob, DiscardDir q]
         \<and> (e = DiscardDir q \<or> (\<exists>left. e = DiscardPartly q left)))"
  unfolding run_def delete_finish_def settled_def
  by (cases st; cases fault) (auto split: delete_fault.splits)

lemma purge_stops:
  fixes w force now fault k
  assumes quiet: "quiet_store rdir i uuid (wk_tree w)"
  defines "d \<equiv> rdir @ [i]" and "q \<equiv> rdir @ [purge_name i uuid]"
    and "final \<equiv> fst (delete_cohort rdir i True force uuid now (settled fault) w)"
    and "w1 \<equiv> delete_stopped k rdir i True force uuid now fault w"
  shows "w1 = w
    \<or> w1 = w\<lparr>wk_tree := rename_tree d q (wk_tree w)\<rparr> \<and> i \<in> cohort_ids (wk_cohorts w)
    \<or> (\<exists>t. i \<notin> cohort_ids (wk_cohorts w1) \<and> quiet_store rdir i uuid t \<and> wk_tree w1 = rename_tree d q t
         \<and> final = w1\<lparr>wk_tree := rmtree d t\<rparr>)
    \<or> w1 = final \<and> wk_tree w1 = rmtree d (wk_tree w)"
proof -
  let ?es = "fst (delete_effects rdir i True force uuid now fault w)"
  let ?fs = "fst (delete_effects rdir i True force uuid now (settled fault) w)"
  have plain: "plain_store rdir i uuid (wk_tree w)" using quiet by (simp add: quiet_store_def)
  note free = plain_storeD[OF plain]
  have all: "final = foldl apply_effect w ?fs" by (simp add: final_def delete_cohort_def split: prod.split)
  have w1: "w1 = foldl apply_effect w (take k ?es)" by (simp add: w1_def delete_stopped_def)
  have "exists_path (wk_tree w) d"
    using quiet stat_link_free[OF free(2)] by (simp add: quiet_store_def exists_path_def d_def)
  then have shape: "delete_shape rdir i True uuid w = ([MoveDir d q], [MoveDir q d], [DiscardDir q])"
    by (simp add: delete_shape_def d_def q_def)
  have undo: "rename_tree q d (rename_tree d q (wk_tree w)) = wk_tree w"
    and rm: "rmtree q (rename_tree d q (wk_tree w)) = rmtree d (wk_tree w)"
    unfolding q_def d_def by (rule rename_back[OF free(4)], rule rename_rmtree[OF free(4)])
  show ?thesis
  proof (cases "?es = []")
    case False
    then obtain row where g: "delete_guard i force w = Inr (Some row)"
      and fin: "\<forall>fault. delete_effects rdir i True force uuid now fault w = delete_finish [MoveDir d q] [MoveDir q d] [DiscardDir q] fault
        (delete_statements i True force now row w)"
      using delete_effects_shape_all[OF plain shape, of force now] by auto
    have i: "i \<in> cohort_ids (wk_cohorts w)" using find_cohort_in[OF delete_guardD(1)[OF g]] by auto
    consider (undone) "?es = [MoveDir d q, MoveDir q d] \<or> ?es = [MoveDir d q]"
      | (committed) ct ob e where "delete_statements i True force now row w = Inr (ct, ob)"
          "?es = [MoveDir d q, CommitTables ct ob, e]" "?fs = [MoveDir d q, CommitTables ct ob, DiscardDir q]"
          "e = DiscardDir q \<or> (\<exists>left. e = DiscardPartly q left)"
      using False purge_effects[of d q fault "delete_statements i True force now row w"] unfolding fin[rule_format] by blast
    then show ?thesis
    proof cases
      case undone
      then have stops: "take k ?es = [] \<or> take k ?es = [MoveDir d q] \<or> take k ?es = [MoveDir d q, MoveDir q d]"
        using take_cases2[of k "MoveDir d q" "MoveDir q d"] take_cases1[of k "MoveDir d q"] by auto
      have "foldl apply_effect w [] = w"
        "foldl apply_effect w [MoveDir d q] = w\<lparr>wk_tree := rename_tree d q (wk_tree w)\<rparr>"
        "foldl apply_effect w [MoveDir d q, MoveDir q d] = w"
        using undo by (simp_all add: apply_effect_def)
      with stops have "w1 = w \<or> w1 = w\<lparr>wk_tree := rename_tree d q (wk_tree w)\<rparr>" unfolding w1 by metis
      then show ?thesis using i by blast
    next
      case (committed ct ob e)
      have gone: "i \<notin> cohort_ids ct" using delete_statementsD(2)[OF committed(1)] by (auto simp: remove_cohorts_def)
      have final: "final = w\<lparr>wk_cohorts := ct, wk_objects := ob, wk_tree := rmtree d (wk_tree w)\<rparr>"
        unfolding all committed(3) by (simp add: apply_effect_def rm)
      from take_cases3[of k "MoveDir d q" "CommitTables ct ob" e]
      consider "take k ?es = []" | "take k ?es = [MoveDir d q]" | "take k ?es = [MoveDir d q, CommitTables ct ob]"
        | "take k ?es = [MoveDir d q, CommitTables ct ob, e]" unfolding committed(2) by blast
      then show ?thesis
      proof cases
        case 1
        have "w1 = w" unfolding w1 1 by simp
        then show ?thesis by blast
      next
        case 2
        then show ?thesis using i by (simp add: w1 apply_effect_def)
      next
        case 3
        then show ?thesis using gone quiet by (intro disjI2 disjI1 exI[of _ "wk_tree w"]) (simp add: w1 final apply_effect_def)
      next
        case 4
        show ?thesis
        proof (cases "e = DiscardDir q")
          case True
          then show ?thesis using 4 by (simp add: w1 final apply_effect_def rm)
        next
          case False
          then obtain left where e: "e = DiscardPartly q left" using committed(4) by blast
          let ?P = "\<lambda>(p, n). below d p \<longrightarrow> list_ex (below (moved d q p)) (q # left)"
          have "quiet_store rdir i uuid (filter ?P (wk_tree w))"
            using quiet_store_smaller[OF quiet, of ?P] by (simp add: d_def q_def moved_def below_def)
          moreover have "rmtree d (filter ?P (wk_tree w)) = rmtree d (wk_tree w)"
            by (auto simp: rmtree_def intro!: filter_cong)
          moreover have "wk_tree w1 = rename_tree d q (filter ?P (wk_tree w))"
            using 4 rename_rmtree_partly[OF free(4)[folded q_def], of left d] by (simp add: w1 e apply_effect_def)
          ultimately show ?thesis
            using 4 gone by (intro disjI2 disjI1 exI[of _ "filter ?P (wk_tree w)"]) (simp add: w1 e final apply_effect_def)
        qed
      qed
    qed
  qed (simp add: w1)
qed

lemma no_staging_rmtree:
  assumes "link_free t rdir" "list_all (\<lambda>x. \<not> starts_with STAGING_PREFIX x) (child_names t rdir)"
  shows "list_all (\<lambda>x. \<not> starts_with STAGING_PREFIX x) (child_names (rmtree (rdir @ [i]) t) rdir)"
proof -
  have "real_dir (rmtree (rdir @ [i]) t) rdir = rdir" "real_dir t rdir = rdir"
    using real_dir_link_free assms(1) link_free_rmtree by blast+
  then have "set (child_names (rmtree (rdir @ [i]) t) rdir) \<subseteq> set (child_names t rdir)"
    by (auto simp: child_names_def rmtree_def)
  then show ?thesis using assms(2) by (auto simp: list_all_iff)
qed

text \<open>
  C34. A deletion that dies half way is finished or undone by the next clean-up. Let the process stop after any number of
  the steps of \<^verbatim>\<open>delete_cohort\<close> with purge, or let its own compensation or final removal fail: the clean-up of staging
  directories then succeeds, and the store it leaves, tables and files, is either the one before the deletion or the one
  that the deletion would have left had it run to its end, with its removal completed.
\<close>

theorem delete_crash_recovery:
  assumes "quiet_store rdir i uuid (wk_tree w)"
    and "w1 = delete_stopped k rdir i True force uuid now fault w"
    and "maintain_staging env rdir force' w1 = (w2, res)"
  shows "(\<exists>m. res = Inr [(''staging'', m)])
    \<and> (w2 = w \<or> w2 = fst (delete_cohort rdir i True force uuid now (settled fault) w))"
proof -
  let ?w = "fst (delete_cohort rdir i True force uuid now (settled fault) w)"
  have goal: ?thesis if "\<exists>m. clean_staging env rdir force' (wk_cohorts w1) (wk_tree w1) = (t, Inr m)"
    "w1\<lparr>wk_tree := t\<rparr> = w \<or> w1\<lparr>wk_tree := t\<rparr> = ?w" for t
    using that assms(3) by (auto simp: maintain_staging_def on_tree_def)
  have none: "list_all (\<lambda>x. \<not> starts_with STAGING_PREFIX x) (child_names (wk_tree w) rdir)"
    and free: "link_free (wk_tree w) rdir"
    using assms(1) plain_storeD(1) by (auto simp: quiet_store_def)
  from purge_stops[OF assms(1), of k force now fault, folded assms(2)] show ?thesis
  proof (elim disjE conjE exE)
    assume "w1 = w"
    then show ?thesis using no_staging_dirs[OF none] by (intro goal) auto
  next
    assume "w1 = w\<lparr>wk_tree := rename_tree (rdir @ [i]) (rdir @ [purge_name i uuid]) (wk_tree w)\<rparr>" "i \<in> cohort_ids (wk_cohorts w)"
    then show ?thesis using clean_stopped[OF assms(1), of env force' "wk_cohorts w1"] by (intro goal[of "wk_tree w"]) auto
  next
    fix t
    assume t: "quiet_store rdir i uuid t" "i \<notin> cohort_ids (wk_cohorts w1)"
      "wk_tree w1 = rename_tree (rdir @ [i]) (rdir @ [purge_name i uuid]) t" "?w = w1\<lparr>wk_tree := rmtree (rdir @ [i]) t\<rparr>"
    then show ?thesis using clean_stopped[OF t(1), of env force' "wk_cohorts w1"] by (intro goal[of "rmtree (rdir @ [i]) t"]) auto
  next
    assume "w1 = ?w" "wk_tree w1 = rmtree (rdir @ [i]) (wk_tree w)"
    then show ?thesis using no_staging_dirs[OF no_staging_rmtree[OF free none]] by (intro goal[of "wk_tree w1"]) auto
  qed
qed

section \<open>Examples\<close>

definition demo_stage_env :: stage_env where
  "demo_stage_env = \<lparr>se_hostname = ''host'', se_pid_exists = (\<lambda>_. False), se_lease = (\<lambda>_. None), se_fromiso = (\<lambda>_. None),
     se_mtime = (\<lambda>_. 0), se_now = 100, se_uuid = (\<lambda>_. ''q'')\<rparr>"

definition demo_options :: maintenance_options where
  "demo_options = \<lparr>mo_clean_stale_staging = True, mo_clean_orphans = True, mo_clean_missing = True, mo_clean_detached = True,
     mo_clean_raw_snapshots = True, mo_all = True, mo_force = True\<rparr>"

text \<open>Every clean-up run on the example: the official cohort, which is pinned, keeps its row and its dataset.\<close>

theorem maintenance_keeps_datasets_witness:
  "\<exists>w' res. maintain_cohort_store demo_stage_env [''r''] True demo_options demo_workspace = (w', res)
    \<and> demo_id CHR ''a'' \<in> cohort_ids (wk_cohorts w')
    \<and> ([''r'', demo_id CHR ''a'', ''ciks.parquet''], File ''a'') \<in> set (wk_tree w')"
proof -
  let ?a = "demo_id CHR ''a''"
  obtain w' res where m: "maintain_cohort_store demo_stage_env [''r''] True demo_options demo_workspace = (w', res)"
    by (metis surj_pair)
  have w: "wk_tree demo_workspace = demo_tree" "wk_cohorts demo_workspace = demo_cohorts" by (simp_all add: demo_workspace_def)
  have free: "link_free (wk_tree demo_workspace) [''r'']" unfolding w using plain_storeD(1)[OF demo_plain] .
  have inv: "cohort_inv (wk_cohorts demo_workspace)" unfolding w by (rule demo_cohorts_inv)
  note keeps = maintenance_keeps_datasets[OF free inv m, of ?a "[''r'', ?a, ''ciks.parquet'']" "File ''a''" "demo_row CHR ''a'' True"]
  have row: "find_cohort ?a (wk_cohorts demo_workspace) = Some (demo_row CHR ''a'' True)"
    by (simp add: demo_workspace_def find_cohort_def demo_cohorts_def tbl_lookup_Cons demo_row_columns)
  have "find_cohort ?a (wk_cohorts w') \<noteq> None"
  proof
    assume "find_cohort ?a (wk_cohorts w') = None"
    then show False using mp[OF conjunct2[OF keeps] conjI[OF row]] by (simp add: demo_row_columns)
  qed
  then obtain r where "find_cohort ?a (wk_cohorts w') = Some r" by blast
  then have listed: "?a \<in> cohort_ids (wk_cohorts w')" using find_cohort_in image_eqI by metis
  have "([''r'', ?a, ''ciks.parquet''], File ''a'') \<in> set (wk_tree demo_workspace)"
    by (simp add: w demo_tree_def)
  moreover have "below ([''r''] @ [?a]) [''r'', ?a, ''ciks.parquet'']" by (simp add: below_def)
  ultimately have "([''r'', ?a, ''ciks.parquet''], File ''a'') \<in> set (wk_tree w')"
    using mp[OF conjunct1[OF keeps]] listed by simp
  with m listed show ?thesis by blast
qed

lemma demo_quiet: "quiet_store [''r''] (demo_id CHR ''b'') ''u'' demo_tree"
proof -
  have plain: "plain_store [''r''] ''c-bbbbbbbbbbbbbbbb'' ''u'' demo_tree" using demo_plain unfolding demo_ids .
  have "child_names demo_tree [''r''] = [''cohorts.sqlite'', ''c-aaaaaaaaaaaaaaaa'', ''c-bbbbbbbbbbbbbbbb'']"
    using plain_storeD(1)[OF demo_plain] unfolding child_names_def
    by (simp add: real_dir_link_free) (simp add: demo_tree_def demo_ids)
  then have "list_all (\<lambda>x. \<not> starts_with STAGING_PREFIX x) (child_names demo_tree [''r''])"
    by (simp add: starts_with_def STAGING_PREFIX_def)
  moreover have "tree_inv demo_tree" "map_of demo_tree [''r''] = Some Dir" "map_of demo_tree [''r'', ''c-bbbbbbbbbbbbbbbb''] = Some Dir"
    by (simp_all add: demo_tree_def demo_ids tree_inv_def)
  moreover have "cohort_dir_match ''c-bbbbbbbbbbbbbbbb''" by code_simp
  ultimately show ?thesis unfolding quiet_store_def demo_ids using plain by simp
qed

lemma demo_stopped:
  "\<not> is_dir (wk_tree (delete_stopped 1 [''r''] (demo_id CHR ''b'') True False ''u'' ''then'' None demo_workspace)) [''r'', demo_id CHR ''b'']"
proof -
  have g: "delete_guard (demo_id CHR ''b'') False demo_workspace = Inr (Some (demo_row CHR ''b'' False))"
    by (simp add: delete_guard_def demo_workspace_def find_cohort_def demo_cohorts_def tbl_lookup_Cons demo_row_columns
        demo_ids empty_object_tables_def)
  have "\<exists>x. delete_statements (demo_id CHR ''b'') True False ''then'' (demo_row CHR ''b'' False) demo_workspace = Inr x"
    by (simp add: delete_statements_def delete_cohort_row_def demo_workspace_def demo_cohorts_def)
  moreover have "wk_tree demo_workspace = demo_tree" by (simp add: demo_workspace_def)
  ultimately have "wk_tree (delete_stopped 1 [''r''] (demo_id CHR ''b'') True False ''u'' ''then'' None demo_workspace)
      = rename_tree ([''r''] @ [demo_id CHR ''b'']) ([''r''] @ [purge_name (demo_id CHR ''b'') ''u'']) demo_tree"
    by (auto simp: delete_stopped_def delete_effects_def g demo_files delete_finish_def Let_def apply_effect_def split: prod.splits)
  then show ?thesis using stopped_tree(5)[OF demo_quiet] by (simp add: is_dir_def exists_path_def)
qed

text \<open>
  A deletion of the imported cohort stopped right after its directory was moved away: the tables still list it, its directory
  is gone, and the clean-up gives it back or completes the deletion.
\<close>

theorem delete_crash_recovery_witness:
  "\<exists>w1 w2 m. \<not> is_dir (wk_tree w1) [''r'', demo_id CHR ''b''] \<and> w1 = delete_stopped 1 [''r''] (demo_id CHR ''b'') True False ''u'' ''then'' None demo_workspace
    \<and> maintain_staging demo_stage_env [''r''] False w1 = (w2, Inr [(''staging'', m)])
    \<and> (w2 = demo_workspace \<or> w2 = fst (delete_cohort [''r''] (demo_id CHR ''b'') True False ''u'' ''then'' None demo_workspace))"
proof -
  have quiet: "quiet_store [''r''] (demo_id CHR ''b'') ''u'' (wk_tree demo_workspace)"
    using demo_quiet by (simp add: demo_workspace_def)
  have settled: "settled None = None" by (simp add: settled_def)
  obtain w2 res where m: "maintain_staging demo_stage_env [''r''] False
      (delete_stopped 1 [''r''] (demo_id CHR ''b'') True False ''u'' ''then'' None demo_workspace) = (w2, res)"
    by (metis surj_pair)
  show ?thesis using delete_crash_recovery[OF quiet refl m] m demo_stopped unfolding settled by blast
qed

end
