(* ===== verification/JsonText.thy ===== *)
theory JsonText
  imports PyText
begin

text \<open>
  Reading JSON back: what \<^verbatim>\<open>json.loads\<close> makes of a text, for the values the program writes with \<^verbatim>\<open>canonical_json\<close> of
  \<^verbatim>\<open>foundation/serialization.py\<close>. Numbers with a fraction or an exponent (Python floats) and code points above 255
  are outside the model and have an error of their own, so that no text is read as something else than Python reads.
  The parser recurses on fuel; \<open>loads_fuel\<close> shows that what \<open>json_loads\<close> gives it always suffices.
\<close>

section \<open>The reader\<close>

datatype load_error = JSONDecodeError | OutsideModel | NoFuel

type_synonym 'a reader = "(load_error, 'a \<times> string) result"

definition is_json_ws :: "char \<Rightarrow> bool" where
  "is_json_ws c \<longleftrightarrow> (of_char c :: nat) \<in> {32, 9, 10, 13}"

definition skip_ws :: "string \<Rightarrow> string" where
  "skip_ws s = dropWhile is_json_ws s"

definition hex_val :: "char \<Rightarrow> nat option" where
  "hex_val c = (let n = (of_char c :: nat) in
     if 48 \<le> n \<and> n \<le> 57 then Some (n - 48)
     else if 97 \<le> n \<and> n \<le> 102 then Some (n - 87)
     else if 65 \<le> n \<and> n \<le> 70 then Some (n - 55) else None)"

definition hex4 :: "char \<Rightarrow> char \<Rightarrow> char \<Rightarrow> char \<Rightarrow> nat option" where
  "hex4 a b c d = (case (hex_val a, hex_val b, hex_val c, hex_val d) of
     (Some i, Some j, Some k, Some l) \<Rightarrow> Some (((i * 16 + j) * 16 + k) * 16 + l) | _ \<Rightarrow> None)"

text \<open>The one-letter escapes.\<close>

definition unescape :: "char \<Rightarrow> char option" where
  "unescape c = (let n = (of_char c :: nat) in
     if n = 34 \<or> n = 92 \<or> n = 47 then Some c
     else if c = CHR ''b'' then Some (char_of (8::nat))
     else if c = CHR ''f'' then Some (char_of (12::nat))
     else if c = CHR ''n'' then Some (char_of (10::nat))
     else if c = CHR ''r'' then Some (char_of (13::nat))
     else if c = CHR ''t'' then Some (char_of (9::nat)) else None)"

definition read_cons :: "char \<Rightarrow> string reader \<Rightarrow> string reader" where
  "read_cons c r = (case r of Inl e \<Rightarrow> Inl e | Inr (s, rest) \<Rightarrow> Inr (c # s, rest))"

text \<open>A string after its opening quote.\<close>

fun read_str :: "string \<Rightarrow> string reader" where
  "read_str [] = Inl JSONDecodeError"
| "read_str (c # cs) =
     (if (of_char c :: nat) = 34 then Inr ([], cs)
      else if (of_char c :: nat) < 32 then Inl JSONDecodeError
      else if (of_char c :: nat) \<noteq> 92 then read_cons c (read_str cs)
      else (case cs of
          [] \<Rightarrow> Inl JSONDecodeError
        | e # es \<Rightarrow>
            if e = CHR ''u'' then
              (case es of
                 h1 # h2 # h3 # h4 # rest \<Rightarrow>
                   (case hex4 h1 h2 h3 h4 of
                      None \<Rightarrow> Inl JSONDecodeError
                    | Some n \<Rightarrow> if n < 256 then read_cons (char_of n) (read_str rest) else Inl OutsideModel)
               | _ \<Rightarrow> Inl JSONDecodeError)
            else (case unescape e of None \<Rightarrow> Inl JSONDecodeError | Some d \<Rightarrow> read_cons d (read_str es))))"

definition starts_fraction :: "string \<Rightarrow> bool" where
  "starts_fraction s \<longleftrightarrow> (case s of
     c # d # s' \<Rightarrow> (c = CHR ''.'' \<and> is_digit d)
        \<or> (c \<in> {CHR ''e'', CHR ''E''} \<and> (is_digit d \<or> d \<in> {CHR ''+'', CHR ''-''} \<and> s' \<noteq> [] \<and> is_digit (hd s')))
   | _ \<Rightarrow> False)"

definition read_nat :: "string \<Rightarrow> nat reader" where
  "read_nat s = (case s of
     [] \<Rightarrow> Inl JSONDecodeError
   | c # cs \<Rightarrow>
       if \<not> is_digit c then Inl JSONDecodeError
       else let (ds, rest) = (if c = CHR ''0'' then ([c], cs) else (takeWhile is_digit s, dropWhile is_digit s)) in
         if starts_fraction rest then Inl OutsideModel else Inr (digits_val ds, rest))"

definition read_number :: "string \<Rightarrow> json reader" where
  "read_number s = (case s of
     [] \<Rightarrow> Inl JSONDecodeError
   | c # cs \<Rightarrow>
       if starts_with ''NaN'' s \<or> starts_with ''Infinity'' s \<or> starts_with ''-Infinity'' s then Inl OutsideModel
       else if c = CHR ''-'' then map_sum id (map_prod (\<lambda>n. JInt (- int n)) id) (read_nat cs)
       else map_sum id (map_prod (\<lambda>n. JInt (int n)) id) (read_nat s))"

text \<open>\<^verbatim>\<open>d[k] = v\<close>: a key keeps the place of its first occurrence and takes the last value.\<close>

fun dict_put :: "'v dict \<Rightarrow> string \<Rightarrow> 'v \<Rightarrow> 'v dict" where
  "dict_put [] k v = [(k, v)]"
| "dict_put ((k', v') # d) k v = (if k' = k then (k, v) # d else (k', v') # dict_put d k v)"

definition dict_of_pairs :: "'v dict \<Rightarrow> 'v dict" where
  "dict_of_pairs kvs = foldl (\<lambda>d (k, v). dict_put d k v) [] kvs"

fun read_value :: "nat \<Rightarrow> string \<Rightarrow> json reader"
  and read_items :: "nat \<Rightarrow> string \<Rightarrow> json list reader"
  and read_members :: "nat \<Rightarrow> string \<Rightarrow> json dict reader" where
  "read_value 0 s = Inl NoFuel"
| "read_value (Suc n) s = (case s of
     [] \<Rightarrow> Inl JSONDecodeError
   | c # cs \<Rightarrow>
       if (of_char c :: nat) = 34 then map_sum id (map_prod JStr id) (read_str cs)
       else if c = CHR ''{'' then
         (case skip_ws cs of
            [] \<Rightarrow> Inl JSONDecodeError
          | d # ds \<Rightarrow> if d = CHR ''}'' then Inr (JObj [], ds)
              else map_sum id (map_prod (\<lambda>kvs. JObj (dict_of_pairs kvs)) id) (read_members n (d # ds)))
       else if c = CHR ''['' then
         (case skip_ws cs of
            [] \<Rightarrow> Inl JSONDecodeError
          | d # ds \<Rightarrow> if d = CHR '']'' then Inr (JList [], ds)
              else map_sum id (map_prod JList id) (read_items n (d # ds)))
       else if starts_with ''null'' s then Inr (JNull, drop 4 s)
       else if starts_with ''true'' s then Inr (JBool True, drop 4 s)
       else if starts_with ''false'' s then Inr (JBool False, drop 5 s)
       else read_number s)"
| "read_items 0 s = Inl NoFuel"
| "read_items (Suc n) s = (case read_value n s of
     Inl e \<Rightarrow> Inl e
   | Inr (v, r) \<Rightarrow> (case skip_ws r of
       [] \<Rightarrow> Inl JSONDecodeError
     | d # ds \<Rightarrow> if d = CHR '']'' then Inr ([v], ds)
         else if d = CHR '','' then map_sum id (map_prod (Cons v) id) (read_items n (skip_ws ds))
         else Inl JSONDecodeError))"
| "read_members 0 s = Inl NoFuel"
| "read_members (Suc n) s = (case s of
     [] \<Rightarrow> Inl JSONDecodeError
   | q # cs \<Rightarrow> if (of_char q :: nat) \<noteq> 34 then Inl JSONDecodeError
       else (case read_str cs of
           Inl e \<Rightarrow> Inl e
         | Inr (k, r) \<Rightarrow> (case skip_ws r of
             [] \<Rightarrow> Inl JSONDecodeError
           | d # ds \<Rightarrow> if d \<noteq> CHR '':'' then Inl JSONDecodeError
               else (case read_value n (skip_ws ds) of
                   Inl e \<Rightarrow> Inl e
                 | Inr (v, r') \<Rightarrow> (case skip_ws r' of
                     [] \<Rightarrow> Inl JSONDecodeError
                   | e # es \<Rightarrow> if e = CHR ''}'' then Inr ([(k, v)], es)
                       else if e = CHR '','' then map_sum id (map_prod (Cons (k, v)) id) (read_members n (skip_ws es))
                       else Inl JSONDecodeError)))))"

text \<open>\<^verbatim>\<open>json.loads\<close>\<close>

definition json_loads :: "string \<Rightarrow> (load_error, json) result" where
  "json_loads s = (case read_value (Suc (2 * length s)) (skip_ws s) of
     Inl e \<Rightarrow> Inl e
   | Inr (v, rest) \<Rightarrow> if skip_ws rest = [] then Inr v else Inl JSONDecodeError)"

text \<open>\<^verbatim>\<open>bytes.decode("utf-8")\<close> on ASCII; other bytes are outside the model.\<close>

definition load_bytes :: "string \<Rightarrow> (load_error, json) result" where
  "load_bytes b = (if list_all (\<lambda>c. (of_char c :: nat) < 128) b then json_loads b else Inl OutsideModel)"

section \<open>The fuel suffices\<close>

lemma skip_ws_length: "length (skip_ws s) \<le> length s"
  by (simp add: skip_ws_def length_dropWhile_le)

lemma read_cons_Inr: "read_cons c r = Inr (s, rest) \<longleftrightarrow> (\<exists>s'. r = Inr (s', rest) \<and> s = c # s')"
  by (auto simp: read_cons_def split: sum.splits)

lemma read_cons_Inl: "read_cons c r = Inl e \<longleftrightarrow> r = Inl e"
  by (auto simp: read_cons_def split: sum.splits)

text \<open>One step of \<open>read_str\<close>: it ends, fails, or reads a character and goes on with a shorter text.\<close>

lemma read_str_step:
  "(\<exists>cs. s = char_of (34::nat) # cs \<and> read_str s = Inr ([], cs)) \<or> (\<exists>e. e \<noteq> NoFuel \<and> read_str s = Inl e)
   \<or> (\<exists>c cs. length cs < length s \<and> read_str s = read_cons c (read_str cs))"
proof (cases s)
  case (Cons c cs)
  show ?thesis
  proof (cases "(of_char c :: nat) = 92")
    case esc: True
    show ?thesis
    proof (cases cs)
      case Nil
      then show ?thesis using esc Cons by simp
    next
      case (Cons e es)
      have s: "s = c # e # es" using \<open>s = c # cs\<close> Cons by simp
      show ?thesis
      proof (cases "e = CHR ''u''")
        case True
        show ?thesis
        proof (cases "\<exists>h1 h2 h3 h4 rest. es = h1 # h2 # h3 # h4 # rest")
          case long: True
          then obtain h1 h2 h3 h4 rest where es: "es = h1 # h2 # h3 # h4 # rest" by blast
          have "read_str s = (case hex4 h1 h2 h3 h4 of None \<Rightarrow> Inl JSONDecodeError
              | Some n \<Rightarrow> if n < 256 then read_cons (char_of n) (read_str rest) else Inl OutsideModel)"
            using esc True by (simp add: s es)
          moreover have "length rest < length s" by (simp add: s es)
          ultimately show ?thesis
            by (cases "hex4 h1 h2 h3 h4"; cases "the (hex4 h1 h2 h3 h4) < 256") (auto simp del: read_str.simps)
        next
          case False
          then have "read_str s = Inl JSONDecodeError"
            using esc True unfolding s by (auto split: list.split)
          then show ?thesis by simp
        qed
      next
        case False
        then have "read_str s = (case unescape e of None \<Rightarrow> Inl JSONDecodeError | Some d \<Rightarrow> read_cons d (read_str es))"
          using esc by (simp add: s)
        moreover have "length es < length s" by (simp add: s)
        ultimately show ?thesis by (cases "unescape e") (auto simp del: read_str.simps)
      qed
    qed
  next
    case False
    moreover have "c = char_of (34::nat)" if "(of_char c :: nat) = 34" using that by (metis char_of_char)
    ultimately show ?thesis by (auto simp: Cons)
  qed
qed simp

lemma read_str_props: "read_str s \<noteq> Inl NoFuel \<and> (\<forall>k r. read_str s = Inr (k, r) \<longrightarrow> length r < length s)"
proof (induction s rule: length_induct)
  case (1 s)
  show ?case
    using read_str_step[of s]
  proof (elim disjE exE conjE)
    fix c cs assume cs: "length cs < length s" "read_str s = read_cons c (read_str cs)"
    with 1 have "read_str cs \<noteq> Inl NoFuel" "\<forall>k r. read_str cs = Inr (k, r) \<longrightarrow> length r < length cs" by blast+
    then show ?thesis using cs less_trans by (auto simp: read_cons_Inl read_cons_Inr)
  qed auto
qed

lemma read_str_length: "read_str s = Inr (k, r) \<Longrightarrow> length r < length s"
  using read_str_props by blast

lemma read_str_fuel: "read_str s \<noteq> Inl NoFuel"
  using read_str_props by blast

lemma read_nat_length: "read_nat s = Inr (n, r) \<Longrightarrow> length r < length s"
  using length_dropWhile_le[of is_digit "tl s"]
  by (auto simp: read_nat_def Let_def split: list.splits if_splits)

lemma read_nat_fuel: "read_nat s \<noteq> Inl NoFuel"
  by (simp add: read_nat_def Let_def split: list.split prod.split)

lemma map_reader_Inr: "map_sum id (map_prod f id) x = Inr (v, r) \<longleftrightarrow> (\<exists>u. x = Inr (u, r) \<and> v = f u)"
  by (cases x) auto

lemma map_reader_Inl: "map_sum id f x = Inl e \<longleftrightarrow> x = Inl e"
  by (cases x) auto

lemma read_number_length: "read_number s = Inr (v, r) \<Longrightarrow> length r < length s"
  by (auto simp: read_number_def map_reader_Inr split: list.splits if_splits dest: read_nat_length)

lemma read_number_fuel: "read_number s \<noteq> Inl NoFuel"
  by (simp add: read_number_def map_reader_Inl read_nat_fuel split: list.split)

lemma starts_with_length: "starts_with p s \<Longrightarrow> length p \<le> length s"
  unfolding starts_with_def by (metis length_take min.cobounded1)

lemma read_length:
  "read_value n s = Inr (v, r) \<Longrightarrow> length r < length s"
  "read_items n s = Inr (vs, r) \<Longrightarrow> length r < length s"
  "read_members n s = Inr (kvs, r) \<Longrightarrow> length r < length s"
proof (induction n s and n s and n s arbitrary: v r and vs r and kvs r rule: read_value_read_items_read_members.induct)
  case (2 n s)
  note IH = 2
  show ?case
  proof (cases s)
    case (Cons c cs)
    have ws: "length ds < length cs" if "skip_ws cs = d # ds" for d ds
      using skip_ws_length[of cs] that by simp
    show ?thesis
      using IH(3) IH(1)[OF Cons] IH(2)[OF Cons] read_str_length[of cs] read_number_length[of s]
      by (fastforce simp: Cons map_reader_Inr split: if_splits list.splits dest: ws starts_with_length)
  qed (use 2 in simp)
next
  case (4 n s)
  obtain v1 r1 where v: "read_value n s = Inr (v1, r1)" using 4(3) by (auto split: sum.splits)
  obtain d ds where d: "skip_ws r1 = d # ds" using 4(3) v by (auto split: list.splits)
  have "length ds < length s" "length (skip_ws ds) \<le> length ds"
    using 4(1)[OF v] skip_ws_length[of r1] skip_ws_length[of ds] d by simp_all
  then show ?case
    using 4(2)[OF v _ d] 4(3) v d by (fastforce simp: map_reader_Inr split: if_splits)
next
  case (6 n s)
  obtain q cs where s: "s = q # cs" "(of_char q :: nat) = 34" using 6(3) by (auto split: list.splits if_splits)
  obtain k r0 where k: "read_str cs = Inr (k, r0)" using 6(3) s by (auto split: sum.splits)
  obtain ds where d: "skip_ws r0 = CHR '':'' # ds" using 6(3) s k by (auto split: list.splits if_splits)
  obtain v r1 where v: "read_value n (skip_ws ds) = Inr (v, r1)" using 6(3) s k d by (auto split: sum.splits)
  obtain e es where e: "skip_ws r1 = e # es" using 6(3) s k d v by (auto split: list.splits)
  have "length r0 < length cs" "length ds < length r0" "length (skip_ws ds) \<le> length ds" "length es < length r1" "length (skip_ws es) \<le> length es"
    using read_str_length[OF k] skip_ws_length[of r0] skip_ws_length[of ds] skip_ws_length[of r1] skip_ws_length[of es] d e by simp_all
  moreover have "length r1 < length (skip_ws ds)" using 6(1)[OF s(1) _ k _ d _ v] s(2) by simp
  moreover have "r = es \<or> length r < length (skip_ws es)"
  proof (cases "e = CHR ''}''")
    case True
    then show ?thesis using 6(3) s k d v e by simp
  next
    case False
    then have c: "e = CHR '',''" using 6(3) s k d v e by (auto split: if_splits)
    then obtain kvs' where "read_members n (skip_ws es) = Inr (kvs', r)" using 6(3) s k d v e by (auto simp: map_reader_Inr)
    then show ?thesis using 6(2)[OF s(1) _ k _ d _ v _ e False c] s(2) by simp
  qed
  ultimately show ?case using s(1) by fastforce
qed simp_all

text \<open>Enough fuel: twice the length, plus one for a list that is about to read an element.\<close>

lemma read_fuel:
  "2 * length s < n \<Longrightarrow> read_value n s \<noteq> Inl NoFuel"
  "2 * length s + 1 < n \<Longrightarrow> read_items n s \<noteq> Inl NoFuel"
  "2 * length s < n \<Longrightarrow> read_members n s \<noteq> Inl NoFuel"
proof (induction n s and n s and n s rule: read_value_read_items_read_members.induct)
  case (2 n s)
  show ?case
  proof (cases s)
    case (Cons c cs)
    have "2 * length (d # ds) + 1 < n" if "skip_ws cs = d # ds" for d ds
      using skip_ws_length[of cs] that Cons 2(3) by simp
    then show ?thesis
      using 2(1)[OF Cons] 2(2)[OF Cons] read_str_fuel[of cs] read_number_fuel[of s]
      by (auto simp: Cons map_reader_Inl split: list.split)
  qed simp
next
  case (4 n s)
  show ?case
  proof (cases "read_value n s")
    case (Inl e)
    then show ?thesis using 4(1,3) by simp
  next
    case (Inr vr)
    obtain v r where v: "read_value n s = Inr (v, r)" using Inr by (cases vr) simp
    have "2 * length (skip_ws ds) + 1 < n" if "skip_ws r = d # ds" for d ds
      using read_length(1)[OF v] skip_ws_length[of r] skip_ws_length[of ds] that 4(3) by simp
    then show ?thesis
      using 4(2)[OF v] by (auto simp: v map_reader_Inl split: list.split)
  qed
next
  case (6 n s)
  show ?case
  proof (cases "\<exists>q cs k r0 ds. s = q # cs \<and> (of_char q :: nat) = 34 \<and> read_str cs = Inr (k, r0) \<and> skip_ws r0 = CHR '':'' # ds")
    case True
    then obtain q cs k r0 ds where s: "s = q # cs" "(of_char q :: nat) = 34" and k: "read_str cs = Inr (k, r0)"
      and d: "skip_ws r0 = CHR '':'' # ds" by blast
    have len: "2 * length (skip_ws ds) < n"
      using read_str_length[OF k] skip_ws_length[of r0] skip_ws_length[of ds] d 6(3) s(1) by simp
    show ?thesis
    proof (cases "read_value n (skip_ws ds)")
      case (Inl e)
      then show ?thesis using 6(1)[OF s(1) _ k _ d] len s k d by simp
    next
      case (Inr vr)
      obtain v r where v: "read_value n (skip_ws ds) = Inr (v, r)" using Inr by (cases vr) simp
      have "2 * length (skip_ws es) < n" if "skip_ws r = e # es" for e es
        using read_length(1)[OF v] skip_ws_length[of r] skip_ws_length[of es] that len by simp
      then show ?thesis
        using 6(2)[OF s(1) _ k _ d _ v] s(2) by (auto simp: s k d v map_reader_Inl split: list.split)
    qed
  next
    case False
    then show ?thesis using read_str_fuel by (auto split: list.split sum.split)
  qed
qed simp_all

lemma loads_fuel: "json_loads s \<noteq> Inl NoFuel"
proof -
  define x where "x = read_value (Suc (2 * length s)) (skip_ws s)"
  have "x \<noteq> Inl NoFuel"
    unfolding x_def using skip_ws_length[of s] by (intro read_fuel(1)) simp
  then show ?thesis unfolding json_loads_def x_def[symmetric] by (auto split: sum.split)
qed

section \<open>Reading what \<open>canonical_json\<close> writes\<close>

text \<open>The value read back: objects in key order. Keys are distinct, as in every Python dictionary.\<close>

primrec key_ordered :: "json \<Rightarrow> json" where
  "key_ordered JNull = JNull"
| "key_ordered (JBool b) = JBool b"
| "key_ordered (JInt i) = JInt i"
| "key_ordered (JStr s) = JStr s"
| "key_ordered (JList vs) = JList (map key_ordered vs)"
| "key_ordered (JObj kvs) = JObj (sorted_dict (map (map_prod id key_ordered) kvs))"

primrec json_ok :: "json \<Rightarrow> bool" where
  "json_ok JNull = True"
| "json_ok (JBool b) = True"
| "json_ok (JInt i) = True"
| "json_ok (JStr s) = True"
| "json_ok (JList vs) = list_all id (map json_ok vs)"
| "json_ok (JObj kvs) = (distinct (map fst kvs) \<and> list_all snd (map (map_prod id json_ok) kvs))"

lemma skip_ws_cons: "\<not> is_json_ws c \<Longrightarrow> skip_ws (c # s) = c # s"
  by (simp add: skip_ws_def)

lemma hex_val_digit: "n < 16 \<Longrightarrow> hex_val (hex_digit n) = Some n"
  by (auto simp: hex_val_def hex_digit_def Let_def)

lemma hex4_digits: "n < 256 \<Longrightarrow> hex4 (CHR ''0'') (CHR ''0'') (hex_digit (n div 16)) (hex_digit (n mod 16)) = Some n"
  by (simp add: hex4_def hex_val_digit) (simp add: hex_val_def)

lemma of_charD: "of_char c = (n::nat) \<Longrightarrow> c = char_of n"
  by auto

lemma quote_chars: "char_of (34::nat) \<noteq> CHR '']''" "char_of (92::nat) \<noteq> CHR ''u''" "char_of (34::nat) \<noteq> CHR ''u''"
  by code_simp+

lemma read_escaped: "read_str (json_escape c @ t) = read_cons c (read_str t)"
proof -
  let ?n = "of_char c :: nat"
  have "?n < 256" by simp
  note hex = hex4_digits[OF this]
  consider "?n = 92" | "?n = 34" | "?n = 10" | "?n = 13" | "?n = 9" | "?n = 12" | "?n = 8"
    | "?n \<notin> {92, 34, 10, 13, 9, 12, 8}" "?n < 32 \<or> 126 < ?n" | "?n \<notin> {92, 34}" "32 \<le> ?n" "?n \<le> 126" by fastforce
  then show ?thesis
  proof cases
    case 8
    then have "c \<noteq> char_of (92::nat)" by auto
    then show ?thesis using 8 hex by (simp add: json_escape_def Let_def)
  next
    case 9
    then have "c \<noteq> char_of (92::nat)" by auto
    then show ?thesis using 9 by (simp add: json_escape_def Let_def)
  qed (use quote_chars(2,3) of_charD[of c] in \<open>auto simp: json_escape_def Let_def unescape_def\<close>)
qed

lemma read_json_string: "read_str (concat (map json_escape s) @ char_of (34::nat) # t) = Inr (s, t)"
  by (induction s) (simp_all add: read_escaped read_cons_def)

text \<open>Numerals\<close>

lemma nat_dec_head: "nat_dec n \<noteq> [] \<and> (hd (nat_dec n) = CHR ''0'' \<longrightarrow> nat_dec n = ''0'')"
proof (induction n rule: nat_dec.induct)
  case (1 n)
  show ?case
  proof (cases "n < 10")
    case True
    then show ?thesis by (subst (1 2 3) nat_dec.simps) simp
  next
    case False
    then have eq: "nat_dec n = nat_dec (n div 10) @ [char_of (48 + n mod 10)]" by (subst nat_dec.simps) simp
    have "nat_dec (n div 10) \<noteq> ''0''"
    proof
      assume "nat_dec (n div 10) = ''0''"
      then have "n div 10 = digits_val ''0''" using digits_val_nat_dec by metis
      then show False using False by (simp add: digits_val_def digit_val_def)
    qed
    then show ?thesis using 1[OF False] unfolding eq by (simp add: hd_append)
  qed
qed

definition number_ends :: "string \<Rightarrow> bool" where
  "number_ends t \<longleftrightarrow> t = [] \<or> hd t \<in> {CHR '','', CHR '']'', CHR ''}''}"

lemma number_endsD: "number_ends t \<Longrightarrow> \<not> starts_fraction t \<and> takeWhile is_digit t = [] \<and> dropWhile is_digit t = t"
  by (cases t) (auto simp: number_ends_def starts_fraction_def is_digit_def split: list.split)

lemma read_nat_dec:
  assumes "number_ends t"
  shows "read_nat (nat_dec n @ t) = Inr (n, t)"
proof -
  obtain c cs where n: "nat_dec n = c # cs" using nat_dec_head[of n] by (cases "nat_dec n") auto
  have digits: "\<forall>d \<in> set (c # cs). is_digit d" using nat_dec_digits[of n] n by simp
  have val: "digits_val (c # cs) = n" using digits_val_nat_dec[of n] n by simp
  have zero: "cs = []" if "c = CHR ''0''" using nat_dec_head[of n] n that by simp
  have "takeWhile is_digit (c # cs @ t) = c # cs" "dropWhile is_digit (c # cs @ t) = t"
    using digits number_endsD[OF assms] takeWhile_append2[of "c # cs" is_digit t] dropWhile_append2[of "c # cs" is_digit t] by auto
  then show ?thesis
    using digits val zero number_endsD[OF assms] by (auto simp: read_nat_def n Let_def)
qed

lemma digit_head: "is_digit c \<Longrightarrow> c \<notin> {CHR ''-'', CHR ''N'', CHR ''I'', CHR ''n'', CHR ''t'', CHR ''f'', CHR ''{'', CHR ''['', CHR '']'', CHR ''}''}
    \<and> (of_char c :: nat) \<noteq> 34 \<and> \<not> is_json_ws c"
  by (auto simp: is_digit_def is_json_ws_def)

lemma nat_dec_digit_head: "\<exists>c cs. nat_dec n = c # cs \<and> is_digit c"
  using nat_dec_head[of n] nat_dec_digits[of n] by (cases "nat_dec n") auto

lemma read_number_int:
  assumes "number_ends t"
  shows "read_number (int_dec i @ t) = Inr (JInt i, t)"
proof -
  obtain c cs where n: "nat_dec (nat \<bar>i\<bar>) = c # cs" "is_digit c" using nat_dec_digit_head by blast
  note r = read_nat_dec[OF assms, of "nat \<bar>i\<bar>", unfolded n]
  show ?thesis
  proof (cases "i < 0")
    case True
    then have "int_dec i = CHR ''-'' # c # cs" using n by (simp add: int_dec_def)
    then show ?thesis using r True digit_head[OF n(2)] by (simp add: read_number_def starts_with_def)
  next
    case False
    then have "int_dec i = c # cs" using n by (simp add: int_dec_def)
    then show ?thesis using r False digit_head[OF n(2)] by (simp add: read_number_def starts_with_def)
  qed
qed

text \<open>What the text of a value starts with.\<close>

definition value_start :: "string \<Rightarrow> bool" where
  "value_start t \<longleftrightarrow> t \<noteq> [] \<and> \<not> is_json_ws (hd t) \<and> hd t \<noteq> CHR '']''"

lemma canonical_start: "value_start (canonical_json v @ r)"
proof (cases v)
  case (JInt i)
  obtain c cs where "nat_dec (nat \<bar>i\<bar>) = c # cs" "is_digit c" using nat_dec_digit_head by blast
  then show ?thesis
    using digit_head[of c] JInt by (auto simp: value_start_def int_dec_def is_json_ws_def)
qed (auto simp: value_start_def is_json_ws_def json_string_def quote_chars)

lemma skip_value_start: "value_start t \<Longrightarrow> skip_ws t = t"
  by (cases t) (simp_all add: value_start_def skip_ws_cons)

text \<open>The readers of lists and members on comma separated texts.\<close>

lemma comma_sep_Cons: "xs \<noteq> [] \<Longrightarrow> comma_sep (x # xs) = x @ CHR '','' # comma_sep xs"
  by (cases xs) simp_all

lemma read_items_text:
  assumes "vs \<noteq> []"
    and "\<And>v n t. v \<in> set vs \<Longrightarrow> number_ends t \<Longrightarrow> 2 * length (canonical_json v @ t) < n \<Longrightarrow>
        read_value n (canonical_json v @ t) = Inr (key_ordered v, t)"
    and "2 * length (comma_sep (map canonical_json vs) @ CHR '']'' # t) + 1 < n"
  shows "read_items n (comma_sep (map canonical_json vs) @ CHR '']'' # t) = Inr (map key_ordered vs, t)"
  using assms
proof (induction vs arbitrary: n)
  case (Cons v vs)
  obtain m where n: "n = Suc m" using Cons.prems(3) by (cases n) auto
  have ends: "number_ends (CHR '']'' # t)" "number_ends (CHR '','' # u)" for u by (simp_all add: number_ends_def)
  have ws: "\<not> is_json_ws (CHR '']'')" "\<not> is_json_ws (CHR '','')" by (simp_all add: is_json_ws_def)
  show ?case
  proof (cases "vs = []")
    case True
    then show ?thesis
      using Cons.prems(2)[OF _ ends(1), of v m] Cons.prems(3) by (simp add: n skip_ws_cons ws)
  next
    case False
    let ?rest = "comma_sep (map canonical_json vs) @ CHR '']'' # t"
    obtain w ws' where vs: "vs = w # ws'" using False by (cases vs) auto
    have "value_start ?rest"
      using canonical_start[of w] unfolding vs by (cases ws') simp_all
    then have skip: "skip_ws ?rest = ?rest" by (rule skip_value_start)
    have whole: "comma_sep (map canonical_json (v # vs)) @ CHR '']'' # t = canonical_json v @ CHR '','' # ?rest"
      using False by (simp add: comma_sep_Cons)
    have len: "2 * length (canonical_json v @ CHR '','' # ?rest) + 1 < n" using Cons.prems(3) unfolding whole .
    have first: "read_value m (canonical_json v @ CHR '','' # ?rest) = Inr (key_ordered v, CHR '','' # ?rest)"
      using len by (intro Cons.prems(2) ends) (simp_all add: n)
    have "read_items m ?rest = Inr (map key_ordered vs, t)"
      using len Cons.prems(2) by (intro Cons.IH[OF False]) (simp_all add: n)
    then show ?thesis unfolding whole n by (simp add: first skip_ws_cons ws skip)
  qed
qed simp

lemma read_members_text:
  assumes "kvs \<noteq> []"
    and "\<And>k v n t. (k, v) \<in> set kvs \<Longrightarrow> number_ends t \<Longrightarrow> 2 * length (canonical_json v @ t) < n \<Longrightarrow>
        read_value n (canonical_json v @ t) = Inr (key_ordered v, t)"
    and "2 * length (comma_sep (map (\<lambda>(k, v). json_string k @ '':'' @ canonical_json v) kvs) @ CHR ''}'' # t) < n"
  shows "read_members n (comma_sep (map (\<lambda>(k, v). json_string k @ '':'' @ canonical_json v) kvs) @ CHR ''}'' # t)
    = Inr (map (map_prod id key_ordered) kvs, t)"
  using assms
proof (induction kvs arbitrary: n)
  case (Cons kv kvs)
  let ?text = "\<lambda>kvs. comma_sep (map (\<lambda>(k, v). json_string k @ '':'' @ canonical_json v) kvs) @ CHR ''}'' # t"
  obtain k v where kv: "kv = (k, v)" by (cases kv)
  obtain m where n: "n = Suc m" using Cons.prems(3) by (cases n) auto
  have ends: "number_ends (CHR ''}'' # t)" "number_ends (CHR '','' # u)" for u by (simp_all add: number_ends_def)
  have ws: "\<not> is_json_ws (CHR ''}'')" "\<not> is_json_ws (CHR '','')" "\<not> is_json_ws (CHR '':'')" by (simp_all add: is_json_ws_def)
  have member: "read_members (Suc m) (json_string k @ '':'' @ canonical_json v @ u)
      = (case skip_ws u of [] \<Rightarrow> Inl JSONDecodeError
         | e # es \<Rightarrow> if e = CHR ''}'' then Inr ([(k, key_ordered v)], es)
             else if e = CHR '','' then map_sum id (map_prod (Cons (k, key_ordered v)) id) (read_members m (skip_ws es))
             else Inl JSONDecodeError)"
    if "number_ends u" "2 * length (canonical_json v @ u) < m" for u
    using Cons.prems(2)[of k v u m] that skip_value_start[OF canonical_start, of v u]
    by (simp add: kv json_string_def read_json_string skip_ws_cons ws)
  show ?case
  proof (cases "kvs = []")
    case True
    then show ?thesis
      using member[OF ends(1)] Cons.prems(3) by (simp add: kv n skip_ws_cons ws)
  next
    case False
    obtain k' v' kvs' where kvs: "kvs = (k', v') # kvs'" using False by (cases kvs) auto
    have "value_start (?text kvs)"
      unfolding kvs by (cases kvs') (simp_all add: value_start_def json_string_def is_json_ws_def quote_chars)
    then have skip: "skip_ws (?text kvs) = ?text kvs" by (rule skip_value_start)
    have whole: "?text (kv # kvs) = json_string k @ '':'' @ canonical_json v @ CHR '','' # ?text kvs"
      using False by (simp add: kv comma_sep_Cons)
    have len: "2 * length (json_string k @ '':'' @ canonical_json v @ CHR '','' # ?text kvs) < n" using Cons.prems(3) unfolding whole .
    have each: "read_value n (canonical_json v @ t) = Inr (key_ordered v, t)"
      if "(k, v) \<in> set kvs" "number_ends t" "2 * length (canonical_json v @ t) < n" for k v n t
      using that by (intro Cons.prems(2)[of k]) simp_all
    have "read_members m (?text kvs) = Inr (map (map_prod id key_ordered) kvs, t)"
      by (rule Cons.IH[OF False each]) (use len in \<open>simp_all add: n\<close>)
    then show ?thesis unfolding whole n using len skip by (subst member[OF ends(2)]) (simp_all add: n skip_ws_cons ws kv)
  qed
qed simp

text \<open>Distinct keys are kept as they are.\<close>

lemma dict_put_new: "k \<notin> fst ` set d \<Longrightarrow> dict_put d k v = d @ [(k, v)]"
  by (induction d k v rule: dict_put.induct) auto

lemma dict_of_distinct: "distinct (map fst kvs) \<Longrightarrow> dict_of_pairs kvs = kvs"
proof (induction kvs rule: rev_induct)
  case (snoc kv kvs)
  then have "dict_of_pairs kvs = kvs" "fst kv \<notin> fst ` set kvs" by auto
  then show ?case by (simp add: dict_of_pairs_def dict_put_new case_prod_beta)
qed (simp add: dict_of_pairs_def)

lemma read_canonical:
  assumes "json_ok v" "number_ends t" "2 * length (canonical_json v @ t) < n"
  shows "read_value n (canonical_json v @ t) = Inr (key_ordered v, t)"
  using assms
proof (induction v arbitrary: n t)
  case (JInt i)
  obtain m where n: "n = Suc m" using JInt(3) by (cases n) auto
  obtain c cs where c: "int_dec i = c # cs" "is_digit c \<or> c = CHR ''-''"
  proof -
    obtain c cs where "nat_dec (nat \<bar>i\<bar>) = c # cs" "is_digit c" using nat_dec_digit_head by blast
    then show thesis using that by (cases "i < 0") (simp_all add: int_dec_def)
  qed
  have "c \<notin> {CHR ''{'', CHR ''['', CHR ''n'', CHR ''t'', CHR ''f''} \<and> (of_char c :: nat) \<noteq> 34"
    using c(2) digit_head[of c] by auto
  then have "read_value n (canonical_json (JInt i) @ t) = read_number (int_dec i @ t)"
    by (simp add: n c(1) starts_with_def)
  then show ?case using read_number_int[OF JInt(2)] by simp
next
  case (JStr s)
  obtain m where n: "n = Suc m" using JStr(3) by (cases n) auto
  show ?case by (simp add: n json_string_def read_json_string)
next
  case (JList vs)
  obtain m where n: "n = Suc m" using JList(4) by (cases n) auto
  show ?case
  proof (cases "vs = []")
    case True
    then show ?thesis by (simp add: n skip_ws_def is_json_ws_def)
  next
    case False
    have each: "read_value n (canonical_json v @ t) = Inr (key_ordered v, t)"
      if "v \<in> set vs" "number_ends t" "2 * length (canonical_json v @ t) < n" for v n t
      using JList(1)[OF that(1) _ that(2,3)] JList(2) that(1) by (auto simp: list_all_iff)
    let ?rest = "comma_sep (map canonical_json vs) @ CHR '']'' # t"
    obtain w ws' where vs: "vs = w # ws'" using False by (cases vs) auto
    have "value_start ?rest"
      using canonical_start[of w] unfolding vs by (cases ws') simp_all
    then obtain d ds where d: "?rest = d # ds" "skip_ws ?rest = d # ds" "d \<noteq> CHR '']''"
      using skip_value_start by (cases ?rest) (auto simp: value_start_def)
    have "read_items m ?rest = Inr (map key_ordered vs, t)"
      by (rule read_items_text[OF False each]) (use JList(4) in \<open>simp_all add: n\<close>)
    then show ?thesis using d by (simp add: n)
  qed
next
  case (JObj kvs)
  obtain m where n: "n = Suc m" using JObj(4) by (cases n) auto
  let ?kvs = "sorted_dict kvs"
  have members: "map (\<lambda>(k, t). json_string k @ CHR '':'' # t) (sort_key fst (map (map_prod id canonical_json) kvs))
      = map (\<lambda>(k, v). json_string k @ CHR '':'' # canonical_json v) ?kvs"
    using sorted_dict_map[of canonical_json kvs] by (simp add: sorted_dict_def case_prod_beta comp_def)
  show ?case
  proof (cases "kvs = []")
    case True
    then show ?thesis by (simp add: n skip_ws_def is_json_ws_def sorted_dict_def)
  next
    case False
    then have nonempty: "?kvs \<noteq> []" by (metis set_empty set_sorted_dict)
    have each: "read_value n (canonical_json v @ t) = Inr (key_ordered v, t)"
      if "(k, v) \<in> set ?kvs" "number_ends t" "2 * length (canonical_json v @ t) < n" for k v n t
      using JObj(1)[of "(k, v)" v, OF _ _ _ that(2,3)] JObj(2) that(1) by (auto simp: list_all_iff)
    let ?rest = "comma_sep (map (\<lambda>(k, v). json_string k @ '':'' @ canonical_json v) ?kvs) @ CHR ''}'' # t"
    obtain k v ws' where kvs: "?kvs = (k, v) # ws'" using nonempty by (cases ?kvs) auto
    obtain ds where d: "?rest = char_of (34::nat) # ds" "skip_ws ?rest = char_of (34::nat) # ds"
      unfolding kvs by (cases ws') (simp_all add: json_string_def skip_ws_cons is_json_ws_def)
    have "read_members m ?rest = Inr (map (map_prod id key_ordered) ?kvs, t)"
      by (rule read_members_text[OF nonempty each]) (use JObj(4) in \<open>simp_all add: n members\<close>)
    moreover have "dict_of_pairs (map (map_prod id key_ordered) ?kvs) = map (map_prod id key_ordered) ?kvs"
      using JObj(2) by (intro dict_of_distinct) simp
    moreover have "char_of (34::nat) \<noteq> CHR ''}''" by code_simp
    ultimately show ?thesis using d by (simp add: n members sorted_dict_map)
  qed
next
  case JNull
  then obtain m where "n = Suc m" by (cases n) auto
  then show ?case by (simp add: starts_with_def)
next
  case (JBool b)
  then obtain m where "n = Suc m" by (cases n) auto
  then show ?case by (cases b) (simp_all add: starts_with_def)
qed

definition ascii :: "string \<Rightarrow> bool" where
  "ascii s \<longleftrightarrow> list_all (\<lambda>c. (of_char c :: nat) < 128) s"

lemma ascii_simps [simp]: "ascii []" "ascii (c # s) \<longleftrightarrow> (of_char c :: nat) < 128 \<and> ascii s" "ascii (s @ t) \<longleftrightarrow> ascii s \<and> ascii t"
  by (auto simp: ascii_def)

lemma ascii_comma_sep: "(\<And>x. x \<in> set xs \<Longrightarrow> ascii x) \<Longrightarrow> ascii (comma_sep xs)"
  by (induction xs rule: comma_sep.induct) auto

lemma ascii_json_string: "ascii (json_string s)"
proof -
  have digit: "(of_char (hex_digit n) :: nat) < 128" if "n < 16" for n
    using that by (simp add: hex_digit_def)
  have "ascii (json_escape c)" for c
  proof -
    have "(of_char c :: nat) < 256" by simp
    then have "(of_char (hex_digit (of_char c div 16)) :: nat) < 128" by (intro digit) (rule less_mult_imp_div_less, simp)
    moreover have "(of_char (hex_digit (of_char c mod 16)) :: nat) < 128" by (rule digit) simp
    ultimately show ?thesis by (simp add: json_escape_def Let_def)
  qed
  then have "ascii (concat (map json_escape s))" by (induction s) auto
  then show ?thesis by (simp add: json_string_def)
qed

lemma ascii_int_dec: "ascii (int_dec i)"
proof -
  have "ascii (nat_dec n)" for n
    using nat_dec_digits[of n] by (auto simp: ascii_def list_all_iff is_digit_def)
  then show ?thesis by (simp add: int_dec_def)
qed

lemma ascii_canonical: "ascii (canonical_json v)"
proof (induction v)
  case (JList vs)
  then have "ascii (comma_sep (map canonical_json vs))" by (intro ascii_comma_sep) auto
  then show ?case by simp
next
  case (JObj kvs)
  have "ascii (comma_sep (map (\<lambda>(k, t). json_string k @ '':'' @ t) (sort_key fst (map (map_prod id canonical_json) kvs))))"
    using JObj by (intro ascii_comma_sep) (auto simp: ascii_json_string)
  then show ?case by simp
qed (auto simp: ascii_int_dec ascii_json_string)

lemma load_canonical:
  assumes "json_ok v"
  shows "load_bytes (canonical_json v) = Inr (key_ordered v)"
proof -
  have "read_value (Suc (2 * length (canonical_json v))) (canonical_json v) = Inr (key_ordered v, [])"
    using read_canonical[OF assms, of "[]" "Suc (2 * length (canonical_json v))"]
    by (simp add: number_ends_def del: read_value.simps)
  moreover have "skip_ws (canonical_json v) = canonical_json v" "skip_ws [] = []"
    using skip_value_start[OF canonical_start, of v "[]"] by (simp_all add: skip_ws_def)
  ultimately show ?thesis
    using ascii_canonical[of v] by (simp add: load_bytes_def json_loads_def ascii_def del: read_value.simps)
qed

text \<open>
  C35. What \<^verbatim>\<open>canonical_json\<close> writes, \<^verbatim>\<open>json.loads\<close> reads back: the same value, with the keys of every object in order; in
  particular every stored key has its value. The text is pure ASCII, so encoding it and decoding it changes nothing.
\<close>

theorem canonical_json_roundtrip:
  assumes "json_ok v"
  shows "load_bytes (canonical_json v) = Inr (key_ordered v)"
  using assms by (rule load_canonical)

text \<open>An object with its keys out of order, a list, a string that needs escapes and a negative number.\<close>

theorem canonical_json_roundtrip_witness:
  "load_bytes (canonical_json (JObj [(''b'', JList [JInt (- 12), JNull]), (''a'', JStr [char_of (34::nat), CHR ''x'', char_of (10::nat)])]))
   = Inr (JObj [(''a'', JStr [char_of (34::nat), CHR ''x'', char_of (10::nat)]), (''b'', JList [JInt (- 12), JNull])])"
  by (subst canonical_json_roundtrip) (simp_all add: sorted_dict_def)

end
