(* ===== verification/AtomicFiles.thy ===== *)
theory AtomicFiles
  imports CohortFiles JsonText "HOL-Library.AList"
begin

text \<open>
  Atomic file writes, \<^verbatim>\<open>infra/storage/atomic.py\<close>, over a disk that may lose power: a tree of files together with what
  has not reached the medium yet. The system calls of a write are a list; the process may die before any of them, and any
  of them may fail. A file whose bytes are not synced may hold anything after a loss of power, and an entry of a directory that is not
  synced may be the old one.
\<close>

section \<open>The disk\<close>

record disk =
  dk_tree :: file_tree
  dk_unsynced :: "path list"
  dk_entries :: "(path \<times> node option) list"

definition survives :: "disk \<Rightarrow> file_tree \<Rightarrow> bool" where
  "survives dk t \<longleftrightarrow> (\<forall>p. map_of t p = map_of (dk_tree dk) p
     \<or> p \<in> set (dk_unsynced dk) \<and> (\<exists>b. map_of t p = Some (File b))
     \<or> (\<exists>n. (p, n) \<in> set (dk_entries dk) \<and> map_of t p = n)
     \<or> (\<exists>q. below q p \<and> (q, None) \<in> set (dk_entries dk) \<and> map_of t p = None))"

datatype sys_call = MakeDirs path | OpenWrite path | WriteBytes path bytes | SyncFile path
  | ReplacePath path path | SyncDir path | RemovePath path

definition prefixes_of :: "path \<Rightarrow> path list" where
  "prefixes_of d = map (\<lambda>k. take k d) [0..<Suc (length d)]"

definition written :: "path \<Rightarrow> bytes \<Rightarrow> file_tree \<Rightarrow> bytes" where
  "written p b t = (case map_of t p of Some (File old) \<Rightarrow> old @ b | _ \<Rightarrow> b)"

fun apply_call :: "disk \<Rightarrow> sys_call \<Rightarrow> disk" where
  "apply_call dk (MakeDirs d) =
     (let missing = remdups (filter (\<lambda>p. map_of (dk_tree dk) p = None) (prefixes_of d)) in
      dk\<lparr>dk_tree := dk_tree dk @ map (\<lambda>p. (p, Dir)) missing, dk_entries := map (\<lambda>p. (p, None)) missing @ dk_entries dk\<rparr>)"
| "apply_call dk (OpenWrite p) =
     dk\<lparr>dk_tree := AList.update p (File []) (dk_tree dk), dk_unsynced := p # dk_unsynced dk,
        dk_entries := (p, map_of (dk_tree dk) p) # dk_entries dk\<rparr>"
| "apply_call dk (WriteBytes p b) =
     dk\<lparr>dk_tree := AList.update p (File (written p b (dk_tree dk))) (dk_tree dk), dk_unsynced := p # dk_unsynced dk\<rparr>"
| "apply_call dk (SyncFile p) = dk\<lparr>dk_unsynced := removeAll p (dk_unsynced dk)\<rparr>"
| "apply_call dk (ReplacePath p q) =
     (case map_of (dk_tree dk) p of
        None \<Rightarrow> dk
      | Some n \<Rightarrow>
          dk\<lparr>dk_tree := AList.update q n (AList.delete p (dk_tree dk)),
             dk_unsynced := (if p \<in> set (dk_unsynced dk) then q # dk_unsynced dk else removeAll q (dk_unsynced dk)),
             dk_entries := (q, map_of (dk_tree dk) q) # (p, Some n) # dk_entries dk\<rparr>)"
| "apply_call dk (SyncDir d) = dk\<lparr>dk_entries := filter (\<lambda>(p, n). p = [] \<or> butlast p \<noteq> d) (dk_entries dk)\<rparr>"
| "apply_call dk (RemovePath p) =
     dk\<lparr>dk_tree := AList.delete p (dk_tree dk), dk_entries := (p, map_of (dk_tree dk) p) # dk_entries dk\<rparr>"

text \<open>The calls that fail by themselves: a file where a directory is needed, a directory where a file is.\<close>

fun call_fails :: "disk \<Rightarrow> sys_call \<Rightarrow> bool" where
  "call_fails dk (MakeDirs d) = list_ex (\<lambda>p. case map_of (dk_tree dk) p of Some (File _) \<Rightarrow> True | _ \<Rightarrow> False) (prefixes_of d)"
| "call_fails dk (OpenWrite p) = (map_of (dk_tree dk) p = Some Dir)"
| "call_fails dk (ReplacePath p q) = (map_of (dk_tree dk) p = None \<or> map_of (dk_tree dk) q = Some Dir)"
| "call_fails dk _ = False"

text \<open>The calls one after another; \<open>fault\<close> is the number of the call that fails although it could succeed.\<close>

fun run_calls :: "nat option \<Rightarrow> sys_call list \<Rightarrow> disk \<Rightarrow> disk \<times> bool" where
  "run_calls fault [] dk = (dk, True)"
| "run_calls fault (c # cs) dk =
     (if fault = Some 0 \<or> call_fails dk c then (dk, False)
      else run_calls (map_option (\<lambda>n. n - 1) fault) cs (apply_call dk c))"

section \<open>Atomic writes\<close>

text \<open>
  \<open>we_pid\<close> is the decimal process id, \<open>we_split\<close> how the system divides a write into pieces that reach the file one by one;
  \<open>we_keep\<close> is that removing the temporary file fails, \<open>we_dirsync\<close> that the directory can be opened and synced.
\<close>

record write_env =
  we_pid :: string
  we_split :: "bytes \<Rightarrow> bytes list"
  we_fault :: "nat option"
  we_keep :: bool
  we_dirsync :: bool

definition tmp_name :: "write_env \<Rightarrow> string \<Rightarrow> string" where
  "tmp_name env name = name @ ''.tmp.'' @ we_pid env"

definition write_calls :: "write_env \<Rightarrow> path \<Rightarrow> string \<Rightarrow> bytes list \<Rightarrow> file_tree \<Rightarrow> sys_call list" where
  "write_calls env d name chunks t =
     (let tmp = d @ [tmp_name env name]; out = real_dir t tmp in
      OpenWrite out # map (WriteBytes out) (concat (map (we_split env) chunks)) @ [SyncFile out, ReplacePath tmp (d @ [name])])"

text \<open>\<^verbatim>\<open>_fsync_dir\<close> catches every \<^verbatim>\<open>OSError\<close>: where the directory cannot be opened or synced, nothing happens and nobody is told.\<close>

definition fsync_dir :: "write_env \<Rightarrow> path \<Rightarrow> disk \<Rightarrow> disk" where
  "fsync_dir env d dk = (if we_dirsync env then apply_call dk (SyncDir d) else dk)"

text \<open>The \<^verbatim>\<open>finally\<close> block.\<close>

definition drop_tmp :: "write_env \<Rightarrow> path \<Rightarrow> disk \<Rightarrow> disk" where
  "drop_tmp env tmp dk = (if exists_path (dk_tree dk) tmp \<and> \<not> we_keep env then apply_call dk (RemovePath tmp) else dk)"

datatype write_error = WriteOSError

definition atomic_write_text_stream ::
  "write_env \<Rightarrow> path \<Rightarrow> string \<Rightarrow> bytes list \<Rightarrow> disk \<Rightarrow> disk \<times> (write_error, nat) result" where
  "atomic_write_text_stream env directory name chunks dk =
     (let d = real_dir (dk_tree dk) directory in
      case run_calls (we_fault env) [MakeDirs d] dk of
        (dk0, False) \<Rightarrow> (dk0, Inl WriteOSError)
      | (dk0, True) \<Rightarrow>
          (case run_calls (map_option (\<lambda>n. n - 1) (we_fault env)) (write_calls env d name chunks (dk_tree dk0)) dk0 of
             (dk1, False) \<Rightarrow> (drop_tmp env (d @ [tmp_name env name]) dk1, Inl WriteOSError)
           | (dk1, True) \<Rightarrow> (drop_tmp env (d @ [tmp_name env name]) (fsync_dir env d dk1), Inr (length (concat chunks)))))"

definition atomic_write_bytes :: "write_env \<Rightarrow> path \<Rightarrow> string \<Rightarrow> bytes \<Rightarrow> disk \<Rightarrow> disk \<times> (write_error, nat) result" where
  "atomic_write_bytes env directory name data dk = atomic_write_text_stream env directory name [data] dk"

text \<open>UTF-8 of text whose code points are below 256.\<close>

definition utf8_char :: "char \<Rightarrow> bytes" where
  "utf8_char c = (let n = (of_char c :: nat) in if n < 128 then [c] else [char_of (192 + n div 64), char_of (128 + n mod 64)])"

definition utf8 :: "string \<Rightarrow> bytes" where
  "utf8 s = concat (map utf8_char s)"

definition atomic_write_text :: "write_env \<Rightarrow> path \<Rightarrow> string \<Rightarrow> string \<Rightarrow> disk \<Rightarrow> disk \<times> (write_error, nat) result" where
  "atomic_write_text env directory name txt dk = atomic_write_bytes env directory name (utf8 txt) dk"

definition atomic_write_json :: "write_env \<Rightarrow> path \<Rightarrow> string \<Rightarrow> json \<Rightarrow> disk \<Rightarrow> disk \<times> (write_error, nat) result" where
  "atomic_write_json env directory name obj dk = atomic_write_text env directory name (canonical_json obj) dk"

text \<open>The disk when the process dies after \<open>k\<close> of the calls.\<close>

definition write_stopped :: "nat \<Rightarrow> write_env \<Rightarrow> path \<Rightarrow> string \<Rightarrow> bytes list \<Rightarrow> disk \<Rightarrow> disk" where
  "write_stopped k env directory name chunks dk =
     (let d = real_dir (dk_tree dk) directory; dk0 = apply_call dk (MakeDirs d) in
      fst (run_calls (Some k) (MakeDirs d # write_calls env d name chunks (dk_tree dk0) @ [SyncDir d]) dk))"

section \<open>Old or new, never torn\<close>

text \<open>In a well-formed tree nothing exists below what does not.\<close>

definition tree_closed :: "file_tree \<Rightarrow> bool" where
  "tree_closed t \<longleftrightarrow> list_all (\<lambda>(p, n). list_all (\<lambda>k. map_of t (take k p) \<noteq> None) [0..<length p]) t"

lemma tree_closedD:
  assumes "tree_closed t" "map_of t q = None" "below q p"
  shows "map_of t p = None"
proof (rule ccontr)
  assume "map_of t p \<noteq> None"
  then obtain n where n: "(p, n) \<in> set t" by (auto dest: map_of_SomeD)
  have q: "q = take (length q) p" using assms(3) by (simp add: below_def)
  show False
  proof (cases "length q < length p")
    case True
    then have "map_of t (take (length q) p) \<noteq> None" using assms(1) n by (fastforce simp: tree_closed_def list_all_iff)
    then show False using assms(2) q by simp
  next
    case False
    then have "q = p" using q by simp
    then show False using assms(2) \<open>map_of t p \<noteq> None\<close> by simp
  qed
qed

lemma run_calls_prefix:
  "\<exists>j. j \<le> length cs \<and> fst (run_calls fault cs dk) = foldl apply_call dk (take j cs) \<and> (snd (run_calls fault cs dk) \<longleftrightarrow> j = length cs)"
proof (induction cs arbitrary: fault dk)
  case (Cons c cs)
  show ?case
  proof (cases "fault = Some 0 \<or> call_fails dk c")
    case True
    then show ?thesis by (intro exI[of _ 0]) auto
  next
    case False
    obtain j where "j \<le> length cs"
      "fst (run_calls (map_option (\<lambda>n. n - 1) fault) cs (apply_call dk c)) = foldl apply_call (apply_call dk c) (take j cs)"
      "snd (run_calls (map_option (\<lambda>n. n - 1) fault) cs (apply_call dk c)) \<longleftrightarrow> j = length cs"
      using Cons.IH by blast
    then show ?thesis using False by (intro exI[of _ "Suc j"]) auto
  qed
qed simp

lemma set_prefixes_of: "p \<in> set (prefixes_of d) \<longleftrightarrow> (\<exists>k \<le> length d. p = take k d)"
  unfolding prefixes_of_def set_map image_iff Bex_def by (auto simp: less_Suc_eq_le simp del: upt_Suc)

lemma prefix_not_child: "d @ x # xs \<notin> set (prefixes_of d)"
proof
  assume "d @ x # xs \<in> set (prefixes_of d)"
  then obtain k where "d @ x # xs = take k d" by (auto simp: set_prefixes_of)
  then have "length (d @ x # xs) \<le> length d" by simp
  then show False by simp
qed

text \<open>The facts on the tree before a write that the proofs use; \<open>tmp\<close> is the temporary file, \<open>out\<close> the target.\<close>

definition write_ready :: "disk \<Rightarrow> path \<Rightarrow> path \<Rightarrow> bool" where
  "write_ready dk d tmp \<longleftrightarrow> dk_unsynced dk = [] \<and> dk_entries dk = [] \<and> link_free (dk_tree dk) d
     \<and> map_of (dk_tree dk) tmp = None \<and> tree_closed (dk_tree dk)"

lemma made_dirs:
  assumes "write_ready dk d tmp"
  shows "map_of (dk_tree (apply_call dk (MakeDirs d))) p
      = (if p \<in> set (prefixes_of d) \<and> map_of (dk_tree dk) p = None then Some Dir else map_of (dk_tree dk) p)"
    and "dk_unsynced (apply_call dk (MakeDirs d)) = []"
    and "set (dk_entries (apply_call dk (MakeDirs d))) = {(p, None) | p. p \<in> set (prefixes_of d) \<and> map_of (dk_tree dk) p = None}"
proof -
  let ?ps = "remdups (filter (\<lambda>p. map_of (dk_tree dk) p = None) (prefixes_of d))"
  have "map_of (map (\<lambda>p. (p, Dir)) ?ps) p = (if p \<in> set ?ps then Some Dir else None)"
    by (simp add: map_of_map_restrict[of "\<lambda>_. Dir"] restrict_map_def)
  then show "map_of (dk_tree (apply_call dk (MakeDirs d))) p
      = (if p \<in> set (prefixes_of d) \<and> map_of (dk_tree dk) p = None then Some Dir else map_of (dk_tree dk) p)"
    by (auto simp: Let_def map_add_def split: option.split)
qed (use assms in \<open>auto simp: Let_def write_ready_def\<close>)

text \<open>While the temporary file is written.\<close>

lemma writing_state:
  fixes ps
  assumes "map_of (dk_tree dk0) tmp = None" "dk_unsynced dk0 = []"
  defines "dkw \<equiv> foldl apply_call (apply_call dk0 (OpenWrite tmp)) (map (WriteBytes tmp) ps)"
  shows "map_of (dk_tree dkw) = (map_of (dk_tree dk0))(tmp \<mapsto> File (concat ps))" and "set (dk_unsynced dkw) = {tmp}"
    and "dk_entries dkw = (tmp, None) # dk_entries dk0"
  unfolding dkw_def
proof (induction ps rule: rev_induct)
  case Nil
  case 1 show ?case by (simp add: update_conv')
  case 2 show ?case using assms(2) by simp
  case 3 show ?case using assms(1) by simp
next
  case (snoc b ps)
  case 1 show ?case using snoc(1) by (simp add: update_conv' written_def fun_eq_iff)
  case 2 show ?case using snoc(2) by simp
  case 3 show ?case using snoc(3) by simp
qed

definition old_or_new :: "file_tree \<Rightarrow> path \<Rightarrow> path \<Rightarrow> path \<Rightarrow> bytes \<Rightarrow> file_tree \<Rightarrow> bool" where
  "old_or_new t d tmp out data t' \<longleftrightarrow> map_of t' out \<in> {map_of t out, Some (File data)}
     \<and> (\<forall>p. p \<notin> {tmp, out} \<longrightarrow> map_of t' p = map_of t p
          \<or> map_of t p = None \<and> p \<in> set (prefixes_of d) \<and> map_of t' p = Some Dir)"

lemma survives_old_or_new:
  assumes ready: "write_ready dk d tmp" and dk0: "dk0 = apply_call dk (MakeDirs d)"
    and others: "\<And>p. p \<notin> {tmp, out} \<Longrightarrow> map_of (dk_tree dk1) p = map_of (dk_tree dk0) p"
    and here: "map_of (dk_tree dk1) out \<in> {map_of (dk_tree dk) out, Some (File data)}"
    and unsynced: "set (dk_unsynced dk1) \<subseteq> {tmp}" and out: "out \<noteq> tmp"
    and entries: "\<And>p n. (p, n) \<in> set (dk_entries dk1) \<Longrightarrow> p = tmp \<or> n = map_of (dk_tree dk) p"
    and s: "survives dk1 t'"
  shows "old_or_new (dk_tree dk) d tmp out data t'"
proof -
  have gone: "map_of (dk_tree dk) p = None" if "below q p" "(q, None) \<in> set (dk_entries dk1)" for p q
  proof -
    have "map_of (dk_tree dk) q = None" using entries[OF that(2)] ready by (auto simp: write_ready_def)
    then show ?thesis using tree_closedD[OF _ _ that(1)] ready by (auto simp: write_ready_def)
  qed
  have survive: "map_of t' p = map_of (dk_tree dk1) p \<or> map_of t' p = map_of (dk_tree dk) p" if "p \<noteq> tmp" for p
    using s unsynced entries[of p] gone[of _ p] that unfolding survives_def by (metis singletonD subsetD)
  have "map_of t' p = map_of (dk_tree dk) p \<or> map_of (dk_tree dk) p = None \<and> p \<in> set (prefixes_of d) \<and> map_of t' p = Some Dir"
    if "p \<notin> {tmp, out}" for p
    using survive[of p] others[OF that] made_dirs(1)[OF ready, of p, folded dk0] that by (auto split: if_splits)
  then show ?thesis using survive[OF out] here unfolding old_or_new_def by auto
qed

lemma tmp_not_dots: "tmp_name env name \<noteq> ''..''"
proof -
  have "''..'' \<noteq> name @ CHR ''.'' # CHR ''t'' # s" for s by (cases name) (auto simp: Cons_eq_append_conv)
  then show ?thesis unfolding tmp_name_def by simp
qed

lemma tmp_not_target: "d @ [name] \<noteq> d @ [tmp_name env name]"
  by (simp add: tmp_name_def)

lemma link_free_made:
  assumes "write_ready dk d tmp"
  shows "link_free (dk_tree (apply_call dk (MakeDirs d))) d"
  using assms unfolding link_free_iff made_dirs(1)[OF assms] write_ready_def by auto

lemma made_dirs_tmp:
  assumes "write_ready dk d (d @ [tmp_name env name])"
  shows "map_of (dk_tree (apply_call dk (MakeDirs d))) (d @ [tmp_name env name]) = None"
    and "real_dir (dk_tree (apply_call dk (MakeDirs d))) (d @ [tmp_name env name]) = d @ [tmp_name env name]"
    and "map_of (dk_tree (apply_call dk (MakeDirs d))) (d @ [name]) = map_of (dk_tree dk) (d @ [name])"
proof -
  let ?t = "dk_tree (apply_call dk (MakeDirs d))"
  note made = made_dirs(1)[OF assms]
  show tmp: "map_of ?t (d @ [tmp_name env name]) = None" and "map_of ?t (d @ [name]) = map_of (dk_tree dk) (d @ [name])"
    unfolding made using assms prefix_not_child[of d _ "[]"] by (auto simp: write_ready_def)
  have "link_free ?t d" by (rule link_free_made[OF assms])
  then have "link_free ?t (d @ [tmp_name env name])" using tmp tmp_not_dots by (intro link_free_child) auto
  then show "real_dir ?t (d @ [tmp_name env name]) = d @ [tmp_name env name]"
    by (simp add: real_dir_def resolve_link_free)
qed

text \<open>Every state a write passes through: before the replacement only the temporary file differs, afterwards the target is new.\<close>

lemma write_states:
  fixes env d name chunks j
  assumes ready: "write_ready dk d (d @ [tmp_name env name])" and split: "\<And>c. concat (we_split env c) = c"
  defines "tmp \<equiv> d @ [tmp_name env name]" and "out \<equiv> d @ [name]" and "dk0 \<equiv> apply_call dk (MakeDirs d)"
  defines "calls \<equiv> MakeDirs d # write_calls env d name chunks (dk_tree dk0) @ [SyncDir d]"
  defines "s \<equiv> foldl apply_call dk (take j calls)"
  shows "j = 0 \<and> s = dk
    \<or> 0 < j \<and> j < length calls - 1 \<and> (\<forall>p. p \<noteq> tmp \<longrightarrow> map_of (dk_tree s) p = map_of (dk_tree dk0) p)
        \<and> (\<forall>n. map_of (dk_tree s) tmp = Some n \<longrightarrow> (\<exists>b. n = File b))
        \<and> set (dk_unsynced s) \<subseteq> {tmp} \<and> set (dk_entries s) \<subseteq> insert (tmp, None) (set (dk_entries dk0))
    \<or> length calls - 1 \<le> j \<and> map_of (dk_tree s) = (map_of (dk_tree dk0))(tmp := None, out \<mapsto> File (concat chunks))
        \<and> dk_unsynced s = [] \<and> set (dk_entries s) \<subseteq> {(tmp, None), (tmp, Some (File (concat chunks))), (out, map_of (dk_tree dk) out)} \<union> set (dk_entries dk0)
        \<and> (length calls \<le> j \<longrightarrow> set (dk_entries s) \<subseteq> set (dk_entries dk0))"
proof -
  let ?ps = "concat (map (we_split env) chunks)"
  have data: "concat ?ps = concat chunks"
    using split by (induction chunks) auto
  note made = made_dirs_tmp[OF ready, folded dk0_def tmp_def out_def]
  have different: "out \<noteq> tmp" using tmp_not_target by (simp add: tmp_def out_def)
  have u0: "dk_unsynced dk0 = []" using made_dirs(2)[OF ready] by (simp add: dk0_def)
  have calls: "calls = MakeDirs d # OpenWrite tmp # map (WriteBytes tmp) ?ps @ [SyncFile tmp, ReplacePath tmp out, SyncDir d]"
    using made(2) by (simp add: calls_def write_calls_def Let_def tmp_def out_def)
  have len: "length calls = length ?ps + 5" unfolding calls by simp
  let ?w = "\<lambda>i. foldl apply_call (apply_call dk0 (OpenWrite tmp)) (map (WriteBytes tmp) (take i ?ps))"
  note writing = writing_state[OF made(1) u0]
  define full where "full = foldl apply_call (apply_call dk0 (OpenWrite tmp)) (map (WriteBytes tmp) ?ps)"
  note filled = writing[of ?ps, folded full_def]
  define sy where "sy = apply_call full (SyncFile tmp)"
  have synced: "dk_unsynced sy = []" "dk_entries sy = (tmp, None) # dk_entries dk0"
      "map_of (dk_tree sy) = (map_of (dk_tree dk0))(tmp \<mapsto> File (concat chunks))"
    using filled by (auto simp: sy_def filter_empty_conv removeAll_filter_not_eq data)
  define r where "r = apply_call sy (ReplacePath tmp out)"
  have replaced: "map_of (dk_tree r) = (map_of (dk_tree dk0))(tmp := None, out \<mapsto> File (concat chunks))"
    "dk_unsynced r = []"
    "set (dk_entries r) \<subseteq> {(tmp, None), (tmp, Some (File (concat chunks))), (out, map_of (dk_tree dk) out)} \<union> set (dk_entries dk0)"
    using synced different made(3) by (auto simp: r_def update_conv' delete_conv' fun_eq_iff)
  have "tmp \<noteq> []" "butlast tmp = d" "out \<noteq> []" "butlast out = d" by (simp_all add: tmp_def out_def)
  then have cleared: "set (dk_entries (apply_call r (SyncDir d))) \<subseteq> set (dk_entries dk0)"
    using replaced(3) by auto
  consider "j = 0" | "j = 1" | "2 \<le> j" "j - 2 \<le> length ?ps" | "j = length ?ps + 3" | "j = length ?ps + 4" | "length ?ps + 5 \<le> j"
    by linarith
  then show ?thesis
  proof cases
    case 1
    then show ?thesis by (simp add: s_def)
  next
    case 2
    then have "s = dk0" by (simp add: s_def calls dk0_def)
    then show ?thesis using 2 len u0 made(1) by auto
  next
    case 3
    obtain i where i: "j = Suc (Suc i)" using 3(1) by (cases j; cases "j - 1") auto
    have "take j calls = MakeDirs d # OpenWrite tmp # map (WriteBytes tmp) (take i ?ps)"
      using 3(2) unfolding calls i by (simp add: take_map)
    then have "s = ?w i" by (simp add: s_def dk0_def)
    have "j < length calls - 1" using 3(2) i len by simp
    moreover note w = writing[of "take i ?ps", folded \<open>s = ?w i\<close>]
    ultimately show ?thesis using 3(1) by (intro disjI2 disjI1 conjI) (simp_all add: w)
  next
    case 4
    have "take j calls = MakeDirs d # OpenWrite tmp # map (WriteBytes tmp) ?ps @ [SyncFile tmp]"
      unfolding calls 4 by (simp add: numeral_3_eq_3)
    then have "s = sy" by (simp add: s_def dk0_def full_def sy_def)
    then show ?thesis using 4 len synced by auto
  next
    case 5
    have "take j calls = MakeDirs d # OpenWrite tmp # map (WriteBytes tmp) ?ps @ [SyncFile tmp, ReplacePath tmp out]"
      unfolding calls 5 by (simp add: numeral_eq_Suc)
    then have "s = r" by (simp add: s_def dk0_def full_def sy_def r_def)
    then show ?thesis using 5 len replaced by auto
  next
    case 6
    then have "take j calls = calls" using len by simp
    then have "s = apply_call r (SyncDir d)" by (simp add: s_def calls dk0_def full_def sy_def r_def)
    then show ?thesis using 6 len replaced cleared by auto
  qed
qed

lemma exists_tmp:
  assumes "write_ready dk d (d @ [tmp_name env name])"
    and "\<forall>p. p \<noteq> d @ [tmp_name env name] \<longrightarrow> p \<noteq> d @ [name] \<longrightarrow> map_of t p = map_of (dk_tree (apply_call dk (MakeDirs d))) p"
    and "\<forall>n. map_of t (d @ [tmp_name env name]) = Some n \<longrightarrow> (\<exists>b. n = File b)"
  shows "exists_path t (d @ [tmp_name env name]) \<longleftrightarrow> map_of t (d @ [tmp_name env name]) \<noteq> None"
proof -
  have "take k d \<noteq> d @ [x]" for k x by (auto dest: arg_cong[of _ _ length])
  then have same: "map_of t (take k d) = map_of (dk_tree (apply_call dk (MakeDirs d))) (take k d)" for k
    using assms(2) by blast
  have "link_free t d" by (rule link_free_cong[OF link_free_made[OF assms(1)] same])
  moreover have "map_of t (d @ [tmp_name env name]) \<noteq> Some (Link q)" for q using assms(3) by auto
  ultimately have "link_free t (d @ [tmp_name env name])" by (intro link_free_child tmp_not_dots)
  then show ?thesis by (simp add: exists_path_def stat_link_free)
qed

lemma write_prefix_old_or_new:
  fixes env d name chunks
  assumes ready: "write_ready dk d (d @ [tmp_name env name])" and split: "\<And>c. concat (we_split env c) = c"
  defines "dk0 \<equiv> apply_call dk (MakeDirs d)"
  defines "calls \<equiv> MakeDirs d # write_calls env d name chunks (dk_tree dk0) @ [SyncDir d]"
  assumes s: "survives (foldl apply_call dk (take j calls)) t'"
  shows "old_or_new (dk_tree dk) d (d @ [tmp_name env name]) (d @ [name]) (concat chunks) t'"
proof -
  let ?tmp = "d @ [tmp_name env name]" and ?out = "d @ [name]" and ?data = "concat chunks"
  have different: "?out \<noteq> ?tmp" by (rule tmp_not_target)
  have dk0: "dk0 = apply_call dk (MakeDirs d)" by (simp only: dk0_def)
  note made = made_dirs[OF ready, folded dk0_def] and made_tmp = made_dirs_tmp[OF ready, folded dk0_def]
  show ?thesis
    using write_states[OF ready split, of j chunks, folded dk0_def, folded calls_def]
  proof (elim disjE conjE)
    assume "foldl apply_call dk (take j calls) = dk"
    then have "map_of t' p = map_of (dk_tree dk) p" for p
      using s ready unfolding survives_def write_ready_def by auto
    then show ?thesis by (simp add: old_or_new_def)
  next
    assume a: "\<forall>p. p \<noteq> ?tmp \<longrightarrow> map_of (dk_tree (foldl apply_call dk (take j calls))) p = map_of (dk_tree dk0) p"
      "set (dk_unsynced (foldl apply_call dk (take j calls))) \<subseteq> {?tmp}"
      "set (dk_entries (foldl apply_call dk (take j calls))) \<subseteq> insert (?tmp, None) (set (dk_entries dk0))"
    show ?thesis
    proof (rule survives_old_or_new[OF ready dk0 _ _ a(2) different _ s])
      show "p = ?tmp \<or> n = map_of (dk_tree dk) p" if "(p, n) \<in> set (dk_entries (foldl apply_call dk (take j calls)))" for p n
        using that a(3) made(3) by auto
    qed (use a(1) made_tmp(3) different in auto)
  next
    assume a: "map_of (dk_tree (foldl apply_call dk (take j calls))) = (map_of (dk_tree dk0))(?tmp := None, ?out \<mapsto> File ?data)"
      "dk_unsynced (foldl apply_call dk (take j calls)) = []"
      "set (dk_entries (foldl apply_call dk (take j calls)))
        \<subseteq> {(?tmp, None), (?tmp, Some (File ?data)), (?out, map_of (dk_tree dk) ?out)} \<union> set (dk_entries dk0)"
    show ?thesis
    proof (rule survives_old_or_new[OF ready dk0 _ _ _ different _ s])
      show "p = ?tmp \<or> n = map_of (dk_tree dk) p" if "(p, n) \<in> set (dk_entries (foldl apply_call dk (take j calls)))" for p n
        using that a(3) made(3) by auto
    qed (use a(1,2) different in auto)
  qed
qed

lemma old_or_new_cong:
  assumes "out \<noteq> tmp" "\<forall>p. p \<noteq> tmp \<longrightarrow> map_of t2 p = map_of t1 p" "old_or_new t d tmp out data t1"
  shows "old_or_new t d tmp out data t2"
  using assms by (auto simp: old_or_new_def)

lemma drop_tmp_tree:
  assumes "exists_path (dk_tree dk1) tmp \<longleftrightarrow> map_of (dk_tree dk1) tmp \<noteq> None"
  shows "p \<noteq> tmp \<Longrightarrow> map_of (dk_tree (drop_tmp env tmp dk1)) p = map_of (dk_tree dk1) p"
    and "\<not> we_keep env \<Longrightarrow> map_of (dk_tree (drop_tmp env tmp dk1)) tmp = None"
    and "map_of (dk_tree dk1) tmp = None \<Longrightarrow> drop_tmp env tmp dk1 = dk1"
  using assms by (auto simp: drop_tmp_def delete_conv')

lemma atomic_write_outcome:
  assumes ready: "write_ready dk d (d @ [tmp_name env name])" and split: "\<forall>c. concat (we_split env c) = c"
  shows "(survives (write_stopped k env d name chunks dk) t'
        \<longrightarrow> old_or_new (dk_tree dk) d (d @ [tmp_name env name]) (d @ [name]) (concat chunks) t')
    \<and> (case atomic_write_text_stream env d name chunks dk of
         (dk', Inr n) \<Rightarrow> n = length (concat chunks) \<and> map_of (dk_tree dk') (d @ [name]) = Some (File (concat chunks))
           \<and> map_of (dk_tree dk') (d @ [tmp_name env name]) = None
           \<and> old_or_new (dk_tree dk) d (d @ [tmp_name env name]) (d @ [name]) (concat chunks) (dk_tree dk')
           \<and> (survives dk' t'' \<longrightarrow> old_or_new (dk_tree dk) d (d @ [tmp_name env name]) (d @ [name]) (concat chunks) t'')
           \<and> (we_dirsync env \<and> map_of (dk_tree dk) d \<noteq> None \<and> survives dk' t''
                \<longrightarrow> map_of t'' (d @ [name]) = Some (File (concat chunks)))
       | (dk', Inl e) \<Rightarrow> map_of (dk_tree dk') (d @ [name]) = map_of (dk_tree dk) (d @ [name])
           \<and> old_or_new (dk_tree dk) d (d @ [tmp_name env name]) (d @ [name]) (concat chunks) (dk_tree dk')
           \<and> (survives dk' t'' \<longrightarrow> old_or_new (dk_tree dk) d (d @ [tmp_name env name]) (d @ [name]) (concat chunks) t'')
           \<and> (\<not> we_keep env \<longrightarrow> map_of (dk_tree dk') (d @ [tmp_name env name]) = None))"
proof -
  let ?tmp = "d @ [tmp_name env name]" and ?out = "d @ [name]" and ?data = "concat chunks"
  define dk0 where "dk0 = apply_call dk (MakeDirs d)"
  define calls where "calls = MakeDirs d # write_calls env d name chunks (dk_tree dk0) @ [SyncDir d]"
  have here: "real_dir (dk_tree dk) d = d" using ready by (simp add: write_ready_def real_dir_link_free)
  have different: "?out \<noteq> ?tmp" by (rule tmp_not_target)
  have len: "length calls = length (write_calls env d name chunks (dk_tree dk0)) + 2" by (simp add: calls_def)
  note states = write_states[OF ready, of _ chunks, folded dk0_def, folded calls_def, OF split[rule_format]]
  note made = made_dirs[OF ready, folded dk0_def] and made_tmp = made_dirs_tmp[OF ready, folded dk0_def]
  note crash = write_prefix_old_or_new[OF ready split[rule_format], of _ chunks, folded dk0_def, folded calls_def]
  have stopped: "old_or_new (dk_tree dk) d ?tmp ?out ?data t'" if "survives (write_stopped k env d name chunks dk) t'"
  proof -
    obtain i where i: "fst (run_calls (Some k) calls dk) = foldl apply_call dk (take i calls)"
      using run_calls_prefix by blast
    show ?thesis
      using that crash[of i] unfolding write_stopped_def Let_def here dk0_def[symmetric] calls_def[symmetric] i by blast
  qed
  let ?wc = "write_calls env d name chunks (dk_tree dk0)" and ?f = "map_option (\<lambda>n. n - 1) (we_fault env)"
  obtain j where j: "j \<le> length ?wc" "fst (run_calls ?f ?wc dk0) = foldl apply_call dk (take (Suc j) calls)"
    "snd (run_calls ?f ?wc dk0) \<longleftrightarrow> j = length ?wc"
    using run_calls_prefix[of ?wc ?f dk0] by (auto simp: calls_def dk0_def)
  let ?dk1 = "foldl apply_call dk (take (Suc j) calls)"
  have second: "run_calls ?f ?wc dk0 = (?dk1, j = length ?wc)" using j(2,3) by (simp add: prod_eq_iff)
  have self: "survives s (dk_tree s)" for s by (simp add: survives_def)
  define ok where "ok \<longleftrightarrow> \<not> (we_fault env = Some 0 \<or> call_fails dk (MakeDirs d))"
  have first: "run_calls (we_fault env) [MakeDirs d] dk = (if ok then dk0 else dk, ok)"
    by (simp add: ok_def dk0_def del: apply_call.simps call_fails.simps)
  consider (refused) "\<not> ok" | (raised) ok "j < length ?wc" | (returned) ok "j = length ?wc" using j(1) by linarith
  then have "case atomic_write_text_stream env d name chunks dk of
         (dk', Inr n) \<Rightarrow> n = length ?data \<and> map_of (dk_tree dk') ?out = Some (File ?data)
           \<and> map_of (dk_tree dk') ?tmp = None
           \<and> old_or_new (dk_tree dk) d ?tmp ?out ?data (dk_tree dk')
           \<and> (survives dk' t'' \<longrightarrow> old_or_new (dk_tree dk) d ?tmp ?out ?data t'')
           \<and> (we_dirsync env \<and> map_of (dk_tree dk) d \<noteq> None \<and> survives dk' t'' \<longrightarrow> map_of t'' ?out = Some (File ?data))
       | (dk', Inl e) \<Rightarrow> map_of (dk_tree dk') ?out = map_of (dk_tree dk) ?out
           \<and> old_or_new (dk_tree dk) d ?tmp ?out ?data (dk_tree dk')
           \<and> (survives dk' t'' \<longrightarrow> old_or_new (dk_tree dk) d ?tmp ?out ?data t'')
           \<and> (\<not> we_keep env \<longrightarrow> map_of (dk_tree dk') ?tmp = None)"
  proof cases
    case refused
    then have "atomic_write_text_stream env d name chunks dk = (dk, Inl WriteOSError)"
      unfolding atomic_write_text_stream_def Let_def here first by simp
    then show ?thesis using crash[of 0, OF self] crash[of 0 t''] ready by (simp add: write_ready_def)
  next
    case raised
    then have res: "atomic_write_text_stream env d name chunks dk = (drop_tmp env ?tmp ?dk1, Inl WriteOSError)"
      using second unfolding atomic_write_text_stream_def Let_def here first by simp
    have before: "\<forall>p. p \<noteq> ?tmp \<longrightarrow> map_of (dk_tree ?dk1) p = map_of (dk_tree dk0) p"
      "\<forall>n. map_of (dk_tree ?dk1) ?tmp = Some n \<longrightarrow> (\<exists>b. n = File b)"
      "set (dk_unsynced ?dk1) \<subseteq> {?tmp}" "set (dk_entries ?dk1) \<subseteq> insert (?tmp, None) (set (dk_entries dk0))"
      using states[of "Suc j"] raised(2) len by auto
    have "exists_path (dk_tree ?dk1) ?tmp \<longleftrightarrow> map_of (dk_tree ?dk1) ?tmp \<noteq> None"
      using before by (intro exists_tmp[OF ready]) (auto simp: dk0_def)
    note dropped = drop_tmp_tree[OF this, where env = env]
    have "map_of (dk_tree (drop_tmp env ?tmp ?dk1)) ?out = map_of (dk_tree dk) ?out"
      using dropped(1) before(1) made_tmp(3) different by simp
    moreover have "old_or_new (dk_tree dk) d ?tmp ?out ?data (dk_tree (drop_tmp env ?tmp ?dk1))"
      by (rule old_or_new_cong[OF different _ crash[OF self]]) (use dropped(1) in blast)
    moreover have "old_or_new (dk_tree dk) d ?tmp ?out ?data t''" if "survives (drop_tmp env ?tmp ?dk1) t''"
    proof (rule survives_old_or_new[OF ready dk0_def _ _ _ different _ that])
      show "p = ?tmp \<or> n = map_of (dk_tree dk) p" if "(p, n) \<in> set (dk_entries (drop_tmp env ?tmp ?dk1))" for p n
        using that before(4) made(3) by (auto simp: drop_tmp_def split: if_splits)
    qed (use dropped(1) before(1,3) made_tmp(3) different in \<open>auto simp: drop_tmp_def\<close>)
    ultimately show ?thesis using dropped(2) by (simp add: res)
  next
    case returned
    define k where "k = (if we_dirsync env then length calls else length calls - 1)"
    let ?dk2 = "foldl apply_call dk (take k calls)"
    have end_state: "fsync_dir env d ?dk1 = ?dk2"
      using returned(2) by (simp add: fsync_dir_def calls_def dk0_def k_def)
    have after: "map_of (dk_tree ?dk2) = (map_of (dk_tree dk0))(?tmp := None, ?out \<mapsto> File ?data)" "dk_unsynced ?dk2 = []"
      "we_dirsync env \<Longrightarrow> set (dk_entries ?dk2) \<subseteq> set (dk_entries dk0)"
      using states[of k] len by (auto simp: k_def split: if_splits)
    have "exists_path (dk_tree ?dk2) ?tmp \<longleftrightarrow> map_of (dk_tree ?dk2) ?tmp \<noteq> None"
      using after(1) different by (intro exists_tmp[OF ready]) (auto simp: dk0_def)
    then have "drop_tmp env ?tmp ?dk2 = ?dk2"
      using after(1) different by (intro drop_tmp_tree(3)) auto
    then have res: "atomic_write_text_stream env d name chunks dk = (?dk2, Inr (length ?data))"
      using second returned end_state unfolding atomic_write_text_stream_def Let_def here first by simp
    have "dk_entries ?dk2 = []" if "we_dirsync env" "map_of (dk_tree dk) d \<noteq> None"
    proof -
      have "map_of (dk_tree dk) p \<noteq> None" if "p \<in> set (prefixes_of d)" for p
      proof -
        have "below p d" using that by (auto simp: set_prefixes_of below_def)
        then show ?thesis
          using tree_closedD[of "dk_tree dk" p d] \<open>map_of (dk_tree dk) d \<noteq> None\<close> ready by (auto simp: write_ready_def)
      qed
      then have none: "{(p, None) | p. p \<in> set (prefixes_of d) \<and> map_of (dk_tree dk) p = None} = ({} :: (path \<times> node option) set)" by blast
      have "set (dk_entries dk0) = {}" unfolding made(3) by (rule none)
      then show ?thesis using after(3)[OF that(1)] by simp
    qed
    then have "map_of t'' ?out = Some (File ?data)" if "we_dirsync env" "map_of (dk_tree dk) d \<noteq> None" "survives ?dk2 t''"
      using that after(1,2) unfolding survives_def by auto
    then show ?thesis using after(1) different crash[OF self, of k] crash[of k t''] by (simp add: res)
  qed
  then show ?thesis using stopped by blast
qed

text \<open>
  C36. A file is replaced as a whole or not at all. Let the process die between any two system calls of an atomic write, or the
  power fail there or after the call with everything lost that was not synced: the target holds its old contents or all of the new ones, and no
  other file changes. A call that returns has put the new contents there, counts their bytes and leaves no temporary file; where the directory
  existed before and could be synced (\<open>we_dirsync\<close>; the code does not tell the caller), they survive a loss of power. A call that raises leaves the target
  as it was, and no temporary file unless its removal fails.
\<close>

theorem atomic_write_all_or_nothing:
  assumes ready: "write_ready dk d (d @ [tmp_name env name])" and split: "\<forall>c. concat (we_split env c) = c"
  shows "(survives (write_stopped k env d name chunks dk) t'
        \<longrightarrow> old_or_new (dk_tree dk) d (d @ [tmp_name env name]) (d @ [name]) (concat chunks) t')
    \<and> (case atomic_write_text_stream env d name chunks dk of
         (dk', Inr n) \<Rightarrow> n = length (concat chunks) \<and> map_of (dk_tree dk') (d @ [name]) = Some (File (concat chunks))
           \<and> map_of (dk_tree dk') (d @ [tmp_name env name]) = None
           \<and> old_or_new (dk_tree dk) d (d @ [tmp_name env name]) (d @ [name]) (concat chunks) (dk_tree dk')
           \<and> (survives dk' t'' \<longrightarrow> old_or_new (dk_tree dk) d (d @ [tmp_name env name]) (d @ [name]) (concat chunks) t'')
           \<and> (we_dirsync env \<and> map_of (dk_tree dk) d \<noteq> None \<and> survives dk' t''
                \<longrightarrow> map_of t'' (d @ [name]) = Some (File (concat chunks)))
       | (dk', Inl e) \<Rightarrow> map_of (dk_tree dk') (d @ [name]) = map_of (dk_tree dk) (d @ [name])
           \<and> old_or_new (dk_tree dk) d (d @ [tmp_name env name]) (d @ [name]) (concat chunks) (dk_tree dk')
           \<and> (survives dk' t'' \<longrightarrow> old_or_new (dk_tree dk) d (d @ [tmp_name env name]) (d @ [name]) (concat chunks) t'')
           \<and> (\<not> we_keep env \<longrightarrow> map_of (dk_tree dk') (d @ [tmp_name env name]) = None))"
  by (rule atomic_write_outcome[OF ready split])

text \<open>A manifest replaced while the system writes byte by byte, the fourth call fails, and the removal of the temporary file too.\<close>

definition demo_disk :: disk where
  "demo_disk = \<lparr>dk_tree = [([], Dir), ([''d''], Dir), ([''d'', ''m''], File ''old'')], dk_unsynced = [], dk_entries = []\<rparr>"

definition demo_write_env :: "nat option \<Rightarrow> write_env" where
  "demo_write_env fault = \<lparr>we_pid = ''7'', we_split = map (\<lambda>c. [c]), we_fault = fault, we_keep = True, we_dirsync = True\<rparr>"

theorem atomic_write_all_or_nothing_witness:
  "\<exists>dk' e. atomic_write_text_stream (demo_write_env (Some 3)) [''d''] ''m'' [''ne'', ''w''] demo_disk = (dk', Inl e)
    \<and> map_of (dk_tree dk') [''d'', ''m''] = Some (File ''old'') \<and> map_of (dk_tree dk') [''d'', ''m.tmp.7''] = Some (File ''n'')"
proof -
  let ?env = "demo_write_env (Some 3)" and ?r = "atomic_write_text_stream (demo_write_env (Some 3)) [''d''] ''m'' [''ne'', ''w''] demo_disk"
  have ready: "write_ready demo_disk [''d''] ([''d''] @ [tmp_name ?env ''m''])" by code_simp
  have split: "\<forall>c. concat (we_split ?env c) = c"
    by (simp add: demo_write_env_def comp_def concat_map_singleton)
  have free: "link_free (dk_tree demo_disk) [''d'']" "link_free (dk_tree demo_disk) [''d'', ''m.tmp.7'']" by code_simp+
  have tmp: "tmp_name ?env ''m'' = ''m.tmp.7''" by code_simp
  have made: "apply_call demo_disk (MakeDirs [''d'']) = demo_disk" "\<not> call_fails demo_disk (MakeDirs [''d''])"
    by (simp_all add: demo_disk_def prefixes_of_def)
  have here: "real_dir (dk_tree demo_disk) [''d''] = [''d'']" "real_dir (dk_tree demo_disk) [''d'', ''m.tmp.7''] = [''d'', ''m.tmp.7'']"
    using free by (simp_all add: real_dir_link_free)
  have calls: "write_calls ?env [''d''] ''m'' [''ne'', ''w''] (dk_tree demo_disk) = OpenWrite [''d'', ''m.tmp.7'']
      # map (WriteBytes [''d'', ''m.tmp.7'']) [''n'', ''e'', ''w''] @ [SyncFile [''d'', ''m.tmp.7''], ReplacePath [''d'', ''m.tmp.7''] [''d'', ''m'']]"
    unfolding write_calls_def Let_def tmp using here(2) by (simp add: demo_write_env_def)
  have first: "run_calls (Some 3) [MakeDirs [''d'']] demo_disk = (demo_disk, True)"
    using made by (simp del: apply_call.simps call_fails.simps)
  have second: "run_calls (Some 2) (OpenWrite [''d'', ''m.tmp.7''] # map (WriteBytes [''d'', ''m.tmp.7'']) [''n'', ''e'', ''w'']
      @ [SyncFile [''d'', ''m.tmp.7''], ReplacePath [''d'', ''m.tmp.7''] [''d'', ''m'']]) demo_disk
    = (apply_call (apply_call demo_disk (OpenWrite [''d'', ''m.tmp.7''])) (WriteBytes [''d'', ''m.tmp.7''] ''n''), False)"
    by (simp add: demo_disk_def written_def)
  have diff_3: "(3::nat) - 1 = 2" by simp
  have fault: "we_fault ?env = Some 3" "we_keep ?env" by (simp_all add: demo_write_env_def)
  have "?r = (apply_call (apply_call demo_disk (OpenWrite [''d'', ''m.tmp.7''])) (WriteBytes [''d'', ''m.tmp.7''] ''n''), Inl WriteOSError)"
    unfolding atomic_write_text_stream_def Let_def here fault first prod.case bool.case calls option.map diff_3 second
    by (simp add: drop_tmp_def fault)
  then have res: "snd ?r = Inl WriteOSError" "map_of (dk_tree (fst ?r)) [''d'', ''m.tmp.7''] = Some (File ''n'')"
    by (simp_all add: demo_disk_def written_def)
  obtain dk' where run: "?r = (dk', Inl WriteOSError)" using res(1) by (cases ?r) simp
  have "map_of (dk_tree demo_disk) [''d'', ''m''] = Some (File ''old'')" by (simp add: demo_disk_def)
  then show ?thesis
    using atomic_write_all_or_nothing[OF ready split, where chunks = "[''ne'', ''w'']"] res(2) unfolding run by simp
qed

end
