(* ===== verification/Distribution.thy ===== *)
theory Distribution
  imports AtomicFiles
begin

text \<open>
  Distribution of work to other machines, \<^verbatim>\<open>infra/distribution\<close>: the division into chunks and the identity of an assignment
  (\<^verbatim>\<open>partition.py\<close>), bundle manifests and affinity checks (\<^verbatim>\<open>guards.py\<close>), worker receipts (\<^verbatim>\<open>receipt.py\<close>), discovery
  (\<^verbatim>\<open>discovery.py\<close>) and the three commands of \<^verbatim>\<open>cli.py\<close> that run a bundle through its life, over the file tree of
  \<open>CohortFiles\<close>; and the selection and division of identifiers of \<^verbatim>\<open>foundation/runtime/partitions.py\<close>.
  \<open>sha\<close> is the hex SHA-256 digest. An adapter, which the commands get as an argument, is a record of its methods.
\<close>

section \<open>Work, assignments and receipts\<close>

record distribution_work =
  dw_work_id :: string
  dw_work_digest :: string
  dw_chunk_count :: int

record worker_assignment =
  wa_pipeline :: string
  wa_work_id :: string
  wa_work_digest :: string
  wa_worker_id :: string
  wa_chunk_ids :: "int list"
  wa_assignment_id :: string
  wa_metadata :: "json dict"

record worker_file =
  wf_size_bytes :: int
  wf_sha256 :: string

record worker_receipt =
  wr_pipeline :: string
  wr_work_id :: string
  wr_work_digest :: string
  wr_assignment_id :: string
  wr_worker_id :: string
  wr_completed_chunks :: "int list"
  wr_file_records :: "worker_file dict"
  wr_result_metadata :: "json dict"

record import_report =
  ir_pipeline :: string
  ir_work_id :: string
  ir_worker_id :: string
  ir_adopted_chunks :: "int list"
  ir_ignored_chunks :: "int list"

text \<open>\<open>DistOutside\<close> is a text that \<open>load_bytes\<close> does not decide.\<close>

datatype dist_error = DistValueError | DistOSError | DistOutside

section \<open>Partitioning\<close>

fun colon_join :: "string list \<Rightarrow> string" where
  "colon_join [] = []"
| "colon_join [s] = s"
| "colon_join (s # t # ss) = s @ '':'' @ colon_join (t # ss)"

definition sorted_ids :: "int list \<Rightarrow> int list" where
  "sorted_ids ids = sort (remdups ids)"

definition derive_assignment_id ::
  "(string \<Rightarrow> string) \<Rightarrow> string \<Rightarrow> string \<Rightarrow> string \<Rightarrow> string \<Rightarrow> int list \<Rightarrow> (dist_error, string) result" where
  "derive_assignment_id sha pipeline work_id work_digest worker_id chunk_ids =
     (if \<not> is_sha256_hex_digest work_digest then Inl DistValueError
      else let ordered = sorted_ids chunk_ids in
        if ordered = [] then Inl DistValueError
        else Inr (take 16 (sha (colon_join [''assignment-v2'', pipeline, work_id, work_digest, worker_id,
               comma_sep (map int_dec ordered)]))))"

definition worker_name :: "nat \<Rightarrow> string" where
  "worker_name index = ''worker-'' @ zfill 2 (nat_dec index)"

definition divide_chunks :: "int \<Rightarrow> int \<Rightarrow> (dist_error, int list dict) result" where
  "divide_chunks chunk_count worker_count =
     (if worker_count < 1 then Inl DistValueError
      else if chunk_count < 1 then Inl DistValueError
      else Inr (map (\<lambda>index. (worker_name index, filter (\<lambda>c. c mod worker_count = int index) [0..chunk_count - 1]))
             [0..<nat worker_count]))"

definition build_assignment ::
  "(string \<Rightarrow> string) \<Rightarrow> string \<Rightarrow> string \<Rightarrow> string \<Rightarrow> string \<Rightarrow> int list \<Rightarrow> json dict \<Rightarrow> (dist_error, worker_assignment) result" where
  "build_assignment sha pipeline work_id work_digest worker_id chunk_ids metadata =
     (let ordered = sorted_ids chunk_ids in
      bind_res (derive_assignment_id sha pipeline work_id work_digest worker_id ordered) (\<lambda>assignment_id.
        Inr \<lparr>wa_pipeline = pipeline, wa_work_id = work_id, wa_work_digest = work_digest, wa_worker_id = worker_id,
             wa_chunk_ids = ordered, wa_assignment_id = assignment_id, wa_metadata = metadata\<rparr>))"

section \<open>Files\<close>

definition disk_of :: "file_tree \<Rightarrow> disk" where
  "disk_of t = \<lparr>dk_tree = t, dk_unsynced = [], dk_entries = []\<rparr>"

definition write_json_file :: "write_env \<Rightarrow> path \<Rightarrow> string \<Rightarrow> json \<Rightarrow> file_tree \<Rightarrow> file_tree \<times> (dist_error, unit) result" where
  "write_json_file env directory name obj t =
     (case atomic_write_json env directory name obj (disk_of t) of
        (dk, Inl e) \<Rightarrow> (dk_tree dk, Inl DistOSError) | (dk, Inr n) \<Rightarrow> (dk_tree dk, Inr ()))"

text \<open>\<^verbatim>\<open>json.loads(path.read_text())\<close> of a file that exists, with its errors as the callers turn them.\<close>

definition load_json_file :: "path \<Rightarrow> file_tree \<Rightarrow> (dist_error, json) result" where
  "load_json_file p t = (case file_bytes t p of
     None \<Rightarrow> Inl DistValueError
   | Some b \<Rightarrow> (case load_bytes b of Inl JSONDecodeError \<Rightarrow> Inl DistValueError | Inl _ \<Rightarrow> Inl DistOutside | Inr v \<Rightarrow> Inr v))"

section \<open>Bundle manifests\<close>

definition BUNDLE_MANIFEST_NAME :: string where "BUNDLE_MANIFEST_NAME = ''bundle.json''"
definition BUNDLE_SCHEMA_VERSION :: int where "BUNDLE_SCHEMA_VERSION = 2"

definition int_list :: "int list \<Rightarrow> json" where
  "int_list ids = JList (map JInt ids)"

definition manifest_payload :: "worker_assignment \<Rightarrow> json dict" where
  "manifest_payload a =
     [(''schema_version'', JInt BUNDLE_SCHEMA_VERSION), (''pipeline'', JStr (wa_pipeline a)), (''work_id'', JStr (wa_work_id a)),
      (''work_digest'', JStr (wa_work_digest a)), (''worker_id'', JStr (wa_worker_id a)),
      (''assignment_id'', JStr (wa_assignment_id a)), (''chunk_count'', JInt (int (length (wa_chunk_ids a)))),
      (''chunk_ids'', int_list (wa_chunk_ids a)), (''metadata'', JObj (wa_metadata a))]"

definition write_bundle_manifest :: "write_env \<Rightarrow> path \<Rightarrow> worker_assignment \<Rightarrow> file_tree \<Rightarrow> file_tree \<times> (dist_error, unit) result" where
  "write_bundle_manifest env bundle_dir a t =
     write_json_file env bundle_dir BUNDLE_MANIFEST_NAME (JObj (manifest_payload a)) t"

text \<open>\<^verbatim>\<open>isinstance(data.get(key), str) and data[key]\<close>, and the string there.\<close>

definition text_field :: "json dict \<Rightarrow> string \<Rightarrow> string option" where
  "text_field d key = (case map_of d key of Some (JStr s) \<Rightarrow> if s = [] then None else Some s | _ \<Rightarrow> None)"

text \<open>\<^verbatim>\<open>type(value) is int\<close> for all values of a list.\<close>

fun int_values :: "json list \<Rightarrow> int list option" where
  "int_values [] = Some []"
| "int_values (JInt i # vs) = map_option (Cons i) (int_values vs)"
| "int_values (v # vs) = None"

definition chunk_list :: "json option \<Rightarrow> int list option" where
  "chunk_list v = (case v of
     Some (JList vs) \<Rightarrow> (case int_values vs of
         Some ids \<Rightarrow> if list_ex (\<lambda>i. i < 0) ids \<or> \<not> distinct ids then None else Some ids
       | None \<Rightarrow> None)
   | _ \<Rightarrow> None)"

text \<open>\<^verbatim>\<open>v == n\<close> for an integer \<^verbatim>\<open>n\<close>: a truth value is 0 or 1.\<close>

definition py_eq_int :: "json option \<Rightarrow> int \<Rightarrow> bool" where
  "py_eq_int v n \<longleftrightarrow> (case v of Some (JInt i) \<Rightarrow> i = n | Some (JBool b) \<Rightarrow> (if b then 1 else 0) = n | _ \<Rightarrow> False)"

definition check_bundle_manifest :: "(string \<Rightarrow> string) \<Rightarrow> json dict \<Rightarrow> (dist_error, json dict) result" where
  "check_bundle_manifest sha d =
     (if \<not> py_eq_int (map_of d ''schema_version'') BUNDLE_SCHEMA_VERSION then Inl DistValueError
      else case (text_field d ''pipeline'', text_field d ''work_id'', text_field d ''work_digest'', text_field d ''worker_id'',
             text_field d ''assignment_id'', chunk_list (map_of d ''chunk_ids'')) of
          (Some pipeline, Some work_id, Some work_digest, Some worker_id, Some assignment_id, Some ids) \<Rightarrow>
            if \<not> is_sha256_hex_digest work_digest then Inl DistValueError
            else if \<not> sorted ids \<or> \<not> py_eq_int (map_of d ''chunk_count'') (int (length ids))
              \<or> \<not> (case map_of d ''metadata'' of None \<Rightarrow> True | Some (JObj _) \<Rightarrow> True | _ \<Rightarrow> False) then Inl DistValueError
            else bind_res (derive_assignment_id sha pipeline work_id work_digest worker_id ids) (\<lambda>expected_id.
              if assignment_id \<noteq> expected_id then Inl DistValueError else Inr d)
        | _ \<Rightarrow> Inl DistValueError)"

definition read_bundle_manifest :: "(string \<Rightarrow> string) \<Rightarrow> path \<Rightarrow> file_tree \<Rightarrow> (dist_error, json dict) result" where
  "read_bundle_manifest sha bundle_dir t =
     (if \<not> is_file t (bundle_dir @ [BUNDLE_MANIFEST_NAME]) then Inl DistValueError
      else bind_res (load_json_file (bundle_dir @ [BUNDLE_MANIFEST_NAME]) t) (\<lambda>v.
        case v of JObj d \<Rightarrow> check_bundle_manifest sha d | _ \<Rightarrow> Inl DistValueError))"

definition assert_pipeline_affinity :: "json dict \<Rightarrow> string \<Rightarrow> (dist_error, unit) result" where
  "assert_pipeline_affinity manifest expected =
     (if map_of manifest ''pipeline'' \<noteq> Some (JStr expected) then Inl DistValueError else Inr ())"

definition assert_work_digest :: "json option \<Rightarrow> string \<Rightarrow> (dist_error, unit) result" where
  "assert_work_digest expected actual = (if expected \<noteq> Some (JStr actual) then Inl DistValueError else Inr ())"

text \<open>The chunks a manifest assigns; \<^verbatim>\<open>read_bundle_manifest\<close> has checked that they are a list of integers.\<close>

definition assigned_chunks :: "json dict \<Rightarrow> int list" where
  "assigned_chunks manifest = (case chunk_list (map_of manifest ''chunk_ids'') of Some ids \<Rightarrow> ids | None \<Rightarrow> [])"

definition assert_receipt_affinity :: "worker_receipt \<Rightarrow> json dict \<Rightarrow> (dist_error, unit) result" where
  "assert_receipt_affinity receipt manifest =
     (if map_of manifest ''pipeline'' \<noteq> Some (JStr (wr_pipeline receipt))
         \<or> map_of manifest ''work_id'' \<noteq> Some (JStr (wr_work_id receipt))
         \<or> map_of manifest ''worker_id'' \<noteq> Some (JStr (wr_worker_id receipt)) then Inl DistValueError
      else bind_res (assert_work_digest (map_of manifest ''work_digest'') (wr_work_digest receipt)) (\<lambda>_.
        if map_of manifest ''assignment_id'' \<noteq> Some (JStr (wr_assignment_id receipt)) then Inl DistValueError
        else if \<not> distinct (wr_completed_chunks receipt)
          \<or> \<not> set (wr_completed_chunks receipt) \<subseteq> set (assigned_chunks manifest) then Inl DistValueError
        else Inr ()))"

section \<open>Receipts\<close>

definition RECEIPT_FILE :: string where "RECEIPT_FILE = ''receipt.json''"
definition RECEIPT_SCHEMA_VERSION :: int where "RECEIPT_SCHEMA_VERSION = 2"

text \<open>
  The records of the output files. A path that is not a file is skipped; \<^verbatim>\<open>resolve\<close> raises on a loop of links.
\<close>

fun record_outputs :: "(string \<Rightarrow> string) \<Rightarrow> path \<Rightarrow> path list \<Rightarrow> file_tree \<Rightarrow> worker_file dict \<Rightarrow> (dist_error, worker_file dict) result" where
  "record_outputs sha bundle [] t records = Inr records"
| "record_outputs sha bundle (p # ps) t records =
     (case file_bytes t p of
        None \<Rightarrow> record_outputs sha bundle ps t records
      | Some b \<Rightarrow>
          (case resolve t p of
             None \<Rightarrow> Inl DistOSError
           | Some q \<Rightarrow>
               if \<not> is_relative_to q bundle then Inl DistValueError
               else let relative = slash_join (drop (length bundle) q) in
                 if relative \<in> fst ` set records then Inl DistValueError
                 else record_outputs sha bundle ps t (records @ [(relative, \<lparr>wf_size_bytes = int (length b), wf_sha256 = sha b\<rparr>)])))"

definition build_worker_receipt ::
  "(string \<Rightarrow> string) \<Rightarrow> string \<Rightarrow> string \<Rightarrow> string \<Rightarrow> string \<Rightarrow> string \<Rightarrow> int list \<Rightarrow> path list \<Rightarrow> path \<Rightarrow> json dict \<Rightarrow> file_tree
   \<Rightarrow> (dist_error, worker_receipt) result" where
  "build_worker_receipt sha pipeline work_id work_digest assignment_id worker_id completed output_files bundle_root metadata t =
     (case resolve t bundle_root of
        None \<Rightarrow> Inl DistOSError
      | Some bundle \<Rightarrow> bind_res (record_outputs sha bundle output_files t []) (\<lambda>records.
          Inr \<lparr>wr_pipeline = pipeline, wr_work_id = work_id, wr_work_digest = work_digest, wr_assignment_id = assignment_id,
               wr_worker_id = worker_id, wr_completed_chunks = sorted_ids completed, wr_file_records = records,
               wr_result_metadata = metadata\<rparr>))"

definition file_payload :: "worker_file \<Rightarrow> json" where
  "file_payload f = JObj [(''size_bytes'', JInt (wf_size_bytes f)), (''sha256'', JStr (wf_sha256 f))]"

definition receipt_payload :: "worker_receipt \<Rightarrow> json dict" where
  "receipt_payload r =
     [(''schema_version'', JInt RECEIPT_SCHEMA_VERSION), (''pipeline'', JStr (wr_pipeline r)), (''work_id'', JStr (wr_work_id r)),
      (''work_digest'', JStr (wr_work_digest r)), (''assignment_id'', JStr (wr_assignment_id r)), (''worker_id'', JStr (wr_worker_id r)),
      (''completed_chunks'', int_list (wr_completed_chunks r)),
      (''file_records'', JObj (map (\<lambda>(p, f). (p, file_payload f)) (wr_file_records r))),
      (''result_metadata'', JObj (wr_result_metadata r))]"

definition write_receipt :: "write_env \<Rightarrow> worker_receipt \<Rightarrow> path \<Rightarrow> file_tree \<Rightarrow> file_tree \<times> (dist_error, unit) result" where
  "write_receipt env receipt destination t =
     write_json_file env (butlast destination) (last destination) (JObj (receipt_payload receipt)) t"

definition file_record :: "json \<Rightarrow> worker_file option" where
  "file_record v = (case v of
     JObj d \<Rightarrow> (case (map_of d ''size_bytes'', map_of d ''sha256'') of
         (Some (JInt bytes), Some (JStr digest)) \<Rightarrow>
           if 0 \<le> bytes \<and> is_sha256_hex_digest digest then Some \<lparr>wf_size_bytes = bytes, wf_sha256 = digest\<rparr> else None
       | _ \<Rightarrow> None)
   | _ \<Rightarrow> None)"

fun file_records :: "json dict \<Rightarrow> worker_file dict option" where
  "file_records [] = Some []"
| "file_records ((p, v) # d) = (case (file_record v, file_records d) of (Some f, Some fs) \<Rightarrow> Some ((p, f) # fs) | _ \<Rightarrow> None)"

definition receipt_of :: "json dict \<Rightarrow> worker_receipt option" where
  "receipt_of d =
     (if \<not> py_eq_int (map_of d ''schema_version'') RECEIPT_SCHEMA_VERSION then None
      else case (text_field d ''pipeline'', text_field d ''work_id'', text_field d ''work_digest'', text_field d ''assignment_id'',
             text_field d ''worker_id'', chunk_list (map_of d ''completed_chunks''), map_of d ''file_records'', map_of d ''result_metadata'') of
          (Some pipeline, Some work_id, Some work_digest, Some assignment_id, Some worker_id, Some chunks, Some (JObj files), Some (JObj metadata)) \<Rightarrow>
            if \<not> is_sha256_hex_digest work_digest then None
            else map_option (\<lambda>records. \<lparr>wr_pipeline = pipeline, wr_work_id = work_id, wr_work_digest = work_digest,
                wr_assignment_id = assignment_id, wr_worker_id = worker_id, wr_completed_chunks = chunks,
                wr_file_records = records, wr_result_metadata = metadata\<rparr>) (file_records files)
        | _ \<Rightarrow> None)"

definition read_receipt :: "path \<Rightarrow> file_tree \<Rightarrow> (dist_error, worker_receipt) result" where
  "read_receipt source t =
     (if \<not> is_file t source then Inl DistValueError
      else bind_res (load_json_file source t) (\<lambda>v.
        case v of
          JObj d \<Rightarrow> (case receipt_of d of Some r \<Rightarrow> Inr r | None \<Rightarrow> Inl DistValueError)
        | _ \<Rightarrow> Inl DistValueError))"

text \<open>
  \<^verbatim>\<open>Path.resolve(strict=True)\<close>: \<open>Some None\<close> is a component that does not exist, \<open>None\<close> a loop of links; the caller takes both
  for a missing file.
\<close>

partial_function (option) strict_walk :: "file_tree \<Rightarrow> path \<Rightarrow> path \<Rightarrow> path option option" where
  "strict_walk t seen todo =
     (case todo of
        [] \<Rightarrow> Some (Some seen)
      | c # cs \<Rightarrow>
          if c = ''..'' then strict_walk t (butlast seen) cs
          else (case map_of t (seen @ [c]) of
                  None \<Rightarrow> Some None
                | Some (Link target) \<Rightarrow> strict_walk t [] (target @ cs)
                | Some _ \<Rightarrow> strict_walk t (seen @ [c]) cs))"

definition verify_file :: "(string \<Rightarrow> string) \<Rightarrow> path \<Rightarrow> string \<Rightarrow> worker_file \<Rightarrow> file_tree \<Rightarrow> string option" where
  "verify_file sha bundle name f t =
     (case strict_walk t [] (join_path bundle name) of
        Some (Some p) \<Rightarrow>
          if \<not> is_relative_to p bundle then Some (''missing or unsafe output file: '' @ name)
          else (case map_of t p of
              Some (File b) \<Rightarrow>
                if int (length b) \<noteq> wf_size_bytes f then Some (''size mismatch for '' @ name)
                else if sha b \<noteq> wf_sha256 f then Some (''digest mismatch for '' @ name)
                else None
            | _ \<Rightarrow> Some (''missing output file: '' @ name))
      | _ \<Rightarrow> Some (''missing or unsafe output file: '' @ name))"

fun verify_files :: "(string \<Rightarrow> string) \<Rightarrow> path \<Rightarrow> worker_file dict \<Rightarrow> file_tree \<Rightarrow> bool \<times> string" where
  "verify_files sha bundle [] t = (True, [])"
| "verify_files sha bundle ((p, f) # fs) t =
     (case verify_file sha bundle p f t of Some err \<Rightarrow> (False, err) | None \<Rightarrow> verify_files sha bundle fs t)"

definition verify_receipt_digests :: "(string \<Rightarrow> string) \<Rightarrow> worker_receipt \<Rightarrow> path \<Rightarrow> file_tree \<Rightarrow> (dist_error, bool \<times> string) result" where
  "verify_receipt_digests sha receipt bundle_root t =
     (case resolve t bundle_root of None \<Rightarrow> Inl DistOSError
      | Some bundle \<Rightarrow> Inr (verify_files sha bundle (wr_file_records receipt) t))"

section \<open>Discovery\<close>

datatype bundle_state = Pending | Completed | Corrupt

record discovered_bundle =
  db_bundle_dir :: path
  db_pipeline :: string
  db_work_id :: string
  db_worker_id :: string
  db_chunk_ids :: "int list"
  db_state :: bundle_state
  db_receipt :: "worker_receipt option"

text \<open>\<^verbatim>\<open>str(manifest.get(key, default))\<close>; \<^verbatim>\<open>read_bundle_manifest\<close> has checked that it is a string.\<close>

definition manifest_text :: "json dict \<Rightarrow> string \<Rightarrow> string \<Rightarrow> string" where
  "manifest_text manifest key fallback = (case map_of manifest key of Some (JStr s) \<Rightarrow> s | _ \<Rightarrow> fallback)"

text \<open>The state of a bundle: a receipt that does not fit or does not verify is corrupt.\<close>

definition bundle_state_of :: "(string \<Rightarrow> string) \<Rightarrow> path \<Rightarrow> json dict \<Rightarrow> file_tree \<Rightarrow> bundle_state \<times> worker_receipt option" where
  "bundle_state_of sha bundle_dir manifest t =
     (if \<not> is_file t (bundle_dir @ [RECEIPT_FILE]) then (Pending, None)
      else (case read_receipt (bundle_dir @ [RECEIPT_FILE]) t of
          Inl _ \<Rightarrow> (Corrupt, None)
        | Inr receipt \<Rightarrow>
            (case assert_receipt_affinity receipt manifest of
               Inl _ \<Rightarrow> (Corrupt, Some receipt)
             | Inr _ \<Rightarrow> (case verify_receipt_digests sha receipt bundle_dir t of
                 Inr (True, _) \<Rightarrow> (Completed, Some receipt) | _ \<Rightarrow> (Corrupt, Some receipt)))))"

definition discovered :: "(string \<Rightarrow> string) \<Rightarrow> string \<Rightarrow> string \<Rightarrow> path \<Rightarrow> file_tree \<Rightarrow> discovered_bundle option" where
  "discovered sha pipeline work_id bundle_dir t =
     (case read_bundle_manifest sha bundle_dir t of
        Inl _ \<Rightarrow> None
      | Inr manifest \<Rightarrow>
          let pipe = manifest_text manifest ''pipeline'' []; item = manifest_text manifest ''work_id'' [] in
          if (pipeline \<noteq> [] \<and> pipe \<noteq> pipeline) \<or> (work_id \<noteq> [] \<and> item \<noteq> work_id) then None
          else case bundle_state_of sha bundle_dir manifest t of (st, receipt) \<Rightarrow>
            Some \<lparr>db_bundle_dir = bundle_dir, db_pipeline = pipe, db_work_id = item,
                  db_worker_id = manifest_text manifest ''worker_id'' (if bundle_dir = [] then [] else last bundle_dir),
                  db_chunk_ids = assigned_chunks manifest, db_state = st, db_receipt = receipt\<rparr>)"

text \<open>The directories that \<^verbatim>\<open>root.glob\<close> finds, and the bundles in the order of pipeline, work and worker.\<close>

definition bundle_dirs :: "path \<Rightarrow> file_tree \<Rightarrow> path list" where
  "bundle_dirs rdir t = map butlast (filter (\<lambda>p. in_parents rdir p \<and> last p = BUNDLE_MANIFEST_NAME) (map fst t))"

definition discover_bundles :: "(string \<Rightarrow> string) \<Rightarrow> path \<Rightarrow> string \<Rightarrow> string \<Rightarrow> file_tree \<Rightarrow> discovered_bundle list" where
  "discover_bundles sha rdir pipeline work_id t =
     (if \<not> is_dir t rdir then []
      else sort_key db_pipeline (sort_key db_work_id (sort_key db_worker_id
        (List.map_filter (\<lambda>d. discovered sha pipeline work_id d t) (bundle_dirs (real_dir t rdir) t)))))"

section \<open>The commands\<close>

record 'w adapter =
  ad_pipeline_name :: string
  ad_resolve_work :: "string \<Rightarrow> file_tree \<Rightarrow> (dist_error, 'w) result"
  ad_describe_work :: "string \<Rightarrow> 'w \<Rightarrow> (dist_error, distribution_work) result"
  ad_export :: "'w \<Rightarrow> worker_assignment \<Rightarrow> path \<Rightarrow> file_tree \<Rightarrow> file_tree \<times> (dist_error, unit) result"
  ad_execute :: "path \<Rightarrow> string \<Rightarrow> file_tree \<Rightarrow> file_tree \<times> (dist_error, worker_receipt) result"
  ad_adopt :: "'w \<Rightarrow> path \<Rightarrow> worker_receipt \<Rightarrow> file_tree \<Rightarrow> file_tree \<times> (dist_error, import_report) result"

definition describe_work :: "'w adapter \<Rightarrow> string \<Rightarrow> file_tree \<Rightarrow> (dist_error, 'w \<times> distribution_work) result" where
  "describe_work ad work_id t =
     bind_res (ad_resolve_work ad work_id t) (\<lambda>work. bind_res (ad_describe_work ad work_id work) (\<lambda>summary.
       if dw_work_id summary \<noteq> work_id then Inl DistValueError
       else if dw_chunk_count summary < 1 \<or> dw_work_digest summary = [] then Inl DistValueError
       else Inr (work, summary)))"

text \<open>A statement after another on the files: an error stops, and what was done before stays.\<close>

definition then_do :: "file_tree \<times> ('e, 'a) result \<Rightarrow> ('a \<Rightarrow> file_tree \<Rightarrow> file_tree \<times> ('e, 'b) result) \<Rightarrow> file_tree \<times> ('e, 'b) result" where
  "then_do r f = (case r of (t, Inl e) \<Rightarrow> (t, Inl e) | (t, Inr x) \<Rightarrow> f x t)"

definition make_dirs :: "path \<Rightarrow> file_tree \<Rightarrow> file_tree \<times> (dist_error, unit) result" where
  "make_dirs d t = (if call_fails (disk_of t) (MakeDirs d) then (t, Inl DistOSError) else (dk_tree (apply_call (disk_of t) (MakeDirs d)), Inr ()))"

text \<open>\<^verbatim>\<open>unlink(missing_ok=True)\<close>, which a directory of that name refuses.\<close>

definition drop_receipt :: "path \<Rightarrow> file_tree \<Rightarrow> file_tree \<times> (dist_error, unit) result" where
  "drop_receipt p t = (if map_of t p = Some Dir then (t, Inl DistOSError) else (unlink_file p t, Inr ()))"

definition export_one ::
  "(string \<Rightarrow> string) \<Rightarrow> write_env \<Rightarrow> 'w adapter \<Rightarrow> 'w \<Rightarrow> distribution_work \<Rightarrow> path \<Rightarrow> string \<times> int list \<Rightarrow> file_tree
   \<Rightarrow> file_tree \<times> (dist_error, unit) result" where
  "export_one sha env ad work summary dest division t =
     (case division of (worker_id, chunk_ids) \<Rightarrow>
        if chunk_ids = [] then (t, Inr ())
        else (case build_assignment sha (ad_pipeline_name ad) (dw_work_id summary) (dw_work_digest summary) worker_id chunk_ids [] of
            Inl e \<Rightarrow> (t, Inl e)
          | Inr assignment \<Rightarrow>
              let bundle_dir = dest @ [worker_id] in
              then_do (make_dirs bundle_dir t) (\<lambda>_ t1.
              then_do (drop_receipt (real_dir t1 bundle_dir @ [RECEIPT_FILE]) t1) (\<lambda>_ t2.
              then_do (write_bundle_manifest env bundle_dir assignment t2) (\<lambda>_ t3.
                ad_export ad work assignment bundle_dir t3)))))"

fun export_all ::
  "(string \<Rightarrow> string) \<Rightarrow> write_env \<Rightarrow> 'w adapter \<Rightarrow> 'w \<Rightarrow> distribution_work \<Rightarrow> path \<Rightarrow> int list dict \<Rightarrow> file_tree
   \<Rightarrow> file_tree \<times> (dist_error, unit) result" where
  "export_all sha env ad work summary dest [] t = (t, Inr ())"
| "export_all sha env ad work summary dest (d # ds) t =
     then_do (export_one sha env ad work summary dest d t) (\<lambda>_ t1. export_all sha env ad work summary dest ds t1)"

text \<open>\<open>dest\<close> is the resolved destination.\<close>

definition cmd_export ::
  "(string \<Rightarrow> string) \<Rightarrow> write_env \<Rightarrow> 'w adapter \<Rightarrow> string \<Rightarrow> int \<Rightarrow> path \<Rightarrow> file_tree \<Rightarrow> file_tree \<times> (dist_error, unit) result" where
  "cmd_export sha env ad work_id worker_count dest t =
     (case describe_work ad work_id t of
        Inl e \<Rightarrow> (t, Inl e)
      | Inr (work, summary) \<Rightarrow>
          then_do (make_dirs dest t) (\<lambda>_ t1.
            case divide_chunks (dw_chunk_count summary) worker_count of
              Inl e \<Rightarrow> (t1, Inl e)
            | Inr division \<Rightarrow> export_all sha env ad work summary dest division t1))"

definition bundle_path :: "path \<Rightarrow> file_tree \<Rightarrow> (dist_error, path) result" where
  "bundle_path d t = (case resolve t d of None \<Rightarrow> Inl DistOSError | Some p \<Rightarrow> Inr p)"

definition cmd_worker ::
  "(string \<Rightarrow> string) \<Rightarrow> write_env \<Rightarrow> 'w adapter \<Rightarrow> path \<Rightarrow> string option \<Rightarrow> file_tree \<Rightarrow> file_tree \<times> (dist_error, worker_receipt) result" where
  "cmd_worker sha env ad bundle_dir worker_id t =
     then_do (t, bundle_path bundle_dir t) (\<lambda>bundle t.
     then_do (t, read_bundle_manifest sha bundle t) (\<lambda>manifest t.
     then_do (t, assert_pipeline_affinity manifest (ad_pipeline_name ad)) (\<lambda>_ t.
       let effective = (case worker_id of Some w \<Rightarrow> if w = [] then manifest_text manifest ''worker_id'' ''worker'' else w
                        | None \<Rightarrow> manifest_text manifest ''worker_id'' ''worker'') in
       if map_of manifest ''worker_id'' \<noteq> Some (JStr effective) then (t, Inl DistValueError)
       else then_do (drop_receipt (bundle @ [RECEIPT_FILE]) t) (\<lambda>_ t.
         then_do (ad_execute ad bundle effective t) (\<lambda>receipt t.
         then_do (t, assert_receipt_affinity receipt manifest) (\<lambda>_ t.
         then_do (t, verify_receipt_digests sha receipt bundle t) (\<lambda>(valid, err) t.
           if \<not> valid then (t, Inl DistValueError)
           else then_do (write_receipt env receipt (bundle @ [RECEIPT_FILE]) t) (\<lambda>_ t. (t, Inr receipt)))))))))"

definition report_fits :: "'w adapter \<Rightarrow> string \<Rightarrow> import_report \<Rightarrow> bool" where
  "report_fits ad work_id report \<longleftrightarrow> ir_pipeline report = ad_pipeline_name ad \<and> ir_work_id report = work_id"

definition cmd_import ::
  "(string \<Rightarrow> string) \<Rightarrow> 'w adapter \<Rightarrow> string \<Rightarrow> path \<Rightarrow> file_tree \<Rightarrow> file_tree \<times> (dist_error, import_report) result" where
  "cmd_import sha ad work_id source_bundle t =
     then_do (t, bundle_path source_bundle t) (\<lambda>bundle t.
     then_do (t, read_bundle_manifest sha bundle t) (\<lambda>manifest t.
     then_do (t, assert_pipeline_affinity manifest (ad_pipeline_name ad)) (\<lambda>_ t.
       if map_of manifest ''work_id'' \<noteq> Some (JStr work_id) then (t, Inl DistValueError)
       else then_do (t, read_receipt (bundle @ [RECEIPT_FILE]) t) (\<lambda>receipt t.
         then_do (t, assert_receipt_affinity receipt manifest) (\<lambda>_ t.
         then_do (t, verify_receipt_digests sha receipt bundle t) (\<lambda>(valid, err) t.
           if \<not> valid then (t, Inl DistValueError)
           else then_do (t, describe_work ad work_id t) (\<lambda>(work, summary) t.
             then_do (t, assert_work_digest (map_of manifest ''work_digest'') (dw_work_digest summary)) (\<lambda>_ t.
             then_do (ad_adopt ad work bundle receipt t) (\<lambda>report t.
               if \<not> report_fits ad work_id report then (t, Inl DistValueError) else (t, Inr report))))))))))"

section \<open>Identifiers for workers\<close>

text \<open>\<^verbatim>\<open>int(s.strip())\<close> of one end of a range or of a single identifier; \<^verbatim>\<open>None\<close> is a \<^verbatim>\<open>ValueError\<close>.\<close>

definition parse_id :: "string \<Rightarrow> int option" where
  "parse_id s = (case int_of_string (strip s) of Inl _ \<Rightarrow> None | Inr i \<Rightarrow> Some i)"

definition before_hyphen :: "string \<Rightarrow> string" where
  "before_hyphen s = takeWhile (\<lambda>c. c \<noteq> CHR ''-'') s"

definition after_hyphen :: "string \<Rightarrow> string" where
  "after_hyphen s = tl (dropWhile (\<lambda>c. c \<noteq> CHR ''-'') s)"

fun selected_ids :: "string list \<Rightarrow> int list option" where
  "selected_ids [] = Some []"
| "selected_ids (token # tokens) =
     (let part = strip token in
      if part = [] then selected_ids tokens
      else (case (if CHR ''-'' \<in> set part
                  then (case (parse_id (before_hyphen part), parse_id (after_hyphen part)) of
                      (Some first, Some final) \<Rightarrow> if final < first then None else Some [first..final]
                    | _ \<Rightarrow> None)
                  else map_option (\<lambda>i. [i]) (parse_id part)) of
          None \<Rightarrow> None
        | Some ids \<Rightarrow> map_option ((@) ids) (selected_ids tokens)))"

definition parse_id_selection :: "string \<Rightarrow> (dist_error, int list) result" where
  "parse_id_selection spec =
     (if strip spec = [] then Inr []
      else case selected_ids (split_on CHR '','' (strip spec)) of None \<Rightarrow> Inl DistValueError | Some ids \<Rightarrow> Inr (sorted_ids ids))"

text \<open>\<^verbatim>\<open>buckets[idx % len(buckets)].append(item)\<close>\<close>

definition divide_ids_among_workers :: "'a list \<Rightarrow> int \<Rightarrow> (dist_error, 'a list list) result" where
  "divide_ids_among_workers ids worker_count =
     (if worker_count \<le> 0 then Inl DistValueError
      else if ids = [] then Inr []
      else let k = min (nat worker_count) (length ids) in
        Inr (filter (\<lambda>b. b \<noteq> []) (map (\<lambda>w. map snd (filter (\<lambda>(i, x). i mod k = w) (enumerate 0 ids))) [0..<k])))"

section \<open>The division is a partition\<close>

lemma zfill_nat: "zfill w (nat_dec n) = replicate (w - length (nat_dec n)) (CHR ''0'') @ nat_dec n"
proof -
  obtain c cs where "nat_dec n = c # cs" "is_digit c" using nat_dec_digit_head by blast
  then have "hd (nat_dec n) \<notin> {CHR ''+'', CHR ''-''}" by (auto simp: is_digit_def)
  then show ?thesis by (simp add: zfill_def)
qed

lemma worker_name_inj: "worker_name i = worker_name j \<Longrightarrow> i = j"
  using digits_val_zeros digits_val_nat_dec by (metis worker_name_def zfill_nat append_eq_append_conv same_append_eq)

lemma residue_step:
  assumes "i < (k::nat)"
  shows "(n + (k - i)) mod k = 0 \<longleftrightarrow> n mod k = i"
proof -
  have r: "n mod k < k" using assms by simp
  have "(n + (k - i)) mod k = (n mod k + (k - i)) mod k" by (simp add: mod_add_left_eq)
  also have "\<dots> = (if n mod k < i then n mod k + (k - i) else n mod k - i)"
  proof (cases "n mod k < i")
    case True
    then show ?thesis using assms by simp
  next
    case False
    then have "n mod k + (k - i) = (n mod k - i) + k" "n mod k - i < k" using assms r by simp_all
    then show ?thesis using False by (metis mod_add_self2 mod_less)
  qed
  finally show ?thesis using assms by auto
qed

lemma residue_count:
  assumes "i < (k::nat)"
  shows "length (filter (\<lambda>c. c mod k = i) [0..<n]) = (n + (k - 1 - i)) div k"
proof (induction n)
  case 0
  then show ?case using assms by simp
next
  case (Suc n)
  define m where "m = n + (k - 1 - i)"
  have m: "Suc m = n + (k - i)" using assms by (simp add: m_def)
  have "Suc m mod k = 0 \<longleftrightarrow> n mod k = i" unfolding m by (rule residue_step[OF assms])
  then have "Suc m div k = m div k + (if n mod k = i then 1 else 0)" by (simp add: div_Suc)
  moreover have "Suc n + (k - 1 - i) = Suc m" by (simp add: m_def)
  ultimately show ?case using Suc unfolding m_def[symmetric] by simp
qed

definition chunks_of_worker :: "int \<Rightarrow> int \<Rightarrow> nat \<Rightarrow> int list" where
  "chunks_of_worker n k i = filter (\<lambda>c. c mod k = int i) [0..n - 1]"

lemma chunks_of_worker_nat:
  assumes "0 \<le> n" "0 < k"
  shows "chunks_of_worker n k i = map int (filter (\<lambda>c. c mod nat k = i) [0..<nat n])"
proof -
  have "[0..n - 1] = map int [0..<nat n]"
  proof -
    have "[0..int m - 1] = map int [0..<m]" for m
      by (induction m) (simp_all add: upto_rec2)
    from this[of "nat n"] show ?thesis using assms(1) by simp
  qed
  moreover have "int c mod k = int i \<longleftrightarrow> c mod nat k = i" for c
    using assms(2) by (metis nat_0_le less_imp_le of_nat_eq_iff zmod_int)
  ultimately show ?thesis unfolding chunks_of_worker_def by (simp add: filter_map comp_def)
qed

lemma divide_chunks_eq:
  assumes "divide_chunks n k = Inr division"
  shows "1 \<le> n" "1 \<le> k" "division = map (\<lambda>i. (worker_name i, chunks_of_worker n k i)) [0..<nat k]"
  using assms by (auto simp: divide_chunks_def chunks_of_worker_def split: if_splits)

text \<open>
  C37. The division of work among workers is a balanced partition: the workers have different names, every chunk from 0 to the last goes to
  exactly one of them and nothing else does, each gets its chunks in order without repetition, and two workers differ by at most one chunk.
\<close>

theorem divide_chunks_partition:
  assumes "divide_chunks chunk_count worker_count = Inr division"
  shows "distinct (map fst division) \<and> length division = nat worker_count
    \<and> (\<forall>c. (0 \<le> c \<and> c < chunk_count \<longrightarrow> (\<exists>!d. d \<in> set division \<and> c \<in> set (snd d)))
          \<and> (\<forall>d \<in> set division. c \<in> set (snd d) \<longrightarrow> 0 \<le> c \<and> c < chunk_count))
    \<and> (\<forall>d \<in> set division. sorted (snd d) \<and> distinct (snd d))
    \<and> (\<forall>d \<in> set division. \<forall>d' \<in> set division. length (snd d) \<le> length (snd d') + 1)"
proof -
  let ?n = "chunk_count" and ?k = "worker_count"
  note div = divide_chunks_eq[OF assms]
  have names: "distinct (map fst division)"
    unfolding div(3) by (auto simp: distinct_map inj_on_def comp_def dest: worker_name_inj)
  have chunks: "sorted (chunks_of_worker ?n ?k i) \<and> distinct (chunks_of_worker ?n ?k i)" for i
    unfolding chunks_of_worker_def by (simp add: sorted_wrt_filter)
  have count: "length (chunks_of_worker ?n ?k i) = (nat ?n + (nat ?k - 1 - i)) div nat ?k" if "i < nat ?k" for i
    using chunks_of_worker_nat[of ?n ?k i] residue_count[OF that, of "nat ?n"] div(1,2) by simp
  have balance: "length (chunks_of_worker ?n ?k i) \<le> length (chunks_of_worker ?n ?k j) + 1" if "i < nat ?k" "j < nat ?k" for i j
  proof -
    have "nat ?n + (nat ?k - 1 - i) \<le> (nat ?n + (nat ?k - 1 - j)) + nat ?k" using that by simp
    then have "(nat ?n + (nat ?k - 1 - i)) div nat ?k \<le> ((nat ?n + (nat ?k - 1 - j)) + nat ?k) div nat ?k" by (rule div_le_mono)
    also have "\<dots> = (nat ?n + (nat ?k - 1 - j)) div nat ?k + 1"
      by (rule div_add_self2) (use div(2) in simp)
    finally show ?thesis unfolding count[OF that(1)] count[OF that(2)] .
  qed
  have one: "\<exists>!d. d \<in> set division \<and> c \<in> set (snd d)" if "0 \<le> c" "c < ?n" for c
  proof (rule ex1I)
    let ?i = "nat (c mod ?k)"
    have "?i < nat ?k" "int ?i = c mod ?k" using div(2) by (simp_all add: nat_less_eq_zless)
    then have "?i \<in> set [0..<nat ?k]" "c \<in> set (chunks_of_worker ?n ?k ?i)"
      using that by (simp_all add: chunks_of_worker_def)
    then show "(worker_name ?i, chunks_of_worker ?n ?k ?i) \<in> set division
        \<and> c \<in> set (snd (worker_name ?i, chunks_of_worker ?n ?k ?i))"
      unfolding div(3) set_map snd_conv by (intro conjI image_eqI[where x = ?i] refl)
  next
    fix d assume "d \<in> set division \<and> c \<in> set (snd d)"
    then obtain i where "d = (worker_name i, chunks_of_worker ?n ?k i)" "c mod ?k = int i"
      unfolding div(3) by (auto simp: chunks_of_worker_def)
    then show "d = (worker_name (nat (c mod ?k)), chunks_of_worker ?n ?k (nat (c mod ?k)))" by simp
  qed
  show ?thesis
    using names chunks balance one unfolding div(3) by (auto simp: chunks_of_worker_def)
qed

theorem divide_chunks_partition_witness:
  "\<exists>division. divide_chunks 5 2 = Inr division \<and> length division = nat 2 \<and> (\<exists>!d. d \<in> set division \<and> 4 \<in> set (snd d))"
proof -
  obtain division where d: "divide_chunks 5 2 = Inr division" by (simp add: divide_chunks_def)
  then show ?thesis using divide_chunks_partition[OF d] by auto
qed

text \<open>Every identifier is in exactly one bucket, as often as it was given.\<close>

lemma residue_buckets:
  assumes "0 < (k::nat)"
  shows "mset (concat (map (\<lambda>w. map snd (filter (\<lambda>(i, x). i mod k = w) es)) [0..<k])) = mset (map snd es)"
proof (induction es)
  case (Cons e es)
  obtain i x where e: "e = (i, x)" by (cases e)
  have "mset (concat (map (\<lambda>w. (if i mod k = w then [x] else []) @ f w) [0..<n]))
      = (if i mod k < n then {#x#} else {#}) + mset (concat (map f [0..<n]))" for f :: "nat \<Rightarrow> 'a list" and n
    by (induction n) (auto simp: less_Suc_eq)
  from this[of "\<lambda>w. map snd (filter (\<lambda>(i, x). i mod k = w) es)" k]
  have "mset (concat (map (\<lambda>w. (if i mod k = w then [x] else []) @ map snd (filter (\<lambda>(i, x). i mod k = w) es)) [0..<k]))
      = {#x#} + mset (map snd es)"
    using Cons assms by simp
  moreover have "map snd (filter (\<lambda>(i, x). i mod k = w) (e # es))
      = (if i mod k = w then [x] else []) @ map snd (filter (\<lambda>(i, x). i mod k = w) es)" for w
    by (simp add: e)
  ultimately show ?case by (simp only:) (simp add: e)
qed simp

lemma concat_nonempty: "concat (filter (\<lambda>b. b \<noteq> []) bs) = concat bs"
  by (induction bs) auto

lemma divide_ids_same:
  assumes "divide_ids_among_workers ids n = Inr buckets"
  shows "mset (concat buckets) = mset ids"
proof (cases "ids = []")
  case False
  then have "0 < min (nat n) (length ids)" using assms by (auto simp: divide_ids_among_workers_def split: if_splits)
  from residue_buckets[OF this, of "enumerate 0 ids"] show ?thesis
    using assms False by (auto simp: divide_ids_among_workers_def Let_def concat_nonempty split: if_splits)
qed (use assms in \<open>auto simp: divide_ids_among_workers_def split: if_splits\<close>)

lemma parse_id_selection_sorted: "parse_id_selection spec = Inr ids \<Longrightarrow> sorted ids \<and> distinct ids"
  by (auto simp: parse_id_selection_def sorted_ids_def split: if_splits option.splits)

end
