(* ===== verification/DistributionLife.thy ===== *)
theory DistributionLife
  imports Distribution
begin

text \<open>
  The life of a worker bundle, on the model of \<open>Distribution\<close>: manifests and receipts read back as they were written, an import hands on
  only what was verified, and what a worker finishes can be imported.
\<close>

section \<open>What is written is read back\<close>

lemma utf8_ascii: "ascii s \<Longrightarrow> utf8 s = s"
  by (induction s) (auto simp: utf8_def utf8_char_def)

lemma old_or_new_link_free:
  assumes "link_free t d" "old_or_new t d (d @ [x]) (d @ [y]) data t'"
  shows "link_free t' d"
proof -
  have "take k d \<notin> {d @ [x], d @ [y]}" for k by (auto dest: arg_cong[of _ _ length])
  then have "map_of t' (take k d) = map_of t (take k d) \<or> map_of t' (take k d) = Some Dir" for k
    using assms(2) unfolding old_or_new_def by blast
  then show ?thesis using assms(1) unfolding link_free_iff by (metis node.distinct(5) option.inject)
qed

lemma write_json_file_reads:
  assumes ready: "write_ready (disk_of t) d (d @ [tmp_name env name])" and split: "\<forall>c. concat (we_split env c) = c"
    and v: "json_ok v" and name: "name \<noteq> ''..''"
    and run: "write_json_file env d name v t = (t', Inr ())"
  shows "is_file t' (d @ [name])" "load_json_file (d @ [name]) t' = Inr (key_ordered v)"
    "old_or_new t d (d @ [tmp_name env name]) (d @ [name]) (canonical_json v) t'"
    "map_of t' (d @ [tmp_name env name]) = None" "link_free t' d"
proof -
  have data: "concat [utf8 (canonical_json v)] = canonical_json v" by (simp add: utf8_ascii ascii_canonical)
  obtain dk n where dk: "atomic_write_text_stream env d name [utf8 (canonical_json v)] (disk_of t) = (dk, Inr n)" "t' = dk_tree dk"
    using run by (auto simp: write_json_file_def atomic_write_json_def atomic_write_text_def atomic_write_bytes_def split: prod.splits sum.splits)
  note out = atomic_write_outcome[OF ready split, of 0 "[utf8 (canonical_json v)]", unfolded data dk(1) prod.case sum.case]
  have stored: "map_of t' (d @ [name]) = Some (File (canonical_json v))"
    and "map_of t' (d @ [tmp_name env name]) = None"
    and same: "old_or_new t d (d @ [tmp_name env name]) (d @ [name]) (canonical_json v) t'"
    using out by (simp_all add: dk(2) disk_of_def)
  show "map_of t' (d @ [tmp_name env name]) = None" by fact
  show "old_or_new t d (d @ [tmp_name env name]) (d @ [name]) (canonical_json v) t'" by fact
  show free: "link_free t' d"
    using ready old_or_new_link_free[OF _ same] by (simp add: write_ready_def disk_of_def)
  have "stat t' (d @ [name]) = Some (File (canonical_json v))"
    using stat_link_free[OF link_free_child[OF free name]] stored by simp
  then show "is_file t' (d @ [name])" "load_json_file (d @ [name]) t' = Inr (key_ordered v)"
    by (simp_all add: is_file_def load_json_file_def file_bytes_def load_canonical[OF v])
qed

lemma map_of_key_ordered:
  assumes "distinct (map fst d)"
  shows "map_of (sorted_dict (map (map_prod id key_ordered) d)) k = map_option key_ordered (map_of d k)"
proof -
  have "map_of (map (map_prod id key_ordered) d) k = map_option key_ordered (map_of d k)"
    by (induction d) auto
  then show ?thesis using assms by (simp add: map_of_sorted_dict comp_def)
qed

lemma int_values_ints: "int_values (map (\<lambda>i. JInt i) ids) = Some ids"
  by (induction ids) auto

lemma key_ordered_int_list: "key_ordered (int_list ids) = int_list ids"
  by (simp add: int_list_def)

lemma chunk_list_ints: "(\<forall>i \<in> set ids. 0 \<le> i) \<Longrightarrow> distinct ids \<Longrightarrow> chunk_list (Some (int_list ids)) = Some ids"
  by (auto simp: chunk_list_def int_list_def int_values_ints list_ex_iff)

definition receipt_ok :: "worker_receipt \<Rightarrow> bool" where
  "receipt_ok r \<longleftrightarrow> list_all (\<lambda>s. s \<noteq> []) [wr_pipeline r, wr_work_id r, wr_assignment_id r, wr_worker_id r]
     \<and> is_sha256_hex_digest (wr_work_digest r) \<and> list_all (\<lambda>i. 0 \<le> i) (wr_completed_chunks r) \<and> distinct (wr_completed_chunks r)
     \<and> list_all (\<lambda>(p, f). 0 \<le> wf_size_bytes f \<and> is_sha256_hex_digest (wf_sha256 f)) (wr_file_records r)
     \<and> distinct (map fst (wr_file_records r)) \<and> json_ok (JObj (wr_result_metadata r))"

text \<open>What a receipt file gives back: the objects have their keys in order.\<close>

definition stored_receipt :: "worker_receipt \<Rightarrow> worker_receipt" where
  "stored_receipt r = r\<lparr>wr_file_records := sorted_dict (wr_file_records r),
     wr_result_metadata := sorted_dict (map (map_prod id key_ordered) (wr_result_metadata r))\<rparr>"

lemma file_records_payload:
  assumes "\<forall>(p, f) \<in> set fs. 0 \<le> wf_size_bytes f \<and> is_sha256_hex_digest (wf_sha256 f)"
  shows "file_records (map (\<lambda>(p, f). (p, key_ordered (file_payload f))) fs) = Some fs"
proof -
  have "file_record (key_ordered (file_payload f)) = Some f" if "0 \<le> wf_size_bytes f" "is_sha256_hex_digest (wf_sha256 f)" for f
    using that by (simp add: file_record_def file_payload_def sorted_dict_def)
  then show ?thesis using assms by (induction fs) auto
qed

lemma receipt_of_stored:
  assumes "receipt_ok r"
  shows "key_ordered (JObj (receipt_payload r)) = JObj (sorted_dict (map (map_prod id key_ordered) (receipt_payload r)))"
    and "receipt_of (sorted_dict (map (map_prod id key_ordered) (receipt_payload r))) = Some (stored_receipt r)"
proof -
  let ?d = "sorted_dict (map (map_prod id key_ordered) (receipt_payload r))"
  have "distinct (map fst (receipt_payload r))" by (simp add: receipt_payload_def)
  note at = map_of_key_ordered[OF this]
  have files: "file_records (sorted_dict (map (map_prod id key_ordered) (map (\<lambda>(p, f). (p, file_payload f)) (wr_file_records r))))
      = Some (sorted_dict (wr_file_records r))"
  proof -
    have "map (map_prod id key_ordered) (map (\<lambda>(p, f). (p, file_payload f)) (wr_file_records r))
        = map (map_prod id (\<lambda>f. key_ordered (file_payload f))) (wr_file_records r)" by (simp add: map_prod_def case_prod_beta)
    then have "sorted_dict (map (map_prod id key_ordered) (map (\<lambda>(p, f). (p, file_payload f)) (wr_file_records r)))
        = map (\<lambda>(p, f). (p, key_ordered (file_payload f))) (sorted_dict (wr_file_records r))"
      by (simp only: sorted_dict_map) (simp add: map_prod_def)
    then show ?thesis using assms by (simp only:) (rule file_records_payload, simp add: receipt_ok_def list_all_iff)
  qed
  have digest: "is_sha256_hex_digest (wr_work_digest r)" using assms by (simp add: receipt_ok_def)
  then have "wr_work_digest r \<noteq> []" by (auto simp: is_sha256_hex_digest_def)
  then have nonempty: "wr_pipeline r \<noteq> []" "wr_work_id r \<noteq> []" "wr_work_digest r \<noteq> []" "wr_assignment_id r \<noteq> []" "wr_worker_id r \<noteq> []"
    using assms by (simp_all add: receipt_ok_def)
  have textf: "text_field ?d k = Some s" if "map_of (receipt_payload r) k = Some (JStr s)" "s \<noteq> []" for k s
    unfolding text_field_def at that(1) using that(2) by simp
  have fields: "text_field ?d ''pipeline'' = Some (wr_pipeline r)" "text_field ?d ''work_id'' = Some (wr_work_id r)"
    "text_field ?d ''work_digest'' = Some (wr_work_digest r)" "text_field ?d ''assignment_id'' = Some (wr_assignment_id r)"
    "text_field ?d ''worker_id'' = Some (wr_worker_id r)"
    by (rule textf; simp add: receipt_payload_def nonempty)+
  have chunks: "chunk_list (map_of ?d ''completed_chunks'') = Some (wr_completed_chunks r)"
    unfolding at using assms chunk_list_ints[of "wr_completed_chunks r"]
    by (simp add: receipt_payload_def key_ordered_int_list receipt_ok_def list_all_iff)
  have objects: "map_of ?d ''file_records'' = Some (JObj (sorted_dict (map (map_prod id key_ordered) (map (\<lambda>(p, f). (p, file_payload f)) (wr_file_records r)))))"
    "map_of ?d ''result_metadata'' = Some (JObj (sorted_dict (map (map_prod id key_ordered) (wr_result_metadata r))))"
    "py_eq_int (map_of ?d ''schema_version'') RECEIPT_SCHEMA_VERSION"
    unfolding at by (simp_all add: receipt_payload_def py_eq_int_def)
  show "receipt_of ?d = Some (stored_receipt r)"
    unfolding receipt_of_def fields chunks objects(1,2) prod.case option.case json.case files option.map
    using objects(3) digest by (cases r) (simp add: stored_receipt_def)
  show "key_ordered (JObj (receipt_payload r)) = JObj ?d" by simp
qed

lemma receipt_payload_ok: "receipt_ok r \<Longrightarrow> json_ok (JObj (receipt_payload r))"
  by (auto simp: receipt_payload_def receipt_ok_def int_list_def file_payload_def list_all_iff comp_def case_prod_beta)

lemma receipt_written:
  assumes "write_ready (disk_of t) d (d @ [tmp_name env name])" "\<forall>c. concat (we_split env c) = c"
    and "receipt_ok r" "name \<noteq> ''..''" "write_receipt env r (d @ [name]) t = (t', Inr ())"
  shows "read_receipt (d @ [name]) t' = Inr (stored_receipt r)"
proof -
  have run: "write_json_file env d name (JObj (receipt_payload r)) t = (t', Inr ())"
    using assms(5) by (simp add: write_receipt_def)
  note reads = write_json_file_reads[OF assms(1,2) receipt_payload_ok[OF assms(3)] assms(4) run]
  show ?thesis using reads(1,2) unfolding read_receipt_def receipt_of_stored(1)[OF assms(3)]
    by (simp add: receipt_of_stored(2)[OF assms(3)])
qed


text \<open>The same for a bundle manifest.\<close>

definition assignment_ok :: "(string \<Rightarrow> string) \<Rightarrow> worker_assignment \<Rightarrow> bool" where
  "assignment_ok sha a \<longleftrightarrow> list_all (\<lambda>s. s \<noteq> []) [wa_pipeline a, wa_work_id a, wa_worker_id a, wa_assignment_id a]
     \<and> is_sha256_hex_digest (wa_work_digest a) \<and> list_all (\<lambda>i. 0 \<le> i) (wa_chunk_ids a) \<and> distinct (wa_chunk_ids a) \<and> sorted (wa_chunk_ids a)
     \<and> derive_assignment_id sha (wa_pipeline a) (wa_work_id a) (wa_work_digest a) (wa_worker_id a) (wa_chunk_ids a) = Inr (wa_assignment_id a)
     \<and> json_ok (JObj (wa_metadata a))"

definition stored_manifest :: "worker_assignment \<Rightarrow> json dict" where
  "stored_manifest a = sorted_dict (map (map_prod id key_ordered) (manifest_payload a))"

lemma manifest_of_stored:
  assumes "assignment_ok sha a"
  shows "check_bundle_manifest sha (stored_manifest a) = Inr (stored_manifest a)"
    and "assigned_chunks (stored_manifest a) = wa_chunk_ids a"
    and "map_of (stored_manifest a) ''pipeline'' = Some (JStr (wa_pipeline a))"
    and "map_of (stored_manifest a) ''work_id'' = Some (JStr (wa_work_id a))"
    and "map_of (stored_manifest a) ''work_digest'' = Some (JStr (wa_work_digest a))"
    and "map_of (stored_manifest a) ''worker_id'' = Some (JStr (wa_worker_id a))"
    and "map_of (stored_manifest a) ''assignment_id'' = Some (JStr (wa_assignment_id a))"
proof -
  let ?d = "stored_manifest a"
  have "distinct (map fst (manifest_payload a))" by (simp add: manifest_payload_def)
  note at = map_of_key_ordered[OF this, folded stored_manifest_def]
  show strings: "map_of ?d ''pipeline'' = Some (JStr (wa_pipeline a))" "map_of ?d ''work_id'' = Some (JStr (wa_work_id a))"
    "map_of ?d ''work_digest'' = Some (JStr (wa_work_digest a))" "map_of ?d ''worker_id'' = Some (JStr (wa_worker_id a))"
    "map_of ?d ''assignment_id'' = Some (JStr (wa_assignment_id a))"
    unfolding at by (simp_all add: manifest_payload_def)
  have numbers: "py_eq_int (map_of ?d ''schema_version'') BUNDLE_SCHEMA_VERSION"
    "py_eq_int (map_of ?d ''chunk_count'') (int (length (wa_chunk_ids a)))"
    "\<exists>m. map_of ?d ''metadata'' = Some (JObj m)"
    unfolding at by (simp_all add: manifest_payload_def py_eq_int_def)
  have chunks: "chunk_list (map_of ?d ''chunk_ids'') = Some (wa_chunk_ids a)"
    unfolding at using assms chunk_list_ints[of "wa_chunk_ids a"]
    by (simp add: manifest_payload_def key_ordered_int_list assignment_ok_def list_all_iff)
  then show "assigned_chunks ?d = wa_chunk_ids a" by (simp add: assigned_chunks_def)
  have digest: "is_sha256_hex_digest (wa_work_digest a)" using assms by (simp add: assignment_ok_def)
  then have "wa_work_digest a \<noteq> []" by (auto simp: is_sha256_hex_digest_def)
  then have fields: "text_field ?d ''pipeline'' = Some (wa_pipeline a)" "text_field ?d ''work_id'' = Some (wa_work_id a)"
    "text_field ?d ''work_digest'' = Some (wa_work_digest a)" "text_field ?d ''worker_id'' = Some (wa_worker_id a)"
    "text_field ?d ''assignment_id'' = Some (wa_assignment_id a)"
    using assms by (simp_all add: text_field_def strings assignment_ok_def)
  show "check_bundle_manifest sha ?d = Inr ?d"
    using numbers digest assms unfolding check_bundle_manifest_def fields chunks prod.case option.case
    by (auto simp: assignment_ok_def)
qed

lemma manifest_payload_ok: "assignment_ok sha a \<Longrightarrow> json_ok (JObj (manifest_payload a))"
  by (auto simp: manifest_payload_def assignment_ok_def int_list_def list_all_iff comp_def)

lemma build_assignment_ok:
  assumes "build_assignment sha pipeline work_id work_digest worker_id ids [] = Inr a"
    and "pipeline \<noteq> []" "work_id \<noteq> []" "worker_id \<noteq> []" "\<forall>i \<in> set ids. 0 \<le> i" "\<forall>b. sha b \<noteq> []"
  shows "assignment_ok sha a"
  using assms
  by (auto simp: build_assignment_def assignment_ok_def bind_res_Inr_iff derive_assignment_id_def Let_def sorted_ids_def
      list_all_iff distinct_remdups_id split: if_splits)

lemma manifest_file_reads:
  assumes "assignment_ok sha a" "is_file t (b @ [BUNDLE_MANIFEST_NAME])"
    "load_json_file (b @ [BUNDLE_MANIFEST_NAME]) t = Inr (key_ordered (JObj (manifest_payload a)))"
  shows "read_bundle_manifest sha b t = Inr (stored_manifest a)"
  using assms(2,3) manifest_of_stored(1)[OF assms(1)] by (simp add: read_bundle_manifest_def stored_manifest_def)

section \<open>Results are adopted only when verified\<close>

lemma then_do_stepE:
  assumes "then_do (t, r) f = (t', x)"
  obtains e where "r = Inl e" "t' = t" "x = Inl e" | v where "r = Inr v" "f v t = (t', x)"
  using assms by (auto simp: then_do_def split: sum.splits)

lemma then_do_last:
  assumes "then_do p (\<lambda>y t. if \<not> P y then (t, Inl e0) else (t, Inr y)) = (t', x)"
  shows "t' = fst p \<and> x = (case snd p of Inl e \<Rightarrow> Inl e | Inr y \<Rightarrow> if P y then Inr y else Inl e0)"
  using assms by (auto simp: then_do_def split: sum.splits prod.splits if_splits)

lemma check_bundle_manifest_Inr:
  assumes "check_bundle_manifest sha d = Inr d'"
  shows "d' = d \<and> (\<exists>pipeline work_id work_digest worker_id assignment_id ids.
      text_field d ''pipeline'' = Some pipeline \<and> text_field d ''work_id'' = Some work_id
    \<and> text_field d ''work_digest'' = Some work_digest \<and> text_field d ''worker_id'' = Some worker_id
    \<and> text_field d ''assignment_id'' = Some assignment_id \<and> is_sha256_hex_digest work_digest
    \<and> chunk_list (map_of d ''chunk_ids'') = Some ids
    \<and> derive_assignment_id sha pipeline work_id work_digest worker_id ids = Inr assignment_id)"
proof -
  obtain pipeline where p: "text_field d ''pipeline'' = Some pipeline" using assms
    by (cases "text_field d ''pipeline''") (simp_all add: check_bundle_manifest_def split: if_splits)
  obtain work_id where i: "text_field d ''work_id'' = Some work_id" using assms
    by (cases "text_field d ''work_id''") (simp_all add: check_bundle_manifest_def p split: if_splits)
  obtain work_digest where g: "text_field d ''work_digest'' = Some work_digest" using assms
    by (cases "text_field d ''work_digest''") (simp_all add: check_bundle_manifest_def p i split: if_splits)
  obtain worker_id where w: "text_field d ''worker_id'' = Some worker_id" using assms
    by (cases "text_field d ''worker_id''") (simp_all add: check_bundle_manifest_def p i g split: if_splits)
  obtain assignment_id where a: "text_field d ''assignment_id'' = Some assignment_id" using assms
    by (cases "text_field d ''assignment_id''") (simp_all add: check_bundle_manifest_def p i g w split: if_splits)
  obtain ids where c: "chunk_list (map_of d ''chunk_ids'') = Some ids" using assms
    by (cases "chunk_list (map_of d ''chunk_ids'')") (simp_all add: check_bundle_manifest_def p i g w a split: if_splits)
  have "d' = d" "is_sha256_hex_digest work_digest" "derive_assignment_id sha pipeline work_id work_digest worker_id ids = Inr assignment_id"
    using assms by (simp_all add: check_bundle_manifest_def p i g w a c bind_res_Inr_iff split: if_splits)
  then show ?thesis using p i g w a c by blast
qed

lemma read_bundle_manifest_Inr:
  assumes "read_bundle_manifest sha b t = Inr d"
  shows "\<exists>pipeline work_id work_digest worker_id assignment_id.
      text_field d ''pipeline'' = Some pipeline \<and> text_field d ''work_id'' = Some work_id
    \<and> text_field d ''work_digest'' = Some work_digest \<and> text_field d ''worker_id'' = Some worker_id
    \<and> text_field d ''assignment_id'' = Some assignment_id \<and> is_sha256_hex_digest work_digest
    \<and> chunk_list (map_of d ''chunk_ids'') = Some (assigned_chunks d)
    \<and> derive_assignment_id sha pipeline work_id work_digest worker_id (assigned_chunks d) = Inr assignment_id"
proof -
  obtain v where v: "load_json_file (b @ [BUNDLE_MANIFEST_NAME]) t = Inr v"
    "(case v of JObj d \<Rightarrow> check_bundle_manifest sha d | _ \<Rightarrow> Inl DistValueError) = Inr d"
    using assms by (auto simp: read_bundle_manifest_def bind_res_Inr_iff split: if_splits)
  then obtain d' where d: "check_bundle_manifest sha d' = Inr d" by (cases v) simp_all
  then have "check_bundle_manifest sha d = Inr d" using check_bundle_manifest_Inr[OF d] by simp
  from check_bundle_manifest_Inr[OF this] show ?thesis by (auto simp: assigned_chunks_def)
qed

lemma text_field_Some: "text_field d k = Some s \<longleftrightarrow> map_of d k = Some (JStr s) \<and> s \<noteq> []"
  by (auto simp: text_field_def split: option.splits json.splits)

lemma chunk_list_Some: "chunk_list v = Some ids \<Longrightarrow> distinct ids \<and> (\<forall>i \<in> set ids. 0 \<le> i)"
  by (auto simp: chunk_list_def list_ex_iff split: option.splits json.splits if_splits)

lemma assert_receipt_affinity_Inr:
  "assert_receipt_affinity r d = Inr () \<longleftrightarrow>
     map_of d ''pipeline'' = Some (JStr (wr_pipeline r)) \<and> map_of d ''work_id'' = Some (JStr (wr_work_id r))
   \<and> map_of d ''worker_id'' = Some (JStr (wr_worker_id r)) \<and> map_of d ''work_digest'' = Some (JStr (wr_work_digest r))
   \<and> map_of d ''assignment_id'' = Some (JStr (wr_assignment_id r))
   \<and> distinct (wr_completed_chunks r) \<and> set (wr_completed_chunks r) \<subseteq> set (assigned_chunks d)"
  by (auto simp: assert_receipt_affinity_def assert_work_digest_def bind_res_Inr_iff)

lemma verify_file_None:
  assumes "verify_file sha b name f t = None"
  shows "\<exists>p c. strict_walk t [] (join_path b name) = Some (Some p) \<and> is_relative_to p b \<and> map_of t p = Some (File c)
     \<and> int (length c) = wf_size_bytes f \<and> sha c = wf_sha256 f"
  using assms by (auto simp: verify_file_def split: option.splits if_splits node.splits)

lemma verify_files_True: "fst (verify_files sha b fs t) \<longleftrightarrow> (\<forall>(p, f) \<in> set fs. verify_file sha b p f t = None)"
  by (induction fs) (auto split: option.splits)

text \<open>What \<open>cmd_import\<close> has checked when it calls the adapter.\<close>

definition import_checked :: "(string \<Rightarrow> string) \<Rightarrow> 'w adapter \<Rightarrow> string \<Rightarrow> path \<Rightarrow> file_tree \<Rightarrow> path \<Rightarrow> json dict \<Rightarrow> worker_receipt \<Rightarrow> 'w \<Rightarrow> distribution_work \<Rightarrow> bool" where
  "import_checked sha ad work_id source t bundle manifest receipt work summary \<longleftrightarrow>
     bundle_path source t = Inr bundle \<and> read_bundle_manifest sha bundle t = Inr manifest
   \<and> map_of manifest ''pipeline'' = Some (JStr (ad_pipeline_name ad)) \<and> map_of manifest ''work_id'' = Some (JStr work_id)
   \<and> read_receipt (bundle @ [RECEIPT_FILE]) t = Inr receipt \<and> assert_receipt_affinity receipt manifest = Inr ()
   \<and> (\<exists>err. verify_receipt_digests sha receipt bundle t = Inr (True, err))
   \<and> describe_work ad work_id t = Inr (work, summary) \<and> map_of manifest ''work_digest'' = Some (JStr (dw_work_digest summary))"

lemma cmd_import_cases:
  assumes "cmd_import sha ad work_id source t = (t', r)"
  obtains e where "t' = t" "r = Inl e"
  | bdir manifest receipt work summary where "import_checked sha ad work_id source t bdir manifest receipt work summary"
      "t' = fst (ad_adopt ad work bdir receipt t)"
      "r = (case snd (ad_adopt ad work bdir receipt t) of Inl e \<Rightarrow> Inl e
        | Inr report \<Rightarrow> if report_fits ad work_id report then Inr report else Inl DistValueError)"
proof -
  define adopted where "adopted p \<longleftrightarrow> t' = fst p \<and> r = (case snd p of Inl e \<Rightarrow> Inl e
      | Inr report \<Rightarrow> if report_fits ad work_id report then Inr report else Inl DistValueError)" for p
  have final: "adopted p"
    if "then_do p (\<lambda>report t. if \<not> report_fits ad work_id report then (t, Inl DistValueError) else (t, Inr report)) = (t', r)" for p
    using then_do_last[OF that] by (simp add: adopted_def)
  have "(\<exists>e. t' = t \<and> r = Inl e) \<or> (\<exists>bdir manifest receipt work summary.
      import_checked sha ad work_id source t bdir manifest receipt work summary \<and> adopted (ad_adopt ad work bdir receipt t))"
    using assms unfolding cmd_import_def import_checked_def assert_pipeline_affinity_def assert_work_digest_def
    by (auto elim!: then_do_stepE dest!: final split: if_splits)
  then show thesis using that unfolding adopted_def by blast
qed

lemma verified_receipt:
  assumes "verify_receipt_digests sha r b t = Inr (True, err)"
  obtains real where "resolve t b = Some real" "\<forall>(p, f) \<in> set (wr_file_records r). verify_file sha real p f t = None"
  using assms verify_files_True by (fastforce simp: verify_receipt_digests_def split: option.splits)

text \<open>
  C38. An import hands the adapter nothing that was not verified. If \<^verbatim>\<open>cmd_import\<close> changes a file or returns a report, then the
  work is the one asked for, with the digest the bundle was exported for; the receipt is of this pipeline, this work and this digest; its
  assignment id is the digest of the chunks that were assigned, which include every completed chunk once; each file it records lies in the
  bundle and has the recorded size and digest; and all that happened to the files is what the adapter did with this receipt.
\<close>

theorem adopted_results_verified:
  assumes run: "cmd_import sha ad work_id source t = (t', r)" and changed: "t' \<noteq> t \<or> (\<exists>report. r = Inr report)"
  shows "\<exists>bundle real receipt work summary assigned.
      resolve t source = Some bundle \<and> resolve t bundle = Some real \<and> read_receipt (bundle @ [RECEIPT_FILE]) t = Inr receipt
    \<and> describe_work ad work_id t = Inr (work, summary)
    \<and> wr_pipeline receipt = ad_pipeline_name ad \<and> wr_work_id receipt = work_id \<and> wr_work_digest receipt = dw_work_digest summary
    \<and> derive_assignment_id sha (ad_pipeline_name ad) work_id (dw_work_digest summary) (wr_worker_id receipt) assigned = Inr (wr_assignment_id receipt)
    \<and> set (wr_completed_chunks receipt) \<subseteq> set assigned \<and> distinct (wr_completed_chunks receipt)
    \<and> (\<forall>(name, f) \<in> set (wr_file_records receipt). \<exists>p c. strict_walk t [] (join_path real name) = Some (Some p)
          \<and> is_relative_to p real \<and> map_of t p = Some (File c) \<and> int (length c) = wf_size_bytes f \<and> sha c = wf_sha256 f)
    \<and> t' = fst (ad_adopt ad work bundle receipt t)
    \<and> (\<forall>report. r = Inr report \<longrightarrow> snd (ad_adopt ad work bundle receipt t) = Inr report \<and> report_fits ad work_id report)"
  using run
proof (cases rule: cmd_import_cases)
  case 1
  then show ?thesis using changed by simp
next
  case (2 bdir manifest receipt work summary)
  note checked = 2(1)[unfolded import_checked_def]
  have found: "resolve t source = Some bdir" using checked by (auto simp: bundle_path_def split: option.splits)
  obtain real where real: "resolve t bdir = Some real" "\<forall>(p, f) \<in> set (wr_file_records receipt). verify_file sha real p f t = None"
    using checked verified_receipt by metis
  have affinity: "assert_receipt_affinity receipt manifest = Inr ()" using checked by simp
  note same = affinity[unfolded assert_receipt_affinity_Inr]
  have names: "wr_pipeline receipt = ad_pipeline_name ad" "wr_work_id receipt = work_id" "wr_work_digest receipt = dw_work_digest summary"
    using checked same by simp_all
  have "derive_assignment_id sha (ad_pipeline_name ad) work_id (dw_work_digest summary) (wr_worker_id receipt) (assigned_chunks manifest)
      = Inr (wr_assignment_id receipt)"
    using read_bundle_manifest_Inr[of sha bdir t manifest] checked same names by (auto simp: text_field_Some)
  moreover have "\<forall>(name, f) \<in> set (wr_file_records receipt). \<exists>p c. strict_walk t [] (join_path real name) = Some (Some p)
          \<and> is_relative_to p real \<and> map_of t p = Some (File c) \<and> int (length c) = wf_size_bytes f \<and> sha c = wf_sha256 f"
    using real(2) verify_file_None by fastforce
  moreover have "\<forall>report. r = Inr report \<longrightarrow> snd (ad_adopt ad work bdir receipt t) = Inr report \<and> report_fits ad work_id report"
    using 2(3) by (auto split: sum.splits if_splits)
  ultimately show ?thesis
    using found real(1) checked same names 2(2)
    by (intro exI[of _ bdir] exI[of _ real] exI[of _ receipt] exI[of _ work] exI[of _ summary] exI[of _ "assigned_chunks manifest"]) simp
qed

section \<open>From the worker to the import\<close>

lemma strict_walk_mono:
  assumes "strict_walk t seen todo = Some (Some p)" and more: "\<And>q n. map_of t q = Some n \<Longrightarrow> map_of t' q = Some n"
  shows "strict_walk t' seen todo = Some (Some p)"
proof -
  define P where "P s seen todo r \<longleftrightarrow> (s = t \<longrightarrow> (\<forall>p. r = Some p \<longrightarrow> strict_walk t' seen todo = Some (Some p)))" for s seen todo r
  have "P t seen todo (Some p)"
  proof (rule strict_walk.raw_induct[where P = P, OF _ assms(1)])
    fix f :: "file_tree \<Rightarrow> path \<Rightarrow> path \<Rightarrow> path option option" and s seen todo r
    assume IH: "\<And>s seen todo r. f s seen todo = Some r \<Longrightarrow> P s seen todo r"
      and step: "(case todo of
        [] \<Rightarrow> Some (Some seen)
      | c # cs \<Rightarrow>
          if c = ''..'' then f s (butlast seen) cs
          else (case map_of s (seen @ [c]) of
                  None \<Rightarrow> Some None
                | Some (Link target) \<Rightarrow> f s [] (target @ cs)
                | Some _ \<Rightarrow> f s (seen @ [c]) cs)) = Some r"
    have "strict_walk t' seen todo = Some (Some q)" if "s = t" "r = Some q" for q
    proof (cases todo)
      case (Cons c cs)
      then show ?thesis using step that IH more unfolding P_def
        by (subst strict_walk.simps) (auto split: if_splits option.splits node.splits)
    qed (use step that in \<open>simp add: strict_walk.simps\<close>)
    then show "P s seen todo r" by (simp add: P_def)
  qed
  then show ?thesis by (simp add: P_def)
qed

lemma read_bundle_manifest_cong:
  "file_bytes t' (b @ [BUNDLE_MANIFEST_NAME]) = file_bytes t (b @ [BUNDLE_MANIFEST_NAME])
   \<Longrightarrow> read_bundle_manifest sha b t' = read_bundle_manifest sha b t"
  by (simp add: read_bundle_manifest_def load_json_file_def is_file_def file_bytes_def split: option.splits node.splits)

lemma then_do_doneE:
  assumes "then_do r f = (t', Inr x)"
  obtains t v where "r = (t, Inr v)" "f v t = (t', Inr x)"
  using assms by (auto simp: then_do_def split: sum.splits prod.splits)

lemma cmd_worker_steps:
  assumes "cmd_worker sha env ad bundle_dir w t = (t', Inr receipt)" and "resolve t bundle_dir = Some b"
    and "ad_execute ad b (wr_worker_id receipt) (unlink_file (b @ [RECEIPT_FILE]) t) = (t2, Inr receipt)"
  obtains manifest err where "read_bundle_manifest sha b t = Inr manifest" "assert_receipt_affinity receipt manifest = Inr ()"
    "verify_receipt_digests sha receipt b t2 = Inr (True, err)" "write_receipt env receipt (b @ [RECEIPT_FILE]) t2 = (t', Inr ())"
    "wr_pipeline receipt = ad_pipeline_name ad"
proof -
  obtain manifest t1 t3 wid err where run: "read_bundle_manifest sha b t = Inr manifest"
    "map_of manifest ''pipeline'' = Some (JStr (ad_pipeline_name ad))" "map_of manifest ''worker_id'' = Some (JStr wid)"
    "t1 = unlink_file (b @ [RECEIPT_FILE]) t" "ad_execute ad b wid t1 = (t3, Inr receipt)" "assert_receipt_affinity receipt manifest = Inr ()"
    "verify_receipt_digests sha receipt b t3 = Inr (True, err)" "write_receipt env receipt (b @ [RECEIPT_FILE]) t3 = (t', Inr ())"
    using assms(1,2) unfolding cmd_worker_def bundle_path_def assert_pipeline_affinity_def drop_receipt_def
    by (auto simp: Let_def elim!: then_do_doneE then_do_stepE split: if_splits)
  then have "wid = wr_worker_id receipt" "wr_pipeline receipt = ad_pipeline_name ad" by (auto simp: assert_receipt_affinity_Inr)
  then show thesis using that run assms(3) by auto
qed

lemma receipt_names: "RECEIPT_FILE \<noteq> ''..''" "BUNDLE_MANIFEST_NAME \<noteq> RECEIPT_FILE" "BUNDLE_MANIFEST_NAME \<noteq> ''..''"
    "BUNDLE_MANIFEST_NAME \<noteq> tmp_name env RECEIPT_FILE"
  by (simp_all add: RECEIPT_FILE_def BUNDLE_MANIFEST_NAME_def tmp_name_def)

text \<open>A worker's receipt is one that reads back: what it says was checked against the manifest and the files.\<close>

lemma worker_receipt_ok:
  assumes "read_bundle_manifest sha b t = Inr manifest" "assert_receipt_affinity receipt manifest = Inr ()"
    and "verify_receipt_digests sha receipt b t2 = Inr (True, err)" and sha: "\<forall>c. is_sha256_hex_digest (sha c)"
    and "distinct (map fst (wr_file_records receipt))" "json_ok (JObj (wr_result_metadata receipt))"
  shows "receipt_ok receipt"
proof -
  note same = assms(2)[unfolded assert_receipt_affinity_Inr]
  have fields: "wr_pipeline receipt \<noteq> []" "wr_work_id receipt \<noteq> []" "wr_assignment_id receipt \<noteq> []" "wr_worker_id receipt \<noteq> []"
    "is_sha256_hex_digest (wr_work_digest receipt)"
    using read_bundle_manifest_Inr[OF assms(1)] same by (auto simp: text_field_Some)
  have "\<forall>i \<in> set (assigned_chunks manifest). 0 \<le> i"
    using read_bundle_manifest_Inr[OF assms(1)] chunk_list_Some by blast
  then have chunks: "list_all (\<lambda>i. 0 \<le> i) (wr_completed_chunks receipt)" using same by (auto simp: list_all_iff)
  obtain rb where rb: "\<forall>(p, f) \<in> set (wr_file_records receipt). verify_file sha rb p f t2 = None"
    using verified_receipt[OF assms(3)] by metis
  have "0 \<le> wf_size_bytes f \<and> is_sha256_hex_digest (wf_sha256 f)" if "(p, f) \<in> set (wr_file_records receipt)" for p f
  proof -
    have "verify_file sha rb p f t2 = None" using rb that by auto
    then obtain c where "int (length c) = wf_size_bytes f" "sha c = wf_sha256 f" using verify_file_None by metis
    then show ?thesis using sha by (metis of_nat_0_le_iff)
  qed
  then show ?thesis using fields chunks same assms(5,6) by (auto simp: receipt_ok_def list_all_iff)
qed

lemma verify_receipt_digests_mono:
  assumes "verify_receipt_digests sha receipt b t = Inr (True, err)" "resolve t b = Some rb" "resolve t' b = Some rb"
    and more: "\<And>q n. map_of t q = Some n \<Longrightarrow> map_of t' q = Some n" and "set (wr_file_records r') = set (wr_file_records receipt)"
  shows "\<exists>err. verify_receipt_digests sha r' b t' = Inr (True, err)"
proof -
  have "verify_file sha rb p f t' = None" if "(p, f) \<in> set (wr_file_records receipt)" for p f
  proof -
    have "verify_file sha rb p f t = None"
      using assms(1,2) that verify_files_True[of sha rb "wr_file_records receipt" t] by (auto simp: verify_receipt_digests_def)
    then obtain q c where q: "strict_walk t [] (join_path rb p) = Some (Some q)" "is_relative_to q rb" "map_of t q = Some (File c)"
      "int (length c) = wf_size_bytes f" "sha c = wf_sha256 f" using verify_file_None by metis
    moreover have "strict_walk t' [] (join_path rb p) = Some (Some q)" by (rule strict_walk_mono[OF q(1) more])
    ultimately show ?thesis using more[OF q(3)] by (simp add: verify_file_def)
  qed
  then have "fst (verify_files sha rb (wr_file_records r') t')" unfolding verify_files_True using assms(5) by auto
  then show ?thesis using assms(3) by (cases "verify_files sha rb (wr_file_records r') t'") (simp add: verify_receipt_digests_def)
qed

lemma import_after_worker:
  assumes worker: "cmd_worker sha env ad bundle_dir w t = (t', Inr receipt)" and found: "resolve t bundle_dir = Some b"
    and executed: "ad_execute ad b (wr_worker_id receipt) (unlink_file (b @ [RECEIPT_FILE]) t) = (t2, Inr receipt)"
    and kept: "map_of t2 (b @ [BUNDLE_MANIFEST_NAME]) = Some (File m)" "file_bytes t (b @ [BUNDLE_MANIFEST_NAME]) = Some m"
    and ready: "write_ready (disk_of t2) b (b @ [tmp_name env RECEIPT_FILE])" "map_of t2 (b @ [RECEIPT_FILE]) = None"
    and split: "\<forall>c. concat (we_split env c) = c" and sha: "\<forall>c. is_sha256_hex_digest (sha c)"
    and data: "distinct (map fst (wr_file_records receipt))" "json_ok (JObj (wr_result_metadata receipt))"
    and work: "describe_work ad' (wr_work_id receipt) t' = Inr (work, summary)" "dw_work_digest summary = wr_work_digest receipt"
      "ad_pipeline_name ad' = wr_pipeline receipt"
  shows "cmd_import sha ad' (wr_work_id receipt) b t' = (case ad_adopt ad' work b (stored_receipt receipt) t' of
      (t3, Inl e) \<Rightarrow> (t3, Inl e)
    | (t3, Inr report) \<Rightarrow> (t3, if report_fits ad' (wr_work_id receipt) report then Inr report else Inl DistValueError))"
proof -
  obtain manifest err where steps: "read_bundle_manifest sha b t = Inr manifest" "assert_receipt_affinity receipt manifest = Inr ()"
    "verify_receipt_digests sha receipt b t2 = Inr (True, err)" "write_receipt env receipt (b @ [RECEIPT_FILE]) t2 = (t', Inr ())"
    using cmd_worker_steps[OF worker found executed] by metis
  have ok: "receipt_ok receipt" by (rule worker_receipt_ok[OF steps(1-3) sha data])
  have receipt: "read_receipt (b @ [RECEIPT_FILE]) t' = Inr (stored_receipt receipt)"
    by (rule receipt_written[OF ready(1) split ok receipt_names(1) steps(4)])
  have run: "write_json_file env b RECEIPT_FILE (JObj (receipt_payload receipt)) t2 = (t', Inr ())"
    using steps(4) by (simp add: write_receipt_def)
  note written = write_json_file_reads[OF ready(1) split receipt_payload_ok[OF ok] receipt_names(1) run]
  have more: "map_of t' q = Some n" if "map_of t2 q = Some n" for q n
    using that written(3) ready unfolding old_or_new_def write_ready_def disk_of_def
    by (cases "q \<in> {b @ [tmp_name env RECEIPT_FILE], b @ [RECEIPT_FILE]}") auto
  have free: "link_free t2 b" "link_free t' b" using ready(1) written(5) by (simp_all add: write_ready_def disk_of_def)
  then have resolved: "resolve t2 b = Some b" "resolve t' b = Some b" by (simp_all add: resolve_link_free)
  have "stat t' (b @ [BUNDLE_MANIFEST_NAME]) = Some (File m)"
    using stat_link_free[OF link_free_child[OF free(2) receipt_names(3)]] more[OF kept(1)] by simp
  then have "file_bytes t' (b @ [BUNDLE_MANIFEST_NAME]) = file_bytes t (b @ [BUNDLE_MANIFEST_NAME])"
    using kept(2) by (simp add: file_bytes_def)
  then have manifest: "read_bundle_manifest sha b t' = Inr manifest" using read_bundle_manifest_cong steps(1) by metis
  note same = steps(2)[unfolded assert_receipt_affinity_Inr]
  have affinity: "assert_receipt_affinity (stored_receipt receipt) manifest = Inr ()"
    using same unfolding assert_receipt_affinity_Inr by (simp add: stored_receipt_def)
  obtain err' where verified: "verify_receipt_digests sha (stored_receipt receipt) b t' = Inr (True, err')"
    using verify_receipt_digests_mono[OF steps(3) resolved more] by (fastforce simp: stored_receipt_def)
  show ?thesis
    using same work resolved(2)
    by (simp add: cmd_import_def bundle_path_def manifest assert_pipeline_affinity_def receipt affinity verified assert_work_digest_def
        then_do_def split: sum.split prod.split)
qed

text \<open>
  C39. What a worker finishes, the coordinator can import. Let \<^verbatim>\<open>cmd_worker\<close> end without an error, where the pipeline's run left
  the bundle's manifest as it was and no receipt or temporary file of its own. If the work at the coordinator still has the digest the
  receipt names, \<^verbatim>\<open>cmd_import\<close> on that bundle passes all its checks: it hands the adapter the receipt the worker wrote, read back from
  the file, and its outcome is the adapter's.
\<close>

theorem worker_result_importable:
  assumes worker: "cmd_worker sha env ad bundle_dir w t = (t', Inr receipt)" and found: "resolve t bundle_dir = Some b"
    and executed: "ad_execute ad b (wr_worker_id receipt) (unlink_file (b @ [RECEIPT_FILE]) t) = (t2, Inr receipt)"
    and kept: "map_of t2 (b @ [BUNDLE_MANIFEST_NAME]) = Some (File m)" "file_bytes t (b @ [BUNDLE_MANIFEST_NAME]) = Some m"
    and ready: "write_ready (disk_of t2) b (b @ [tmp_name env RECEIPT_FILE])" "map_of t2 (b @ [RECEIPT_FILE]) = None"
    and split: "\<forall>c. concat (we_split env c) = c" and sha: "\<forall>c. is_sha256_hex_digest (sha c)"
    and data: "distinct (map fst (wr_file_records receipt))" "json_ok (JObj (wr_result_metadata receipt))"
    and work: "describe_work ad' (wr_work_id receipt) t' = Inr (work, summary)" "dw_work_digest summary = wr_work_digest receipt"
      "ad_pipeline_name ad' = wr_pipeline receipt"
  shows "cmd_import sha ad' (wr_work_id receipt) b t' = (case ad_adopt ad' work b (stored_receipt receipt) t' of
      (t3, Inl e) \<Rightarrow> (t3, Inl e)
    | (t3, Inr report) \<Rightarrow> (t3, if report_fits ad' (wr_work_id receipt) report then Inr report else Inl DistValueError))"
  by (rule import_after_worker[OF worker found executed kept ready split sha data work])

text \<open>A bundle of two chunks in \<^verbatim>\<open>/b\<close>, with an adapter that writes one output file.\<close>

definition dist_sha :: "string \<Rightarrow> string" where
  "dist_sha b = replicate 64 (CHR ''0'')"

definition dist_assignment :: worker_assignment where
  "dist_assignment = \<lparr>wa_pipeline = ''docs'', wa_work_id = ''w1'', wa_work_digest = replicate 64 (CHR ''a''), wa_worker_id = ''worker-00'',
     wa_chunk_ids = [0, 2], wa_assignment_id = replicate 16 (CHR ''0''), wa_metadata = []\<rparr>"

definition dist_receipt :: worker_receipt where
  "dist_receipt = \<lparr>wr_pipeline = ''docs'', wr_work_id = ''w1'', wr_work_digest = replicate 64 (CHR ''a''),
     wr_assignment_id = replicate 16 (CHR ''0''), wr_worker_id = ''worker-00'', wr_completed_chunks = [2],
     wr_file_records = [(''out'', \<lparr>wf_size_bytes = 2, wf_sha256 = replicate 64 (CHR ''0'')\<rparr>)], wr_result_metadata = []\<rparr>"

definition dist_report :: import_report where
  "dist_report = \<lparr>ir_pipeline = ''docs'', ir_work_id = ''w1'', ir_worker_id = ''worker-00'', ir_adopted_chunks = [2], ir_ignored_chunks = []\<rparr>"

definition dist_adapter :: "unit adapter" where
  "dist_adapter = \<lparr>ad_pipeline_name = ''docs'', ad_resolve_work = \<lambda>i t. Inr (),
     ad_describe_work = \<lambda>i w. Inr \<lparr>dw_work_id = i, dw_work_digest = replicate 64 (CHR ''a''), dw_chunk_count = 3\<rparr>,
     ad_export = \<lambda>w a b t. (t, Inr ()), ad_execute = \<lambda>b i t. (t @ [(b @ [''out''], File ''xy'')], Inr dist_receipt),
     ad_adopt = \<lambda>w b r t. (t, Inr dist_report)\<rparr>"

definition dist_env :: write_env where
  "dist_env = \<lparr>we_pid = ''7'', we_split = \<lambda>c. [c], we_fault = None, we_keep = False, we_dirsync = True\<rparr>"

definition dist_manifest :: bytes where
  "dist_manifest = canonical_json (JObj (manifest_payload dist_assignment))"

definition dist_tree :: file_tree where
  "dist_tree = [([], Dir), ([''b''], Dir), ([''b'', ''bundle.json''], File dist_manifest)]"

definition dist_run :: file_tree where
  "dist_run = dist_tree @ [([''b'', ''out''], File ''xy'')]"

lemma dist_demo_worker:
  "\<exists>t'. cmd_worker dist_sha dist_env dist_adapter [''b''] None dist_tree = (t', Inr dist_receipt)"
proof -
  have free: "link_free dist_tree [''b'']" "link_free dist_tree [''b'', ''bundle.json'']" "link_free dist_run [''b'']"
    "link_free dist_run [''b'', ''receipt.json.tmp.7'']"
    by (simp_all add: link_free_def dist_tree_def dist_run_def)
  have ok: "assignment_ok dist_sha dist_assignment" by code_simp
  have stat: "stat dist_tree [''b'', ''bundle.json''] = Some (File dist_manifest)"
    using stat_link_free[OF free(2)] by (simp add: dist_tree_def)
  have loaded: "load_bytes dist_manifest = Inr (key_ordered (JObj (manifest_payload dist_assignment)))"
    unfolding dist_manifest_def by (rule load_canonical[OF manifest_payload_ok[OF ok]])
  have manifest: "read_bundle_manifest dist_sha [''b''] dist_tree = Inr (stored_manifest dist_assignment)"
    by (rule manifest_file_reads[OF ok]) (simp_all add: is_file_def load_json_file_def file_bytes_def stat loaded BUNDLE_MANIFEST_NAME_def)
  note at = manifest_of_stored[OF ok]
  have affinity: "assert_receipt_affinity dist_receipt (stored_manifest dist_assignment) = Inr ()"
    unfolding assert_receipt_affinity_Inr at by (simp add: dist_assignment_def dist_receipt_def)
  have dropped: "drop_receipt [''b'', ''receipt.json''] dist_tree = (dist_tree, Inr ())"
    by (simp add: drop_receipt_def dist_tree_def unlink_file_def)
  have executed: "ad_execute dist_adapter [''b''] i dist_tree = (dist_run, Inr dist_receipt)" for i
    by (simp add: dist_adapter_def dist_run_def)
  have joined: "join_path [''b''] ''out'' = [''b'', ''out'']" by code_simp
  have "verify_file dist_sha [''b''] ''out'' \<lparr>wf_size_bytes = 2, wf_sha256 = replicate 64 (CHR ''0'')\<rparr> dist_run = None"
    by (simp add: verify_file_def joined strict_walk.simps dist_run_def dist_tree_def is_relative_to_def dist_sha_def)
  then have verified: "verify_receipt_digests dist_sha dist_receipt [''b''] dist_run = Inr (True, [])"
    by (simp add: verify_receipt_digests_def resolve_link_free[OF free(3)] dist_receipt_def)
  define data where "data = utf8 (canonical_json (JObj (receipt_payload dist_receipt)))"
  let ?tmp = "[''b'', ''receipt.json.tmp.7'']" and ?dk = "disk_of dist_run"
  have first: "run_calls None [MakeDirs [''b'']] ?dk = (?dk, True)"
    by (simp add: disk_of_def dist_run_def dist_tree_def prefixes_of_def)
  have here: "real_dir dist_run [''b''] = [''b'']" "real_dir dist_run ?tmp = ?tmp" using free(3,4) by (simp_all add: real_dir_link_free)
  have tmp: "tmp_name dist_env RECEIPT_FILE = ''receipt.json.tmp.7''" by code_simp
  have calls: "write_calls dist_env [''b''] RECEIPT_FILE [data] dist_run
      = [OpenWrite ?tmp, WriteBytes ?tmp data, SyncFile ?tmp, ReplacePath ?tmp [''b'', ''receipt.json'']]"
    unfolding write_calls_def Let_def tmp using here by (simp add: dist_env_def RECEIPT_FILE_def)
  define cs where "cs = [OpenWrite ?tmp, WriteBytes ?tmp data, SyncFile ?tmp, ReplacePath ?tmp [''b'', ''receipt.json'']]"
  have runs: "snd (run_calls None cs ?dk)" unfolding cs_def
    by (simp add: disk_of_def dist_run_def dist_tree_def)
  obtain dk1 where second: "run_calls None cs ?dk = (dk1, True)"
    using runs by (cases "run_calls None cs ?dk") simp
  have tree: "dk_tree ?dk = dist_run" by (simp add: disk_of_def)
  have fault: "we_fault dist_env = None" by (simp add: dist_env_def)
  have "\<exists>dk2 n. atomic_write_text_stream dist_env [''b''] RECEIPT_FILE [data] ?dk = (dk2, Inr n)"
    unfolding atomic_write_text_stream_def Let_def tree here fault first prod.case bool.case calls[folded cs_def] option.map second by simp
  then obtain t' where "write_receipt dist_env dist_receipt [''b'', ''receipt.json''] dist_run = (t', Inr ())"
    by (auto simp: write_receipt_def write_json_file_def atomic_write_json_def atomic_write_text_def atomic_write_bytes_def data_def RECEIPT_FILE_def)
  moreover have "wa_pipeline dist_assignment = ad_pipeline_name dist_adapter" "wa_worker_id dist_assignment = ''worker-00''"
    by (simp_all add: dist_assignment_def dist_adapter_def)
  ultimately show ?thesis
    using affinity dropped verified unfolding cmd_worker_def bundle_path_def resolve_link_free[OF free(1)]
    by (simp add: then_do_def manifest assert_pipeline_affinity_def manifest_text_def at executed RECEIPT_FILE_def)
qed

abbreviation dist_summary :: distribution_work where
  "dist_summary \<equiv> \<lparr>dw_work_id = ''w1'', dw_work_digest = replicate 64 (CHR ''a''), dw_chunk_count = 3\<rparr>"

lemma dist_demo_ready:
  shows "resolve dist_tree [''b''] = Some [''b'']"
    and "ad_execute dist_adapter [''b''] (wr_worker_id dist_receipt) (unlink_file ([''b''] @ [RECEIPT_FILE]) dist_tree) = (dist_run, Inr dist_receipt)"
    and "map_of dist_run ([''b''] @ [BUNDLE_MANIFEST_NAME]) = Some (File dist_manifest)"
    and "file_bytes dist_tree ([''b''] @ [BUNDLE_MANIFEST_NAME]) = Some dist_manifest"
    and "write_ready (disk_of dist_run) [''b''] ([''b''] @ [tmp_name dist_env RECEIPT_FILE])"
    and "map_of dist_run ([''b''] @ [RECEIPT_FILE]) = None"
    and "\<forall>c. concat (we_split dist_env c) = c" and "\<forall>c. is_sha256_hex_digest (dist_sha c)"
    and "distinct (map fst (wr_file_records dist_receipt))" and "json_ok (JObj (wr_result_metadata dist_receipt))"
    and "describe_work dist_adapter (wr_work_id dist_receipt) t' = Inr ((), dist_summary)"
    and "dw_work_digest dist_summary = wr_work_digest dist_receipt"
    and "ad_pipeline_name dist_adapter = wr_pipeline dist_receipt"
proof -
  have free: "link_free dist_tree [''b'']" "link_free dist_tree [''b'', ''bundle.json'']"
    by (simp_all add: link_free_def dist_tree_def)
  show "resolve dist_tree [''b''] = Some [''b'']" by (rule resolve_link_free[OF free(1)])
  show "file_bytes dist_tree ([''b''] @ [BUNDLE_MANIFEST_NAME]) = Some dist_manifest"
    using stat_link_free[OF free(2)] by (simp add: file_bytes_def BUNDLE_MANIFEST_NAME_def) (simp add: dist_tree_def)
  show "write_ready (disk_of dist_run) [''b''] ([''b''] @ [tmp_name dist_env RECEIPT_FILE])"
    by (simp add: write_ready_def disk_of_def link_free_def tree_closed_def dist_run_def dist_tree_def tmp_name_def RECEIPT_FILE_def)
  show "\<forall>c. is_sha256_hex_digest (dist_sha c)" unfolding dist_sha_def by (simp only: simp_thms) code_simp
  show "describe_work dist_adapter (wr_work_id dist_receipt) t' = Inr ((), dist_summary)"
    by (simp add: describe_work_def dist_adapter_def dist_receipt_def)
  show "ad_execute dist_adapter [''b''] (wr_worker_id dist_receipt) (unlink_file ([''b''] @ [RECEIPT_FILE]) dist_tree) = (dist_run, Inr dist_receipt)"
    by (simp add: dist_adapter_def dist_run_def unlink_file_def dist_tree_def RECEIPT_FILE_def)
qed (simp_all add: dist_run_def dist_tree_def BUNDLE_MANIFEST_NAME_def RECEIPT_FILE_def dist_env_def dist_receipt_def dist_adapter_def)

theorem worker_result_importable_witness:
  "\<exists>t'. cmd_worker dist_sha dist_env dist_adapter [''b''] None dist_tree = (t', Inr dist_receipt)
    \<and> cmd_import dist_sha dist_adapter ''w1'' [''b''] t' = (t', Inr dist_report)"
proof -
  obtain t' where worker: "cmd_worker dist_sha dist_env dist_adapter [''b''] None dist_tree = (t', Inr dist_receipt)"
    using dist_demo_worker by blast
  have "cmd_import dist_sha dist_adapter ''w1'' [''b''] t' = (t', Inr dist_report)"
    using worker_result_importable[OF worker dist_demo_ready]
    by (simp add: dist_adapter_def dist_receipt_def dist_report_def report_fits_def)
  then show ?thesis using worker by blast
qed

theorem adopted_results_verified_witness:
  "\<exists>t' b receipt. cmd_import dist_sha dist_adapter ''w1'' [''b''] t' = (t', Inr dist_report)
    \<and> resolve t' [''b''] = Some b \<and> read_receipt (b @ [RECEIPT_FILE]) t' = Inr receipt \<and> wr_pipeline receipt = ad_pipeline_name dist_adapter"
proof -
  obtain t' where worker: "cmd_worker dist_sha dist_env dist_adapter [''b''] None dist_tree = (t', Inr dist_receipt)"
    using dist_demo_worker by blast
  have run: "cmd_import dist_sha dist_adapter ''w1'' [''b''] t' = (t', Inr dist_report)"
    using import_after_worker[OF worker dist_demo_ready]
    by (simp add: dist_adapter_def dist_receipt_def dist_report_def report_fits_def)
  then show ?thesis using adopted_results_verified[OF run] by blast
qed

end
