(* ===== verification/Spec2Isabelle.thy ===== *)
theory Spec2Isabelle
  imports DagRetention DagCompaction RunLock ClientRuns CohortWorkspace CohortRecovery DistributionLife
begin

text \<open>
  Verification of the storage and transport core of edgar-sec.

  \<^bold>\<open>The program.\<close> edgar-sec fetches SEC filings and turns them into versioned columnar tables. Five subsystems
  carry its state and its guarantees. The transport (\<^verbatim>\<open>src/edgar_sec/infra/sec_http\<close>) sends every request under a rate limit,
  retries, caches responses by URL and remembers failures. The snapshot DAG (\<^verbatim>\<open>src/edgar_sec/infra/storage/dag\<close>) keeps published tables as a
  graph of immutable snapshots in an SQLite catalog, with branches, tags, views over lineages, garbage collection and compaction.
  The run state (\<^verbatim>\<open>src/edgar_sec/pipelines/document_acquisition/run_state\<close>) is the database of one acquisition run: its targets,
  attempts and operations, and the lock that makes a run exclusive. The workspace (\<^verbatim>\<open>src/edgar_sec/infra/storage/object_store\<close> and \<^verbatim>\<open>cohort\<close>)
  holds content-addressed objects, session aliases that name them, and the cohorts, rosters of companies with a dataset directory
  each: a catalog over a file tree with staging, quarantine, deletion and maintenance. Work can be handed to other machines as bundles
  (\<^verbatim>\<open>src/edgar_sec/infra/distribution\<close>), whose manifests and receipts are written atomically (\<^verbatim>\<open>infra/storage/atomic.py\<close>). Pipelines drive all of it; URLs and identities
  come from \<^verbatim>\<open>src/edgar_sec/domain\<close>.

  \<^bold>\<open>Theories and sources.\<close>
  \<^item> \<open>Prelude\<close>: results, event machines (\<open>event_machine\<close>, \<open>spaced_machine\<close>) and keyed tables (\<open>keyed_table\<close>, the contract of an
    SQLite table with a primary key), with the list lemmas. Every stateful component below is an interpretation of \<open>event_machine\<close>
    (catalog, repository, run database, cache, client) or of \<open>spaced_machine\<close> (the limiter), every table an instance of \<open>keyed_table\<close>.
  \<^item> \<open>Json\<close>, \<open>PyText\<close>, \<open>UrlSplit\<close>: \<^verbatim>\<open>foundation/serialization.py\<close> and what the code uses of Python's strings, integers and \<^verbatim>\<open>urllib.parse\<close>.
  \<^item> \<open>RateLimit\<close>, \<open>RetryMetrics\<close>: \<^verbatim>\<open>rate_limit.py\<close>, \<^verbatim>\<open>retry.py\<close>, \<^verbatim>\<open>metrics.py\<close>. A record per object, a function per method.
  \<^item> \<open>SecUrls\<close>: \<^verbatim>\<open>domain/identity.py\<close>, \<^verbatim>\<open>domain/sec_urls.py\<close>. Builders, parser, validator and surface classification.
  \<^item> \<open>HttpCache\<close>: \<^verbatim>\<open>cache.py\<close> and the surface policies of \<^verbatim>\<open>foundation/runtime/settings\<close>.
  \<^item> \<open>HttpClient\<close>, \<open>HttpStream\<close>, \<open>ClientRuns\<close>: \<^verbatim>\<open>client.py\<close> (\<^verbatim>\<open>get_bytes\<close>, \<^verbatim>\<open>stream_to_file\<close>) and \<^verbatim>\<open>streaming.py\<close>, and runs of a client.
  \<^item> \<open>DagManifest\<close>, \<open>DagCatalog\<close>, \<open>DagPaths\<close>, \<open>DagLineage\<close>: \<^verbatim>\<open>manifest.py\<close>, \<^verbatim>\<open>spec.py\<close>, \<^verbatim>\<open>catalog.py\<close>, \<^verbatim>\<open>paths.py\<close>, \<^verbatim>\<open>traversal.py\<close>.
  \<^item> \<open>SqlText\<close>: \<^verbatim>\<open>foundation/sql/guard.py\<close> and the quoting helpers of \<^verbatim>\<open>infra/storage/duckdb.py\<close>.
  \<^item> \<open>DagResolution\<close>, \<open>DagQuery\<close>: \<^verbatim>\<open>resolution.py\<close>, \<^verbatim>\<open>query.py\<close>, \<^verbatim>\<open>anti_join.py\<close>; each SQL statement is the function on rows its text denotes.
  \<^item> \<open>DagPublication\<close>, \<open>DagRetention\<close>, \<open>DagCompaction\<close>: \<^verbatim>\<open>publication.py\<close>, \<^verbatim>\<open>tags.py\<close>, \<^verbatim>\<open>retention.py\<close>, \<^verbatim>\<open>doctor.py\<close>, \<^verbatim>\<open>compaction.py\<close>.
  \<^item> \<open>RunModels\<close>, \<open>RunOperations\<close>, \<open>RunStore\<close>, \<open>RunInvariant\<close>, \<open>RunState\<close>, \<open>RunLock\<close>: \<^verbatim>\<open>models.py\<close>, \<^verbatim>\<open>operations.py\<close>, \<^verbatim>\<open>store.py\<close> and \<^verbatim>\<open>locks.py\<close> of the run
    state; the lock is an inductive step relation over the two files it uses.
  \<^item> \<open>ObjectStore\<close>: \<^verbatim>\<open>store.py\<close> and \<^verbatim>\<open>schema.py\<close> of the object store. \<open>CohortFiles\<close>: a file tree with symbolic links and the path rules of
    \<^verbatim>\<open>cohort/paths.py\<close>. \<open>CohortCatalog\<close>: \<^verbatim>\<open>cohort/catalog.py\<close>, with deletion as the sequence of effects it has on disk and tables.
    \<open>CohortMaintenance\<close>: the clean-ups of \<^verbatim>\<open>cohort/maintenance.py\<close>. \<open>CohortWorkspace\<close>: all of them as one machine, whose deletions may also
    stop half way. \<open>CohortRecovery\<close>: what maintenance keeps, and what it makes of a deletion that stopped.

  \<^item> \<open>JsonText\<close>: what \<^verbatim>\<open>json.loads\<close> reads. \<open>AtomicFiles\<close>: \<^verbatim>\<open>atomic.py\<close> as lists of system calls on a disk that may lose power.
    \<open>Distribution\<close>: \<^verbatim>\<open>partition.py\<close>, \<^verbatim>\<open>guards.py\<close>, \<^verbatim>\<open>receipt.py\<close>, \<^verbatim>\<open>discovery.py\<close> and the commands of \<^verbatim>\<open>cli.py\<close> that change state, with
    \<^verbatim>\<open>foundation/runtime/partitions.py\<close>; \<open>DistributionLife\<close>: what holds from the export of a bundle to its import.

  \<^bold>\<open>What is shown.\<close> Transport: no window of time holds more calls of the HTTP session than the limiter allows, over any calls of limiter or
  client; cool-downs hold up to the cap on Retry-After; the cache refines a map from URLs to responses and expires them by surface; \<^verbatim>\<open>get_bytes\<close> bounds its requests, caches what it returns
  and counts what fails; a dead URL has a total budget; a stream changes nothing but its destination, and only on success, and requests only validated
  URLs. URLs: building and parsing are inverse, validated URLs stay in their archive directory, builders and surface table agree. DAG: manifests
  survive storage and are immutable; a lineage walk is sound, and it returns exactly on acyclic ancestries; views are last-writer-wins,
  first-writer-wins or masked as their strategy says; pruned point queries return what the full views hold, and an anti-join changes no upsert relation and no append relation
  without a tie-breaker, under the conditions their texts name (the other kinds have counterexamples); publications to a branch form a chain;
  purges keep what is referenced; compaction partitions the rows and keeps the logical content. Runs: the database of a run always
  passes its own validation, histories are complete and append-only, the lock excludes, and the report agrees with the rows. Workspace: stored objects
  never change; a registration is verified, idempotent and finds what it recorded; a deletion changes the tables completely or not at all, and one that died between two
  effects, or whose compensation or final removal failed, is undone or completed by the next clean-up; official sources always resolve, pinned cohorts stay, aliases never dangle; maintenance leaves the
  files of catalogued cohorts alone. Distribution: chunks are partitioned evenly; canonical JSON reads back; an atomic write leaves the old or the new
  content, whatever interrupts it, and is durable where the directory could be synced; an import hands on verified results only, and accepts what a worker finished.

  \<^bold>\<open>Conventions.\<close> An exception is \<open>Inl\<close> of an error, a return \<open>Inr\<close>. A call that fails inside a transaction returns no new state; where the code
  keeps earlier effects (directory moves, metrics, the client's counters) the new state is returned next to the error. Seconds are exact rationals, time stamps
  whole seconds, text ASCII, bytes 8-bit characters, JSON columns the parsed dictionary. What the program asks the outside world is a parameter:
  SHA-256, the zstd codec, the file system, clocks and jitter, the answers of the HTTP session, the order in which DuckDB returns tied rows (\<open>tie\<close>),
  the contents of Parquet files, \<^verbatim>\<open>urljoin\<close> and callbacks of the caller. What a theorem needs of a parameter (decompression inverts
  compression, digests of the strings in use differ, temporary names are fresh, tie order is a permutation) is a named hypothesis.
  Functions that may not return are \<open>partial_function (option)\<close>: \<open>None\<close> means that the code loops for ever, and returning is proved, not assumed. Loops with a
  retry or redirect bound recurse on the attempts left, \<open>max_retries + 1\<close> and the redirect limit, which is the code's own bound. \<open>resolve_walk\<close> is such a function too: \<open>None\<close> is a loop of links, where \<^verbatim>\<open>Path.resolve\<close> raises. A deletion
  may be cut after any prefix of its effects (\<open>delete_stopped\<close>) and any of its disk and table operations may fail (\<open>delete_fault\<close>).
  A call of the session counts as one request: the redirects that requests follows inside \<^verbatim>\<open>get_bytes\<close> happen in the session and are
  neither paced nor counted, by the code or here. Point queries start on a connection without earlier views; a quote in a part path ends
  its SQL literal, and the cast of a key to a column that is not text is a parameter. Publication under a held lock is one step, and a
  catalog publication that fails after the staged directory was moved is an outcome of \<open>publish_node\<close>. What the host knows of staging directories (processes, leases, modification times, the
  clock) is the record \<open>stage_env\<close>. The JSON reader recurses on fuel, twice the length of the text, which \<open>loads_fuel\<close> shows to be enough; floats and
  characters above 255 give it an error of its own (\<open>OutsideModel\<close>). After a loss of power (\<open>survives\<close>) an unsynced file may hold anything and an unsynced
  directory entry may be the old one. A pipeline's part in distribution is the record \<open>adapter\<close> of its methods.

  \<^bold>\<open>Not modelled.\<close> Extraction of documents, tables, forms and XBRL (\<^verbatim>\<open>engine\<close>), the vocabularies of \<^verbatim>\<open>domain\<close>, the pipelines above the run state, worker
  broker, bulk archives, the corpus index and the review stores of \<^verbatim>\<open>infra\<close>, the applications, tools, menus and command lines: regular-expression heuristics over HTML trees, Arrow and
  DuckDB plumbing, process supervision and terminal output. In the modelled files: \<^verbatim>\<open>get_text\<close> and \<^verbatim>\<open>get_json\<close> of the client (decoding on top of
  \<^verbatim>\<open>get_bytes\<close>), href resolution in \<^verbatim>\<open>sec_urls.py\<close>, the memo of lineage walks, evidence grouping of a run, the read-only audit, the
  publication lock, the heartbeat thread and the old-schema migration of the cohort store, the list and menu commands of distribution, and pretty-printed JSON files. Disk operations
  fail where the operation names it (atomic writes, deletion, streams); elsewhere, and for non-finite floats, failures are outside the model.
\<close>

end
